(* ===== verification/Prelude.thy ===== *)
theory Prelude
  imports Main "HOL-Library.Multiset" "HOL-Library.Sublist" "HOL-Library.Product_Lexorder"
    "HOL-Library.List_Lexorder" "HOL-Library.Char_ord"
begin

text \<open>
  Shared vocabulary of the development: results of fallible operations, the error values of the
  SQLite layer as the program sees them, the answers of the HTTP handlers, and the list lemmas that
  the table models use (a table is the list of its rows in rowid order).
\<close>

named_theorems table_simps \<open>lookups, key sets and frames of the table operations\<close>
named_theorems handler_simps \<open>unfolding of the HTTP handlers and of their result plumbing\<close>

section \<open>Results and errors\<close>

text \<open>
  What a SQL statement can answer instead of a value: a violated UNIQUE (or PRIMARY KEY) constraint,
  a violated FOREIGN KEY, no row where one is required, or a column of the wrong storage class.
  Disk and lock failures of SQLite are not modelled.
\<close>

datatype db_error =
    UniqueViolation string
  | ForeignKeyViolation
  | QueryReturnedNoRows
  | InvalidColumnType
  | IntegralValueOutOfRange
  | ToSqlConversionFailure
  | DbMessage string

type_synonym 'a db_result = "db_error + 'a"

text \<open>
  The body of an error answer: a text written out by the handler, the rendering of an error value
  of the database layer (\<open>e.to_string()\<close>), or that of another library.
\<close>

datatype message = Msg string | DbText db_error | LibText string

text \<open>Handlers return \<open>Err((StatusCode, String))\<close> or a value.\<close>

type_synonym http_error = "nat \<times> message"
type_synonym 'a http_result = "http_error + 'a"

definition internal_db_error :: "db_error \<Rightarrow> http_error" where
  "internal_db_error e = (500, DbText e)"

definition db_mutex_poisoned :: http_error where
  "db_mutex_poisoned = (500, Msg ''db mutex poisoned'')"

definition map_err :: "('e \<Rightarrow> 'f) \<Rightarrow> 'e + 'a \<Rightarrow> 'f + 'a" where
  "map_err f r = (case r of Inl e \<Rightarrow> Inl (f e) | Inr x \<Rightarrow> Inr x)"

fun result_ok :: "'e + 'a \<Rightarrow> 'a option" where
  "result_ok (Inl _) = None"
| "result_ok (Inr x) = Some x"

definition unwrap_or :: "'a \<Rightarrow> 'e + 'a \<Rightarrow> 'a" where
  "unwrap_or d r = (case r of Inl _ \<Rightarrow> d | Inr x \<Rightarrow> x)"

definition option_or :: "'a \<Rightarrow> 'a option \<Rightarrow> 'a" where
  "option_or d r = (case r of None \<Rightarrow> d | Some x \<Rightarrow> x)"

lemma map_err_simps [simp]:
  "map_err f (Inl e) = Inl (f e)"
  "map_err f (Inr x) = Inr x"
  by (simp_all add: map_err_def)

lemma map_err_Inr_iff [simp]: "map_err f r = Inr x \<longleftrightarrow> r = Inr x"
  by (cases r) simp_all

lemma unwrap_or_simps [simp]:
  "unwrap_or d (Inl e) = d"
  "unwrap_or d (Inr x) = x"
  by (simp_all add: unwrap_or_def)

lemma option_or_simps [simp]:
  "option_or d None = d"
  "option_or d (Some x) = x"
  by (simp_all add: option_or_def)

section \<open>Tables as lists of rows\<close>

text \<open>\<open>UPDATE .. WHERE p\<close>: every matching row is rewritten, the others keep their place.\<close>

definition update_where :: "('r \<Rightarrow> bool) \<Rightarrow> ('r \<Rightarrow> 'r) \<Rightarrow> 'r list \<Rightarrow> 'r list" where
  "update_where p f rows = map (\<lambda>r. if p r then f r else r) rows"

text \<open>\<open>DELETE .. WHERE p\<close>.\<close>

definition delete_where :: "('r \<Rightarrow> bool) \<Rightarrow> 'r list \<Rightarrow> 'r list" where
  "delete_where p rows = filter (\<lambda>r. \<not> p r) rows"

text \<open>The number of rows a statement changed (\<open>Connection::execute\<close> returns it).\<close>

definition count_where :: "('r \<Rightarrow> bool) \<Rightarrow> 'r list \<Rightarrow> nat" where
  "count_where p rows = length (filter p rows)"

text \<open>
  The rowid SQLite gives a new row of a table without AUTOINCREMENT: one more than the largest
  rowid in use, 1 in an empty table.
\<close>

definition next_rowid :: "int list \<Rightarrow> int" where
  "next_rowid ids = fold max ids 0 + 1"

lemma fold_max_ge_init: "(a::int) \<le> fold max xs a"
proof (induction xs arbitrary: a)
  case (Cons x xs)
  have "a \<le> max x a" by simp
  also have "\<dots> \<le> fold max xs (max x a)" by (rule Cons.IH)
  finally show ?case by simp
qed simp

lemma fold_max_ge: "x \<in> set xs \<Longrightarrow> (x::int) \<le> fold max xs a"
proof (induction xs arbitrary: a)
  case (Cons y ys)
  show ?case
  proof (cases "x = y")
    case True
    have "y \<le> max y a" by simp
    also have "\<dots> \<le> fold max ys (max y a)" by (rule fold_max_ge_init)
    finally show ?thesis using True by simp
  next
    case False
    with Cons show ?thesis by simp
  qed
qed simp

lemma next_rowid_fresh [simp]: "next_rowid ids \<notin> set ids"
proof
  assume "next_rowid ids \<in> set ids"
  then have "next_rowid ids \<le> fold max ids 0" by (rule fold_max_ge)
  then show False by (simp add: next_rowid_def)
qed

lemma next_rowid_map_fresh [simp]:
  "next_rowid (map f xs) \<notin> f ` set xs"
  "x \<in> set xs \<Longrightarrow> f x \<noteq> next_rowid (map f xs)"
  "x \<in> set xs \<Longrightarrow> next_rowid (map f xs) \<noteq> f x"
  using next_rowid_fresh [of "map f xs"] by force+

lemma next_rowid_pos: "0 < next_rowid ids"
proof -
  have "0 \<le> fold max ids 0" by (rule fold_max_ge_init)
  then show ?thesis by (simp add: next_rowid_def)
qed

lemma next_rowid_gt: "x \<in> set ids \<Longrightarrow> x < next_rowid ids"
  using fold_max_ge [of x ids 0] by (simp add: next_rowid_def)

lemma update_where_Nil [simp]: "update_where p f [] = []"
  by (simp add: update_where_def)

lemma update_where_Cons [simp]:
  "update_where p f (r # rows) = (if p r then f r else r) # update_where p f rows"
  by (simp add: update_where_def)

lemma length_update_where [simp]: "length (update_where p f rows) = length rows"
  by (simp add: update_where_def)

lemma update_where_append [simp]:
  "update_where p f (xs @ ys) = update_where p f xs @ update_where p f ys"
  by (simp add: update_where_def)

lemma set_update_where:
  "set (update_where p f rows) = f ` {r \<in> set rows. p r} \<union> {r \<in> set rows. \<not> p r}"
  by (auto simp: update_where_def)

lemma update_where_id: "(\<And>r. r \<in> set rows \<Longrightarrow> \<not> p r) \<Longrightarrow> update_where p f rows = rows"
  by (induction rows) auto

lemma map_update_where_same:
  "(\<And>r. p r \<Longrightarrow> key (f r) = key r) \<Longrightarrow> map key (update_where p f rows) = map key rows"
  by (induction rows) auto

lemma update_where_update_where:
  assumes "\<And>r. p (f r) = p r"
  shows "update_where p g (update_where p f rows) = update_where p (\<lambda>r. g (f r)) rows"
  by (induction rows) (auto simp: assms)

lemma delete_where_simps [simp]:
  "delete_where p [] = []"
  "delete_where p (r # rows) = (if p r then delete_where p rows else r # delete_where p rows)"
  by (simp_all add: delete_where_def)

lemma set_delete_where [simp]: "set (delete_where p rows) = {r \<in> set rows. \<not> p r}"
  by (auto simp: delete_where_def)

lemma distinct_map_delete_where [intro]:
  "distinct (map key rows) \<Longrightarrow> distinct (map key (delete_where p rows))"
  by (simp add: delete_where_def distinct_map_filter)

lemma delete_where_id: "(\<And>r. r \<in> set rows \<Longrightarrow> \<not> p r) \<Longrightarrow> delete_where p rows = rows"
  by (induction rows) auto

lemma count_where_zero_iff: "count_where p rows = 0 \<longleftrightarrow> (\<forall>r \<in> set rows. \<not> p r)"
  by (auto simp: count_where_def filter_empty_conv)

lemma count_where_pos_iff: "0 < count_where p rows \<longleftrightarrow> (\<exists>r \<in> set rows. p r)"
  using count_where_zero_iff [of p rows] by auto

lemma refs_delete:
  assumes "g ` set children \<subseteq> f ` set parents"
  shows "g ` set (delete_where (\<lambda>c. g c \<in> f ` set (filter p parents)) children) \<subseteq>
    f ` set (delete_where p parents)"
proof
  fix k assume "k \<in> g ` set (delete_where (\<lambda>c. g c \<in> f ` set (filter p parents)) children)"
  then obtain c where c: "c \<in> set children" "g c \<notin> f ` set (filter p parents)" "k = g c" by auto
  then obtain r where "r \<in> set parents" "g c = f r" using assms by auto
  with c show "k \<in> f ` set (delete_where p parents)" by auto
qed

lemma refs_delete_mono:
  "g ` set children \<subseteq> K \<Longrightarrow> g ` set (delete_where p children) \<subseteq> K"
  by auto

section \<open>Lookups by key\<close>

text \<open>\<open>SELECT .. WHERE key = k\<close> read with \<open>query_row\<close>: the first matching row.\<close>

definition find_by :: "('r \<Rightarrow> 'k) \<Rightarrow> 'k \<Rightarrow> 'r list \<Rightarrow> 'r option" where
  "find_by key k rows = find (\<lambda>r. key r = k) rows"

lemma find_by_Nil [simp]: "find_by key k [] = None"
  by (simp add: find_by_def)

lemma find_by_Cons [simp]:
  "find_by key k (r # rows) = (if key r = k then Some r else find_by key k rows)"
  by (simp add: find_by_def)

lemma find_by_append:
  "find_by key k (xs @ ys) =
     (case find_by key k xs of None \<Rightarrow> find_by key k ys | Some r \<Rightarrow> Some r)"
  by (induction xs) auto

lemma find_by_None_iff: "find_by key k rows = None \<longleftrightarrow> k \<notin> key ` set rows"
  by (induction rows) auto

lemma find_by_SomeD: "find_by key k rows = Some r \<Longrightarrow> r \<in> set rows \<and> key r = k"
  by (induction rows) (auto split: if_splits)

lemma find_by_Some_iff:
  "distinct (map key rows) \<Longrightarrow> find_by key k rows = Some r \<longleftrightarrow> r \<in> set rows \<and> key r = k"
  by (induction rows) (auto simp: rev_image_eqI)

lemma find_by_update_where:
  assumes "\<And>r. p r \<Longrightarrow> key (f r) = key r"
  shows "find_by key k (update_where p f rows) =
     map_option (\<lambda>r. if p r then f r else r) (find_by key k rows)"
  using assms by (induction rows) auto

lemma find_by_delete_where_other:
  assumes "\<And>r. key r = k \<Longrightarrow> \<not> p r"
  shows "find_by key k (delete_where p rows) = find_by key k rows"
  using assms by (induction rows) auto

lemma find_by_delete_where_same:
  assumes "\<And>r. key r = k \<Longrightarrow> p r"
  shows "find_by key k (delete_where p rows) = None"
  using assms by (induction rows) auto

section \<open>Insert or update\<close>

text \<open>
  \<open>INSERT .. ON CONFLICT(key) DO UPDATE SET ..\<close>: \<open>upd\<close> rewrites the row that has the key of the new
  one; when there is none the new row is appended.
\<close>

definition upsert_row :: "('r \<Rightarrow> 'k) \<Rightarrow> 'r \<Rightarrow> ('r \<Rightarrow> 'r) \<Rightarrow> 'r list \<Rightarrow> 'r list" where
  "upsert_row key new upd rows =
     (if key new \<in> key ` set rows then update_where (\<lambda>r. key r = key new) upd rows
      else rows @ [new])"

lemma find_by_upsert_row:
  assumes "\<And>r. key r = key new \<Longrightarrow> key (upd r) = key new"
  shows "find_by key k (upsert_row key new upd rows) =
     (if k = key new
      then Some (case find_by key k rows of None \<Rightarrow> new | Some r \<Rightarrow> upd r)
      else find_by key k rows)"
proof (cases "key new \<in> key ` set rows")
  case True
  then obtain r where "find_by key (key new) rows = Some r"
    by (metis find_by_None_iff option.exhaust)
  moreover have "find_by key k (update_where (\<lambda>r. key r = key new) upd rows) =
      map_option (\<lambda>r. if key r = key new then upd r else r) (find_by key k rows)"
    by (rule find_by_update_where) (simp add: assms)
  ultimately show ?thesis
    using True by (cases "find_by key k rows") (auto simp: upsert_row_def dest: find_by_SomeD)
next
  case False
  then have "find_by key (key new) rows = None" by (simp add: find_by_None_iff)
  then show ?thesis
    using False by (auto simp: upsert_row_def find_by_append split: option.splits)
qed

lemma distinct_upsert_row:
  assumes "\<And>r. key r = key new \<Longrightarrow> key (upd r) = key new" and "distinct (map key rows)"
  shows "distinct (map key (upsert_row key new upd rows))"
proof (cases "key new \<in> key ` set rows")
  case True
  have "map key (update_where (\<lambda>r. key r = key new) upd rows) = map key rows"
    by (rule map_update_where_same) (simp add: assms(1))
  with True assms(2) show ?thesis by (simp add: upsert_row_def)
qed (use assms(2) in \<open>simp add: upsert_row_def\<close>)

lemma keys_upsert_row:
  assumes "\<And>r. key r = key new \<Longrightarrow> key (upd r) = key new"
  shows "key ` set (upsert_row key new upd rows) = insert (key new) (key ` set rows)"
proof (cases "key new \<in> key ` set rows")
  case True
  have "map key (update_where (\<lambda>r. key r = key new) upd rows) = map key rows"
    by (rule map_update_where_same) (simp add: assms)
  then have "key ` set (update_where (\<lambda>r. key r = key new) upd rows) = key ` set rows"
    by (metis list.set_map)
  with True show ?thesis by (simp add: upsert_row_def insert_absorb)
qed (simp add: upsert_row_def)

section \<open>Sorting by a key\<close>

lemma sorted_key_append_last:
  "sorted (map f (xs @ [x])) \<longleftrightarrow> sorted (map f xs) \<and> (\<forall>y \<in> set xs. f y \<le> f x)"
  by (auto simp: sorted_append)

lemma sort_key_unique:
  assumes "mset xs = mset ys" and "inj_on f (set xs)"
  shows "sort_key f xs = sort_key f ys"
proof (rule sort_key_inj_key_eq)
  show "mset xs = mset (sort_key f ys)" using assms(1) by simp
  show "inj_on f (set xs)" by (rule assms(2))
  show "sorted (map f (sort_key f ys))" by simp
qed

lemma filter_greater_twice:
  "(c::'a::linorder) \<le> d \<Longrightarrow> filter (\<lambda>x. d < x) (filter (\<lambda>x. c < x) xs) = filter (\<lambda>x. d < x) xs"
  by (induction xs) auto

lemma filter_greater_mono:
  fixes xs ys :: "'a::linorder list"
  assumes "filter (\<lambda>x. c < x) xs = filter (\<lambda>x. c < x) ys" and "c \<le> d"
  shows "filter (\<lambda>x. d < x) xs = filter (\<lambda>x. d < x) ys"
proof -
  have "filter (\<lambda>x. d < x) zs = filter (\<lambda>x. d < x) (filter (\<lambda>x. c < x) zs)" for zs :: "'a list"
    using assms(2) by (auto intro!: filter_cong)
  with assms(1) show ?thesis by metis
qed

end
