(* ===== verification/Rust_Text.thy ===== *)
theory Rust_Text
  imports Prelude
begin

text \<open>
  The operations of Rust's \<open>str\<close>/\<open>String\<close> and number formatting that the sources use. A string is
  the list of its UTF-8 bytes (\<open>char\<close> is one byte), so \<open>length\<close> is \<open>str::len\<close> and the order on
  strings (\<open>List_Lexorder\<close>) is the byte order of \<open>str::cmp\<close> and of SQLite's BINARY collation.
\<close>

section \<open>Prefixes, suffixes, substrings\<close>

definition starts_with :: "string \<Rightarrow> string \<Rightarrow> bool" where
  "starts_with p s \<longleftrightarrow> take (length p) s = p"

definition ends_with :: "string \<Rightarrow> string \<Rightarrow> bool" where
  "ends_with p s \<longleftrightarrow> starts_with (rev p) (rev s)"

definition strip_prefix :: "string \<Rightarrow> string \<Rightarrow> string option" where
  "strip_prefix p s = (if starts_with p s then Some (drop (length p) s) else None)"

definition strip_suffix :: "string \<Rightarrow> string \<Rightarrow> string option" where
  "strip_suffix p s = (if ends_with p s then Some (take (length s - length p) s) else None)"

text \<open>\<open>s.find(needle)\<close>: the byte offset of the first occurrence.\<close>

fun str_find :: "string \<Rightarrow> string \<Rightarrow> nat option" where
  "str_find needle [] = (if needle = [] then Some 0 else None)"
| "str_find needle (c # cs) =
     (if starts_with needle (c # cs) then Some 0 else map_option Suc (str_find needle cs))"

definition str_contains :: "string \<Rightarrow> string \<Rightarrow> bool" where
  "str_contains s needle \<longleftrightarrow> str_find needle s \<noteq> None"

text \<open>\<open>s.replacen(from, to, 1)\<close> with a non-empty \<open>from\<close>.\<close>

definition replacen1 :: "string \<Rightarrow> string \<Rightarrow> string \<Rightarrow> string" where
  "replacen1 pat rep s =
     (case str_find pat s of
        None \<Rightarrow> s
      | Some i \<Rightarrow> take i s @ rep @ drop (i + length pat) s)"

lemma starts_with_iff: "starts_with p s \<longleftrightarrow> (\<exists>t. s = p @ t)"
proof
  assume "starts_with p s"
  then have "s = p @ drop (length p) s" by (metis append_take_drop_id starts_with_def)
  then show "\<exists>t. s = p @ t" ..
qed (auto simp: starts_with_def)

lemma starts_with_Nil [simp]: "starts_with [] s"
  by (simp add: starts_with_def)

lemma starts_with_append [simp]: "starts_with p (p @ t)"
  by (simp add: starts_with_def)

lemma starts_with_trans: "starts_with p s \<Longrightarrow> starts_with s t \<Longrightarrow> starts_with p t"
  by (auto simp: starts_with_iff)

lemma starts_with_Cons [simp]: "starts_with (a # p) (b # s) \<longleftrightarrow> a = b \<and> starts_with p s"
  by (auto simp: starts_with_def)

lemma starts_with_Cons_Nil [simp]: "\<not> starts_with (a # p) []"
  by (simp add: starts_with_def)

lemma ends_with_iff: "ends_with p s \<longleftrightarrow> (\<exists>t. s = t @ p)"
proof
  assume "ends_with p s"
  then obtain t where "rev s = rev p @ t" by (auto simp: ends_with_def starts_with_iff)
  then have "s = rev t @ p" by (metis rev_append rev_rev_ident)
  then show "\<exists>t. s = t @ p" ..
qed (auto simp: ends_with_def)

lemma strip_prefix_Some: "strip_prefix p s = Some t \<longleftrightarrow> s = p @ t"
  by (auto simp: strip_prefix_def starts_with_iff)

lemma strip_suffix_Some: "strip_suffix p s = Some t \<longleftrightarrow> s = t @ p"
  by (auto simp: strip_suffix_def ends_with_iff)

lemma strip_suffix_None: "strip_suffix p s = None \<longleftrightarrow> \<not> ends_with p s"
  by (simp add: strip_suffix_def)

lemma str_find_SomeD:
  "str_find needle s = Some i \<Longrightarrow> i \<le> length s \<and> starts_with needle (drop i s)"
  by (induction needle s arbitrary: i rule: str_find.induct) (auto split: if_splits)

lemma str_find_NoneD: "str_find needle s = None \<Longrightarrow> i \<le> length s \<Longrightarrow> \<not> starts_with needle (drop i s)"
proof (induction needle s arbitrary: i rule: str_find.induct)
  case (1 needle)
  then show ?case by (cases needle) (auto split: if_splits)
next
  case (2 needle c cs)
  then show ?case by (cases i) (auto split: if_splits)
qed

section \<open>ASCII case\<close>

definition ascii_lower :: "char \<Rightarrow> char" where
  "ascii_lower c =
     (let n = of_char c :: nat in if 65 \<le> n \<and> n \<le> 90 then char_of (n + 32) else c)"

definition to_ascii_lowercase :: "string \<Rightarrow> string" where
  "to_ascii_lowercase s = map ascii_lower s"

definition eq_ignore_ascii_case :: "string \<Rightarrow> string \<Rightarrow> bool" where
  "eq_ignore_ascii_case a b \<longleftrightarrow> to_ascii_lowercase a = to_ascii_lowercase b"

lemma of_char_less_256 [simp]: "(of_char c :: nat) < 256"
  using of_char_mod_256 [of c, where 'a = nat] by (metis mod_less_divisor zero_less_numeral)

lemma ascii_lower_idem [simp]: "ascii_lower (ascii_lower c) = ascii_lower c"
  by (auto simp: ascii_lower_def Let_def of_char_of)

lemma to_ascii_lowercase_idem [simp]:
  "to_ascii_lowercase (to_ascii_lowercase s) = to_ascii_lowercase s"
  by (simp add: to_ascii_lowercase_def)

lemma length_to_ascii_lowercase [simp]: "length (to_ascii_lowercase s) = length s"
  by (simp add: to_ascii_lowercase_def)

lemma to_ascii_lowercase_append [simp]:
  "to_ascii_lowercase (a @ b) = to_ascii_lowercase a @ to_ascii_lowercase b"
  by (simp add: to_ascii_lowercase_def)

section \<open>Whitespace\<close>

text \<open>
  The UTF-8 encodings of the code points with the White_Space property, which \<open>str::trim\<close> removes
  from both ends.
\<close>

definition whitespace_bytes :: "nat list list" where
  "whitespace_bytes =
     [[9], [10], [11], [12], [13], [32], [0xC2, 0x85], [0xC2, 0xA0], [0xE1, 0x9A, 0x80]] @
     map (\<lambda>b. [0xE2, 0x80, b]) [0x80, 0x81, 0x82, 0x83, 0x84, 0x85, 0x86, 0x87, 0x88, 0x89, 0x8A,
       0xA8, 0xA9, 0xAF] @ [[0xE2, 0x81, 0x9F], [0xE3, 0x80, 0x80]]"

definition whitespace_seqs :: "string list" where
  "whitespace_seqs = map (map char_of) whitespace_bytes"

definition strip_one :: "string list \<Rightarrow> string \<Rightarrow> string option" where
  "strip_one seqs s =
     (case find (\<lambda>w. w \<noteq> [] \<and> starts_with w s) seqs of
        None \<Rightarrow> None | Some w \<Rightarrow> Some (drop (length w) s))"

lemma strip_one_shorter: "strip_one seqs s = Some t \<Longrightarrow> length t < length s"
  by (auto simp: strip_one_def find_Some_iff starts_with_iff split: option.splits)

function strip_front :: "string list \<Rightarrow> string \<Rightarrow> string" where
  "strip_front seqs s = (case strip_one seqs s of None \<Rightarrow> s | Some t \<Rightarrow> strip_front seqs t)"
  by pat_completeness auto
termination
  by (relation "measure (\<lambda>(_, s). length s)") (auto dest: strip_one_shorter)

declare strip_front.simps [simp del]

definition trim_start :: "string \<Rightarrow> string" where
  "trim_start s = strip_front whitespace_seqs s"

definition trim_end :: "string \<Rightarrow> string" where
  "trim_end s = rev (strip_front (map rev whitespace_seqs) (rev s))"

definition str_trim :: "string \<Rightarrow> string" where
  "str_trim s = trim_end (trim_start s)"

lemma strip_front_fixed: "strip_one seqs s = None \<Longrightarrow> strip_front seqs s = s"
  by (simp add: strip_front.simps)

lemma strip_front_stops: "strip_one seqs (strip_front seqs s) = None"
proof (induction seqs s rule: strip_front.induct)
  case (1 seqs s)
  then show ?case by (cases "strip_one seqs s") (simp_all add: strip_front.simps [of seqs s])
qed

lemma strip_front_idem [simp]: "strip_front seqs (strip_front seqs s) = strip_front seqs s"
  by (rule strip_front_fixed) (rule strip_front_stops)

text \<open>A text whose first and last bytes are plain printable ASCII is already trimmed.\<close>

definition ascii_graphic :: "char \<Rightarrow> bool" where
  "ascii_graphic c \<longleftrightarrow> 33 \<le> (of_char c :: nat) \<and> (of_char c :: nat) \<le> 126"

lemma whitespace_head_not_graphic:
  "w \<in> set whitespace_seqs \<Longrightarrow> w \<noteq> [] \<Longrightarrow> \<not> ascii_graphic (hd w)"
  by (auto simp: whitespace_seqs_def whitespace_bytes_def ascii_graphic_def of_char_of)

lemma whitespace_last_not_graphic:
  "w \<in> set whitespace_seqs \<Longrightarrow> w \<noteq> [] \<Longrightarrow> \<not> ascii_graphic (last w)"
  by (auto simp: whitespace_seqs_def whitespace_bytes_def ascii_graphic_def of_char_of)

lemma strip_one_None_hd:
  assumes "\<And>w. w \<in> set seqs \<Longrightarrow> w \<noteq> [] \<Longrightarrow> hd w \<noteq> c"
  shows "strip_one seqs (c # s) = None"
proof -
  have "\<not> (w \<noteq> [] \<and> starts_with w (c # s))" if "w \<in> set seqs" for w
    using assms [OF that] by (cases w) auto
  then show ?thesis by (auto simp: strip_one_def find_None_iff split: option.splits)
qed

lemma str_trim_graphic:
  assumes "s \<noteq> []" and "ascii_graphic (hd s)" and "ascii_graphic (last s)"
  shows "str_trim s = s"
proof -
  obtain c t where s: "s = c # t" using assms(1) by (cases s) auto
  have "strip_one whitespace_seqs (c # t) = None"
    using assms(2) whitespace_head_not_graphic by (intro strip_one_None_hd) (auto simp: s)
  then have 1: "trim_start s = s" by (simp add: trim_start_def strip_front_fixed s)
  obtain d u where r: "rev s = d # u" using assms(1) by (cases "rev s") auto
  then have d: "d = last s" by (metis hd_rev list.sel(1))
  have "strip_one (map rev whitespace_seqs) (d # u) = None"
  proof (rule strip_one_None_hd)
    fix w assume "w \<in> set (map rev whitespace_seqs)" and "w \<noteq> []"
    then obtain v where v: "v \<in> set whitespace_seqs" "w = rev v" "v \<noteq> []" by auto
    then have "hd w = last v" by (simp add: hd_rev)
    with v whitespace_last_not_graphic [of v] assms(3) show "hd w \<noteq> d" by (auto simp: d)
  qed
  then have "trim_end s = rev (rev s)" by (simp add: trim_end_def strip_front_fixed r)
  with 1 show ?thesis by (simp add: str_trim_def)
qed

lemma str_trim_Nil [simp]: "str_trim [] = []"
proof -
  have "strip_one seqs [] = None" for seqs
    by (auto simp: strip_one_def find_None_iff starts_with_def split: option.splits)
  then show ?thesis by (simp add: str_trim_def trim_start_def trim_end_def strip_front_fixed)
qed

section \<open>Splitting\<close>

text \<open>\<open>s.split(c)\<close>: never empty, one piece more than there are separators.\<close>

fun split_char :: "char \<Rightarrow> string \<Rightarrow> string list" where
  "split_char c [] = [[]]"
| "split_char c (x # xs) =
     (if x = c then [] # split_char c xs
      else (case split_char c xs of [] \<Rightarrow> [[x]] | p # ps \<Rightarrow> (x # p) # ps))"

text \<open>\<open>s.splitn(2, c)\<close>: the piece before the first separator and, if there is one, the rest.\<close>

fun splitn2 :: "char \<Rightarrow> string \<Rightarrow> string \<times> string option" where
  "splitn2 c [] = ([], None)"
| "splitn2 c (x # xs) =
     (if x = c then ([], Some xs)
      else (let (a, r) = splitn2 c xs in (x # a, r)))"

text \<open>\<open>s.split_once(pat)\<close>.\<close>

definition split_once :: "string \<Rightarrow> string \<Rightarrow> (string \<times> string) option" where
  "split_once pat s =
     (case str_find pat s of
        None \<Rightarrow> None | Some i \<Rightarrow> Some (take i s, drop (i + length pat) s))"

text \<open>\<open>s.trim_end_matches(c)\<close>.\<close>

definition trim_end_matches :: "char \<Rightarrow> string \<Rightarrow> string" where
  "trim_end_matches c s = rev (dropWhile (\<lambda>x. x = c) (rev s))"

lemma split_char_nonempty [simp]: "split_char c s \<noteq> []"
  by (induction s) (auto split: list.splits)

lemma hd_split_char_no_sep: "c \<notin> set s \<Longrightarrow> split_char c s = [s]"
  by (induction s) auto

lemma hd_split_char: "c \<notin> set s \<Longrightarrow> hd (split_char c (s @ c # t)) = s"
  by (induction s) (auto split: list.splits)

lemma splitn2_no_sep: "c \<notin> set s \<Longrightarrow> splitn2 c s = (s, None)"
  by (induction s) auto

lemma splitn2_sep: "c \<notin> set a \<Longrightarrow> splitn2 c (a @ c # b) = (a, Some b)"
  by (induction a) auto

lemma splitn2_SomeD: "splitn2 c s = (a, Some b) \<Longrightarrow> s = a @ c # b \<and> c \<notin> set a"
  by (induction s arbitrary: a) (auto split: if_splits prod.splits)

lemma splitn2_NoneD: "splitn2 c s = (a, None) \<Longrightarrow> s = a \<and> c \<notin> set s"
  by (induction s arbitrary: a) (auto split: if_splits prod.splits)

lemma trim_end_matches_idem [simp]:
  "trim_end_matches c (trim_end_matches c s) = trim_end_matches c s"
  by (simp add: trim_end_matches_def dropWhile_idem)

section \<open>Numbers as decimal text\<close>

definition digit_char :: "nat \<Rightarrow> char" where
  "digit_char d = char_of (48 + d)"

fun show_nat :: "nat \<Rightarrow> string" where
  "show_nat n = (if n < 10 then [digit_char n] else show_nat (n div 10) @ [digit_char (n mod 10)])"

declare show_nat.simps [simp del]

definition show_int :: "int \<Rightarrow> string" where
  "show_int i = (if i < 0 then CHR ''-'' # show_nat (nat (- i)) else show_nat (nat i))"

text \<open>
  \<open>s.parse::<uN>()\<close>: an optional \<open>+\<close>, then at least one decimal digit and nothing else; \<open>None\<close>
  also when the value does not fit below \<open>bound\<close> (\<open>2 ^ N\<close>).
\<close>

definition digit_value :: "char \<Rightarrow> nat option" where
  "digit_value c =
     (let n = of_char c :: nat in if 48 \<le> n \<and> n \<le> 57 then Some (n - 48) else None)"

fun parse_digits :: "nat \<Rightarrow> string \<Rightarrow> nat option" where
  "parse_digits acc [] = Some acc"
| "parse_digits acc (c # cs) =
     (case digit_value c of None \<Rightarrow> None | Some d \<Rightarrow> parse_digits (10 * acc + d) cs)"

definition parse_uint :: "nat \<Rightarrow> string \<Rightarrow> nat option" where
  "parse_uint bound s =
     (let t = (case s of c # cs \<Rightarrow> if c = CHR ''+'' then cs else s | [] \<Rightarrow> s) in
      if t = [] then None
      else (case parse_digits 0 t of
              None \<Rightarrow> None | Some n \<Rightarrow> if n < bound then Some n else None))"

lemma digit_value_digit_char [simp]: "d < 10 \<Longrightarrow> digit_value (digit_char d) = Some d"
  by (simp add: digit_value_def digit_char_def of_char_of)

lemma parse_digits_append:
  "parse_digits acc (s @ t) =
     (case parse_digits acc s of None \<Rightarrow> None | Some n \<Rightarrow> parse_digits n t)"
  by (induction acc s rule: parse_digits.induct) (auto split: option.splits)

lemma parse_digits_show_nat: "parse_digits 0 (show_nat n) = Some n"
proof (induction n rule: show_nat.induct)
  case (1 n)
  show ?case
  proof (cases "n < 10")
    case True
    then show ?thesis by (simp add: show_nat.simps [of n])
  next
    case False
    with "1.IH" show ?thesis by (simp add: show_nat.simps [of n] parse_digits_append)
  qed
qed

lemma show_nat_nonempty [simp]: "show_nat n \<noteq> []"
  by (subst show_nat.simps) simp

lemma show_nat_digits: "c \<in> set (show_nat n) \<Longrightarrow> 48 \<le> (of_char c :: nat) \<and> (of_char c :: nat) \<le> 57"
proof (induction n rule: show_nat.induct)
  case (1 n)
  show ?case
  proof (cases "n < 10")
    case True
    with "1.prems" show ?thesis by (simp add: show_nat.simps [of n] digit_char_def of_char_of)
  next
    case False
    with "1.prems" have "c \<in> set (show_nat (n div 10)) \<or> c = digit_char (n mod 10)"
      by (auto simp: show_nat.simps [of n])
    then show ?thesis
    proof
      assume "c = digit_char (n mod 10)"
      moreover have "n mod 10 < 10" by simp
      ultimately show ?thesis by (simp add: digit_char_def of_char_of)
    qed (rule "1.IH" [OF False])
  qed
qed

lemma parse_uint_digits:
  "s = c # cs \<Longrightarrow> c \<noteq> CHR ''+'' \<Longrightarrow> parse_digits 0 s = Some n \<Longrightarrow> n < bound \<Longrightarrow>
   parse_uint bound s = Some n"
  by (simp add: parse_uint_def)

lemma parse_uint_show_nat:
  assumes n: "n < bound"
  shows "parse_uint bound (show_nat n) = Some n"
proof -
  obtain c cs where s: "show_nat n = c # cs" by (cases "show_nat n") simp_all
  then have "48 \<le> (of_char c :: nat)" by (intro conjunct1 [OF show_nat_digits [of c n]]) simp
  then have "c \<noteq> CHR ''+''" by auto
  from parse_uint_digits [OF s this parse_digits_show_nat n] show ?thesis .
qed

lemma parse_uint_less: "parse_uint bound s = Some n \<Longrightarrow> n < bound"
  by (auto simp: parse_uint_def Let_def split: if_splits option.splits)

lemma show_nat_inj: "show_nat m = show_nat n \<Longrightarrow> m = n"
  by (metis option.inject parse_digits_show_nat)

end
