(* ===== verification/Protocol.thy ===== *)
theory Protocol
  imports Rust_Text
begin

text \<open>
  \<open>protocol.rs\<close> and \<open>middleware/peer_version.rs\<close>: the compatibility check between protocol versions,
  and the response header that announces ours. The parser of the \<open>semver\<close> crate is the argument
  \<open>semver_parse\<close>, which yields the major and minor numbers of a well-formed version text.
\<close>

definition PROTOCOL_VERSION :: string where
  "PROTOCOL_VERSION = ''1.0''"

definition VERSION_HEADER_LC :: string where
  "VERSION_HEADER_LC = ''x-communitysearch-version''"

datatype compatibility = Compatible | MinorMismatch | Incompatible

definition count_dots :: "string \<Rightarrow> nat" where
  "count_dots v = count_where (\<lambda>c. c = CHR ''.'') v"

definition normalize_version :: "string \<Rightarrow> string" where
  "normalize_version v =
     (let n = count_dots v in
      if n = 0 then v @ ''.0.0'' else if n = 1 then v @ ''.0'' else v)"

definition check_compatibility :: "(string \<Rightarrow> (nat \<times> nat) option) \<Rightarrow> string \<Rightarrow> compatibility" where
  "check_compatibility semver_parse their_version =
     (case semver_parse (normalize_version PROTOCOL_VERSION) of
        None \<Rightarrow> Incompatible
      | Some ours \<Rightarrow>
          (case semver_parse (normalize_version their_version) of
             None \<Rightarrow> Incompatible
           | Some theirs \<Rightarrow>
               if fst ours \<noteq> fst theirs then Incompatible
               else if snd ours \<noteq> snd theirs then MinorMismatch
               else Compatible))"

text \<open>A version text always has at least three components after \<open>normalize_version\<close>.\<close>

lemma count_dots_append [simp]: "count_dots (a @ b) = count_dots a + count_dots b"
  by (simp add: count_dots_def count_where_def)

lemma count_dots_suffixes [simp]: "count_dots ''.0'' = 1" "count_dots ''.0.0'' = 2"
  by (simp_all add: count_dots_def count_where_def)

lemma normalize_version_three_components: "2 \<le> count_dots (normalize_version v)"
  by (simp add: normalize_version_def Let_def)

lemma normalize_version_idem [simp]: "normalize_version (normalize_version v) = normalize_version v"
  using normalize_version_three_components [of v] by (simp add: normalize_version_def [of "normalize_version v"] Let_def)

text \<open>The check only looks at the normalised text: short forms and padded forms agree.\<close>

lemma check_compatibility_normalized:
  "check_compatibility parse (normalize_version v) = check_compatibility parse v"
  by (simp add: check_compatibility_def cong: option.case_cong)

lemma check_compatibility_Compatible_iff:
  "check_compatibility parse v = Compatible \<longleftrightarrow>
   parse (normalize_version PROTOCOL_VERSION) \<noteq> None \<and>
   parse (normalize_version v) = parse (normalize_version PROTOCOL_VERSION)"
  by (auto simp: check_compatibility_def prod_eq_iff split: option.splits)

lemma check_compatibility_Incompatible_iff:
  "check_compatibility parse v \<noteq> Incompatible \<longleftrightarrow>
   (\<exists>ours theirs. parse (normalize_version PROTOCOL_VERSION) = Some ours \<and> parse (normalize_version v) = Some theirs
      \<and> fst ours = fst theirs)"
  by (auto simp: check_compatibility_def split: option.splits)

section \<open>The version header of the peer routes\<close>

text \<open>
  \<open>HeaderMap::insert\<close> replaces every value the header had. A response here is its status, its
  headers and its body.
\<close>

record 'b response =
  resp_status :: nat
  resp_headers :: "(string \<times> string) list"
  resp_body :: 'b

definition header_insert ::
  "string \<Rightarrow> string \<Rightarrow> (string \<times> string) list \<Rightarrow> (string \<times> string) list" where
  "header_insert name value hs = delete_where (\<lambda>h. fst h = name) hs @ [(name, value)]"

definition add_peer_version_header :: "('req \<Rightarrow> 'b response) \<Rightarrow> 'req \<Rightarrow> 'b response" where
  "add_peer_version_header next_run req =
     (let resp = next_run req in
      resp\<lparr>resp_headers := header_insert VERSION_HEADER_LC PROTOCOL_VERSION (resp_headers resp)\<rparr>)"

lemma map_of_delete_where_key:
  "map_of (delete_where (\<lambda>h. fst h = n) hs) x = (if x = n then None else map_of hs x)"
  by (induction hs) auto

lemma header_insert_lookup:
  "map_of (header_insert n v hs) x = (if x = n then Some v else map_of hs x)"
  by (auto simp: header_insert_def map_add_def map_of_delete_where_key split: option.splits)

lemma add_peer_version_header_spec:
  "map_of (resp_headers (add_peer_version_header run req)) VERSION_HEADER_LC = Some PROTOCOL_VERSION"
  "resp_status (add_peer_version_header run req) = resp_status (run req)"
  "resp_body (add_peer_version_header run req) = resp_body (run req)"
  by (simp_all add: add_peer_version_header_def Let_def header_insert_lookup)

end
