(* ===== verification/Interfaces.thy ===== *)
theory Interfaces
  imports Prelude
begin

text \<open>
  The contracts between the components. \<open>keyed_store\<close> is what the repositories built on
  \<open>INSERT .. ON CONFLICT .. DO UPDATE\<close> promise their callers, \<open>removable_store\<close> adds \<open>DELETE\<close> by key,
  \<open>state_machine\<close> is an operation that keeps an invariant and never panics under it, and
  \<open>bucketed_machine\<close> one whose state splits into independent buckets. Each is interpreted in the
  theories of the components that provide it.
\<close>

section \<open>Runs of a fallible step\<close>

text \<open>\<open>None\<close> is a panic of the step; a run lists the answers of its steps.\<close>

fun run_steps :: "('s \<Rightarrow> 'e \<Rightarrow> ('s \<times> 'o) option) \<Rightarrow> 's \<Rightarrow> 'e list \<Rightarrow> ('s \<times> 'o list) option" where
  "run_steps step s [] = Some (s, [])"
| "run_steps step s (e # es) =
     (case step s e of
        None \<Rightarrow> None
      | Some (s', out) \<Rightarrow>
          (case run_steps step s' es of
             None \<Rightarrow> None
           | Some (s'', outs) \<Rightarrow> Some (s'', out # outs)))"

lemma run_steps_length: "run_steps step s es = Some (s', outs) \<Longrightarrow> length outs = length es"
  by (induction step s es arbitrary: s' outs rule: run_steps.induct)
    (auto split: option.splits prod.splits)

lemma run_steps_append:
  "run_steps step s (es @ fs) =
     (case run_steps step s es of
        None \<Rightarrow> None
      | Some (s', outs) \<Rightarrow>
          (case run_steps step s' fs of
             None \<Rightarrow> None
           | Some (s'', outs') \<Rightarrow> Some (s'', outs @ outs')))"
  by (induction step s es rule: run_steps.induct) (auto split: option.splits prod.splits)

lemma run_steps_snoc:
  assumes "run_steps step s es = Some (s', outs)" and "step s' e = Some (s'', out)"
  shows "run_steps step s (es @ [e]) = Some (s'', outs @ [out])"
  using assms by (simp add: run_steps_append)

lemma run_steps_snocE:
  assumes "run_steps step s (es @ [e]) = Some (s'', outs)"
  obtains s' outs' out where "run_steps step s es = Some (s', outs')" "step s' e = Some (s'', out)"
    "outs = outs' @ [out]"
  using assms by (auto simp: run_steps_append split: option.splits prod.splits)

section \<open>Stores addressed by a key\<close>

locale keyed_store =
  fixes get :: "'db \<Rightarrow> 'k \<Rightarrow> 'r option"
    and put :: "'db \<Rightarrow> 'k \<Rightarrow> 'v \<Rightarrow> 'db"
    and combine :: "'k \<Rightarrow> 'v \<Rightarrow> 'r option \<Rightarrow> 'r"
  assumes get_put: "get (put db k v) k' = (if k' = k then Some (combine k v (get db k)) else get db k')"
begin

lemma get_put_same [simp]: "get (put db k v) k = Some (combine k v (get db k))"
  by (simp add: get_put)

lemma get_put_other [simp]: "k' \<noteq> k \<Longrightarrow> get (put db k v) k' = get db k'"
  by (simp add: get_put)

text \<open>Writes under different keys commute, as far as lookups can tell.\<close>

lemma put_commute: "k \<noteq> k' \<Longrightarrow> get (put (put db k v) k' v') x = get (put (put db k' v') k v) x"
  by (simp add: get_put)

definition put_all :: "'db \<Rightarrow> ('k \<times> 'v) list \<Rightarrow> 'db" where
  "put_all db kvs = fold (\<lambda>(k, v) d. put d k v) kvs db"

text \<open>After a series of writes the row of a key is what the writes under that key made of it.\<close>

lemma get_put_all:
  "get (put_all db kvs) k =
     fold (\<lambda>kv r. Some (combine k (snd kv) r)) (filter (\<lambda>kv. fst kv = k) kvs) (get db k)"
  by (induction kvs arbitrary: db) (auto simp: put_all_def get_put)

lemma get_put_all_notin: "k \<notin> fst ` set kvs \<Longrightarrow> get (put_all db kvs) k = get db k"
proof -
  assume "k \<notin> fst ` set kvs"
  then have "filter (\<lambda>kv. fst kv = k) kvs = []" by (auto simp: filter_empty_conv)
  then show ?thesis by (simp add: get_put_all)
qed

lemma get_put_all_once:
  "distinct (map fst kvs) \<Longrightarrow> (k, v) \<in> set kvs \<Longrightarrow>
   get (put_all db kvs) k = Some (combine k v (get db k))"
proof (induction kvs arbitrary: db)
  case (Cons kv kvs)
  show ?case
  proof (cases "fst kv = k")
    case True
    with Cons.prems have "kv = (k, v)" "k \<notin> fst ` set kvs" by (auto simp: image_iff)
    then show ?thesis using get_put_all_notin [of k kvs "put db k v"] by (simp add: put_all_def)
  next
    case False
    with Cons.prems have "get (put_all (put db (fst kv) (snd kv)) kvs) k =
        Some (combine k v (get (put db (fst kv) (snd kv)) k))"
      by (intro Cons.IH) auto
    with False show ?thesis by (cases kv) (simp add: put_all_def)
  qed
qed simp

text \<open>The order in which writes under distinct keys are made does not matter.\<close>

lemma put_all_perm:
  assumes "distinct (map fst kvs)" and "mset kvs = mset kvs'"
  shows "get (put_all db kvs) k = get (put_all db kvs') k"
proof (cases "k \<in> fst ` set kvs")
  case True
  then obtain v where v: "(k, v) \<in> set kvs" by auto
  have "distinct (map fst kvs')"
    using assms by (metis mset_map mset_eq_imp_distinct_iff)
  moreover have "(k, v) \<in> set kvs'" using v assms(2) by (metis mset_eq_setD)
  ultimately show ?thesis using assms(1) v by (simp add: get_put_all_once)
next
  case False
  moreover have "k \<notin> fst ` set kvs'" using False assms(2) by (metis mset_eq_setD)
  ultimately show ?thesis by (simp add: get_put_all_notin)
qed

end

locale removable_store = keyed_store get put combine
  for get :: "'db \<Rightarrow> 'k \<Rightarrow> 'r option"
    and put :: "'db \<Rightarrow> 'k \<Rightarrow> 'v \<Rightarrow> 'db"
    and combine :: "'k \<Rightarrow> 'v \<Rightarrow> 'r option \<Rightarrow> 'r" +
  fixes del :: "'db \<Rightarrow> 'k \<Rightarrow> 'db"
  assumes get_del: "get (del db k) k' = (if k' = k then None else get db k')"
begin

lemma del_put [simp]: "get (del (put db k v) k) x = get (del db k) x"
  by (simp add: get_del get_put)

text \<open>A row written after its removal starts afresh.\<close>

lemma put_del_fresh: "get (put (del db k) k v) k = Some (combine k v None)"
  by (simp add: get_del get_put)

end

section \<open>Invariants of machines\<close>

locale state_machine =
  fixes step :: "'s \<Rightarrow> 'e \<Rightarrow> ('s \<times> 'o) option"
    and inv :: "'s \<Rightarrow> bool"
    and ok :: "'e \<Rightarrow> bool"
  assumes progress: "inv s \<Longrightarrow> ok e \<Longrightarrow> step s e \<noteq> None"
    and preservation: "inv s \<Longrightarrow> ok e \<Longrightarrow> step s e = Some (s', out) \<Longrightarrow> inv s'"
begin

lemma run_total:
  "inv s \<Longrightarrow> (\<And>e. e \<in> set es \<Longrightarrow> ok e) \<Longrightarrow>
   \<exists>s' outs. run_steps step s es = Some (s', outs) \<and> inv s' \<and> length outs = length es"
proof (induction es arbitrary: s)
  case (Cons e es)
  obtain s1 out where 1: "step s e = Some (s1, out)"
    using progress [of s e] Cons.prems by (cases "step s e") auto
  then have "inv s1" using Cons.prems preservation [of s e s1 out] by simp
  then obtain s2 outs where "run_steps step s1 es = Some (s2, outs)" "inv s2"
      "length outs = length es"
    using Cons.IH [of s1] Cons.prems by auto
  with 1 show ?case by simp
qed simp

lemma run_inv:
  assumes "inv s" and "\<And>e. e \<in> set es \<Longrightarrow> ok e" and "run_steps step s es = Some (s', outs)"
  shows "inv s'"
  using run_total [of s es] assms by auto

end

section \<open>Machines whose state is split into buckets\<close>

text \<open>
  Every event belongs to a bucket; the step answers from the bucket's own view of the state and
  changes no other bucket.
\<close>

locale bucketed_machine =
  fixes step :: "'s \<Rightarrow> 'e \<Rightarrow> ('s \<times> 'o) option"
    and bucket :: "'e \<Rightarrow> 'k"
    and view :: "'s \<Rightarrow> 'k \<Rightarrow> 'v"
    and vstep :: "'v \<Rightarrow> 'e \<Rightarrow> ('v \<times> 'o) option"
  assumes step_view: "step s e = Some (s', out) \<Longrightarrow>
      \<exists>v'. vstep (view s (bucket e)) e = Some (v', out) \<and>
        view s' = (view s)(bucket e := v')"
begin

text \<open>A bucket's answers in a run are those of the machine that runs on that bucket alone.\<close>

lemma run_view:
  "run_steps step s es = Some (s', outs) \<Longrightarrow>
   run_steps vstep (view s k) (filter (\<lambda>e. bucket e = k) es) =
     Some (view s' k, map snd (filter (\<lambda>(e, out). bucket e = k) (zip es outs)))"
proof (induction es arbitrary: s outs)
  case (Cons e es)
  from Cons.prems obtain s1 out outs1 where
    1: "step s e = Some (s1, out)" "run_steps step s1 es = Some (s', outs1)" "outs = out # outs1"
    by (auto split: option.splits prod.splits)
  from step_view [OF 1(1)] obtain v' where
    v: "vstep (view s (bucket e)) e = Some (v', out)" "view s1 = (view s)(bucket e := v')" by auto
  from Cons.IH [OF 1(2)] show ?case
    using v by (auto simp: 1(3))
qed simp

end

end
