(* ===== verification/Auth.thy ===== *)
theory Auth
  imports Interfaces Protocol "HOL-Library.Word"
begin

text \<open>
  \<open>api/auth.rs\<close> and \<open>api/auth_attempts.rs\<close>: the bearer-token middleware of the admin routes and the
  table of failed attempts behind its lockout. The table is the list of its rows; \<open>now\<close> is an
  argument. A handler behind the middleware is not part of the model: the middleware answers
  \<open>Forward\<close> where the code calls \<open>next.run\<close>.
\<close>

unbundle bit_operations_syntax

section \<open>Token texts\<close>

definition extract_bearer :: "string \<Rightarrow> string option" where
  "extract_bearer authorization =
     (let (scheme, rest) = splitn2 CHR '' '' authorization in
      if \<not> eq_ignore_ascii_case scheme ''bearer'' then None
      else (case rest of
              None \<Rightarrow> None
            | Some r \<Rightarrow> (let token = str_trim r in if token = [] then None else Some token)))"

definition byte_of :: "char \<Rightarrow> 8 word" where
  "byte_of c = of_nat (of_char c)"

definition constant_time_eq :: "string \<Rightarrow> string \<Rightarrow> bool" where
  "constant_time_eq a b =
     (if length a \<noteq> length b then False
      else fold (\<lambda>(x, y) diff. diff OR (byte_of x XOR byte_of y)) (zip a b) 0 = (0 :: 8 word))"

section \<open>The client address\<close>

text \<open>
  What the middlewares read of a request: the text of a header (\<open>headers().get(name)\<close> followed by
  \<open>to_str().ok()\<close>; \<open>None\<close> when it is absent or not readable as text) and the address of the TCP peer
  when the server recorded it.
\<close>

record request =
  header_text :: "string \<Rightarrow> string option"
  connect_info :: "string option"

definition client_ip :: "request \<Rightarrow> string" where
  "client_ip req =
     (let direct = (case connect_info req of Some addr \<Rightarrow> addr | None \<Rightarrow> ''unknown'') in
      case header_text req ''x-forwarded-for'' of
        Some s \<Rightarrow>
          (let first = str_trim (hd (split_char CHR '','' s)) in
           if first \<noteq> [] then first else direct)
      | None \<Rightarrow> direct)"

definition client_ip_pub :: "request \<Rightarrow> string" where
  "client_ip_pub req = client_ip req"

section \<open>The table of failed attempts\<close>

definition MAX_FAILURES :: int where "MAX_FAILURES = 5"

definition LOCKOUT_SECONDS :: int where "LOCKOUT_SECONDS = 15 * 60"

record attempt_state =
  failed_count :: int
  lockout_until :: int

record attempt_row =
  at_ip :: string
  at_failed_count :: int
  at_lockout_until :: int
  at_last_attempt_at :: int

type_synonym attempts = "attempt_row list"

text \<open>\<open>row.get::<_, u32>\<close> of a stored integer fails outside the range of \<open>u32\<close>.\<close>

definition get_u32 :: "int \<Rightarrow> int db_result" where
  "get_u32 i = (if 0 \<le> i \<and> i < 2 ^ 32 then Inr i else Inl IntegralValueOutOfRange)"

definition read_attempt :: "attempt_row \<Rightarrow> attempt_state db_result" where
  "read_attempt r =
     (case get_u32 (at_failed_count r) of
        Inl e \<Rightarrow> Inl e
      | Inr n \<Rightarrow> Inr \<lparr>failed_count = n, lockout_until = at_lockout_until r\<rparr>)"

definition no_attempts :: attempt_state where
  "no_attempts = \<lparr>failed_count = 0, lockout_until = 0\<rparr>"

definition current_state :: "attempts \<Rightarrow> string \<Rightarrow> attempt_state db_result" where
  "current_state db ip =
     (case find_by at_ip ip db of None \<Rightarrow> Inr no_attempts | Some r \<Rightarrow> read_attempt r)"

definition first_failure :: "string \<Rightarrow> int \<Rightarrow> attempt_row" where
  "first_failure ip now =
     \<lparr>at_ip = ip, at_failed_count = 1,
      at_lockout_until = (if 1 \<ge> MAX_FAILURES then now + LOCKOUT_SECONDS else 0),
      at_last_attempt_at = now\<rparr>"

definition next_failure :: "int \<Rightarrow> attempt_row \<Rightarrow> attempt_row" where
  "next_failure now r =
     r\<lparr>at_failed_count := at_failed_count r + 1,
       at_lockout_until :=
         (if at_failed_count r + 1 \<ge> MAX_FAILURES then now + LOCKOUT_SECONDS
          else at_lockout_until r),
       at_last_attempt_at := now\<rparr>"

definition record_failure :: "attempts \<Rightarrow> string \<Rightarrow> int \<Rightarrow> attempts \<times> attempt_state db_result" where
  "record_failure db ip now =
     (let db' = upsert_row at_ip (first_failure ip now) (next_failure now) db in
      (db', case find_by at_ip ip db' of
              None \<Rightarrow> Inl QueryReturnedNoRows
            | Some r \<Rightarrow> read_attempt r))"

definition record_success :: "attempts \<Rightarrow> string \<Rightarrow> attempts" where
  "record_success db ip = delete_where (\<lambda>r. at_ip r = ip) db"

section \<open>The middleware\<close>

datatype mw_answer =
    Forward
  | Answer nat "(string \<times> string) list" string

definition token_accepted :: "string \<Rightarrow> request \<Rightarrow> bool" where
  "token_accepted admin_token req =
     (case header_text req ''authorization'' of
        None \<Rightarrow> False
      | Some v \<Rightarrow>
          (case extract_bearer v of
             None \<Rightarrow> False
           | Some presented \<Rightarrow> constant_time_eq presented admin_token))"

definition require_admin_token ::
  "string \<Rightarrow> attempts \<Rightarrow> request \<Rightarrow> int \<Rightarrow> attempts \<times> mw_answer" where
  "require_admin_token admin_token db req now =
     (let ip = client_ip req;
          attempt = unwrap_or no_attempts (current_state db ip) in
      if lockout_until attempt > now then
        (db, Answer 429 [(''retry-after'', show_int (lockout_until attempt - now))]
               ''too many failed attempts'')
      else if token_accepted admin_token req then
        (record_success db ip, Forward)
      else
        (fst (record_failure db ip now),
         Answer 401 [(''www-authenticate'', ''Bearer realm=\"admin\"'')] ''unauthorized''))"

section \<open>Tokens: what is accepted\<close>

lemma byte_of_inj: "byte_of x = byte_of y \<longleftrightarrow> x = y"
proof
  assume "byte_of x = byte_of y"
  then have "unat (byte_of x) = unat (byte_of y)" by simp
  then have "(of_char x :: nat) = of_char y"
    by (simp add: byte_of_def unat_of_nat mod_less)
  then show "x = y" by simp
qed simp

lemma fold_diff_zero_iff:
  "fold (\<lambda>(x, y) diff. diff OR (byte_of x XOR byte_of y)) zs d = (0 :: 8 word) \<longleftrightarrow>
   d = 0 \<and> (\<forall>(x, y) \<in> set zs. x = y)"
proof (induction zs arbitrary: d)
  case (Cons z zs)
  obtain x y where z: "z = (x, y)" by (cases z)
  have "d OR (byte_of x XOR byte_of y) = 0 \<longleftrightarrow> d = 0 \<and> byte_of x = byte_of y"
    by (auto simp: bit_eq_iff bit_simps)
  then show ?case by (auto simp: z Cons.IH byte_of_inj)
qed simp

lemma zip_all_eq_iff:
  "length a = length b \<Longrightarrow> (\<forall>(x, y) \<in> set (zip a b). x = y) \<longleftrightarrow> a = b"
  by (induction a b rule: list_induct2) auto

lemma constant_time_eq_iff: "constant_time_eq a b \<longleftrightarrow> a = b"
proof (cases "length a = length b")
  case True
  then show ?thesis by (simp add: constant_time_eq_def fold_diff_zero_iff zip_all_eq_iff)
qed (auto simp: constant_time_eq_def)

lemma extract_bearer_Some_iff:
  "extract_bearer s = Some t \<longleftrightarrow>
   (\<exists>scheme r. s = scheme @ CHR '' '' # r \<and> CHR '' '' \<notin> set scheme \<and>
      eq_ignore_ascii_case scheme ''bearer'' \<and> t = str_trim r \<and> t \<noteq> [])"
proof
  assume "extract_bearer s = Some t"
  then show "\<exists>scheme r. s = scheme @ CHR '' '' # r \<and> CHR '' '' \<notin> set scheme \<and>
      eq_ignore_ascii_case scheme ''bearer'' \<and> t = str_trim r \<and> t \<noteq> []"
    by (auto simp: extract_bearer_def Let_def split: prod.splits if_splits option.splits
        dest!: splitn2_SomeD)
next
  assume "\<exists>scheme r. s = scheme @ CHR '' '' # r \<and> CHR '' '' \<notin> set scheme \<and>
      eq_ignore_ascii_case scheme ''bearer'' \<and> t = str_trim r \<and> t \<noteq> []"
  then show "extract_bearer s = Some t"
    by (auto simp: extract_bearer_def splitn2_sep)
qed

section \<open>The table behaves as a keyed store\<close>

lemma key_next_failure [simp]: "at_ip (next_failure now r) = at_ip r"
  by (simp add: next_failure_def)

lemma key_first_failure [simp]: "at_ip (first_failure ip now) = ip"
  by (simp add: first_failure_def)

definition failed_row :: "string \<Rightarrow> int \<Rightarrow> attempt_row option \<Rightarrow> attempt_row" where
  "failed_row ip now r = (case r of None \<Rightarrow> first_failure ip now | Some r \<Rightarrow> next_failure now r)"

interpretation attempts_store: removable_store
  "\<lambda>db ip. find_by at_ip ip db" "\<lambda>db ip now. fst (record_failure db ip now)" failed_row
  record_success
proof unfold_locales
  show "find_by at_ip k' (fst (record_failure db k v)) =
      (if k' = k then Some (failed_row k v (find_by at_ip k db)) else find_by at_ip k' db)"
    for db k v k'
    by (auto simp: record_failure_def Let_def find_by_upsert_row failed_row_def)
  show "find_by at_ip k' (record_success db k) = (if k' = k then None else find_by at_ip k' db)"
    for db k k'
    by (auto simp: record_success_def find_by_delete_where_same find_by_delete_where_other)
qed

section \<open>The middleware splits by client address\<close>

definition attempt_of :: "attempt_row option \<Rightarrow> attempt_state" where
  "attempt_of v =
     unwrap_or no_attempts (case v of None \<Rightarrow> Inr no_attempts | Some r \<Rightarrow> read_attempt r)"

lemma unwrap_current_state:
  "unwrap_or no_attempts (current_state db ip) = attempt_of (find_by at_ip ip db)"
  by (simp add: current_state_def attempt_of_def)

definition auth_step ::
  "string \<Rightarrow> attempts \<Rightarrow> request \<times> int \<Rightarrow> (attempts \<times> mw_answer) option" where
  "auth_step admin_token db e = Some (require_admin_token admin_token db (fst e) (snd e))"

definition auth_bucket_step ::
  "string \<Rightarrow> attempt_row option \<Rightarrow> request \<times> int \<Rightarrow> (attempt_row option \<times> mw_answer) option" where
  "auth_bucket_step admin_token v e =
     (let (req, now) = e in
      if lockout_until (attempt_of v) > now then
        Some (v, Answer 429 [(''retry-after'', show_int (lockout_until (attempt_of v) - now))]
               ''too many failed attempts'')
      else if token_accepted admin_token req then Some (None, Forward)
      else Some (Some (failed_row (client_ip req) now v),
             Answer 401 [(''www-authenticate'', ''Bearer realm=\"admin\"'')] ''unauthorized''))"

interpretation auth_machine: bucketed_machine
  "auth_step tok" "\<lambda>e. client_ip (fst e)" "\<lambda>db ip. find_by at_ip ip db" "auth_bucket_step tok"
  for tok
proof unfold_locales
  fix s e s' out
  assume "auth_step tok s e = Some (s', out)"
  then show "\<exists>v'. auth_bucket_step tok (find_by at_ip (client_ip (fst e)) s) e = Some (v', out) \<and>
      (\<lambda>ip. find_by at_ip ip s') = (\<lambda>ip. find_by at_ip ip s)(client_ip (fst e) := v')"
    by (cases e) (auto simp: auth_step_def auth_bucket_step_def require_admin_token_def Let_def
      unwrap_current_state attempts_store.get_put attempts_store.get_del fun_eq_iff split: if_splits)
qed

section \<open>How often one address can have a token checked\<close>

definition is_401 :: "mw_answer \<Rightarrow> bool" where
  "is_401 out = (case out of Answer status _ _ \<Rightarrow> status = 401 | Forward \<Rightarrow> False)"

definition fail_times :: "(request \<times> int) list \<Rightarrow> mw_answer list \<Rightarrow> int list" where
  "fail_times es outs = map (\<lambda>p. snd (fst p)) (filter (\<lambda>p. is_401 (snd p)) (zip es outs))"

definition auth_inv :: "int list \<Rightarrow> int list \<Rightarrow> attempt_row option \<Rightarrow> bool" where
  "auth_inv ts fl v \<longleftrightarrow>
     sorted fl \<and> set fl \<subseteq> set ts \<and> length fl \<le> length ts \<and> (v = None \<longleftrightarrow> fl = []) \<and>
     (\<forall>r. v = Some r \<longrightarrow> at_failed_count r = int (length fl) \<and>
        (5 \<le> length fl \<longrightarrow> at_lockout_until r = last fl + LOCKOUT_SECONDS)) \<and>
     (\<forall>T. length (filter (\<lambda>t. T \<le> t \<and> t < T + LOCKOUT_SECONDS) fl) \<le> 5)"

lemma auth_inv_unlocked:
  assumes inv: "auth_inv ts fl v" and len: "length ts < 2 ^ 32"
    and now: "\<forall>t \<in> set ts. t \<le> now" and unlocked: "\<not> lockout_until (attempt_of v) > now"
  shows "auth_inv (ts @ [now]) (fl @ [now]) (Some (failed_row ip now v))"
proof -
  have small: "int (length fl) < 2 ^ 32"
  proof -
    have "length fl < 2 ^ 32" using inv len by (simp add: auth_inv_def)
    then have "int (length fl) < int (2 ^ 32)" by (rule iffD2 [OF of_nat_less_iff])
    then show ?thesis by simp
  qed
  have late: "\<forall>x \<in> set fl. x + LOCKOUT_SECONDS \<le> now" if five: "5 \<le> length fl"
  proof -
    obtain r where r: "v = Some r" using inv five by (cases v) (auto simp: auth_inv_def)
    then have "at_lockout_until r = last fl + LOCKOUT_SECONDS" "at_failed_count r = int (length fl)"
      using inv five by (auto simp: auth_inv_def)
    then have "last fl + LOCKOUT_SECONDS \<le> now"
      using unlocked small by (simp add: r attempt_of_def read_attempt_def get_u32_def)
    moreover have "x \<le> last fl" if "x \<in> set fl" for x
    proof -
      have "sorted (butlast fl @ [last fl])" using inv five by (auto simp: auth_inv_def)
      with that five show ?thesis
        by (metis append_butlast_last_id empty_iff empty_set in_set_conv_decomp order_refl
            sorted_append set_ConsD append_is_Nil_conv Un_iff list.set_intros(1) set_append)
    qed
    ultimately show ?thesis by force
  qed
  have bound: "length (filter (\<lambda>t. T \<le> t \<and> t < T + LOCKOUT_SECONDS) (fl @ [now])) \<le> 5" for T
  proof (cases "5 \<le> length fl \<and> T \<le> now \<and> now < T + LOCKOUT_SECONDS")
    case True
    with late have "filter (\<lambda>t. T \<le> t \<and> t < T + LOCKOUT_SECONDS) fl = []"
      by (force simp: filter_empty_conv)
    then show ?thesis by simp
  next
    case False
    let ?n = "length (filter (\<lambda>t. T \<le> t \<and> t < T + LOCKOUT_SECONDS) fl)"
    have "?n \<le> 5" using inv by (simp add: auth_inv_def)
    moreover have "?n < 5" if "length fl < 5"
      using that length_filter_le by (rule le_less_trans [rotated])
    ultimately show ?thesis using False by auto
  qed
  have "at_failed_count (failed_row ip now v) = int (length (fl @ [now]))"
    using inv
    by (cases v) (auto simp: failed_row_def auth_inv_def first_failure_def next_failure_def)
  moreover have "at_lockout_until (failed_row ip now v) = now + LOCKOUT_SECONDS"
    if "5 \<le> length (fl @ [now])"
    using inv that
    by (cases v) (auto simp: failed_row_def auth_inv_def first_failure_def next_failure_def
        MAX_FAILURES_def)
  ultimately show ?thesis
    using inv now bound by (auto simp: auth_inv_def sorted_append)
qed

lemma auth_bucket_run_inv:
  assumes "run_steps (auth_bucket_step tok) None es = Some (v, outs)"
    and "sorted (map snd es)" and "\<forall>e \<in> set es. \<not> token_accepted tok (fst e)"
    and "length es < 2 ^ 32"
  shows "auth_inv (map snd es) (fail_times es outs) v"
  using assms
proof (induction es arbitrary: v outs rule: rev_induct)
  case Nil
  then show ?case by (simp add: auth_inv_def fail_times_def)
next
  case (snoc e es)
  from snoc.prems(1) obtain v1 outs1 out where
    run: "run_steps (auth_bucket_step tok) None es = Some (v1, outs1)"
    and step: "auth_bucket_step tok v1 e = Some (v, out)" and outs: "outs = outs1 @ [out]"
    by (rule run_steps_snocE)
  have inv: "auth_inv (map snd es) (fail_times es outs1) v1"
    using snoc.prems by (intro snoc.IH [OF run]) (auto simp: sorted_append)
  have len: "length outs1 = length es" by (rule run_steps_length [OF run])
  obtain req now where e: "e = (req, now)" by (cases e)
  have times: "fail_times (es @ [e]) outs = fail_times es outs1 @ (if is_401 out then [now] else [])"
    by (simp add: fail_times_def outs len e)
  show ?case
  proof (cases "lockout_until (attempt_of v1) > now")
    case True
    with step have "v = v1" "\<not> is_401 out" by (auto simp: auth_bucket_step_def e is_401_def)
    with inv times show ?thesis by (auto simp: auth_inv_def)
  next
    case False
    with step snoc.prems(3) have
      v: "v = Some (failed_row (client_ip req) now v1)" and "is_401 out"
      by (auto simp: auth_bucket_step_def e is_401_def)
    moreover have "auth_inv (map snd es @ [now]) (fail_times es outs1 @ [now]) v"
      unfolding v
    proof (rule auth_inv_unlocked [OF inv _ _ False])
      show "length (map snd es) < 2 ^ 32" using snoc.prems(4) by simp
      show "\<forall>t \<in> set (map snd es). t \<le> now" using snoc.prems(2) by (simp add: sorted_append e)
    qed
    ultimately show ?thesis using times by (simp add: e)
  qed
qed

lemma zip_filter_fst:
  "length es = length outs \<Longrightarrow>
   zip (filter P es) (map snd (filter (\<lambda>(e, out). P e) (zip es outs))) =
   filter (\<lambda>(e, out). P e) (zip es outs)"
  by (induction es outs rule: list_induct2) auto

section \<open>Properties\<close>

text \<open>The constant-time comparison, which XORs and ORs every byte pair in \<open>u8\<close> arithmetic,
  decides equality of the byte strings: no two different tokens compare equal and no equal ones differ.\<close>

theorem constant_time_eq_correct: "constant_time_eq a b = (a = b)"
  by (rule constant_time_eq_iff)

text \<open>The middleware forwards a request exactly when its client address is not locked out at that
  moment and its \<open>Authorization\<close> header is the scheme \<open>bearer\<close> in any case, one space, and a text that
  trims to the admin token; the failure counter of that address is then gone and the others kept.\<close>

theorem require_admin_token_forward_iff:
  "snd (require_admin_token tok db req now) = Forward \<longleftrightarrow>
     \<not> lockout_until (attempt_of (find_by at_ip (client_ip req) db)) > now \<and> tok \<noteq> [] \<and>
     (\<exists>scheme r. header_text req ''authorization'' = Some (scheme @ CHR '' '' # r) \<and>
        CHR '' '' \<notin> set scheme \<and> eq_ignore_ascii_case scheme ''bearer'' \<and> str_trim r = tok)"
proof -
  have "token_accepted tok req \<longleftrightarrow> tok \<noteq> [] \<and>
     (\<exists>scheme r. header_text req ''authorization'' = Some (scheme @ CHR '' '' # r) \<and>
        CHR '' '' \<notin> set scheme \<and> eq_ignore_ascii_case scheme ''bearer'' \<and> str_trim r = tok)"
  proof (cases "header_text req ''authorization''")
    case (Some h)
    have "token_accepted tok req \<longleftrightarrow> extract_bearer h = Some tok"
      by (auto simp: token_accepted_def Some constant_time_eq_iff split: option.splits)
    with Some show ?thesis by (auto simp: extract_bearer_Some_iff)
  qed (simp add: token_accepted_def)
  then show ?thesis
    by (simp add: require_admin_token_def Let_def unwrap_current_state)
qed

text \<open>While an address is locked out every request from it is refused with 429 and the seconds
  that remain, whatever token it carries, and the table of attempts is left exactly as it was.\<close>

theorem locked_out_refused:
  assumes "find_by at_ip (client_ip req) db = Some r"
    and "0 \<le> at_failed_count r" and "at_failed_count r < 2 ^ 32" and "now < at_lockout_until r"
  shows "require_admin_token tok db req now =
     (db, Answer 429 [(''retry-after'', show_int (at_lockout_until r - now))]
            ''too many failed attempts'')"
  using assms
  by (simp add: require_admin_token_def Let_def unwrap_current_state attempt_of_def read_attempt_def
      get_u32_def)

theorem locked_out_refused_witness:
  "require_admin_token ''t''
     [\<lparr>at_ip = ''a'', at_failed_count = 5, at_lockout_until = 910, at_last_attempt_at = 10\<rparr>]
     \<lparr>header_text = (\<lambda>_. Some ''a''), connect_info = None\<rparr> 20 =
   ([\<lparr>at_ip = ''a'', at_failed_count = 5, at_lockout_until = 910, at_last_attempt_at = 10\<rparr>],
    Answer 429 [(''retry-after'', show_int 890)] ''too many failed attempts'')"
proof -
  have ip: "client_ip \<lparr>header_text = (\<lambda>_. Some ''a''), connect_info = None\<rparr> = ''a''"
    by (simp add: client_ip_def str_trim_graphic ascii_graphic_def)
  show ?thesis
    by (subst locked_out_refused [where r = "\<lparr>at_ip = ''a'', at_failed_count = 5,
          at_lockout_until = 910, at_last_attempt_at = 10\<rparr>"]) (simp_all add: ip)
qed



end
