(* ===== verification/Rate_Limit.thy ===== *)
theory Rate_Limit
  imports Auth
begin

text \<open>
  \<open>api/rate_limit.rs\<close>: the sliding-window limiter with escalating cooloffs, the cache of peer hosts
  that chooses the bucket configuration, and the middleware. A row of \<open>rate_limit_state\<close> keeps its
  request log as JSON text: \<open>'j\<close> is the type of that text, \<open>enc\<close> and \<open>dec\<close> are \<open>serde_json\<close>'s writer and
  reader of a list of integers. \<open>i64\<close> timestamps are \<open>int\<close>; \<open>limit\<close> keeps its 32 bits because the code
  multiplies it; a panic (an empty ladder) is \<open>None\<close>.
\<close>

section \<open>Keys, configuration, decisions\<close>

datatype rate_limit_key = Ip string | Peer string

fun storage_key :: "rate_limit_key \<Rightarrow> string" where
  "storage_key (Ip s) = ''ip:'' @ s"
| "storage_key (Peer s) = ''peer:'' @ s"

record rate_limit_config =
  limit :: "32 word"
  window_seconds :: int
  cooloff_ladder :: "int list"
  clean_period_seconds :: int

definition default_rate_limit_config :: rate_limit_config where
  "default_rate_limit_config =
     \<lparr>limit = 30, window_seconds = 60, cooloff_ladder = [60, 300, 3600],
      clean_period_seconds = 3600\<rparr>"

datatype decision = Allow | Cooloff int

record rate_limit_state =
  request_log :: "int list"
  violations :: int
  cooloff_until :: int
  last_violation_at :: int

section \<open>The table\<close>

record 'j rate_row =
  rr_ip :: string
  rr_request_log :: 'j
  rr_violations :: int
  rr_cooloff_until :: int
  rr_last_violation_at :: int
  rr_updated_at :: int

definition fresh_state :: rate_limit_state where
  "fresh_state = \<lparr>request_log = [], violations = 0, cooloff_until = 0, last_violation_at = 0\<rparr>"

definition state_of_row :: "('j \<Rightarrow> int list option) \<Rightarrow> 'j rate_row \<Rightarrow> rate_limit_state" where
  "state_of_row dec r =
     \<lparr>request_log = option_or [] (dec (rr_request_log r)), violations = rr_violations r,
      cooloff_until = rr_cooloff_until r, last_violation_at = rr_last_violation_at r\<rparr>"

definition load_state ::
  "('j \<Rightarrow> int list option) \<Rightarrow> 'j rate_row list \<Rightarrow> string \<Rightarrow> rate_limit_state" where
  "load_state dec db ip =
     (case find_by rr_ip ip db of None \<Rightarrow> fresh_state | Some r \<Rightarrow> state_of_row dec r)"

definition row_of_state ::
  "(int list \<Rightarrow> 'j) \<Rightarrow> string \<Rightarrow> int \<Rightarrow> rate_limit_state \<Rightarrow> 'j rate_row" where
  "row_of_state enc ip now st =
     \<lparr>rr_ip = ip, rr_request_log = enc (request_log st), rr_violations = violations st,
      rr_cooloff_until = cooloff_until st, rr_last_violation_at = last_violation_at st,
      rr_updated_at = now\<rparr>"

definition save_state ::
  "(int list \<Rightarrow> 'j) \<Rightarrow> 'j rate_row list \<Rightarrow> string \<Rightarrow> int \<Rightarrow> rate_limit_state \<Rightarrow> 'j rate_row list" where
  "save_state enc db ip now st =
     upsert_row rr_ip (row_of_state enc ip now st)
       (\<lambda>r. r\<lparr>rr_request_log := enc (request_log st), rr_violations := violations st,
              rr_cooloff_until := cooloff_until st, rr_last_violation_at := last_violation_at st,
              rr_updated_at := now\<rparr>) db"

section \<open>One request\<close>

text \<open>
  The body of \<open>check_and_record_key\<close> between loading and saving the state. The casts are those of the
  release build: \<open>violations as usize\<close> wraps, \<open>limit * 2\<close> wraps in 32 bits, and
  \<open>cooloff_ladder.len() - 1\<close> of an empty ladder wraps too, so that the indexing panics.
\<close>

definition clean_reset :: "int \<Rightarrow> rate_limit_config \<Rightarrow> rate_limit_state \<Rightarrow> rate_limit_state" where
  "clean_reset now cfg st =
     (if last_violation_at st > 0 \<and> now - last_violation_at st > clean_period_seconds cfg
         \<and> cooloff_until st \<le> now
      then st\<lparr>violations := 0\<rparr> else st)"

definition cap_log :: "rate_limit_config \<Rightarrow> int list \<Rightarrow> int list" where
  "cap_log cfg log =
     (let cap = unat (limit cfg * 2) in if length log > cap then drop (length log - cap) log else log)"

definition usize :: "int \<Rightarrow> nat" where
  "usize i = nat (i mod 2 ^ 64)"

definition decide ::
  "int \<Rightarrow> rate_limit_config \<Rightarrow> rate_limit_state \<Rightarrow> (rate_limit_state \<times> decision) option" where
  "decide now cfg st0 =
     (let st = clean_reset now cfg st0 in
      if cooloff_until st > now then Some (st, Cooloff (cooloff_until st - now))
      else
        (let log = filter (\<lambda>t. t > now - window_seconds cfg) (request_log st) in
         if length log \<ge> unat (limit cfg) then
           (let idx = min (usize (violations st)) (usize (int (length (cooloff_ladder cfg)) - 1)) in
            if idx < length (cooloff_ladder cfg) then
              (let duration = cooloff_ladder cfg ! idx in
               Some (st\<lparr>request_log := log, violations := violations st + 1,
                        cooloff_until := now + duration, last_violation_at := now\<rparr>,
                     Cooloff duration))
            else None)
         else Some (st\<lparr>request_log := cap_log cfg (log @ [now])\<rparr>, Allow)))"

definition check_and_record_key ::
  "(int list \<Rightarrow> 'j) \<Rightarrow> ('j \<Rightarrow> int list option) \<Rightarrow> 'j rate_row list \<Rightarrow> rate_limit_key \<Rightarrow> int \<Rightarrow>
   rate_limit_config \<Rightarrow> ('j rate_row list \<times> decision) option" where
  "check_and_record_key enc dec db key now cfg =
     (case decide now cfg (load_state dec db (storage_key key)) of
        None \<Rightarrow> None
      | Some (st, d) \<Rightarrow> Some (save_state enc db (storage_key key) now st, d))"

definition check_and_record ::
  "(int list \<Rightarrow> 'j) \<Rightarrow> ('j \<Rightarrow> int list option) \<Rightarrow> 'j rate_row list \<Rightarrow> string \<Rightarrow> int \<Rightarrow>
   rate_limit_config \<Rightarrow> ('j rate_row list \<times> decision) option" where
  "check_and_record enc dec db ip now cfg = check_and_record_key enc dec db (Ip ip) now cfg"

section \<open>The cache of peer hosts\<close>

text \<open>
  \<open>host_str\<close> is \<open>Url::parse(..).host_str()\<close> of the \<open>url\<close> crate. \<open>peer_urls\<close> are the URLs of the enabled
  rows of \<open>node_peers\<close> when the query runs; instants of the monotonic clock are seconds.
\<close>

record peer_ip_cache =
  cache_hosts :: "string list"
  last_refreshed_at :: "int option"

definition PEER_IP_CACHE_TTL :: int where "PEER_IP_CACHE_TTL = 300"

definition new_peer_ip_cache :: peer_ip_cache where
  "new_peer_ip_cache = \<lparr>cache_hosts = [], last_refreshed_at = None\<rparr>"

definition load_peer_hosts_from_db :: "(string \<Rightarrow> string option) \<Rightarrow> string list \<Rightarrow> string list" where
  "load_peer_hosts_from_db host_str peer_urls = remdups (List.map_filter host_str peer_urls)"

definition is_stale :: "int \<Rightarrow> peer_ip_cache \<Rightarrow> bool" where
  "is_stale now c =
     (case last_refreshed_at c of None \<Rightarrow> True | Some t \<Rightarrow> now - t > PEER_IP_CACHE_TTL)"

definition refresh_cache ::
  "(string \<Rightarrow> string option) \<Rightarrow> string list \<Rightarrow> int \<Rightarrow> peer_ip_cache \<Rightarrow> peer_ip_cache" where
  "refresh_cache host_str peer_urls now c =
     \<lparr>cache_hosts = load_peer_hosts_from_db host_str peer_urls, last_refreshed_at = Some now\<rparr>"

definition is_peer_ip ::
  "(string \<Rightarrow> string option) \<Rightarrow> string list \<Rightarrow> int \<Rightarrow> string \<Rightarrow> peer_ip_cache \<Rightarrow> peer_ip_cache \<times> bool" where
  "is_peer_ip host_str peer_urls now ip c =
     (let c' = (if is_stale now c then refresh_cache host_str peer_urls now c else c) in
      (c', ip \<in> set (cache_hosts c')))"

section \<open>The middleware\<close>

definition require_rate_limit ::
  "(int list \<Rightarrow> 'j) \<Rightarrow> ('j \<Rightarrow> int list option) \<Rightarrow> (string \<Rightarrow> string option) \<Rightarrow>
   rate_limit_config \<Rightarrow> rate_limit_config \<Rightarrow> string list \<Rightarrow> int \<Rightarrow> int \<Rightarrow> request \<Rightarrow>
   'j rate_row list \<Rightarrow> peer_ip_cache \<Rightarrow> ('j rate_row list \<times> peer_ip_cache \<times> mw_answer) option" where
  "require_rate_limit enc dec host_str peer_cfg anon_cfg peer_urls clock now req db cache =
     (let ip = client_ip_pub req;
          (cache', peer) = is_peer_ip host_str peer_urls clock ip cache;
          cfg = (if peer then peer_cfg else anon_cfg) in
      case check_and_record enc dec db ip now cfg of
        None \<Rightarrow> None
      | Some (db', Allow) \<Rightarrow> Some (db', cache', Forward)
      | Some (db', Cooloff s) \<Rightarrow>
          Some (db', cache', Answer 429 [(''retry-after'', show_int s)] ''rate limited''))"

section \<open>The table is a keyed store and the limiter splits by key\<close>

lemma storage_key_inj: "storage_key k = storage_key k' \<Longrightarrow> k = k'"
  by (cases k; cases k') auto

lemma key_row_of_state [simp]: "rr_ip (row_of_state enc ip now st) = ip"
  by (simp add: row_of_state_def)

interpretation rate_store: keyed_store "\<lambda>db ip. find_by rr_ip ip db"
  "\<lambda>db ip v. save_state enc db ip (fst v) (snd v)"
  "\<lambda>ip v _. row_of_state enc ip (fst v) (snd v)"
  for enc :: "int list \<Rightarrow> 'j"
proof unfold_locales
  fix db :: "'j rate_row list" and ip k' and v :: "int \<times> rate_limit_state"
  have "r\<lparr>rr_request_log := enc (request_log (snd v)), rr_violations := violations (snd v),
      rr_cooloff_until := cooloff_until (snd v), rr_last_violation_at := last_violation_at (snd v),
      rr_updated_at := fst v\<rparr> = row_of_state enc ip (fst v) (snd v)"
    if "rr_ip r = ip" for r :: "'j rate_row"
    using that by (cases r) (simp add: row_of_state_def)
  then show "find_by rr_ip k' (save_state enc db ip (fst v) (snd v)) =
      (if k' = ip then Some (row_of_state enc ip (fst v) (snd v)) else find_by rr_ip k' db)"
    by (auto simp: save_state_def find_by_upsert_row dest!: find_by_SomeD split: option.splits)
qed

definition recoded ::
  "(int list \<Rightarrow> 'j) \<Rightarrow> ('j \<Rightarrow> int list option) \<Rightarrow> rate_limit_state \<Rightarrow> rate_limit_state" where
  "recoded enc dec st = st\<lparr>request_log := option_or [] (dec (enc (request_log st)))\<rparr>"

lemma load_save_state:
  "load_state dec (save_state enc db ip now st) ip' =
     (if ip' = ip then recoded enc dec st else load_state dec db ip')"
proof -
  have "find_by rr_ip ip' (save_state enc db ip now st) =
      (if ip' = ip then Some (row_of_state enc ip now st) else find_by rr_ip ip' db)"
    using rate_store.get_put [of ip' enc db ip "(now, st)"] by simp
  then show ?thesis
    by (simp add: load_state_def state_of_row_def row_of_state_def recoded_def)
qed

text \<open>
  The events of a run: the key of a request and its time, under one configuration. \<open>key_step\<close> is the
  same step on the state of one key alone.
\<close>

definition rate_step ::
  "(int list \<Rightarrow> 'j) \<Rightarrow> ('j \<Rightarrow> int list option) \<Rightarrow> rate_limit_config \<Rightarrow> 'j rate_row list \<Rightarrow>
   rate_limit_key \<times> int \<Rightarrow> ('j rate_row list \<times> decision) option" where
  "rate_step enc dec cfg db e = check_and_record_key enc dec db (fst e) (snd e) cfg"

definition key_step ::
  "(int list \<Rightarrow> 'j) \<Rightarrow> ('j \<Rightarrow> int list option) \<Rightarrow> rate_limit_config \<Rightarrow> rate_limit_state \<Rightarrow>
   rate_limit_key \<times> int \<Rightarrow> (rate_limit_state \<times> decision) option" where
  "key_step enc dec cfg st e =
     map_option (\<lambda>(st', d). (recoded enc dec st', d)) (decide (snd e) cfg st)"

interpretation rate_machine: bucketed_machine
  "rate_step enc dec cfg" fst "\<lambda>db k. load_state dec db (storage_key k)" "key_step enc dec cfg"
  for enc :: "int list \<Rightarrow> 'j" and dec cfg
proof unfold_locales
  fix s e s' out
  assume "rate_step enc dec cfg s e = Some (s', out)"
  then show "\<exists>v'. key_step enc dec cfg (load_state dec s (storage_key (fst e))) e = Some (v', out) \<and>
      (\<lambda>k. load_state dec s' (storage_key k)) =
      (\<lambda>k. load_state dec s (storage_key k))(fst e := v')"
    by (auto simp: rate_step_def check_and_record_key_def key_step_def load_save_state fun_eq_iff
      dest: storage_key_inj split: option.splits prod.splits)
qed

lemma recoded_id: "(\<And>l. dec (enc l) = Some l) \<Longrightarrow> recoded enc dec st = st"
  by (simp add: recoded_def)

lemma load_state_empty [simp]: "load_state dec [] ip = fresh_state"
  by (simp add: load_state_def)

section \<open>The rungs of the ladder\<close>

lemma usize_small: "0 \<le> i \<Longrightarrow> i < 2 ^ 64 \<Longrightarrow> usize i = nat i"
  by (simp add: usize_def)

lemma usize_length:
  "cooloff_ladder cfg \<noteq> [] \<Longrightarrow> length (cooloff_ladder cfg) \<le> 2 ^ 64 \<Longrightarrow>
   usize (int (length (cooloff_ladder cfg)) - 1) = length (cooloff_ladder cfg) - 1"
proof -
  assume ne: "cooloff_ladder cfg \<noteq> []" and len: "length (cooloff_ladder cfg) \<le> 2 ^ 64"
  have "int (length (cooloff_ladder cfg)) \<le> int (2 ^ 64)" using len by (rule iffD2 [OF of_nat_le_iff])
  then have "usize (int (length (cooloff_ladder cfg)) - 1) =
      nat (int (length (cooloff_ladder cfg)) - 1)"
    using ne by (intro usize_small) (simp_all add: Suc_le_eq flip: One_nat_def)
  then show ?thesis by simp
qed

lemma decide_total:
  assumes "cooloff_ladder cfg \<noteq> []" and "length (cooloff_ladder cfg) \<le> 2 ^ 64"
  shows "decide now cfg st \<noteq> None"
proof -
  have "min i (length (cooloff_ladder cfg) - 1) < length (cooloff_ladder cfg)" for i
    using assms(1) by (simp add: min_less_iff_disj)
  then show ?thesis using usize_length [OF assms] by (simp add: decide_def Let_def)
qed

interpretation limiter: state_machine "rate_step enc dec cfg"
  "\<lambda>_. cooloff_ladder cfg \<noteq> [] \<and> length (cooloff_ladder cfg) \<le> 2 ^ 64" "\<lambda>_. True"
  for enc :: "int list \<Rightarrow> 'j" and dec cfg
proof unfold_locales
  show "rate_step enc dec cfg s e \<noteq> None"
    if "cooloff_ladder cfg \<noteq> [] \<and> length (cooloff_ladder cfg) \<le> 2 ^ 64" for s e
    using decide_total [of cfg] that
    by (auto simp: rate_step_def check_and_record_key_def split: option.splits)
qed

section \<open>The window bound on one key\<close>

definition rl_allowed :: "('k \<times> int) list \<Rightarrow> decision list \<Rightarrow> int list" where
  "rl_allowed es ds = map (\<lambda>p. snd (fst p)) (filter (\<lambda>p. snd p = Allow) (zip es ds))"

definition window_inv :: "rate_limit_config \<Rightarrow> int list \<Rightarrow> rate_limit_state \<Rightarrow> int list \<Rightarrow> bool" where
  "window_inv cfg ts st al \<longleftrightarrow>
     sorted al \<and> set al \<subseteq> set ts \<and>
     (\<forall>now. (\<forall>t \<in> set ts. t \<le> now) \<longrightarrow>
        filter (\<lambda>t. now - window_seconds cfg < t) (request_log st) =
        filter (\<lambda>t. now - window_seconds cfg < t) al) \<and>
     (\<forall>T. length (filter (\<lambda>t. T - window_seconds cfg < t \<and> t \<le> T) al) \<le> unat (limit cfg))"

lemma cap_log_id:
  assumes "limit cfg < 2 ^ 31" and "length log \<le> unat (limit cfg)"
  shows "cap_log cfg log = log"
proof -
  have "unat (limit cfg) < 2 ^ 31"
    using assms(1) by (simp add: word_less_nat_alt)
  then have "unat (limit cfg * 2) = 2 * unat (limit cfg)"
    by (simp add: unat_word_ariths)
  with assms(2) show ?thesis by (simp add: cap_log_def)
qed

lemma request_log_clean_reset [simp]: "request_log (clean_reset now cfg st) = request_log st"
  by (simp add: clean_reset_def)

lemma window_inv_keep:
  assumes inv: "window_inv cfg ts st al" and now: "\<forall>t \<in> set ts. t \<le> now"
    and log: "request_log st' = request_log st \<or>
      request_log st' = filter (\<lambda>t. t > now - window_seconds cfg) (request_log st)"
  shows "window_inv cfg (ts @ [now]) st' al"
proof -
  have "filter (\<lambda>t. n - window_seconds cfg < t) (request_log st') =
      filter (\<lambda>t. n - window_seconds cfg < t) al" if n: "\<forall>t \<in> set (ts @ [now]). t \<le> n" for n
  proof -
    have "filter (\<lambda>t. n - window_seconds cfg < t) (request_log st') =
        filter (\<lambda>t. n - window_seconds cfg < t) (request_log st)"
      using log n filter_greater_twice [of "now - window_seconds cfg" "n - window_seconds cfg"]
      by (auto simp del: filter_filter)
    with inv n show ?thesis by (simp add: window_inv_def)
  qed
  with inv show ?thesis by (auto simp: window_inv_def)
qed

lemma window_inv_allow:
  assumes inv: "window_inv cfg ts st al" and now: "\<forall>t \<in> set ts. t \<le> now"
    and lim: "limit cfg < 2 ^ 31"
    and room: "length (filter (\<lambda>t. t > now - window_seconds cfg) (request_log st)) < unat (limit cfg)"
    and log: "request_log st' =
      cap_log cfg (filter (\<lambda>t. t > now - window_seconds cfg) (request_log st) @ [now])"
  shows "window_inv cfg (ts @ [now]) st' (al @ [now])"
proof -
  let ?w = "window_seconds cfg"
  have log': "request_log st' = filter (\<lambda>t. t > now - ?w) (request_log st) @ [now]"
    using log room lim by (simp add: cap_log_id)
  have pre: "filter (\<lambda>t. now - ?w < t) (request_log st) = filter (\<lambda>t. now - ?w < t) al"
    using inv now by (simp add: window_inv_def)
  have 1: "filter (\<lambda>t. n - ?w < t) (request_log st') = filter (\<lambda>t. n - ?w < t) (al @ [now])"
    if "\<forall>t \<in> set (ts @ [now]). t \<le> n" for n
  proof -
    have "now - ?w \<le> n - ?w" using that by simp
    from filter_greater_mono [OF pre this] show ?thesis
      using that filter_greater_twice [OF \<open>now - ?w \<le> n - ?w\<close>]
      by (simp add: log' del: filter_filter)
  qed
  have 2: "length (filter (\<lambda>t. T - ?w < t \<and> t \<le> T) (al @ [now])) \<le> unat (limit cfg)" for T
  proof (cases "now \<le> T")
    case False
    then show ?thesis using inv by (simp add: window_inv_def)
  next
    case True
    have "filter (\<lambda>t. T - ?w < t \<and> t \<le> T) al =
        filter (\<lambda>t. T - ?w < t \<and> t \<le> T) (filter (\<lambda>t. now - ?w < t) al)"
      using True by (auto intro!: filter_cong)
    then have "length (filter (\<lambda>t. T - ?w < t \<and> t \<le> T) al) \<le>
        length (filter (\<lambda>t. now - ?w < t) al)"
      by (metis length_filter_le)
    then have "length (filter (\<lambda>t. T - ?w < t \<and> t \<le> T) al) < unat (limit cfg)"
      using room pre by simp
    then show ?thesis by simp
  qed
  have "sorted (al @ [now])" "set (al @ [now]) \<subseteq> set (ts @ [now])"
    using inv now by (auto simp: window_inv_def sorted_append)
  with 1 2 show ?thesis unfolding window_inv_def by blast
qed

lemma key_run_window:
  assumes "run_steps (key_step enc dec cfg) fresh_state es = Some (st, ds)"
    and "\<And>l. dec (enc l) = Some l" and "sorted (map snd es)" and "limit cfg < 2 ^ 31"
  shows "window_inv cfg (map snd es) st (rl_allowed es ds)"
  using assms
proof (induction es arbitrary: st ds rule: rev_induct)
  case Nil
  then show ?case by (auto simp: window_inv_def rl_allowed_def fresh_state_def)
next
  case (snoc e es)
  from snoc.prems(1) obtain st1 ds1 d where
    run: "run_steps (key_step enc dec cfg) fresh_state es = Some (st1, ds1)"
    and step: "key_step enc dec cfg st1 e = Some (st, d)" and ds: "ds = ds1 @ [d]"
    by (rule run_steps_snocE)
  have inv: "window_inv cfg (map snd es) st1 (rl_allowed es ds1)"
    using snoc.prems by (intro snoc.IH [OF run]) (auto simp: sorted_append)
  have len: "length ds1 = length es" by (rule run_steps_length [OF run])
  have al: "rl_allowed (es @ [e]) ds = rl_allowed es ds1 @ (if d = Allow then [snd e] else [])"
    by (simp add: rl_allowed_def ds len)
  have now: "\<forall>t \<in> set (map snd es). t \<le> snd e" using snoc.prems(3) by (simp add: sorted_append)
  have dec: "decide (snd e) cfg st1 = Some (st, d)"
    using step recoded_id [of dec enc] snoc.prems(2) by (auto simp: key_step_def)
  show ?case
  proof (cases "d = Allow")
    case True
    with dec have "length (filter (\<lambda>t. t > snd e - window_seconds cfg) (request_log st1))
        < unat (limit cfg)"
      "request_log st =
        cap_log cfg (filter (\<lambda>t. t > snd e - window_seconds cfg) (request_log st1) @ [snd e])"
      by (auto simp: decide_def Let_def split: if_splits)
    from window_inv_allow [OF inv now snoc.prems(4) this] show ?thesis using True by (simp add: al)
  next
    case False
    with dec have "request_log st = request_log st1 \<or>
        request_log st = filter (\<lambda>t. t > snd e - window_seconds cfg) (request_log st1)"
      by (auto simp: decide_def Let_def split: if_splits)
    from window_inv_keep [OF inv now this] show ?thesis using False by (simp add: al)
  qed
qed

section \<open>Cooloffs\<close>

lemma decide_in_cooloff:
  "now < cooloff_until st \<Longrightarrow> decide now cfg st = Some (st, Cooloff (cooloff_until st - now))"
  by (simp add: decide_def clean_reset_def Let_def)

lemma decide_Cooloff_until:
  "decide now cfg st = Some (st', Cooloff d) \<Longrightarrow> cooloff_until st' = now + d"
  by (auto simp: decide_def Let_def split: if_splits)

lemma cooloff_until_recoded [simp]: "cooloff_until (recoded enc dec st) = cooloff_until st"
  by (simp add: recoded_def)

lemma key_run_in_cooloff:
  "run_steps (key_step enc dec cfg) st es = Some (st', ds) \<Longrightarrow>
   \<forall>e \<in> set es. snd e < cooloff_until st \<Longrightarrow>
   ds = map (\<lambda>e. Cooloff (cooloff_until st - snd e)) es"
proof (induction es arbitrary: st ds)
  case (Cons e es)
  then have "key_step enc dec cfg st e =
      Some (recoded enc dec st, Cooloff (cooloff_until st - snd e))"
    by (simp add: key_step_def decide_in_cooloff)
  with Cons show ?case by (fastforce split: option.splits)
qed simp

lemma zip_filter_snd_mem:
  "length es = length ds \<Longrightarrow> (e, d) \<in> set (zip es ds) \<Longrightarrow> P e \<Longrightarrow>
   (e, d) \<in> set (zip (filter P es) (map snd (filter (\<lambda>(e, d). P e) (zip es ds))))"
  by (simp add: zip_filter_fst)

text \<open>At \<open>limit = 2 ^ 31\<close> the doubled cap wraps to 0 and the log never fills: nothing is refused.\<close>

lemma cap_wraps_at_2_31:
  assumes "limit cfg = 2 ^ 31" and "request_log st = []" and "cooloff_until st \<le> now"
  shows "\<exists>st'. decide now cfg st = Some (st', Allow) \<and> request_log st' = [] \<and>
    cooloff_until st' = cooloff_until st"
proof -
  have "limit cfg * 2 = 0" using assms(1) by simp
  moreover have "0 < unat (limit cfg)" using assms(1) by simp
  ultimately show ?thesis
    using assms(2,3)
    by (simp add: decide_def Let_def cap_log_def clean_reset_def)
qed

section \<open>Properties\<close>

text \<open>C16: the sliding window holds. Over any run of requests with non-decreasing times that starts
  from an empty table, and for any key, at most \<open>limit\<close> requests of that key are allowed in any window
  of \<open>window_seconds\<close>, whatever the other keys do (for limits below \<open>2 ^ 31\<close>; above, the cap on the log
  wraps around).\<close>

theorem sliding_window_bound:
  assumes run: "run_steps (rate_step enc dec cfg) [] es = Some (db, ds)"
    and json: "\<And>l. dec (enc l) = Some l"
    and ordered: "sorted (map snd es)"
    and lim: "limit cfg < 2 ^ 31"
  shows "length (filter (\<lambda>((k', t), d). k' = k \<and> d = Allow \<and> T - window_seconds cfg < t \<and> t \<le> T)
      (zip es ds)) \<le> unat (limit cfg)"
proof -
  let ?es = "filter (\<lambda>e. fst e = k) es"
  let ?ds = "map snd (filter (\<lambda>(e, d). fst e = k) (zip es ds))"
  have "run_steps (key_step enc dec cfg) fresh_state ?es =
      Some (load_state dec db (storage_key k), ?ds)"
    using rate_machine.run_view [OF run, of k] by simp
  from key_run_window [OF this json sorted_filter [OF ordered] lim]
  have "length (filter (\<lambda>t. T - window_seconds cfg < t \<and> t \<le> T) (rl_allowed ?es ?ds))
      \<le> unat (limit cfg)"
    by (simp add: window_inv_def)
  also have "rl_allowed ?es ?ds = map (\<lambda>p. snd (fst p))
      (filter (\<lambda>p. snd p = Allow) (filter (\<lambda>(e, d). fst e = k) (zip es ds)))"
    using run_steps_length [OF run] by (simp add: rl_allowed_def zip_filter_fst)
  finally show ?thesis
    by (simp add: filter_map comp_def case_prod_unfold conj_commute conj_left_commute)
qed

theorem sliding_window_bound_witness:
  "\<exists>db ds. run_steps (rate_step id Some default_rate_limit_config) []
       [(Ip ''a'', 5), (Peer ''a'', 5), (Ip ''a'', 6)] = Some (db, ds) \<and>
     length (filter (\<lambda>((k', t), d). k' = Ip ''a'' \<and> d = Allow \<and> (10 :: int) - 60 < t \<and> t \<le> 10)
       (zip [(Ip ''a'', 5), (Peer ''a'', 5), (Ip ''a'', 6)] ds)) \<le> 30"
proof -
  let ?es = "[(Ip ''a'', 5), (Peer ''a'', 5), (Ip ''a'', 6 :: int)]"
  obtain db ds where
    run: "run_steps (rate_step id Some default_rate_limit_config) [] ?es = Some (db, ds)"
    using limiter.run_total [where cfg = default_rate_limit_config and s = "[]" and es = ?es
        and enc = id and dec = Some]
    by (auto simp: default_rate_limit_config_def)
  have "length (filter (\<lambda>((k', t), d). k' = Ip ''a'' \<and> d = Allow \<and>
      10 - window_seconds default_rate_limit_config < t \<and> t \<le> 10) (zip ?es ds))
      \<le> unat (limit default_rate_limit_config)"
    by (rule sliding_window_bound [OF run])
      (simp_all add: default_rate_limit_config_def)
  moreover have "window_seconds default_rate_limit_config = 60"
    "unat (limit default_rate_limit_config) = 30"
    by (simp_all add: default_rate_limit_config_def)
  ultimately show ?thesis using run by auto
qed

text \<open>A cooloff binds. After a request of a key at time \<open>t\<close> is refused for \<open>d\<close> seconds, every later
  request of the same key before \<open>t + d\<close> is refused too, and told exactly the seconds that remain;
  requests under other keys in between make no difference.\<close>

theorem cooloff_binds:
  assumes run: "run_steps (rate_step enc dec cfg) db ((k, t) # es) = Some (db', Cooloff d # ds)"
    and before: "\<forall>t'. (k, t') \<in> set es \<longrightarrow> t' < t + d"
    and event: "((k, t'), d') \<in> set (zip es ds)"
  shows "d' = Cooloff (t + d - t')"
proof -
  from run obtain db1 where
    1: "rate_step enc dec cfg db (k, t) = Some (db1, Cooloff d)"
    and rest: "run_steps (rate_step enc dec cfg) db1 es = Some (db', ds)"
    by (auto split: option.splits)
  let ?st = "load_state dec db1 (storage_key k)"
  have c: "cooloff_until ?st = t + d"
  proof -
    from 1 obtain st where "decide t cfg (load_state dec db (storage_key k)) = Some (st, Cooloff d)"
      and "db1 = save_state enc db (storage_key k) t st"
      by (auto simp: rate_step_def check_and_record_key_def split: option.splits)
    then show ?thesis using decide_Cooloff_until by (simp add: load_save_state)
  qed
  let ?es = "filter (\<lambda>e. fst e = k) es"
  let ?ds = "map snd (filter (\<lambda>(e, d). fst e = k) (zip es ds))"
  have "\<forall>e \<in> set ?es. snd e < cooloff_until ?st" using before by (auto simp: c)
  with rate_machine.run_view [OF rest, of k]
  have "?ds = map (\<lambda>e. Cooloff (t + d - snd e)) ?es"
    using key_run_in_cooloff [of enc dec cfg ?st ?es] by (simp add: c)
  moreover have "((k, t'), d') \<in> set (zip ?es ?ds)"
    using run_steps_length [OF rest] event by (intro zip_filter_snd_mem) auto
  ultimately show ?thesis by (auto simp: zip_map2 zip_same)
qed

theorem cooloff_binds_witness:
  "\<exists>db'. run_steps (rate_step id Some (default_rate_limit_config\<lparr>limit := 0\<rparr>)) []
     [(Ip ''a'', 5), (Ip ''a'', 25)] = Some (db', [Cooloff 60, Cooloff (5 + 60 - 25)])"
proof -
  let ?cfg = "default_rate_limit_config\<lparr>limit := 0\<rparr>"
  let ?es = "[(Ip ''a'', 25 :: int)]"
  have first: "\<exists>db1. rate_step id Some ?cfg [] (Ip ''a'', 5) = Some (db1, Cooloff 60)"
    by (simp add: rate_step_def check_and_record_key_def decide_def Let_def clean_reset_def
        fresh_state_def default_rate_limit_config_def usize_def)
  obtain db' ds where run: "run_steps (rate_step id Some ?cfg) [] ((Ip ''a'', 5) # ?es) = Some (db', ds)"
    using limiter.run_total [where cfg = ?cfg and s = "[]" and es = "(Ip ''a'', 5) # ?es"
        and enc = id and dec = Some]
    by (auto simp: default_rate_limit_config_def)
  then obtain d where ds: "ds = [Cooloff 60, d]"
    using first by (auto split: option.splits prod.splits)
  have "d = Cooloff (5 + 60 - 25)"
    by (rule cooloff_binds [OF run [unfolded ds]]) auto
  with run ds show ?thesis by auto
qed

text \<open>Cooloffs escalate. A request outside a cooloff that finds \<open>limit\<close> requests in its window is
  refused for the rung of the ladder its violation count picks (the last rung from then on), where the
  count restarts after a clean period; the refusal counts as one more violation and is not logged.\<close>

theorem violation_escalates:
  assumes "cooloff_ladder cfg \<noteq> []" and "length (cooloff_ladder cfg) \<le> 2 ^ 64"
    and "st = load_state dec db (storage_key k)" and "cooloff_until st \<le> now"
    and "unat (limit cfg) \<le> length (filter (\<lambda>t. now - window_seconds cfg < t) (request_log st))"
    and "v = (if last_violation_at st > 0 \<and> now - last_violation_at st > clean_period_seconds cfg
              then 0 else violations st)" and "0 \<le> v" and "v < 2 ^ 64"
    and "\<And>l. dec (enc l) = Some l"
  shows "\<exists>db'. check_and_record_key enc dec db k now cfg =
      Some (db', Cooloff (cooloff_ladder cfg ! min (nat v) (length (cooloff_ladder cfg) - 1))) \<and>
    load_state dec db' (storage_key k) =
      \<lparr>request_log = filter (\<lambda>t. now - window_seconds cfg < t) (request_log st),
       violations = v + 1,
       cooloff_until = now + cooloff_ladder cfg ! min (nat v) (length (cooloff_ladder cfg) - 1),
       last_violation_at = now\<rparr>"
proof -
  let ?i = "min (nat v) (length (cooloff_ladder cfg) - 1)"
  have i: "?i < length (cooloff_ladder cfg)" using assms(1) by (simp add: min_less_iff_disj)
  have v: "violations (clean_reset now cfg st) = v" using assms(4,6) by (simp add: clean_reset_def)
  have c: "cooloff_until (clean_reset now cfg st) = cooloff_until st" by (simp add: clean_reset_def)
  have "decide now cfg st = Some ((clean_reset now cfg st)
      \<lparr>request_log := filter (\<lambda>t. now - window_seconds cfg < t) (request_log st),
       violations := v + 1, cooloff_until := now + cooloff_ladder cfg ! ?i,
       last_violation_at := now\<rparr>, Cooloff (cooloff_ladder cfg ! ?i))"
    using assms(4,5) i usize_length [OF assms(1,2)] usize_small [OF assms(7,8)]
    by (simp add: decide_def Let_def v c)
  then show ?thesis
    using assms(9) by (simp add: check_and_record_key_def load_save_state recoded_id flip: assms(3))
qed

theorem violation_escalates_witness:
  "\<exists>db'. check_and_record_key id Some
       [\<lparr>rr_ip = ''ip:a'', rr_request_log = [99], rr_violations = 1, rr_cooloff_until = 90,
         rr_last_violation_at = 60, rr_updated_at = 60\<rparr>] (Ip ''a'') 100
       (default_rate_limit_config\<lparr>limit := 1\<rparr>) = Some (db', Cooloff 300) \<and>
     load_state Some db' (storage_key (Ip ''a'')) =
       \<lparr>request_log = [99], violations = 2, cooloff_until = 400, last_violation_at = 100\<rparr>"
  using violation_escalates [where cfg = "default_rate_limit_config\<lparr>limit := 1\<rparr>" and dec = Some
      and enc = id and k = "Ip ''a''" and now = 100 and v = 1
      and db = "[\<lparr>rr_ip = ''ip:a'', rr_request_log = [99], rr_violations = 1,
         rr_cooloff_until = 90, rr_last_violation_at = 60, rr_updated_at = 60\<rparr>]", OF _ _ refl]
  by (simp add: default_rate_limit_config_def load_state_def state_of_row_def)

end
