(* ===== verification/Settings.thy ===== *)
theory Settings
  imports Interfaces Rust_Text "HOL-Library.Word"
begin

text \<open>
  The two key-value tables and what the program keeps in them: \<open>db/settings.rs\<close> (table \<open>settings\<close>),
  \<open>auth/token.rs\<close> (the admin token in \<open>app_config\<close>) and \<open>api/admin/config.rs\<close> (the runtime
  configuration, as JSON text in \<open>app_config\<close>). Random tokens are arguments; \<open>to_json\<close> and \<open>of_json\<close> are
  \<open>serde_json\<close>'s writer and reader of the configuration.
\<close>

section \<open>Table settings\<close>

definition ADMIN_TOKEN_KEY :: string where "ADMIN_TOKEN_KEY = ''admin_token''"

definition settings_get :: "(string \<times> string) list \<Rightarrow> string \<Rightarrow> string option" where
  "settings_get db k = map_option snd (find_by fst k db)"

definition settings_set ::
  "(string \<times> string) list \<Rightarrow> string \<Rightarrow> string \<Rightarrow> (string \<times> string) list" where
  "settings_set db k v = upsert_row fst (k, v) (\<lambda>r. (fst r, v)) db"

definition settings_ensure_admin_token ::
  "(string \<times> string) list \<Rightarrow> string option \<Rightarrow> string \<Rightarrow> (string \<times> string) list \<times> string \<times> bool" where
  "settings_ensure_admin_token db explicit fresh =
     (case explicit of
        Some tok \<Rightarrow> (settings_set db ADMIN_TOKEN_KEY tok, tok, False)
      | None \<Rightarrow>
          (case settings_get db ADMIN_TOKEN_KEY of
             Some existing \<Rightarrow> (db, existing, False)
           | None \<Rightarrow> (settings_set db ADMIN_TOKEN_KEY fresh, fresh, True)))"

text \<open>\<open>generate_token\<close>: 48 draws below the length of the alphabet, which the generator supplies.\<close>

definition TOKEN_ALPHABET :: string where
  "TOKEN_ALPHABET = ''ABCDEFGHJKMNPQRSTVWXYZ23456789''"

definition generate_token :: "(nat \<Rightarrow> nat) \<Rightarrow> string" where
  "generate_token draw = map (\<lambda>i. TOKEN_ALPHABET ! draw i) [0..<48]"

section \<open>Table app_config and the admin token\<close>

text \<open>The value column of \<open>app_config\<close> may be NULL.\<close>

type_synonym app_config = "(string \<times> string option) list"

definition fetch_token :: "app_config \<Rightarrow> string option" where
  "fetch_token db =
     (case find_by fst ADMIN_TOKEN_KEY db of None \<Rightarrow> None | Some r \<Rightarrow> snd r)"

definition upsert_config :: "app_config \<Rightarrow> string \<Rightarrow> string \<Rightarrow> app_config" where
  "upsert_config db k v = upsert_row fst (k, Some v) (\<lambda>r. (fst r, Some v)) db"

definition upsert_token :: "app_config \<Rightarrow> string \<Rightarrow> app_config" where
  "upsert_token db token = upsert_config db ADMIN_TOKEN_KEY token"

definition ensure_admin_token :: "app_config \<Rightarrow> string option \<Rightarrow> string \<Rightarrow> app_config \<times> string" where
  "ensure_admin_token db env_override fresh =
     (case env_override of
        Some tok \<Rightarrow> (upsert_token db tok, tok)
      | None \<Rightarrow>
          (case fetch_token db of
             Some existing \<Rightarrow>
               if existing \<noteq> [] then (db, existing) else (upsert_token db fresh, fresh)
           | None \<Rightarrow> (upsert_token db fresh, fresh)))"

text \<open>The third component says whether the banner with the token is printed.\<close>

definition ensure_and_announce_admin_token ::
  "app_config \<Rightarrow> string option \<Rightarrow> string \<Rightarrow> app_config \<times> string \<times> bool" where
  "ensure_and_announce_admin_token db env_override fresh =
     (let is_first_run =
            (env_override = None \<and> (case fetch_token db of None \<Rightarrow> True | Some v \<Rightarrow> v = []));
          (db', token) = ensure_admin_token db env_override fresh in
      (db', token, is_first_run))"

section \<open>The runtime configuration\<close>

record runtime_config =
  fanout_depth :: "nat option"
  search_rate_limit_per_minute :: "32 word option"
  crawl_default_recrawl_interval_secs :: "nat option"
  crawl_politeness_delay_ms :: "nat option"
  max_concurrent_crawls :: "nat option"

definition default_runtime_config :: runtime_config where
  "default_runtime_config =
     \<lparr>fanout_depth = None, search_rate_limit_per_minute = None,
      crawl_default_recrawl_interval_secs = None, crawl_politeness_delay_ms = None,
      max_concurrent_crawls = None\<rparr>"

definition RUNTIME_CONFIG_KEY :: string where "RUNTIME_CONFIG_KEY = ''runtime_config''"

text \<open>
  A body has the fields of \<open>RuntimeConfig\<close>, each optional. \<open>limit_now\<close> is the limit of the running
  rate limiter, \<open>poisoned\<close> whether the database mutex is poisoned. The configuration and the limiter
  change before the database is tried.
\<close>

definition or_else :: "'a option \<Rightarrow> 'a option \<Rightarrow> 'a option" where
  "or_else a b = (case a of None \<Rightarrow> b | Some x \<Rightarrow> Some x)"

definition patch_config :: "runtime_config \<Rightarrow> runtime_config \<Rightarrow> runtime_config" where
  "patch_config body cfg =
     \<lparr>fanout_depth = or_else (fanout_depth body) (fanout_depth cfg),
      search_rate_limit_per_minute =
        or_else (search_rate_limit_per_minute body) (search_rate_limit_per_minute cfg),
      crawl_default_recrawl_interval_secs =
        or_else (crawl_default_recrawl_interval_secs body) (crawl_default_recrawl_interval_secs cfg),
      crawl_politeness_delay_ms =
        or_else (crawl_politeness_delay_ms body) (crawl_politeness_delay_ms cfg),
      max_concurrent_crawls =
        or_else (max_concurrent_crawls body) (max_concurrent_crawls cfg)\<rparr>"

record config_state =
  cs_runtime :: runtime_config
  cs_limit :: "32 word"
  cs_db :: app_config

definition put_config ::
  "(runtime_config \<Rightarrow> string db_result) \<Rightarrow> bool \<Rightarrow> config_state \<Rightarrow> runtime_config \<Rightarrow>
   config_state \<times> runtime_config http_result" where
  "put_config to_json poisoned st body =
     (let snapshot = patch_config body (cs_runtime st);
          st1 = st\<lparr>cs_runtime := snapshot,
                   cs_limit := (case search_rate_limit_per_minute body of
                                  None \<Rightarrow> cs_limit st | Some l \<Rightarrow> l)\<rparr> in
      case to_json snapshot of
        Inl e \<Rightarrow> (st1, Inl (500, DbText e))
      | Inr json \<Rightarrow>
          if poisoned then (st1, Inl db_mutex_poisoned)
          else (st1\<lparr>cs_db := upsert_config (cs_db st) RUNTIME_CONFIG_KEY json\<rparr>, Inr snapshot))"

definition get_config :: "config_state \<Rightarrow> runtime_config" where
  "get_config st = cs_runtime st"

definition load_from_db :: "(string \<Rightarrow> runtime_config option) \<Rightarrow> app_config \<Rightarrow> runtime_config" where
  "load_from_db of_json db =
     (case (case find_by fst RUNTIME_CONFIG_KEY db of None \<Rightarrow> None | Some r \<Rightarrow> snd r) of
        None \<Rightarrow> default_runtime_config
      | Some json \<Rightarrow> option_or default_runtime_config (of_json json))"

section \<open>Both tables are keyed stores\<close>

interpretation settings_store: keyed_store "\<lambda>db k. find_by fst k db" settings_set "\<lambda>k v _. (k, v)"
  by unfold_locales
    (auto simp: settings_set_def find_by_upsert_row dest!: find_by_SomeD split: option.splits)

interpretation app_config_store: keyed_store "\<lambda>db k. find_by fst k db" upsert_config
  "\<lambda>k v _. (k, Some v)"
  by unfold_locales
    (auto simp: upsert_config_def find_by_upsert_row dest!: find_by_SomeD split: option.splits)

lemma settings_get_set: "settings_get (settings_set db k v) k' = (if k' = k then Some v else settings_get db k')"
  by (simp add: settings_get_def settings_store.get_put)

lemma settings_token_stable:
  assumes "settings_ensure_admin_token db explicit fresh = (db', tok, first)"
  shows "settings_ensure_admin_token db' None fresh' = (db', tok, False)"
  using assms by (auto simp: settings_ensure_admin_token_def settings_get_set split: option.splits)

lemma generate_token_alphabet:
  assumes "\<And>i. i < 48 \<Longrightarrow> draw i < length TOKEN_ALPHABET"
  shows "length (generate_token draw) = 48 \<and> set (generate_token draw) \<subseteq> set TOKEN_ALPHABET"
  using assms by (auto simp: generate_token_def)

lemma fetch_token_upsert [simp]: "fetch_token (upsert_token db t) = Some t"
  by (simp add: fetch_token_def upsert_token_def)

lemma keys_differ: "RUNTIME_CONFIG_KEY \<noteq> ADMIN_TOKEN_KEY"
  by (simp add: RUNTIME_CONFIG_KEY_def ADMIN_TOKEN_KEY_def)

lemma fetch_token_other: "k \<noteq> ADMIN_TOKEN_KEY \<Longrightarrow> fetch_token (upsert_config db k v) = fetch_token db"
  by (simp add: fetch_token_def)

lemma load_from_db_upsert_token: "load_from_db of_json (upsert_token db t) = load_from_db of_json db"
  using keys_differ by (simp add: load_from_db_def upsert_token_def)

lemma or_else_simps [simp]: "or_else (Some x) b = Some x" "or_else None b = b"
  by (simp_all add: or_else_def)

lemma or_else_assoc: "or_else a (or_else b c) = or_else (or_else a b) c"
  by (simp add: or_else_def split: option.splits)

lemma patch_config_empty [simp]: "patch_config default_runtime_config cfg = cfg"
  by (simp add: patch_config_def default_runtime_config_def)

text \<open>Patches compose: two requests in a row are one with the later fields winning.\<close>

lemma patch_config_twice: "patch_config b2 (patch_config b1 cfg) = patch_config (patch_config b2 b1) cfg"
  by (simp add: patch_config_def or_else_assoc)

section \<open>Properties\<close>

text \<open>The admin token is settled at start-up. Whatever the table holds, the call returns a token that
  is stored from then on: starting again without an override returns the same token, changes nothing and
  prints no banner, unless the stored token is empty.\<close>

theorem admin_token_stable:
  assumes "ensure_and_announce_admin_token db env fresh = (db', tok, banner)" and "tok \<noteq> []"
  shows "ensure_and_announce_admin_token db' None fresh' = (db', tok, False) \<and>
    fetch_token db' = Some tok \<and> (banner \<longleftrightarrow> env = None \<and> (fetch_token db = None \<or> fetch_token db = Some []))"
  using assms
  by (auto simp: ensure_and_announce_admin_token_def ensure_admin_token_def Let_def
      split: option.splits if_splits)

theorem admin_token_stable_witness:
  "ensure_and_announce_admin_token [(ADMIN_TOKEN_KEY, Some ''tok'')] None ''y'' =
     ([(ADMIN_TOKEN_KEY, Some ''tok'')], ''tok'', False) \<and>
   fetch_token [(ADMIN_TOKEN_KEY, Some ''tok'')] = Some ''tok''"
proof -
  have "ensure_and_announce_admin_token [] None ''tok'' =
      ([(ADMIN_TOKEN_KEY, Some ''tok'')], ''tok'', True)"
    by (simp add: ensure_and_announce_admin_token_def ensure_admin_token_def fetch_token_def
        upsert_token_def upsert_config_def upsert_row_def)
  from admin_token_stable [OF this, of "''y''"] show ?thesis by simp
qed

text \<open>A change of the runtime configuration survives a restart. After a successful PUT the limiter
  has the new limit, loading from the database gives exactly the configuration the answer showed, fields
  the body left out keep their values, and the admin token is untouched.\<close>

theorem put_config_persists:
  assumes "put_config to_json False st body = (st', Inr cfg)"
    and "\<And>json. to_json cfg = Inr json \<Longrightarrow> of_json json = Some cfg"
  shows "load_from_db of_json (cs_db st') = cfg \<and> get_config st' = cfg \<and>
    cfg = patch_config body (cs_runtime st) \<and> fetch_token (cs_db st') = fetch_token (cs_db st) \<and>
    cs_limit st' = (case search_rate_limit_per_minute body of None \<Rightarrow> cs_limit st | Some l \<Rightarrow> l)"
proof -
  let ?p = "patch_config body (cs_runtime st)"
  obtain json where json: "to_json ?p = Inr json"
    using assms(1) by (cases "to_json ?p") (simp_all add: put_config_def Let_def)
  have cfg: "cfg = ?p" and st': "cs_db st' = upsert_config (cs_db st) RUNTIME_CONFIG_KEY json"
    and rest: "cs_runtime st' = ?p"
      "cs_limit st' = (case search_rate_limit_per_minute body of None \<Rightarrow> cs_limit st | Some l \<Rightarrow> l)"
    using assms(1) json by (auto simp: put_config_def Let_def)
  have "load_from_db of_json (cs_db st') = cfg"
    using assms(2) [unfolded cfg, OF json] by (simp add: load_from_db_def st' cfg)
  moreover have "fetch_token (cs_db st') = fetch_token (cs_db st)"
    unfolding st' by (rule fetch_token_other [OF keys_differ])
  ultimately show ?thesis using rest cfg by (simp add: get_config_def)
qed

theorem put_config_persists_witness:
  "load_from_db (\<lambda>_. Some (default_runtime_config\<lparr>fanout_depth := Some 2\<rparr>))
     [(RUNTIME_CONFIG_KEY, Some ''j'')] = default_runtime_config\<lparr>fanout_depth := Some 2\<rparr>"
proof -
  let ?cfg = "default_runtime_config\<lparr>fanout_depth := Some 2\<rparr>"
  have "put_config (\<lambda>_. Inr ''j'') False
      \<lparr>cs_runtime = default_runtime_config, cs_limit = 30, cs_db = []\<rparr> ?cfg =
      (\<lparr>cs_runtime = ?cfg, cs_limit = 30, cs_db = [(RUNTIME_CONFIG_KEY, Some ''j'')]\<rparr>, Inr ?cfg)"
    by (simp add: put_config_def patch_config_def default_runtime_config_def Let_def
        upsert_config_def upsert_row_def)
  from put_config_persists [OF this, of "\<lambda>_. Some ?cfg"] show ?thesis by simp
qed

end
