(* ===== verification/Config.thy ===== *)
theory Config
  imports Rust_Text
begin

text \<open>
  \<open>config.rs\<close>: the configuration read from the process environment. \<open>env\<close> is \<open>std::env::var(..).ok()\<close>
  (a variable that is set to text), \<open>pkg_version\<close> the package version the build substitutes. Paths are
  their texts.
\<close>

record config =
  bind_addr :: string
  port :: nat
  data_dir :: string
  admin_token :: "string option"
  index_path :: string
  max_index_bytes :: nat
  crawler_user_agent :: string
  crawler_request_timeout_ms :: nat
  crawler_politeness_delay_ms :: nat
  crawler_max_concurrent_domains :: nat
  peer_rate_limit_per_minute :: nat
  self_url :: string
  self_name :: string
  self_description :: string
  gossip_sync_interval_secs :: nat

type_synonym environment = "string \<Rightarrow> string option"

text \<open>\<open>PathBuf::join\<close>: an absolute path replaces, a missing separator is added.\<close>

definition path_join :: "string \<Rightarrow> string \<Rightarrow> string" where
  "path_join a b =
     (if starts_with ''/'' b then b
      else if a = [] \<or> ends_with ''/'' a then a @ b
      else a @ ''/'' @ b)"

definition env_or :: "environment \<Rightarrow> string \<Rightarrow> string \<Rightarrow> string" where
  "env_or env name d = option_or d (env name)"

definition nonempty :: "string option \<Rightarrow> string option" where
  "nonempty v = (case v of None \<Rightarrow> None | Some s \<Rightarrow> if s = [] then None else Some s)"

definition env_uint :: "environment \<Rightarrow> nat \<Rightarrow> string \<Rightarrow> nat \<Rightarrow> nat" where
  "env_uint env bits name d =
     (case env name of None \<Rightarrow> d | Some v \<Rightarrow> option_or d (parse_uint (2 ^ bits) v))"

definition default_user_agent :: "string \<Rightarrow> environment \<Rightarrow> string" where
  "default_user_agent pkg_version env =
     (let contact_url =
            (case nonempty (env ''COMMUNITY_SEARCH_CRAWLER_CONTACT_URL'') of
               Some u \<Rightarrow> Some u
             | None \<Rightarrow> nonempty (Some (env_or env ''SELF_URL'' []))) in
      case contact_url of
        Some url \<Rightarrow> ''community-search/'' @ pkg_version @ '' (+'' @ url @ ''; bot)''
      | None \<Rightarrow> ''community-search/'' @ pkg_version @ '' (bot)'')"

datatype config_error = InvalidPort | DotenvError

definition from_env_only :: "string \<Rightarrow> environment \<Rightarrow> config_error + config" where
  "from_env_only pkg_version env =
     (case parse_uint (2 ^ 16) (env_or env ''COMMUNITY_SEARCH_PORT'' ''8080'') of
        None \<Rightarrow> Inl InvalidPort
      | Some p \<Rightarrow> Inr
          \<lparr>bind_addr = env_or env ''COMMUNITY_SEARCH_BIND_ADDR'' ''127.0.0.1'',
           port = p,
           data_dir = env_or env ''COMMUNITY_SEARCH_DATA_DIR'' ''./data'',
           admin_token = nonempty (env ''COMMUNITY_SEARCH_ADMIN_TOKEN''),
           index_path =
             (case env ''COMMUNITY_SEARCH_INDEX_PATH'' of
                Some path \<Rightarrow> path
              | None \<Rightarrow>
                  path_join (path_join (env_or env ''HOME'' ''.'') ''.community-search'') ''index''),
           max_index_bytes = env_uint env 64 ''COMMUNITY_SEARCH_MAX_INDEX_BYTES'' 10737418240,
           crawler_user_agent =
             (case env ''COMMUNITY_SEARCH_CRAWLER_USER_AGENT'' of
                Some ua \<Rightarrow> ua | None \<Rightarrow> default_user_agent pkg_version env),
           crawler_request_timeout_ms =
             env_uint env 64 ''COMMUNITY_SEARCH_CRAWLER_REQUEST_TIMEOUT_MS'' 30000,
           crawler_politeness_delay_ms =
             env_uint env 64 ''COMMUNITY_SEARCH_CRAWLER_POLITENESS_DELAY_MS'' 250,
           crawler_max_concurrent_domains =
             env_uint env 64 ''COMMUNITY_SEARCH_CRAWLER_MAX_CONCURRENT_DOMAINS'' 4,
           peer_rate_limit_per_minute =
             env_uint env 32 ''COMMUNITY_SEARCH_PEER_RATE_LIMIT_PER_MINUTE'' 120,
           self_url = env_or env ''SELF_URL'' [],
           self_name = env_or env ''SELF_NAME'' [],
           self_description = env_or env ''SELF_DESCRIPTION'' [],
           gossip_sync_interval_secs = env_uint env 64 ''GOSSIP_SYNC_INTERVAL_SECS'' 86400\<rparr>)"

text \<open>\<open>dotenvy::dotenv()\<close> either merges a file into the environment, finds no file, or fails.\<close>

datatype dotenv_result = DotenvLoaded environment | DotenvNotFound | DotenvFailed

definition load :: "string \<Rightarrow> dotenv_result \<Rightarrow> environment \<Rightarrow> config_error + config" where
  "load pkg_version dotenv env =
     (case dotenv of
        DotenvLoaded env' \<Rightarrow> from_env_only pkg_version env'
      | DotenvNotFound \<Rightarrow> from_env_only pkg_version env
      | DotenvFailed \<Rightarrow> Inl DotenvError)"

section \<open>Facts\<close>

lemma env_uint_bound: "d < 2 ^ bits \<Longrightarrow> env_uint env bits name d < 2 ^ bits"
  by (auto simp: env_uint_def dest: parse_uint_less split: option.splits)
    (metis option.exhaust option_or_simps parse_uint_less)

lemma path_join_relative: "\<not> starts_with ''/'' b \<Longrightarrow> \<exists>p. path_join a b = p @ b"
  by (auto simp: path_join_def)

lemma env_uint_set:
  "n < 2 ^ bits \<Longrightarrow> env name = Some (show_nat n) \<Longrightarrow> env_uint env bits name d = n"
  by (simp add: env_uint_def parse_uint_show_nat)

lemma default_user_agent_shape:
  "\<exists>rest. default_user_agent v env = ''community-search/'' @ v @ rest"
  by (auto simp: default_user_agent_def Let_def split: option.splits)

lemma parse_uint_8080: "parse_uint (2 ^ 16) ''8080'' = Some 8080"
  by (simp add: parse_uint_def digit_value_def Let_def)

section \<open>Properties\<close>

text \<open>Only a bad port stops the program from configuring itself. The configuration is an error exactly
  when \<open>COMMUNITY_SEARCH_PORT\<close> is set to a text that is not a 16-bit number; in every other case each number
  of the configuration is in the range of its type, the port is the one given, the admin token is never the
  empty text and the user agent is the given one or names this program.\<close>

theorem from_env_only_total:
  "(from_env_only v env = Inl InvalidPort \<longleftrightarrow>
      (\<exists>s. env ''COMMUNITY_SEARCH_PORT'' = Some s \<and> parse_uint (2 ^ 16) s = None)) \<and>
   (from_env_only v env \<noteq> Inl InvalidPort \<longleftrightarrow>
      (\<exists>c. from_env_only v env = Inr c \<and> port c < 2 ^ 16 \<and>
         port c = (case env ''COMMUNITY_SEARCH_PORT'' of
                     None \<Rightarrow> 8080 | Some s \<Rightarrow> the (parse_uint (2 ^ 16) s)) \<and>
         admin_token c \<noteq> Some [] \<and> max_index_bytes c < 2 ^ 64 \<and>
         crawler_politeness_delay_ms c < 2 ^ 64 \<and> peer_rate_limit_per_minute c < 2 ^ 32 \<and>
         (env ''COMMUNITY_SEARCH_CRAWLER_USER_AGENT'' = Some (crawler_user_agent c) \<or>
          (\<exists>rest. crawler_user_agent c = ''community-search/'' @ v @ rest))))"
proof (cases "parse_uint (2 ^ 16) (env_or env ''COMMUNITY_SEARCH_PORT'' ''8080'')")
  case None
  note d = parse_uint_8080
  with None have "\<exists>s. env ''COMMUNITY_SEARCH_PORT'' = Some s \<and> parse_uint (2 ^ 16) s = None"
    by (cases "env ''COMMUNITY_SEARCH_PORT''") (simp_all add: env_or_def)
  with None show ?thesis by (simp add: from_env_only_def)
next
  case (Some p)
  note d = parse_uint_8080
  obtain c where c: "from_env_only v env = Inr c" and "port c = p"
    and rest: "admin_token c = nonempty (env ''COMMUNITY_SEARCH_ADMIN_TOKEN'')"
      "max_index_bytes c = env_uint env 64 ''COMMUNITY_SEARCH_MAX_INDEX_BYTES'' 10737418240"
      "crawler_politeness_delay_ms c =
         env_uint env 64 ''COMMUNITY_SEARCH_CRAWLER_POLITENESS_DELAY_MS'' 250"
      "peer_rate_limit_per_minute c =
         env_uint env 32 ''COMMUNITY_SEARCH_PEER_RATE_LIMIT_PER_MINUTE'' 120"
      "crawler_user_agent c = (case env ''COMMUNITY_SEARCH_CRAWLER_USER_AGENT'' of
         Some ua \<Rightarrow> ua | None \<Rightarrow> default_user_agent v env)"
    unfolding from_env_only_def Some by simp
  moreover have "port c = (case env ''COMMUNITY_SEARCH_PORT'' of
      None \<Rightarrow> 8080 | Some s \<Rightarrow> the (parse_uint (2 ^ 16) s))"
    using Some d \<open>port c = p\<close>
    by (cases "env ''COMMUNITY_SEARCH_PORT''") (simp_all add: env_or_def)
  moreover have "port c < 2 ^ 16" using parse_uint_less [OF Some] \<open>port c = p\<close> by simp
  moreover have "admin_token c \<noteq> Some []" by (simp add: rest(1) nonempty_def split: option.splits)
  moreover have "max_index_bytes c < 2 ^ 64" "crawler_politeness_delay_ms c < 2 ^ 64"
    "peer_rate_limit_per_minute c < 2 ^ 32"
    unfolding rest by (rule env_uint_bound; simp)+
  moreover have "env ''COMMUNITY_SEARCH_CRAWLER_USER_AGENT'' = Some (crawler_user_agent c) \<or>
      (\<exists>rest. crawler_user_agent c = ''community-search/'' @ v @ rest)"
    using default_user_agent_shape [of v env] by (simp add: rest(5) split: option.splits)
  moreover have "\<not> (\<exists>s. env ''COMMUNITY_SEARCH_PORT'' = Some s \<and> parse_uint (2 ^ 16) s = None)"
    using Some by (auto simp: env_or_def)
  ultimately show ?thesis by simp
qed

end
