(* ===== verification/Url_Class.thy ===== *)
theory Url_Class
  imports Rust_Text
begin

text \<open>
  \<open>crawler/url_class.rs\<close> and \<open>crawler/canonical.rs\<close>: canonical forms of URLs, prefix membership, hosts and
  the outlink blacklist. A parsed URL is the record of the components that the accessors of the \<open>url\<close>
  crate's \<open>Url\<close> return; its parser, printer, reference resolution and the form codec of the query are the
  functions of the record \<open>url_lib\<close>, which every definition that uses them takes as an argument.
\<close>

section \<open>URLs\<close>

record url =
  scheme :: string
  username :: string
  password :: "string option"
  host :: "string option"
  url_port :: "nat option"
  path :: string
  query :: "string option"
  fragment :: "string option"

record url_lib =
  parse_url :: "string \<Rightarrow> url option"
  url_text :: "url \<Rightarrow> string"
  join_url :: "url \<Rightarrow> string \<Rightarrow> url option"
  form_parse :: "string \<Rightarrow> (string \<times> string) list"
  form_text :: "(string \<times> string) list \<Rightarrow> string"

definition TRACKING_PARAMS :: "string list" where
  "TRACKING_PARAMS =
     [''utm_source'', ''utm_medium'', ''utm_campaign'', ''utm_term'', ''utm_content'',
      ''utm_id'', ''utm_name'', ''utm_reader'', ''utm_referrer'', ''gclid'', ''dclid'', ''_ga'',
      ''fbclid'', ''msclkid'', ''li_fat_id'', ''yclid'', ''ttclid'', ''mc_cid'', ''mc_eid'',
      ''_hsenc'', ''_hsmi'', ''__hssc'', ''__hstc'', ''hsCtaTracking'', ''ref'', ''ref_src'',
      ''ref_url'', ''igshid'', ''oly_anon_id'', ''oly_enc_id'', ''wickedid'', ''guce_referrer'']"

definition is_tracking_param :: "string \<Rightarrow> bool" where
  "is_tracking_param name \<longleftrightarrow> list_ex (\<lambda>p. eq_ignore_ascii_case p name) TRACKING_PARAMS"

text \<open>
  The parameters that survive, in their canonical order: \<open>kept\<close> of \<open>normalize_url\<close> (the sort of Rust's
  \<open>sort_by\<close> is stable).
\<close>

definition kept_params :: "(string \<times> string) list \<Rightarrow> (string \<times> string) list" where
  "kept_params ps = sort_key fst (filter (\<lambda>(k, v). \<not> is_tracking_param k) ps)"

definition drop_default_port :: "url \<Rightarrow> url" where
  "drop_default_port u =
     (case url_port u of
        None \<Rightarrow> u
      | Some p \<Rightarrow>
          if (scheme u = ''http'' \<and> p = 80) \<or> (scheme u = ''https'' \<and> p = 443)
          then u\<lparr>url_port := None\<rparr> else u)"

definition rewrite_query :: "url_lib \<Rightarrow> url \<Rightarrow> url" where
  "rewrite_query L u =
     (case query u of
        None \<Rightarrow> u
      | Some q \<Rightarrow>
          (let kept = kept_params (form_parse L q) in
           if kept = [] then u\<lparr>query := None\<rparr> else u\<lparr>query := Some (form_text L kept)\<rparr>))"

definition canonical_url :: "url_lib \<Rightarrow> url \<Rightarrow> url" where
  "canonical_url L u =
     rewrite_query L (drop_default_port (u\<lparr>fragment := None, username := [], password := None\<rparr>))"

definition normalize_url :: "url_lib \<Rightarrow> string \<Rightarrow> string option" where
  "normalize_url L input = map_option (\<lambda>u. url_text L (canonical_url L u)) (parse_url L input)"

definition strip_leading_www :: "string \<Rightarrow> string" where
  "strip_leading_www normalized_url = replacen1 ''://www.'' ''://'' normalized_url"

definition is_in_prefix :: "url_lib \<Rightarrow> string \<Rightarrow> string \<Rightarrow> bool" where
  "is_in_prefix L u pfx =
     (case normalize_url L u of
        None \<Rightarrow> False
      | Some n_url \<Rightarrow>
          (case normalize_url L pfx of
             None \<Rightarrow> False
           | Some n_prefix \<Rightarrow>
               starts_with (strip_leading_www n_prefix) (strip_leading_www n_url)))"

definition BLACKLISTED_OUTLINK_HOSTS :: "string list" where
  "BLACKLISTED_OUTLINK_HOSTS =
     [''bufferapp.com'', ''buffer.com'', ''facebook.com'', ''fb.com'', ''instagram.com'',
      ''linkedin.com'', ''mix.com'', ''odnoklassniki.ru'', ''ok.ru'', ''pinterest.com'',
      ''reddit.com'', ''t.co'', ''threads.net'', ''tiktok.com'', ''tumblr.com'', ''twitter.com'',
      ''vk.com'', ''whatsapp.com'', ''x.com'', ''xing.com'', ''fbcdn.net'', ''giphy.com'',
      ''googleusercontent.com'', ''gravatar.com'', ''imgur.com'', ''substackcdn.com'',
      ''twimg.com'', ''wp.com'', ''youtube.com'', ''youtu.be'']"

definition host_of :: "url_lib \<Rightarrow> string \<Rightarrow> string option" where
  "host_of L s =
     (case parse_url L s of
        None \<Rightarrow> None
      | Some parsed \<Rightarrow>
          (case host parsed of
             None \<Rightarrow> None
           | Some h \<Rightarrow>
               (let l = to_ascii_lowercase h in Some (option_or l (strip_prefix ''www.'' l)))))"

definition is_blacklisted_outlink_host :: "url_lib \<Rightarrow> string \<Rightarrow> bool" where
  "is_blacklisted_outlink_host L s =
     (case parse_url L s of
        None \<Rightarrow> False
      | Some parsed \<Rightarrow>
          (case host parsed of
             None \<Rightarrow> False
           | Some h \<Rightarrow>
               list_ex (\<lambda>target. to_ascii_lowercase h = target \<or>
                   ends_with (''.'' @ target) (to_ascii_lowercase h)) BLACKLISTED_OUTLINK_HOSTS))"

section \<open>Detecting the canonical form of a crawl target\<close>

text \<open>
  The outcome of the client's GET: the final URL after redirects and the status, or \<open>None\<close> when the client
  cannot be built or the request fails.
\<close>

definition paths_equivalent :: "string \<Rightarrow> string \<Rightarrow> bool" where
  "paths_equivalent a b =
     (a = b \<or> option_or a (strip_suffix ''/'' a) = option_or b (strip_suffix ''/'' b))"

definition detect_canonical_prefix ::
  "url_lib \<Rightarrow> (string \<Rightarrow> (url \<times> nat) option) \<Rightarrow> string \<Rightarrow> string option" where
  "detect_canonical_prefix L http_get input =
     (case parse_url L input of
        None \<Rightarrow> None
      | Some input_url \<Rightarrow>
          (case http_get input of
             None \<Rightarrow> None
           | Some (final_url, status) \<Rightarrow>
               if \<not> (200 \<le> status \<and> status < 300) then None
               else if url_text L final_url = url_text L input_url then None
               else if \<not> paths_equivalent (path input_url) (path final_url) then None
               else normalize_url L (url_text L final_url)))"

section \<open>Facts\<close>

lemma kept_params_idem [simp]: "kept_params (kept_params ps) = kept_params ps"
proof -
  have "filter (\<lambda>(k, v). \<not> is_tracking_param k) (kept_params ps) = kept_params ps"
    unfolding kept_params_def by (rule filter_True) auto
  moreover have "sort_key fst (kept_params ps) = kept_params ps"
    unfolding kept_params_def by (rule sort_key_id_if_sorted) simp
  ultimately show ?thesis by (simp add: kept_params_def)
qed

lemma kept_params_no_tracking: "(k, v) \<in> set (kept_params ps) \<Longrightarrow> \<not> is_tracking_param k"
  by (auto simp: kept_params_def)

lemma kept_params_perm:
  assumes "mset ps = mset qs" and "distinct (map fst ps)"
  shows "kept_params ps = kept_params qs"
proof -
  let ?f = "filter (\<lambda>(k, v). \<not> is_tracking_param k)"
  have "distinct (map fst (?f ps))" using assms(2) by (rule distinct_map_filter)
  then have "inj_on fst (set (?f ps))" by (simp add: distinct_map)
  moreover have "mset (?f ps) = mset (?f qs)" using assms(1) by simp
  ultimately show ?thesis unfolding kept_params_def by (intro sort_key_unique)
qed

lemma drop_default_port_idem [simp]: "drop_default_port (drop_default_port u) = drop_default_port u"
  by (auto simp: drop_default_port_def split: option.splits)

definition effective_port :: "string \<Rightarrow> nat option \<Rightarrow> nat option" where
  "effective_port s p =
     (if s = ''http'' \<and> p = Some 80 \<or> s = ''https'' \<and> p = Some 443 then None else p)"

definition effective_query :: "url_lib \<Rightarrow> string option \<Rightarrow> string option" where
  "effective_query L q =
     (case q of
        None \<Rightarrow> None
      | Some q \<Rightarrow>
          (if kept_params (form_parse L q) = [] then None
           else Some (form_text L (kept_params (form_parse L q)))))"

lemma canonical_url_eq:
  "canonical_url L u =
     \<lparr>scheme = scheme u, username = [], password = None, host = host u,
      url_port = effective_port (scheme u) (url_port u), path = path u,
      query = effective_query L (query u), fragment = None\<rparr>"
  by (cases u) (auto simp: canonical_url_def rewrite_query_def drop_default_port_def Let_def
      effective_port_def effective_query_def split: option.splits)

lemma effective_port_idem [simp]: "effective_port s (effective_port s p) = effective_port s p"
  by (simp add: effective_port_def)

text \<open>The form codec reads back the parameters it wrote for this query.\<close>

definition form_roundtrip :: "url_lib \<Rightarrow> string option \<Rightarrow> bool" where
  "form_roundtrip L q =
     (case q of
        None \<Rightarrow> True
      | Some q \<Rightarrow>
          form_parse L (form_text L (kept_params (form_parse L q))) = kept_params (form_parse L q))"

lemma effective_query_idem:
  assumes "form_roundtrip L q"
  shows "effective_query L (effective_query L q) = effective_query L q"
  using assms by (cases q) (simp_all add: effective_query_def form_roundtrip_def)

lemma canonical_url_parts:
  "fragment (canonical_url L u) = None" "username (canonical_url L u) = []"
  "password (canonical_url L u) = None" "host (canonical_url L u) = host u"
  "scheme (canonical_url L u) = scheme u" "path (canonical_url L u) = path u"
  by (simp_all add: canonical_url_eq)

lemma canonical_url_idem:
  "form_roundtrip L (query u) \<Longrightarrow> canonical_url L (canonical_url L u) = canonical_url L u"
  by (simp add: canonical_url_eq effective_query_idem)

lemma is_in_prefix_iff:
  "is_in_prefix L u p \<longleftrightarrow> (\<exists>nu np. normalize_url L u = Some nu \<and> normalize_url L p = Some np \<and>
     starts_with (strip_leading_www np) (strip_leading_www nu))"
  by (auto simp: is_in_prefix_def split: option.splits)

lemma is_in_prefix_refl: "normalize_url L u \<noteq> None \<Longrightarrow> is_in_prefix L u u"
  by (auto simp: is_in_prefix_iff starts_with_iff)

lemma is_in_prefix_trans: "is_in_prefix L a b \<Longrightarrow> is_in_prefix L b c \<Longrightarrow> is_in_prefix L a c"
  by (auto simp: is_in_prefix_iff intro: starts_with_trans)

lemma is_in_prefix_parses: "is_in_prefix L u p \<Longrightarrow> parse_url L u \<noteq> None"
  by (auto simp: is_in_prefix_iff normalize_url_def)

lemma paths_equivalent_sym: "paths_equivalent a b \<longleftrightarrow> paths_equivalent b a"
  by (auto simp: paths_equivalent_def)

lemma strip_slash_cases:
  "option_or a (strip_suffix ''/'' a) = b \<longleftrightarrow> a = b @ ''/'' \<or> a = b \<and> \<not> ends_with ''/'' a"
  by (auto simp: strip_suffix_def ends_with_iff)

lemma paths_equivalent_iff:
  "paths_equivalent a b \<longleftrightarrow>
     a = b \<or> a = b @ ''/'' \<and> \<not> ends_with ''/'' b \<or> b = a @ ''/'' \<and> \<not> ends_with ''/'' a"
  by (auto simp: paths_equivalent_def strip_suffix_def ends_with_iff)

lemma replacen1_none: "str_find p s = None \<Longrightarrow> replacen1 p r s = s"
  by (simp add: replacen1_def)

text \<open>
  When the host has no \<open>www.\<close> but the path contains \<open>://www.\<close>, the replacement reaches the path: the text is
  not left alone.
\<close>

lemma strip_leading_www_reaches_path:
  "strip_leading_www ''https://a.com/r/http://www.b.com/'' = ''https://a.com/r/http://b.com/''"
  by (simp add: strip_leading_www_def replacen1_def)

lemma is_blacklisted_iff:
  "is_blacklisted_outlink_host L s \<longleftrightarrow>
     (\<exists>u h target. parse_url L s = Some u \<and> host u = Some h \<and>
        target \<in> set BLACKLISTED_OUTLINK_HOSTS \<and>
        (to_ascii_lowercase h = target \<or> (\<exists>sub. to_ascii_lowercase h = sub @ ''.'' @ target)))"
  by (auto simp: is_blacklisted_outlink_host_def list_ex_iff ends_with_iff split: option.splits)

section \<open>Properties\<close>


definition sample_url :: "string \<Rightarrow> string option \<Rightarrow> url" where
  "sample_url q frag =
     \<lparr>scheme = ''https'', username = [], password = None, host = Some ''a.com'', url_port = None,
      path = ''/'', query = Some q, fragment = frag\<rparr>"

definition sample_lib :: url_lib where
  "sample_lib =
     \<lparr>parse_url = (\<lambda>s. if s = ''https://a.com/?q=1&ref=x'' then Some (sample_url ''q=1&ref=x'' None)
                    else if s = ''https://a.com/?ref=x&q=1'' then Some (sample_url ''ref=x&q=1'' (Some ''f''))
                    else if s = ''https://a.com/?q=1'' then Some (sample_url ''q=1'' None) else None),
      url_text = (\<lambda>_. ''https://a.com/?q=1''),
      join_url = (\<lambda>u _. Some u),
      form_parse = (\<lambda>q. if q = ''q=1'' then [(''q'', ''1'')]
                     else if q = ''q=1&ref=x'' then [(''q'', ''1''), (''ref'', ''x'')]
                     else [(''ref'', ''x''), (''q'', ''1'')]),
      form_text = (\<lambda>_. ''q=1'')\<rparr>"

lemma sample_tracking: "is_tracking_param ''ref''" "\<not> is_tracking_param ''q''"
  by (simp_all add: is_tracking_param_def TRACKING_PARAMS_def eq_ignore_ascii_case_def
      to_ascii_lowercase_def ascii_lower_def)


text \<open>Variants of one page collapse. Two URLs with the same scheme, host, port and path whose queries
  carry the same non-tracking parameters (each name once, in any order) normalise to the same text, whatever
  their fragments, credentials and tracking parameters; and an explicit default port makes no difference.\<close>

theorem normalize_url_dedups:
  assumes u: "parse_url L s = Some u" and v: "parse_url L s' = Some v"
    and same: "scheme u = scheme v" "host u = host v" "path u = path v"
      "effective_port (scheme u) (url_port u) = effective_port (scheme v) (url_port v)"
    and q: "query u = Some qu" "query v = Some qv"
    and params: "mset (filter (\<lambda>(k, _). \<not> is_tracking_param k) (form_parse L qu)) =
      mset (filter (\<lambda>(k, _). \<not> is_tracking_param k) (form_parse L qv))"
    and once: "distinct (map fst (filter (\<lambda>(k, _). \<not> is_tracking_param k) (form_parse L qu)))"
  shows "normalize_url L s = normalize_url L s'"
proof -
  let ?f = "filter (\<lambda>(k, v). \<not> is_tracking_param k)"
  have "inj_on fst (set (?f (form_parse L qu)))" using once by (simp add: distinct_map)
  with params have "kept_params (form_parse L qu) = kept_params (form_parse L qv)"
    unfolding kept_params_def by (rule sort_key_unique)
  then have "canonical_url L u = canonical_url L v"
    using same q by (simp add: canonical_url_eq effective_query_def)
  then show ?thesis by (simp add: normalize_url_def u v)
qed

theorem normalize_url_dedups_witness:
  "normalize_url sample_lib ''https://a.com/?q=1&ref=x'' =
   normalize_url sample_lib ''https://a.com/?ref=x&q=1''"
  by (rule normalize_url_dedups [where u = "sample_url ''q=1&ref=x'' None"
        and v = "sample_url ''ref=x&q=1'' (Some ''f'')" and qu = "''q=1&ref=x''"
        and qv = "''ref=x&q=1''"])
    (simp_all add: sample_lib_def sample_url_def sample_tracking)

end
