(* ===== verification/Tables.thy ===== *)
theory Tables
  imports Interfaces
begin

text \<open>
  The content tables and their repositories: \<open>db/collections.rs\<close>, \<open>db/crawl_targets.rs\<close>,
  \<open>db/crawled_pages.rs\<close>, over the schema of \<open>db/migrations/001_init.sql\<close>. A table is the list of its rows in
  rowid order; UNIQUE and FOREIGN KEY constraints are checks whose failure leaves the database as it was, and
  ON DELETE CASCADE is written out in \<open>delete_collections_where\<close> and \<open>delete_targets_where\<close>. Fresh UUIDs,
  timestamps and the AUTOINCREMENT number of a page are arguments. \<open>'j\<close> is the type of the JSON texts of
  the outlink queue, whose operations are in the theory Outlinks.
\<close>

section \<open>Rows\<close>

record collection_row =
  c_rowid :: int
  c_id :: string
  c_name :: string
  c_description :: string
  c_created_at :: string
  c_updated_at :: string

record target_row =
  t_rowid :: int
  t_id :: string
  t_collection_id :: string
  t_url_prefix :: string
  t_recrawl_interval_s :: int
  t_recrawl_interval_secs :: int
  t_last_crawled_at :: "int option"
  t_enabled :: int
  t_created_at :: string
  t_crawl_delay_secs :: "int option"

record page_row =
  p_id :: int
  p_collection_id :: string
  p_crawl_target_id :: string
  p_url :: string
  p_etag :: "string option"
  p_last_modified :: "string option"
  p_content_hash :: "string option"
  p_last_status :: "int option"
  p_last_crawled_at :: int
  p_indexed_content_hash :: "string option"

record 'j outlink_row =
  o_rowid :: int
  o_id :: string
  o_collection_id :: string
  o_host :: string
  o_link_count :: int
  o_examples_json :: 'j
  o_first_seen_at :: int
  o_last_seen_at :: int
  o_status :: string
  o_promoted_target_id :: "int option"

record 'j content_db =
  collections :: "collection_row list"
  targets :: "target_row list"
  pages :: "page_row list"
  outlinks :: "'j outlink_row list"

definition page_key :: "page_row \<Rightarrow> string \<times> string" where
  "page_key r = (p_collection_id r, p_url r)"

definition target_key :: "target_row \<Rightarrow> string \<times> string" where
  "target_key r = (t_collection_id r, t_url_prefix r)"

definition outlink_key :: "'j outlink_row \<Rightarrow> string \<times> string" where
  "outlink_key r = (o_collection_id r, o_host r)"

section \<open>Cascading deletes\<close>

definition delete_targets_where :: "(target_row \<Rightarrow> bool) \<Rightarrow> 'j content_db \<Rightarrow> 'j content_db" where
  "delete_targets_where p db =
     (let gone = t_id ` set (filter p (targets db)) in
      db\<lparr>targets := delete_where p (targets db),
         pages := delete_where (\<lambda>r. p_crawl_target_id r \<in> gone) (pages db)\<rparr>)"

definition delete_collections_where ::
  "(collection_row \<Rightarrow> bool) \<Rightarrow> 'j content_db \<Rightarrow> 'j content_db" where
  "delete_collections_where p db =
     (let gone = c_id ` set (filter p (collections db));
          db1 = delete_targets_where (\<lambda>t. t_collection_id t \<in> gone) db in
      db1\<lparr>collections := delete_where p (collections db),
          pages := delete_where (\<lambda>r. p_collection_id r \<in> gone) (pages db1),
          outlinks := delete_where (\<lambda>r. o_collection_id r \<in> gone) (outlinks db)\<rparr>)"

section \<open>Collections\<close>

record collection_record =
  cr_id :: int
  cr_name :: string
  cr_description :: string
  cr_documents :: nat

definition record_of_collection :: "collection_row \<Rightarrow> collection_record" where
  "record_of_collection r =
     \<lparr>cr_id = c_rowid r, cr_name = c_name r, cr_description = c_description r, cr_documents = 0\<rparr>"

definition find_collection :: "int \<Rightarrow> 'j content_db \<Rightarrow> collection_row option" where
  "find_collection rowid db = find_by c_rowid rowid (collections db)"

definition query_collection :: "int \<Rightarrow> 'j content_db \<Rightarrow> collection_record db_result" where
  "query_collection rowid db =
     (case find_collection rowid db of
        None \<Rightarrow> Inl QueryReturnedNoRows | Some r \<Rightarrow> Inr (record_of_collection r))"

definition insert_collection ::
  "string \<Rightarrow> string \<Rightarrow> string \<Rightarrow> string \<Rightarrow> 'j content_db \<Rightarrow> ('j content_db \<times> int) db_result" where
  "insert_collection uuid name description ts db =
     (if uuid \<in> c_id ` set (collections db) then Inl (UniqueViolation ''collections.id'')
      else if name \<in> c_name ` set (collections db) then Inl (UniqueViolation ''collections.name'')
      else
        (let rowid = next_rowid (map c_rowid (collections db)) in
         Inr (db\<lparr>collections := collections db @
               [\<lparr>c_rowid = rowid, c_id = uuid, c_name = name, c_description = description,
                 c_created_at = ts, c_updated_at = ts\<rparr>]\<rparr>, rowid)))"

definition create_item ::
  "string \<Rightarrow> string \<Rightarrow> string \<Rightarrow> string \<Rightarrow> 'j content_db \<Rightarrow> 'j content_db \<times> collection_record db_result" where
  "create_item uuid ts name description db =
     (case insert_collection uuid name description ts db of
        Inl e \<Rightarrow> (db, Inl e)
      | Inr (db', rowid) \<Rightarrow> (db', query_collection rowid db'))"

text \<open>\<open>UPDATE collections SET name, description, updated_at WHERE p\<close>, for a \<open>p\<close> that matches one row at most.\<close>

definition update_collections_where ::
  "(collection_row \<Rightarrow> bool) \<Rightarrow> string \<Rightarrow> string \<Rightarrow> string \<Rightarrow> 'j content_db \<Rightarrow> ('j content_db \<times> nat) db_result" where
  "update_collections_where p name description ts db =
     (if (\<exists>r \<in> set (collections db). p r) \<and> (\<exists>r \<in> set (collections db). \<not> p r \<and> c_name r = name)
      then Inl (UniqueViolation ''collections.name'')
      else Inr (db\<lparr>collections := update_where p
            (\<lambda>r. r\<lparr>c_name := name, c_description := description, c_updated_at := ts\<rparr>) (collections db)\<rparr>,
          count_where p (collections db)))"

definition update_item ::
  "string \<Rightarrow> int \<Rightarrow> string \<Rightarrow> string \<Rightarrow> 'j content_db \<Rightarrow>
   'j content_db \<times> collection_record option db_result" where
  "update_item ts rid name description db =
     (case update_collections_where (\<lambda>r. c_rowid r = rid) name description ts db of
        Inl e \<Rightarrow> (db, Inl e)
      | Inr (db', n) \<Rightarrow>
          if n = 0 then (db', Inr None)
          else (db', case query_collection rid db' of Inl e \<Rightarrow> Inl e | Inr r \<Rightarrow> Inr (Some r)))"

definition list_items :: "'j content_db \<Rightarrow> collection_record list" where
  "list_items db = map record_of_collection (sort_key c_name (collections db))"

definition delete_item :: "int \<Rightarrow> 'j content_db \<Rightarrow> 'j content_db \<times> bool" where
  "delete_item rid db =
     (delete_collections_where (\<lambda>r. c_rowid r = rid) db,
      count_where (\<lambda>r. c_rowid r = rid) (collections db) > 0)"

definition collection_exists :: "int \<Rightarrow> 'j content_db \<Rightarrow> bool" where
  "collection_exists rid db \<longleftrightarrow> count_where (\<lambda>r. c_rowid r = rid) (collections db) > 0"

text \<open>
  The second interface of \<open>db/collections.rs\<close> is keyed by the UUID and parses the timestamps;
  \<open>parse_ts\<close> is \<open>chrono\<close>'s RFC 3339 reader.
\<close>

record 't collection =
  col_id :: string
  col_name :: string
  col_description :: string
  col_created_at :: 't
  col_updated_at :: 't

definition row_to_collection ::
  "(string \<Rightarrow> 't option) \<Rightarrow> collection_row \<Rightarrow> 't collection db_result" where
  "row_to_collection parse_ts r =
     (case parse_ts (c_created_at r) of
        None \<Rightarrow> Inl InvalidColumnType
      | Some created \<Rightarrow>
          (case parse_ts (c_updated_at r) of
             None \<Rightarrow> Inl InvalidColumnType
           | Some updated \<Rightarrow> Inr
               \<lparr>col_id = c_id r, col_name = c_name r, col_description = c_description r,
                col_created_at = created, col_updated_at = updated\<rparr>))"

definition collection_get_by_id ::
  "(string \<Rightarrow> 't option) \<Rightarrow> string \<Rightarrow> 'j content_db \<Rightarrow> 't collection option db_result" where
  "collection_get_by_id parse_ts rid db =
     (case find_by c_id rid (collections db) of
        None \<Rightarrow> Inr None
      | Some r \<Rightarrow> (case row_to_collection parse_ts r of Inl e \<Rightarrow> Inl e | Inr c \<Rightarrow> Inr (Some c)))"

definition collection_create ::
  "(string \<Rightarrow> 't option) \<Rightarrow> string \<Rightarrow> string \<Rightarrow> string \<Rightarrow> string \<Rightarrow> 'j content_db \<Rightarrow>
   'j content_db \<times> 't collection db_result" where
  "collection_create parse_ts uuid ts name description db =
     (case insert_collection uuid name description ts db of
        Inl e \<Rightarrow> (db, Inl e)
      | Inr (db', _) \<Rightarrow>
          (db', case collection_get_by_id parse_ts uuid db' of
                  Inl e \<Rightarrow> Inl e
                | Inr None \<Rightarrow> Inl (DbMessage ''collection not found after insert'')
                | Inr (Some c) \<Rightarrow> Inr c))"

fun collect_results :: "('e + 'a) list \<Rightarrow> 'e + 'a list" where
  "collect_results [] = Inr []"
| "collect_results (Inl e # _) = Inl e"
| "collect_results (Inr x # rs) =
     (case collect_results rs of Inl e \<Rightarrow> Inl e | Inr xs \<Rightarrow> Inr (x # xs))"

definition collection_list ::
  "(string \<Rightarrow> 't option) \<Rightarrow> 'j content_db \<Rightarrow> 't collection list db_result" where
  "collection_list parse_ts db =
     collect_results (map (row_to_collection parse_ts) (sort_key c_name (collections db)))"

definition collection_update ::
  "string \<Rightarrow> string \<Rightarrow> string \<Rightarrow> string \<Rightarrow> 'j content_db \<Rightarrow> 'j content_db \<times> unit db_result" where
  "collection_update ts rid name description db =
     (case update_collections_where (\<lambda>r. c_id r = rid) name description ts db of
        Inl e \<Rightarrow> (db, Inl e)
      | Inr (db', n) \<Rightarrow>
          (db', if n = 0 then Inl (DbMessage (''collection not found: '' @ rid)) else Inr ()))"

definition collection_delete :: "string \<Rightarrow> 'j content_db \<Rightarrow> 'j content_db \<times> bool" where
  "collection_delete rid db =
     (delete_collections_where (\<lambda>r. c_id r = rid) db,
      count_where (\<lambda>r. c_id r = rid) (collections db) > 0)"

section \<open>Crawl targets\<close>

record target_record =
  tr_id :: int
  tr_collection_id :: int
  tr_url_prefix :: string
  tr_recrawl_interval_secs :: int

record target_list_item =
  tl_id :: int
  tl_collection_id :: int
  tl_collection_name :: string
  tl_url_prefix :: string
  tl_recrawl_interval_secs :: int
  tl_enabled :: bool
  tl_last_crawled_at :: "int option"
  tl_created_at :: string
  tl_rate_limited :: bool
  tl_error_pages_count :: nat
  tl_indexed_pages_count :: nat
  tl_crawl_delay_secs :: "int option"

text \<open>\<open>INSERT INTO crawl_targets\<close> with its constraints.\<close>

definition insert_target ::
  "string \<Rightarrow> string \<Rightarrow> string \<Rightarrow> string \<Rightarrow> int \<Rightarrow> 'j content_db \<Rightarrow> ('j content_db \<times> int) db_result" where
  "insert_target uuid ts collection_uuid url_prefix interval db =
     (if uuid \<in> t_id ` set (targets db) then Inl (UniqueViolation ''crawl_targets.id'')
      else if (collection_uuid, url_prefix) \<in> target_key ` set (targets db)
      then Inl (UniqueViolation ''crawl_targets.collection_id, crawl_targets.url_prefix'')
      else if collection_uuid \<notin> c_id ` set (collections db) then Inl ForeignKeyViolation
      else
        (let rowid = next_rowid (map t_rowid (targets db)) in
         Inr (db\<lparr>targets := targets db @
               [\<lparr>t_rowid = rowid, t_id = uuid, t_collection_id = collection_uuid,
                 t_url_prefix = url_prefix, t_recrawl_interval_s = interval,
                 t_recrawl_interval_secs = interval, t_last_crawled_at = None, t_enabled = 1,
                 t_created_at = ts, t_crawl_delay_secs = None\<rparr>]\<rparr>, rowid)))"

definition target_add ::
  "string \<Rightarrow> string \<Rightarrow> int \<Rightarrow> string \<Rightarrow> int \<Rightarrow> 'j content_db \<Rightarrow> 'j content_db \<times> target_record db_result" where
  "target_add uuid ts collection_rowid url_prefix recrawl_interval_secs db =
     (case find_collection collection_rowid db of
        None \<Rightarrow> (db, Inl QueryReturnedNoRows)
      | Some c \<Rightarrow>
          (case insert_target uuid ts (c_id c) url_prefix recrawl_interval_secs db of
             Inl e \<Rightarrow> (db, Inl e)
           | Inr (db', rowid) \<Rightarrow>
               (db', Inr \<lparr>tr_id = rowid, tr_collection_id = collection_rowid,
                          tr_url_prefix = url_prefix,
                          tr_recrawl_interval_secs = recrawl_interval_secs\<rparr>)))"

definition is_error_status :: "int option \<Rightarrow> bool" where
  "is_error_status s = (case s of None \<Rightarrow> False | Some n \<Rightarrow> n \<ge> 400 \<and> n \<noteq> 429)"

definition target_item :: "page_row list \<Rightarrow> target_row \<times> collection_row \<Rightarrow> target_list_item" where
  "target_item ps tc =
     (let (t, c) = tc; mine = (\<lambda>p. p_crawl_target_id p = t_id t) in
      \<lparr>tl_id = t_rowid t, tl_collection_id = c_rowid c, tl_collection_name = c_name c,
       tl_url_prefix = t_url_prefix t, tl_recrawl_interval_secs = t_recrawl_interval_secs t,
       tl_enabled = (t_enabled t \<noteq> 0), tl_last_crawled_at = t_last_crawled_at t,
       tl_created_at = t_created_at t,
       tl_rate_limited = list_ex (\<lambda>p. mine p \<and> p_last_status p = Some 429) ps,
       tl_error_pages_count = count_where (\<lambda>p. mine p \<and> is_error_status (p_last_status p)) ps,
       tl_indexed_pages_count = count_where (\<lambda>p. mine p \<and> p_content_hash p \<noteq> None) ps,
       tl_crawl_delay_secs = t_crawl_delay_secs t\<rparr>)"

definition target_list :: "'j content_db \<Rightarrow> target_list_item list" where
  "target_list db =
     map (target_item (pages db))
       (sort_key (\<lambda>(t, c). (c_name c, t_created_at t))
          [(t, c). t \<leftarrow> targets db, c \<leftarrow> collections db, c_id c = t_collection_id t])"

definition update_targets_where ::
  "(target_row \<Rightarrow> bool) \<Rightarrow> (target_row \<Rightarrow> target_row) \<Rightarrow> 'j content_db \<Rightarrow> 'j content_db \<times> bool" where
  "update_targets_where p f db =
     (db\<lparr>targets := update_where p f (targets db)\<rparr>, count_where p (targets db) > 0)"

definition set_crawl_delay :: "int \<Rightarrow> int option \<Rightarrow> 'j content_db \<Rightarrow> 'j content_db \<times> bool" where
  "set_crawl_delay rid secs db =
     update_targets_where (\<lambda>t. t_rowid t = rid) (\<lambda>t. t\<lparr>t_crawl_delay_secs := secs\<rparr>) db"

definition target_remove :: "int \<Rightarrow> 'j content_db \<Rightarrow> 'j content_db \<times> bool" where
  "target_remove rid db =
     (delete_targets_where (\<lambda>t. t_rowid t = rid) db,
      count_where (\<lambda>t. t_rowid t = rid) (targets db) > 0)"

definition list_page_urls :: "int \<Rightarrow> 'j content_db \<Rightarrow> string list" where
  "list_page_urls rowid db =
     [p_url p. p \<leftarrow> pages db, t \<leftarrow> targets db, t_id t = p_crawl_target_id p \<and> t_rowid t = rowid]"

definition target_count_all :: "'j content_db \<Rightarrow> nat" where
  "target_count_all db = length (targets db)"

definition set_interval :: "int \<Rightarrow> int \<Rightarrow> 'j content_db \<Rightarrow> 'j content_db \<times> bool" where
  "set_interval rid secs db =
     update_targets_where (\<lambda>t. t_rowid t = rid)
       (\<lambda>t. t\<lparr>t_recrawl_interval_secs := secs, t_recrawl_interval_s := secs\<rparr>) db"

section \<open>Crawled pages\<close>

definition page_get_by_url :: "string \<Rightarrow> string \<Rightarrow> 'j content_db \<Rightarrow> page_row option" where
  "page_get_by_url collection_id url db = find_by page_key (collection_id, url) (pages db)"

text \<open>The update branch keeps the row's id and its \<open>indexed_content_hash\<close>.\<close>

definition page_overwrite :: "page_row \<Rightarrow> page_row \<Rightarrow> page_row" where
  "page_overwrite new old =
     new\<lparr>p_id := p_id old, p_collection_id := p_collection_id old, p_url := p_url old,
         p_indexed_content_hash := p_indexed_content_hash old\<rparr>"

definition page_upsert :: "int \<Rightarrow> page_row \<Rightarrow> 'j content_db \<Rightarrow> 'j content_db \<times> int db_result" where
  "page_upsert new_id row db =
     (let new = row\<lparr>p_id := new_id, p_indexed_content_hash := None\<rparr>;
          db' = db\<lparr>pages := upsert_row page_key new (page_overwrite row) (pages db)\<rparr> in
      if p_crawl_target_id row \<notin> t_id ` set (targets db) then (db, Inl ForeignKeyViolation)
      else if page_key row \<notin> page_key ` set (pages db) \<and>
              p_collection_id row \<notin> c_id ` set (collections db)
      then (db, Inl ForeignKeyViolation)
      else (db', case page_get_by_url (p_collection_id row) (p_url row) db' of
                   None \<Rightarrow> Inl QueryReturnedNoRows | Some r \<Rightarrow> Inr (p_id r)))"

definition list_by_target :: "string \<Rightarrow> 'j content_db \<Rightarrow> page_row list" where
  "list_by_target target_id db =
     sort_key p_id (filter (\<lambda>p. p_crawl_target_id p = target_id) (pages db))"

record indexed_entry =
  ie_collection_id :: string
  ie_url :: string
  ie_content_hash :: string

definition mark_indexed :: "indexed_entry \<Rightarrow> page_row list \<Rightarrow> page_row list" where
  "mark_indexed e ps =
     update_where (\<lambda>p. p_collection_id p = ie_collection_id e \<and> p_url p = ie_url e)
       (\<lambda>p. p\<lparr>p_indexed_content_hash := Some (ie_content_hash e)\<rparr>) ps"

definition mark_indexed_batch :: "indexed_entry list \<Rightarrow> 'j content_db \<Rightarrow> 'j content_db" where
  "mark_indexed_batch entries db = db\<lparr>pages := fold mark_indexed entries (pages db)\<rparr>"

end
