(* ===== verification/Outlinks.thy ===== *)
theory Outlinks
  imports Tables
begin

text \<open>
  \<open>db/outlink_hosts.rs\<close>: the review queue of hosts that crawled pages link to. \<open>enc\<close> and \<open>dec\<close> are
  \<open>serde_json\<close>'s writer and reader of the list of examples a row stores as JSON text.
\<close>

section \<open>Operations\<close>

definition MAX_EXAMPLES :: nat where "MAX_EXAMPLES = 5"

record outlink_example =
  ex_source_url :: string
  ex_target_url :: string
  ex_link_text :: string

record outlink_host_item =
  oh_id :: int
  oh_host :: string
  oh_link_count :: int
  oh_examples :: "outlink_example list"
  oh_first_seen_at :: int
  oh_last_seen_at :: int

record outlink_host_record =
  or_rowid :: int
  or_collection_id :: string
  or_host :: string

definition same_link :: "outlink_example \<Rightarrow> outlink_example \<Rightarrow> bool" where
  "same_link a b \<longleftrightarrow> ex_source_url a = ex_source_url b \<and> ex_target_url a = ex_target_url b"

definition merge_example ::
  "(outlink_example list \<Rightarrow> 'j) \<Rightarrow> ('j \<Rightarrow> outlink_example list option) \<Rightarrow> 'j \<Rightarrow> outlink_example \<Rightarrow> 'j" where
  "merge_example enc dec existing_json new_example =
     (let examples = option_or [] (dec existing_json) in
      if length examples \<ge> MAX_EXAMPLES then existing_json
      else if list_ex (\<lambda>e. same_link e new_example) examples then existing_json
      else enc (examples @ [new_example]))"

definition record_hit ::
  "(outlink_example list \<Rightarrow> 'j) \<Rightarrow> ('j \<Rightarrow> outlink_example list option) \<Rightarrow> string \<Rightarrow> string \<Rightarrow> string \<Rightarrow>
   outlink_example \<Rightarrow> int \<Rightarrow> 'j content_db \<Rightarrow> 'j content_db \<times> unit db_result" where
  "record_hit enc dec uuid collection_id hst example now_unix db =
     (case find_by outlink_key (collection_id, hst) (outlinks db) of
        Some r \<Rightarrow>
          if o_status r \<noteq> ''pending'' then (db, Inr ())
          else
            (let merged = merge_example enc dec (o_examples_json r) example in
             (db\<lparr>outlinks := update_where (\<lambda>x. o_rowid x = o_rowid r)
                   (\<lambda>x. x\<lparr>o_link_count := o_link_count x + 1, o_last_seen_at := now_unix,
                          o_examples_json := merged\<rparr>) (outlinks db)\<rparr>, Inr ()))
      | None \<Rightarrow>
          if uuid \<in> o_id ` set (outlinks db)
          then (db, Inl (UniqueViolation ''outlink_host_suggestions.id''))
          else if collection_id \<notin> c_id ` set (collections db) then (db, Inl ForeignKeyViolation)
          else (db\<lparr>outlinks := outlinks db @
                [\<lparr>o_rowid = next_rowid (map o_rowid (outlinks db)), o_id = uuid,
                  o_collection_id = collection_id, o_host = hst, o_link_count = 1,
                  o_examples_json = enc [example], o_first_seen_at = now_unix,
                  o_last_seen_at = now_unix, o_status = ''pending'',
                  o_promoted_target_id = None\<rparr>]\<rparr>, Inr ()))"

definition count_for_collection :: "string \<Rightarrow> 'j content_db \<Rightarrow> nat" where
  "count_for_collection collection_id db =
     count_where (\<lambda>r. o_collection_id r = collection_id) (outlinks db)"

definition clamp :: "int \<Rightarrow> int \<Rightarrow> int \<Rightarrow> int" where
  "clamp lo hi x = min hi (max lo x)"

definition host_item :: "('j \<Rightarrow> outlink_example list option) \<Rightarrow> 'j outlink_row \<Rightarrow> outlink_host_item" where
  "host_item dec r =
     \<lparr>oh_id = o_rowid r, oh_host = o_host r, oh_link_count = o_link_count r,
      oh_examples = option_or [] (dec (o_examples_json r)),
      oh_first_seen_at = o_first_seen_at r, oh_last_seen_at = o_last_seen_at r\<rparr>"

definition list_pending ::
  "('j \<Rightarrow> outlink_example list option) \<Rightarrow> int \<Rightarrow> int option \<Rightarrow> int option \<Rightarrow> 'j content_db \<Rightarrow>
   outlink_host_item list db_result" where
  "list_pending dec collection_rowid lim off db =
     (let l = clamp 1 500 (option_or 50 lim); ofs = max 0 (option_or 0 off) in
      case find_collection collection_rowid db of
        None \<Rightarrow> Inl QueryReturnedNoRows
      | Some c \<Rightarrow> Inr (map (host_item dec) (take (nat l) (drop (nat ofs)
          (sort_key (\<lambda>r. (- o_link_count r, - o_last_seen_at r))
            (filter (\<lambda>r. o_collection_id r = c_id c \<and> o_status r = ''pending'') (outlinks db)))))))"

definition outlink_find :: "int \<Rightarrow> 'j content_db \<Rightarrow> outlink_host_record option" where
  "outlink_find rid db =
     map_option (\<lambda>r. \<lparr>or_rowid = o_rowid r, or_collection_id = o_collection_id r, or_host = o_host r\<rparr>)
       (find_by o_rowid rid (outlinks db))"

definition mark_promoted :: "int \<Rightarrow> int \<Rightarrow> 'j content_db \<Rightarrow> 'j content_db \<times> bool" where
  "mark_promoted rid target_id db =
     (db\<lparr>outlinks := update_where (\<lambda>r. o_rowid r = rid)
           (\<lambda>r. r\<lparr>o_status := ''promoted'', o_promoted_target_id := Some target_id\<rparr>) (outlinks db)\<rparr>,
      count_where (\<lambda>r. o_rowid r = rid) (outlinks db) > 0)"

definition mark_dismissed :: "int \<Rightarrow> 'j content_db \<Rightarrow> 'j content_db \<times> bool" where
  "mark_dismissed rid db =
     (db\<lparr>outlinks := update_where (\<lambda>r. o_rowid r = rid) (\<lambda>r. r\<lparr>o_status := ''dismissed''\<rparr>)
           (outlinks db)\<rparr>,
      count_where (\<lambda>r. o_rowid r = rid) (outlinks db) > 0)"

section \<open>Integrity of the content tables\<close>

text \<open>
  The constraints of the schema: primary keys and UNIQUE columns, and every reference to an existing row.
\<close>

definition content_wf :: "'j content_db \<Rightarrow> bool" where
  "content_wf db \<longleftrightarrow>
     distinct (map c_rowid (collections db)) \<and> distinct (map c_id (collections db)) \<and>
     distinct (map c_name (collections db)) \<and>
     distinct (map t_rowid (targets db)) \<and> distinct (map t_id (targets db)) \<and>
     distinct (map target_key (targets db)) \<and>
     distinct (map p_id (pages db)) \<and> distinct (map page_key (pages db)) \<and>
     distinct (map o_rowid (outlinks db)) \<and> distinct (map o_id (outlinks db)) \<and>
     distinct (map outlink_key (outlinks db)) \<and>
     t_collection_id ` set (targets db) \<subseteq> c_id ` set (collections db) \<and>
     p_collection_id ` set (pages db) \<subseteq> c_id ` set (collections db) \<and>
     p_crawl_target_id ` set (pages db) \<subseteq> t_id ` set (targets db) \<and>
     o_collection_id ` set (outlinks db) \<subseteq> c_id ` set (collections db)"

text \<open>
  The statements the program issues on these tables, as the events of one machine. AUTOINCREMENT numbers a
  new page above every number in use: \<open>gap\<close> is how far above.
\<close>

datatype content_op =
    CreateCollection string string string string
  | UpdateCollection string int string string
  | UpdateCollectionByUuid string string string string
  | DeleteCollection int
  | DeleteCollectionByUuid string
  | AddTarget string string int string int
  | SetCrawlDelay int "int option"
  | SetInterval int int
  | RemoveTarget int
  | UpsertPage nat page_row
  | MarkIndexed "indexed_entry list"
  | RecordHit string string string outlink_example int
  | Promote int int
  | Dismiss int

fun content_step ::
  "(outlink_example list \<Rightarrow> 'j) \<Rightarrow> ('j \<Rightarrow> outlink_example list option) \<Rightarrow> 'j content_db \<Rightarrow> content_op \<Rightarrow>
   ('j content_db \<times> bool) option" where
  "content_step enc dec db (CreateCollection uuid ts name descr) =
     (let (db', r) = create_item uuid ts name descr db in Some (db', \<not> isl r))"
| "content_step enc dec db (UpdateCollection ts rid name descr) =
     (let (db', r) = update_item ts rid name descr db in Some (db', \<not> isl r))"
| "content_step enc dec db (UpdateCollectionByUuid ts uuid name descr) =
     (let (db', r) = collection_update ts uuid name descr db in Some (db', \<not> isl r))"
| "content_step enc dec db (DeleteCollection rid) = Some (delete_item rid db)"
| "content_step enc dec db (DeleteCollectionByUuid uuid) = Some (collection_delete uuid db)"
| "content_step enc dec db (AddTarget uuid ts rid pfx secs) =
     (let (db', r) = target_add uuid ts rid pfx secs db in Some (db', \<not> isl r))"
| "content_step enc dec db (SetCrawlDelay rid secs) = Some (set_crawl_delay rid secs db)"
| "content_step enc dec db (SetInterval rid secs) = Some (set_interval rid secs db)"
| "content_step enc dec db (RemoveTarget rid) = Some (target_remove rid db)"
| "content_step enc dec db (UpsertPage gap row) =
     (let (db', r) = page_upsert (next_rowid (map p_id (pages db)) + int gap) row db
      in Some (db', \<not> isl r))"
| "content_step enc dec db (MarkIndexed es) = Some (mark_indexed_batch es db, True)"
| "content_step enc dec db (RecordHit uuid coll hst ex now) =
     (let (db', r) = record_hit enc dec uuid coll hst ex now db in Some (db', \<not> isl r))"
| "content_step enc dec db (Promote rid t) = Some (mark_promoted rid t db)"
| "content_step enc dec db (Dismiss rid) = Some (mark_dismissed rid db)"

subsection \<open>Preservation, one statement at a time\<close>

lemma image_update_where_same:
  assumes "\<And>r. p r \<Longrightarrow> key (f r) = key r"
  shows "key ` set (update_where p f rows) = key ` set rows"
  using map_update_where_same [of p key f rows] assms by (metis list.set_map)

lemma content_wf_outlinks_update:
  assumes "content_wf db" and "\<And>r. o_rowid (f r) = o_rowid r" and "\<And>r. o_id (f r) = o_id r"
    and "\<And>r. o_collection_id (f r) = o_collection_id r" and "\<And>r. o_host (f r) = o_host r"
  shows "content_wf (db\<lparr>outlinks := update_where p f (outlinks db)\<rparr>)"
  using assms
  by (simp add: content_wf_def map_update_where_same image_update_where_same outlink_key_def)

lemma content_wf_targets_update:
  assumes "content_wf db" and "\<And>r. t_rowid (f r) = t_rowid r" and "\<And>r. t_id (f r) = t_id r"
    and "\<And>r. t_collection_id (f r) = t_collection_id r" and "\<And>r. t_url_prefix (f r) = t_url_prefix r"
  shows "content_wf (fst (update_targets_where p f db))"
  using assms
  by (simp add: content_wf_def map_update_where_same image_update_where_same target_key_def
      update_targets_where_def)

lemma content_wf_delete_targets:
  assumes "content_wf db"
  shows "content_wf (delete_targets_where p db)"
  using assms refs_delete [of p_crawl_target_id "pages db" t_id "targets db" p]
  unfolding content_wf_def delete_targets_where_def Let_def
  by (simp add: distinct_map_delete_where refs_delete_mono del: set_delete_where set_filter)

lemma content_wf_delete_collections:
  assumes wf: "content_wf db"
  shows "content_wf (delete_collections_where p db)"
proof -
  define gone where "gone = c_id ` set (filter p (collections db))"
  define db1 where "db1 = delete_targets_where (\<lambda>t. t_collection_id t \<in> gone) db"
  have wf1: "content_wf db1" unfolding db1_def using wf by (rule content_wf_delete_targets)
  have same: "collections db1 = collections db" "outlinks db1 = outlinks db"
    "targets db1 = delete_where (\<lambda>t. t_collection_id t \<in> gone) (targets db)"
    by (simp_all add: db1_def delete_targets_where_def Let_def)
  have eq: "delete_collections_where p db =
      db1\<lparr>collections := delete_where p (collections db),
          pages := delete_where (\<lambda>r. p_collection_id r \<in> gone) (pages db1),
          outlinks := delete_where (\<lambda>r. o_collection_id r \<in> gone) (outlinks db)\<rparr>"
    unfolding delete_collections_where_def Let_def gone_def db1_def ..
  have "t_collection_id ` set (targets db1) \<subseteq> c_id ` set (delete_where p (collections db))"
    unfolding same(3) gone_def using wf by (intro refs_delete) (simp add: content_wf_def)
  moreover have "p_collection_id ` set (delete_where (\<lambda>r. p_collection_id r \<in> gone) (pages db1))
      \<subseteq> c_id ` set (delete_where p (collections db))"
    unfolding gone_def using wf1 by (intro refs_delete) (simp add: content_wf_def same(1))
  moreover have "o_collection_id ` set (delete_where (\<lambda>r. o_collection_id r \<in> gone) (outlinks db))
      \<subseteq> c_id ` set (delete_where p (collections db))"
    unfolding gone_def using wf by (intro refs_delete) (simp add: content_wf_def)
  ultimately show ?thesis
    using wf wf1 unfolding eq content_wf_def
    by (simp add: distinct_map_delete_where refs_delete_mono same(1,2) del: set_delete_where)
qed

lemma content_wf_insert_collection:
  assumes wf: "content_wf db" and ins: "insert_collection uuid name descr ts db = Inr (db', rid)"
  shows "content_wf db'"
proof -
  have "uuid \<notin> c_id ` set (collections db)" "name \<notin> c_name ` set (collections db)"
    and "db' = db\<lparr>collections := collections db @
       [\<lparr>c_rowid = next_rowid (map c_rowid (collections db)), c_id = uuid, c_name = name,
         c_description = descr, c_created_at = ts, c_updated_at = ts\<rparr>]\<rparr>"
    using ins by (auto simp: insert_collection_def Let_def split: if_splits)
  with wf show ?thesis by (simp add: content_wf_def subset_insertI2)
qed

lemma distinct_update_name:
  assumes "distinct (map nm rows)" and "distinct (map key rows)"
    and "\<And>r. p r \<longleftrightarrow> key r = k" and "\<And>r. nm (f r) = n" and "\<And>r. key (f r) = key r"
    and "\<forall>r \<in> set rows. \<not> p r \<longrightarrow> nm r \<noteq> n"
  shows "distinct (map nm (update_where p f rows))"
  using assms
proof (induction rows)
  case (Cons r rows)
  show ?case
  proof (cases "p r")
    case True
    with Cons.prems have "\<forall>x \<in> set rows. \<not> p x" by (metis image_eqI list.set_map distinct.simps(2) list.simps(9))
    then have "update_where p f rows = rows" by (intro update_where_id) auto
    then have eq: "update_where p f (r # rows) = f r # rows" using True by simp
    have "nm (f r) \<notin> nm ` set rows"
      using Cons.prems(4,6) \<open>\<forall>x \<in> set rows. \<not> p x\<close> by auto
    with Cons.prems(1) show ?thesis unfolding eq by simp
  next
    case False
    have "nm r \<notin> nm ` set (update_where p f rows)"
      using False Cons.prems by (auto simp: set_update_where)
    moreover have "distinct (map nm (update_where p f rows))"
      using Cons.prems by (intro Cons.IH) auto
    ultimately show ?thesis using False by simp
  qed
qed simp

lemma content_wf_update_collections:
  assumes wf: "content_wf db" and upd: "update_collections_where p name descr ts db = Inr (db', n)"
    and p: "(\<forall>r. p r \<longleftrightarrow> c_rowid r = k) \<or> (\<forall>r. p r \<longleftrightarrow> c_id r = u)"
  shows "content_wf db'"
proof -
  let ?f = "\<lambda>r. r\<lparr>c_name := name, c_description := descr, c_updated_at := ts\<rparr>"
  have db': "db' = db\<lparr>collections := update_where p ?f (collections db)\<rparr>"
    using upd by (simp add: update_collections_where_def split: if_splits)
  have "distinct (map c_name (update_where p ?f (collections db)))"
  proof (cases "\<exists>r \<in> set (collections db). p r")
    case True
    with upd have other: "\<forall>r \<in> set (collections db). \<not> p r \<longrightarrow> c_name r \<noteq> name"
      by (auto simp: update_collections_where_def split: if_splits)
    from p show ?thesis
    proof
      assume "\<forall>r. p r \<longleftrightarrow> c_rowid r = k"
      with wf other show ?thesis
        by (intro distinct_update_name [where key = c_rowid and k = k and n = name])
          (auto simp: content_wf_def)
    next
      assume "\<forall>r. p r \<longleftrightarrow> c_id r = u"
      with wf other show ?thesis
        by (intro distinct_update_name [where key = c_id and k = u and n = name])
          (auto simp: content_wf_def)
    qed
  next
    case False
    then have "update_where p ?f (collections db) = collections db" by (intro update_where_id) auto
    with wf show ?thesis by (simp add: content_wf_def)
  qed
  with wf show ?thesis
    by (simp add: db' content_wf_def map_update_where_same image_update_where_same)
qed

lemma content_wf_insert_target:
  assumes wf: "content_wf db" and ins: "insert_target uuid ts c pfx secs db = Inr (db', rid)"
  shows "content_wf db'"
proof -
  have "uuid \<notin> t_id ` set (targets db)" "(c, pfx) \<notin> target_key ` set (targets db)"
    "c \<in> c_id ` set (collections db)"
    and "db' = db\<lparr>targets := targets db @
       [\<lparr>t_rowid = next_rowid (map t_rowid (targets db)), t_id = uuid, t_collection_id = c,
         t_url_prefix = pfx, t_recrawl_interval_s = secs, t_recrawl_interval_secs = secs,
         t_last_crawled_at = None, t_enabled = 1, t_created_at = ts,
         t_crawl_delay_secs = None\<rparr>]\<rparr>"
    using ins by (auto simp: insert_target_def Let_def split: if_splits)
  with wf show ?thesis
    by (simp add: content_wf_def subset_insertI2 target_key_def [of "\<lparr>t_rowid = _, t_id = _,
        t_collection_id = _, t_url_prefix = _, t_recrawl_interval_s = _,
        t_recrawl_interval_secs = _, t_last_crawled_at = _, t_enabled = _, t_created_at = _,
        t_crawl_delay_secs = _\<rparr>"])
qed

lemma page_key_overwrite [simp]: "page_key (page_overwrite new old) = page_key old"
  by (simp add: page_key_def page_overwrite_def)

lemma page_key_id [simp]: "page_key (r\<lparr>p_id := i, p_indexed_content_hash := h\<rparr>) = page_key r"
  by (simp add: page_key_def)

lemma content_wf_page_upsert:
  assumes wf: "content_wf db" and fresh: "new_id \<notin> p_id ` set (pages db)"
  shows "content_wf (fst (page_upsert new_id row db))"
proof (cases "fst (page_upsert new_id row db) = db")
  case False
  let ?new = "row\<lparr>p_id := new_id, p_indexed_content_hash := None\<rparr>"
  let ?ps = "upsert_row page_key ?new (page_overwrite row) (pages db)"
  from False have t: "p_crawl_target_id row \<in> t_id ` set (targets db)"
    and c: "page_key row \<in> page_key ` set (pages db) \<or> p_collection_id row \<in> c_id ` set (collections db)"
    and db': "fst (page_upsert new_id row db) = db\<lparr>pages := ?ps\<rparr>"
    by (auto simp: page_upsert_def Let_def split: if_splits)
  have keys: "distinct (map page_key ?ps)"
    using wf by (intro distinct_upsert_row) (simp_all add: content_wf_def)
  show ?thesis
  proof (cases "page_key row \<in> page_key ` set (pages db)")
    case True
    then have ps: "?ps = update_where (\<lambda>r. page_key r = page_key row) (page_overwrite row) (pages db)"
      by (simp add: upsert_row_def)
    have "map p_id ?ps = map p_id (pages db)" "p_collection_id ` set ?ps = p_collection_id ` set (pages db)"
      unfolding ps by (simp_all add: map_update_where_same image_update_where_same page_overwrite_def)
    moreover have "p_crawl_target_id ` set ?ps \<subseteq> t_id ` set (targets db)"
      using wf t unfolding ps by (auto simp: set_update_where page_overwrite_def content_wf_def)
    ultimately show ?thesis using wf keys by (simp add: db' content_wf_def)
  next
    case False
    then have ps: "?ps = pages db @ [?new]" by (simp add: upsert_row_def)
    show ?thesis using wf keys fresh t c False unfolding db' ps by (simp add: content_wf_def)
  qed
qed (simp add: wf)

lemma map_fold_mark_indexed:
  assumes "\<And>p h. key (p\<lparr>p_indexed_content_hash := h\<rparr>) = key p"
  shows "map key (fold mark_indexed es ps) = map key ps"
  by (induction es arbitrary: ps) (simp_all add: mark_indexed_def map_update_where_same assms)

lemma content_wf_mark_indexed:
  assumes "content_wf db"
  shows "content_wf (mark_indexed_batch es db)"
proof -
  have m: "map key (fold mark_indexed es (pages db)) = map key (pages db)"
    if "\<And>p h. key (p\<lparr>p_indexed_content_hash := h\<rparr>) = key p" for key :: "page_row \<Rightarrow> 'b"
    using that by (rule map_fold_mark_indexed)
  have s: "key ` set (fold mark_indexed es (pages db)) = key ` set (pages db)"
    if "\<And>p h. key (p\<lparr>p_indexed_content_hash := h\<rparr>) = key p" for key :: "page_row \<Rightarrow> 'b"
    using m [of key] that by (metis list.set_map)
  show ?thesis
    using assms
    by (simp add: content_wf_def mark_indexed_batch_def m s page_key_def)
qed

lemma content_wf_record_hit:
  assumes wf: "content_wf db"
  shows "content_wf (fst (record_hit enc dec uuid coll hst ex now db))"
proof (cases "find_by outlink_key (coll, hst) (outlinks db)")
  case (Some r)
  show ?thesis
    using wf content_wf_outlinks_update [OF wf]
    by (auto simp: record_hit_def Some Let_def)
next
  case None
  then have "(coll, hst) \<notin> outlink_key ` set (outlinks db)" by (simp add: find_by_None_iff)
  with None wf show ?thesis
    by (auto simp: record_hit_def content_wf_def outlink_key_def [of "\<lparr>o_rowid = _, o_id = _,
        o_collection_id = _, o_host = _, o_link_count = _, o_examples_json = _, o_first_seen_at = _,
        o_last_seen_at = _, o_status = _, o_promoted_target_id = _\<rparr>"])
qed

lemma content_wf_step:
  assumes wf: "content_wf db" and step: "content_step enc dec db oper = Some (db', ok)"
  shows "content_wf db'"
proof (cases oper)
  case (CreateCollection uuid ts name descr)
  with wf step show ?thesis
    by (auto simp: create_item_def Let_def intro: content_wf_insert_collection
        split: sum.splits prod.splits)
next
  case (UpdateCollection ts rid name descr)
  with wf step show ?thesis
    by (auto simp: update_item_def Let_def split: sum.splits prod.splits if_splits
        intro: content_wf_update_collections [where k = rid])
next
  case (UpdateCollectionByUuid ts uuid name descr)
  with wf step show ?thesis
    by (auto simp: collection_update_def Let_def split: sum.splits prod.splits if_splits
        intro: content_wf_update_collections [where u = uuid])
next
  case (DeleteCollection rid)
  with wf step show ?thesis by (auto simp: delete_item_def content_wf_delete_collections)
next
  case (DeleteCollectionByUuid uuid)
  with wf step show ?thesis by (auto simp: collection_delete_def content_wf_delete_collections)
next
  case (AddTarget uuid ts rid pfx secs)
  with wf step show ?thesis
    by (auto simp: target_add_def Let_def intro: content_wf_insert_target
        split: sum.splits prod.splits option.splits)
next
  case (SetCrawlDelay rid secs)
  with wf step show ?thesis
    using content_wf_targets_update [OF wf, of "\<lambda>t. t\<lparr>t_crawl_delay_secs := secs\<rparr>"]
    by (simp add: set_crawl_delay_def prod_eq_iff) metis
next
  case (SetInterval rid secs)
  with wf step show ?thesis
    using content_wf_targets_update [OF wf,
        of "\<lambda>t. t\<lparr>t_recrawl_interval_secs := secs, t_recrawl_interval_s := secs\<rparr>"]
    by (simp add: set_interval_def prod_eq_iff) metis
next
  case (RemoveTarget rid)
  with wf step show ?thesis by (auto simp: target_remove_def content_wf_delete_targets)
next
  case (UpsertPage gap row)
  have "next_rowid (map p_id (pages db)) + int gap \<notin> p_id ` set (pages db)"
    using next_rowid_gt [of _ "map p_id (pages db)"] by force
  from content_wf_page_upsert [OF wf this, of row] UpsertPage step show ?thesis
    by (auto simp: Let_def split: prod.splits)
next
  case (MarkIndexed es)
  with wf step show ?thesis by (auto simp: content_wf_mark_indexed)
next
  case (RecordHit uuid coll hst ex now)
  with wf step show ?thesis
    using content_wf_record_hit [OF wf, of enc dec uuid coll hst ex now]
    by (auto simp: Let_def split: prod.splits)
next
  case (Promote rid t)
  with wf step show ?thesis
    using content_wf_outlinks_update [OF wf]
    by (auto simp: mark_promoted_def)
next
  case (Dismiss rid)
  with wf step show ?thesis
    using content_wf_outlinks_update [OF wf]
    by (auto simp: mark_dismissed_def)
qed

interpretation content: state_machine "content_step enc dec" content_wf "\<lambda>_. True"
  for enc :: "outlink_example list \<Rightarrow> 'j" and dec
proof unfold_locales
  show "content_step enc dec db oper \<noteq> None" for db :: "'j content_db" and oper
    by (cases oper) (simp_all add: Let_def split: prod.splits)
  show "content_step enc dec db oper = Some (db', ok) \<Longrightarrow> content_wf db \<Longrightarrow> content_wf db'"
    for db :: "'j content_db" and oper db' ok
    by (rule content_wf_step)
qed

definition empty_content :: "'j content_db" where
  "empty_content = \<lparr>collections = [], targets = [], pages = [], outlinks = []\<rparr>"

lemma content_wf_empty [simp]: "content_wf empty_content"
  by (simp add: content_wf_def empty_content_def)

section \<open>The review queue\<close>

definition link_key :: "outlink_example \<Rightarrow> string \<times> string" where
  "link_key e = (ex_source_url e, ex_target_url e)"

definition examples_ok :: "('j \<Rightarrow> outlink_example list option) \<Rightarrow> 'j \<Rightarrow> bool" where
  "examples_ok dec j \<longleftrightarrow>
     length (option_or [] (dec j)) \<le> MAX_EXAMPLES \<and> distinct (map link_key (option_or [] (dec j)))"

lemma same_link_iff: "same_link a b \<longleftrightarrow> link_key a = link_key b"
  by (simp add: same_link_def link_key_def)

lemma examples_ok_merge:
  assumes "examples_ok dec j" and "\<And>l. dec (enc l) = Some l"
  shows "examples_ok dec (merge_example enc dec j ex)"
  using assms
  by (auto simp: merge_example_def Let_def examples_ok_def list_ex_iff same_link_iff)

definition queue_ok :: "('j \<Rightarrow> outlink_example list option) \<Rightarrow> 'j content_db \<Rightarrow> bool" where
  "queue_ok dec db \<longleftrightarrow> (\<forall>r \<in> set (outlinks db). examples_ok dec (o_examples_json r))"

lemma queue_ok_record_hit:
  assumes ok: "queue_ok dec db" and codec: "\<And>l. dec (enc l) = Some l"
  shows "queue_ok dec (fst (record_hit enc dec uuid coll hst ex now db))"
proof (cases "find_by outlink_key (coll, hst) (outlinks db)")
  case (Some r)
  then have "examples_ok dec (o_examples_json r)"
    using ok find_by_SomeD [OF Some] by (auto simp: queue_ok_def)
  from examples_ok_merge [OF this codec]
  have "examples_ok dec (merge_example enc dec (o_examples_json r) ex)" .
  with Some ok show ?thesis by (auto simp: record_hit_def queue_ok_def set_update_where Let_def)
next
  case None
  have "examples_ok dec (enc [ex])" by (simp add: examples_ok_def codec MAX_EXAMPLES_def)
  with None ok show ?thesis by (auto simp: record_hit_def queue_ok_def)
qed

text \<open>A run of sightings, as a crawl records them: the host, the example and the time of each.\<close>

fun record_hits ::
  "(outlink_example list \<Rightarrow> 'j) \<Rightarrow> ('j \<Rightarrow> outlink_example list option) \<Rightarrow> string \<Rightarrow>
   (string \<times> string \<times> outlink_example \<times> int) list \<Rightarrow> 'j content_db \<Rightarrow> 'j content_db" where
  "record_hits enc dec coll [] db = db"
| "record_hits enc dec coll ((uuid, hst, ex, now) # hs) db =
     record_hits enc dec coll hs (fst (record_hit enc dec uuid coll hst ex now db))"

lemma record_hits_queue_ok:
  assumes "queue_ok dec db" and "\<And>l. dec (enc l) = Some l"
  shows "queue_ok dec (record_hits enc dec coll hs db)"
  using assms(1)
proof (induction hs arbitrary: db)
  case (Cons h hs)
  obtain uuid hst ex now where h: "h = (uuid, hst, ex, now)" by (cases h)
  show ?case
    unfolding h record_hits.simps
    by (rule Cons.IH) (rule queue_ok_record_hit [OF Cons.prems assms(2)])
qed simp

lemma record_hit_keeps_settled:
  assumes "distinct (map o_rowid (outlinks db))" and "r \<in> set (outlinks db)"
    and "o_status r \<noteq> ''pending''"
  shows "r \<in> set (outlinks (fst (record_hit enc dec uuid coll hst ex now db)))"
proof (cases "find_by outlink_key (coll, hst) (outlinks db)")
  case (Some x)
  have x: "x \<in> set (outlinks db)" using find_by_SomeD [OF Some] by simp
  show ?thesis
  proof (cases "o_status x = ''pending''")
    case True
    have inj: "inj_on o_rowid (set (outlinks db))" using assms(1) by (simp add: distinct_map)
    have "o_rowid r \<noteq> o_rowid x" using inj_onD [OF inj _ assms(2) x] True assms(3) by metis
    with Some True assms(2) show ?thesis by (simp add: record_hit_def Let_def set_update_where)
  qed (simp add: record_hit_def Some assms(2))
next
  case None
  with assms(2) show ?thesis by (auto simp: record_hit_def)
qed

lemma record_hits_wf: "content_wf db \<Longrightarrow> content_wf (record_hits enc dec coll hs db)"
  by (induction enc dec coll hs db rule: record_hits.induct) (simp_all add: content_wf_record_hit)

lemma record_hits_keeps_settled:
  assumes "content_wf db" and "r \<in> set (outlinks db)" and "o_status r \<noteq> ''pending''"
  shows "r \<in> set (outlinks (record_hits enc dec coll hs db))"
  using assms
proof (induction enc dec coll hs db rule: record_hits.induct)
  case (2 enc dec coll uuid hst ex now hs db)
  then have "r \<in> set (outlinks (fst (record_hit enc dec uuid coll hst ex now db)))"
    by (intro record_hit_keeps_settled) (simp_all add: content_wf_def)
  with 2 show ?case by (simp add: content_wf_record_hit)
qed simp

section \<open>Properties\<close>


text \<open>Deleting a collection takes exactly what belongs to it: its crawl targets, the pages and review
  entries filed under it or under those targets, and nothing of the other collections.\<close>

theorem delete_collection_cascade:
  assumes wf: "content_wf db" and c: "find_collection rid db = Some c"
  shows "\<exists>db'. delete_item rid db = (db', True) \<and>
    set (collections db') = set (collections db) - {c} \<and>
    set (targets db') = {t \<in> set (targets db). t_collection_id t \<noteq> c_id c} \<and>
    set (outlinks db') = {r \<in> set (outlinks db). o_collection_id r \<noteq> c_id c} \<and>
    set (pages db') = {p \<in> set (pages db). p_collection_id p \<noteq> c_id c \<and>
      (\<forall>t \<in> set (targets db). t_id t = p_crawl_target_id p \<longrightarrow> t_collection_id t \<noteq> c_id c)}"
proof -
  have c': "c \<in> set (collections db)" "c_rowid c = rid"
    using c by (auto simp: find_collection_def dest: find_by_SomeD)
  have only: "{r \<in> set (collections db). c_rowid r = rid} = {c}"
    using wf c' by (auto simp: content_wf_def distinct_map inj_on_def)
  then have "0 < count_where (\<lambda>r. c_rowid r = rid) (collections db)"
    using c' by (auto simp: count_where_pos_iff)
  then show ?thesis
    using only
    by (auto simp: delete_item_def delete_collections_where_def delete_targets_where_def Let_def
        image_iff)
qed

definition sample_collection :: collection_row where
  "sample_collection =
     \<lparr>c_rowid = 1, c_id = ''u'', c_name = ''n'', c_description = ''d'',
      c_created_at = ''t'', c_updated_at = ''t''\<rparr>"

definition sample_content :: "outlink_example list content_db" where
  "sample_content =
     \<lparr>collections = [sample_collection], targets = [], pages = [],
      outlinks = [\<lparr>o_rowid = 1, o_id = ''o'', o_collection_id = ''u'', o_host = ''h.com'',
        o_link_count = 3, o_examples_json = [], o_first_seen_at = 1, o_last_seen_at = 2,
        o_status = ''dismissed'', o_promoted_target_id = None\<rparr>]\<rparr>"

lemma content_wf_sample: "content_wf sample_content"
  by (simp add: content_wf_def sample_content_def sample_collection_def)

theorem delete_collection_cascade_witness:
  "\<exists>db'. delete_item 1 sample_content = (db', True) \<and> set (outlinks db') = {}"
proof -
  have "find_collection 1 sample_content = Some sample_collection"
    by (simp add: sample_content_def sample_collection_def find_collection_def)
  from delete_collection_cascade [OF content_wf_sample this]
  obtain db' where d: "delete_item 1 sample_content = (db', True)"
    and o: "set (outlinks db') =
      {r \<in> set (outlinks sample_content). o_collection_id r \<noteq> c_id sample_collection}"
    by (elim exE conjE) (rule that)
  have "set (outlinks db') = {}"
    unfolding o by (simp add: sample_content_def sample_collection_def)
  with d show ?thesis by blast
qed

text \<open>A decision of the review queue is final. However a crawl goes on, an entry that was promoted or
  dismissed stays in the table exactly as it is and is never again offered for review; every entry keeps at
  most five example links, no two of them for the same pair of pages.\<close>

theorem settled_outlinks_stay:
  assumes wf: "content_wf db" and r: "r \<in> set (outlinks db)" and settled: "o_status r \<noteq> ''pending''"
    and ok: "queue_ok dec db" and codec: "\<And>l. dec (enc l) = Some l"
  shows "r \<in> set (outlinks (record_hits enc dec coll hs db)) \<and>
    (list_pending dec cid lim off (record_hits enc dec coll hs db) = Inr items \<longrightarrow>
      (\<forall>i \<in> set items. oh_id i \<noteq> o_rowid r \<and> length (oh_examples i) \<le> MAX_EXAMPLES \<and>
         distinct (map link_key (oh_examples i))))"
proof -
  let ?db = "record_hits enc dec coll hs db"
  have keep: "r \<in> set (outlinks ?db)" by (rule record_hits_keeps_settled [OF wf r settled])
  have "content_wf ?db" using wf by (rule record_hits_wf)
  then have inj: "inj_on o_rowid (set (outlinks ?db))" by (simp add: content_wf_def distinct_map)
  have q: "queue_ok dec ?db" by (rule record_hits_queue_ok [OF ok codec])
  have "oh_id i \<noteq> o_rowid r \<and> length (oh_examples i) \<le> MAX_EXAMPLES \<and>
      distinct (map link_key (oh_examples i))"
    if items: "list_pending dec cid lim off ?db = Inr items" and i: "i \<in> set items" for i
  proof -
    from items i obtain x where "x \<in> set (outlinks ?db)" "o_status x = ''pending''" "i = host_item dec x"
      by (auto simp: list_pending_def Let_def split: option.splits dest!: in_set_takeD in_set_dropD)
    moreover from this have "o_rowid x \<noteq> o_rowid r"
      using inj_onD [OF inj _ _ keep, of x] settled by metis
    ultimately show ?thesis using q by (auto simp: host_item_def queue_ok_def examples_ok_def)
  qed
  with keep show ?thesis by blast
qed

theorem settled_outlinks_stay_witness:
  "hd (outlinks sample_content) \<in> set (outlinks (record_hits id Some ''u''
     [(''x'', ''h.com'', \<lparr>ex_source_url = ''a'', ex_target_url = ''b'', ex_link_text = ''c''\<rparr>, 9)]
     sample_content))"
  by (rule conjunct1 [OF settled_outlinks_stay [where dec = Some, OF content_wf_sample]])
    (simp_all add: sample_content_def queue_ok_def examples_ok_def)

end
