(* ===== verification/Peers.thy ===== *)
theory Peers
  imports Interfaces Rust_Text
begin

text \<open>
  The federation tables and their repositories: \<open>federation/storage.rs\<close> (\<open>node_peers\<close>,
  \<open>collection_peers\<close>) and \<open>federation/health.rs\<close> (health records, automatic disabling, the sweep that
  re-enables recovered peers, \<open>admin_notifications\<close>). \<open>'w\<close> is the type of the \<open>f32\<close> source weights.
  The HTTP probe of a peer is an argument.
\<close>

section \<open>Tables\<close>

record node_peer =
  np_id :: int
  np_url :: string
  np_name :: "string option"
  np_enabled :: bool
  np_consecutive_failures :: int
  np_last_response_ms :: "int option"
  np_last_checked_at :: "int option"
  np_disabled_at :: "int option"
  np_created_at :: int

record 'w collection_peer =
  cp_id :: int
  cp_local_collection :: string
  cp_node_peer_id :: int
  cp_remote_collection :: string
  cp_source_weight :: 'w
  cp_enabled :: bool
  cp_created_at :: int

record notification =
  nt_id :: int
  nt_kind :: string
  nt_message :: string
  nt_created_at :: int
  nt_read_at :: "int option"

record 'w fed_db =
  node_peers :: "node_peer list"
  collection_peers :: "'w collection_peer list"
  notifications :: "notification list"

section \<open>Node peers\<close>

definition insert_node_peer ::
  "int \<Rightarrow> string \<Rightarrow> string option \<Rightarrow> 'w fed_db \<Rightarrow> 'w fed_db \<times> int db_result" where
  "insert_node_peer now url name db =
     (if url \<in> np_url ` set (node_peers db) then (db, Inl (UniqueViolation ''node_peers.url''))
      else
        (let rid = next_rowid (map np_id (node_peers db)) in
         (db\<lparr>node_peers := node_peers db @
            [\<lparr>np_id = rid, np_url = url, np_name = name, np_enabled = True,
              np_consecutive_failures = 0, np_last_response_ms = None, np_last_checked_at = None,
              np_disabled_at = None, np_created_at = now\<rparr>]\<rparr>, Inr rid)))"

definition delete_node_peer :: "int \<Rightarrow> 'w fed_db \<Rightarrow> 'w fed_db" where
  "delete_node_peer rid db =
     (let gone = np_id ` set (filter (\<lambda>p. np_id p = rid) (node_peers db)) in
      db\<lparr>node_peers := delete_where (\<lambda>p. np_id p = rid) (node_peers db),
         collection_peers := delete_where (\<lambda>c. cp_node_peer_id c \<in> gone) (collection_peers db)\<rparr>)"

definition update_node_peer :: "int \<Rightarrow> (node_peer \<Rightarrow> node_peer) \<Rightarrow> 'w fed_db \<Rightarrow> 'w fed_db" where
  "update_node_peer rid f db =
     db\<lparr>node_peers := update_where (\<lambda>p. np_id p = rid) f (node_peers db)\<rparr>"

definition set_node_peer_enabled :: "int \<Rightarrow> int \<Rightarrow> bool \<Rightarrow> 'w fed_db \<Rightarrow> 'w fed_db" where
  "set_node_peer_enabled now rid enabled db =
     (if enabled then
        update_node_peer rid
          (\<lambda>p. p\<lparr>np_enabled := True, np_disabled_at := None, np_consecutive_failures := 0\<rparr>) db
      else update_node_peer rid (\<lambda>p. p\<lparr>np_enabled := False, np_disabled_at := Some now\<rparr>) db)"

definition get_node_peer :: "int \<Rightarrow> 'w fed_db \<Rightarrow> node_peer option" where
  "get_node_peer rid db = find_by np_id rid (node_peers db)"

definition list_node_peers :: "'w fed_db \<Rightarrow> node_peer list" where
  "list_node_peers db = sort_key np_created_at (node_peers db)"

section \<open>Collection peers\<close>

definition cp_key :: "'w collection_peer \<Rightarrow> string \<times> int \<times> string" where
  "cp_key c = (cp_local_collection c, cp_node_peer_id c, cp_remote_collection c)"

definition insert_collection_peer ::
  "int \<Rightarrow> string \<Rightarrow> int \<Rightarrow> string \<Rightarrow> 'w \<Rightarrow> 'w fed_db \<Rightarrow> 'w fed_db \<times> int db_result" where
  "insert_collection_peer now local_collection node_peer_id remote_collection weight db =
     (if (local_collection, node_peer_id, remote_collection) \<in> cp_key ` set (collection_peers db)
      then (db, Inl (UniqueViolation ''collection_peers.local_collection, collection_peers.node_peer_id, collection_peers.remote_collection''))
      else if node_peer_id \<notin> np_id ` set (node_peers db) then (db, Inl ForeignKeyViolation)
      else
        (let rid = next_rowid (map cp_id (collection_peers db)) in
         (db\<lparr>collection_peers := collection_peers db @
            [\<lparr>cp_id = rid, cp_local_collection = local_collection, cp_node_peer_id = node_peer_id,
              cp_remote_collection = remote_collection, cp_source_weight = weight,
              cp_enabled = True, cp_created_at = now\<rparr>]\<rparr>, Inr rid)))"

definition list_collection_peers :: "string option \<Rightarrow> 'w fed_db \<Rightarrow> 'w collection_peer list" where
  "list_collection_peers local_filter db =
     sort_key cp_created_at
       (case local_filter of
          None \<Rightarrow> collection_peers db
        | Some f \<Rightarrow> filter (\<lambda>c. cp_local_collection c = f) (collection_peers db))"

definition delete_collection_peer :: "int \<Rightarrow> 'w fed_db \<Rightarrow> 'w fed_db" where
  "delete_collection_peer rid db =
     db\<lparr>collection_peers := delete_where (\<lambda>c. cp_id c = rid) (collection_peers db)\<rparr>"

section \<open>Health records\<close>

definition FAILURE_THRESHOLD :: int where "FAILURE_THRESHOLD = 5"

definition insert_notification :: "int \<Rightarrow> string \<Rightarrow> string \<Rightarrow> 'w fed_db \<Rightarrow> 'w fed_db" where
  "insert_notification now kind msg db =
     db\<lparr>notifications := notifications db @
       [\<lparr>nt_id = next_rowid (map nt_id (notifications db)), nt_kind = kind, nt_message = msg,
         nt_created_at = now, nt_read_at = None\<rparr>]\<rparr>"

definition record_result ::
  "int \<Rightarrow> int \<Rightarrow> bool \<Rightarrow> int option \<Rightarrow> 'w fed_db \<Rightarrow> 'w fed_db \<times> unit db_result" where
  "record_result now rid success response_ms db =
     (if success then
        (update_node_peer rid
           (\<lambda>p. p\<lparr>np_consecutive_failures := 0, np_last_response_ms := response_ms,
                  np_last_checked_at := Some now\<rparr>) db, Inr ())
      else
        (let db1 = update_node_peer rid
               (\<lambda>p. p\<lparr>np_consecutive_failures := np_consecutive_failures p + 1,
                      np_last_checked_at := Some now\<rparr>) db in
         case get_node_peer rid db1 of
           None \<Rightarrow> (db1, Inl QueryReturnedNoRows)
         | Some p \<Rightarrow>
             if np_consecutive_failures p \<ge> FAILURE_THRESHOLD \<and> np_enabled p then
               (insert_notification now ''peer_disabled''
                  (''Peer '' @ show_int rid @ '' auto-disabled after '' @
                   show_int (np_consecutive_failures p) @ '' consecutive failures'')
                  (update_node_peer rid
                     (\<lambda>p. p\<lparr>np_enabled := False, np_disabled_at := Some now\<rparr>) db1), Inr ())
             else (db1, Inr ())))"

record health_outcome =
  re_enabled :: "int list"
  still_down :: "int list"

text \<open>
  One sweep. \<open>probe\<close> is \<open>client.health_check(url).await.unwrap_or(false)\<close>; the list of disabled peers
  is taken once, at the start.
\<close>

fun health_sweep ::
  "(string \<Rightarrow> bool) \<Rightarrow> int \<Rightarrow> node_peer list \<Rightarrow> 'w fed_db \<Rightarrow> health_outcome \<Rightarrow> 'w fed_db \<times> health_outcome" where
  "health_sweep probe now [] db acc = (db, acc)"
| "health_sweep probe now (p # ps) db acc =
     (if probe (np_url p) then
        health_sweep probe now ps
          (insert_notification now ''peer_re_enabled''
             (''Peer '' @ show_int (np_id p) @ '' re-enabled after successful health check'')
             (set_node_peer_enabled now (np_id p) True db))
          (acc\<lparr>re_enabled := re_enabled acc @ [np_id p]\<rparr>)
      else health_sweep probe now ps db (acc\<lparr>still_down := still_down acc @ [np_id p]\<rparr>))"

definition run_health_check_once ::
  "(string \<Rightarrow> bool) \<Rightarrow> int \<Rightarrow> 'w fed_db \<Rightarrow> 'w fed_db \<times> health_outcome" where
  "run_health_check_once probe now db =
     health_sweep probe now (filter (\<lambda>p. \<not> np_enabled p) (list_node_peers db)) db
       \<lparr>re_enabled = [], still_down = []\<rparr>"

text \<open>
  One tick of the background task. The lock is free during each probe, so every probe may find another
  database state: \<open>interfere p\<close> is what the rest of the program does to the database while peer \<open>p\<close> is
  probed, and \<open>poisoned\<close> whether the mutex is poisoned.
\<close>

fun health_tick_peers ::
  "(string \<Rightarrow> bool) \<Rightarrow> bool \<Rightarrow> (node_peer \<Rightarrow> 'w fed_db \<Rightarrow> 'w fed_db) \<Rightarrow> int \<Rightarrow> node_peer list \<Rightarrow>
   'w fed_db \<Rightarrow> 'w fed_db" where
  "health_tick_peers probe poisoned interfere now [] db = db"
| "health_tick_peers probe poisoned interfere now (p # ps) db =
     (let db1 = interfere p db;
          db2 = (if probe (np_url p) \<and> \<not> poisoned then
                   insert_notification now ''peer_re_enabled''
                     (''Peer '' @ show_int (np_id p) @ '' re-enabled after successful health check'')
                     (set_node_peer_enabled now (np_id p) True db1)
                 else db1) in
      health_tick_peers probe poisoned interfere now ps db2)"

definition health_check_tick ::
  "(string \<Rightarrow> bool) \<Rightarrow> bool \<Rightarrow> (node_peer \<Rightarrow> 'w fed_db \<Rightarrow> 'w fed_db) \<Rightarrow> int \<Rightarrow> 'w fed_db \<Rightarrow> 'w fed_db" where
  "health_check_tick probe poisoned interfere now db =
     (if poisoned then db
      else health_tick_peers probe poisoned interfere now
             (filter (\<lambda>p. \<not> np_enabled p) (list_node_peers db)) db)"

section \<open>Integrity\<close>

definition fed_wf :: "'w fed_db \<Rightarrow> bool" where
  "fed_wf db \<longleftrightarrow>
     distinct (map np_id (node_peers db)) \<and> distinct (map np_url (node_peers db)) \<and>
     distinct (map cp_id (collection_peers db)) \<and> distinct (map cp_key (collection_peers db)) \<and>
     cp_node_peer_id ` set (collection_peers db) \<subseteq> np_id ` set (node_peers db) \<and>
     distinct (map nt_id (notifications db))"

datatype 'w fed_op =
    AddPeer int string "string option"
  | DeletePeer int
  | SetPeerEnabled int int bool
  | AddCollectionPeer int string int string 'w
  | DeleteCollectionPeer int
  | RecordResult int int bool "int option"
  | Sweep "(string \<times> bool) list" int

fun fed_step :: "'w fed_db \<Rightarrow> 'w fed_op \<Rightarrow> ('w fed_db \<times> bool) option" where
  "fed_step db (AddPeer now url name) =
     (let (db', r) = insert_node_peer now url name db in Some (db', \<not> isl r))"
| "fed_step db (DeletePeer rid) = Some (delete_node_peer rid db, True)"
| "fed_step db (SetPeerEnabled now rid e) = Some (set_node_peer_enabled now rid e db, True)"
| "fed_step db (AddCollectionPeer now l n r w) =
     (let (db', res) = insert_collection_peer now l n r w db in Some (db', \<not> isl res))"
| "fed_step db (DeleteCollectionPeer rid) = Some (delete_collection_peer rid db, True)"
| "fed_step db (RecordResult now rid ok ms) =
     (let (db', r) = record_result now rid ok ms db in Some (db', \<not> isl r))"
| "fed_step db (Sweep answers now) =
     Some (fst (run_health_check_once (\<lambda>u. map_of answers u = Some True) now db), True)"

lemma image_update_same:
  assumes "\<And>r. p r \<Longrightarrow> key (f r) = key r"
  shows "key ` set (update_where p f rows) = key ` set rows"
  using map_update_where_same [of p key f rows] assms by (metis list.set_map)

lemma fed_wf_update:
  assumes "fed_wf db" and "\<And>p. np_id (f p) = np_id p" and "\<And>p. np_url (f p) = np_url p"
  shows "fed_wf (update_node_peer rid f db)"
  using assms
  by (simp add: fed_wf_def update_node_peer_def map_update_where_same image_update_same)

lemma fed_wf_notification: "fed_wf db \<Longrightarrow> fed_wf (insert_notification now k m db)"
  by (simp add: fed_wf_def insert_notification_def)

lemma fed_wf_set_enabled: "fed_wf db \<Longrightarrow> fed_wf (set_node_peer_enabled now rid e db)"
  by (simp add: set_node_peer_enabled_def fed_wf_update)

lemma fed_wf_record_result: "fed_wf db \<Longrightarrow> fed_wf (fst (record_result now rid ok ms db))"
  by (auto simp: record_result_def Let_def fed_wf_update fed_wf_notification split: option.splits)

lemma fed_wf_delete_peer:
  assumes "fed_wf db"
  shows "fed_wf (delete_node_peer rid db)"
  using assms refs_delete [of cp_node_peer_id "collection_peers db" np_id "node_peers db"
      "\<lambda>p. np_id p = rid"]
  unfolding fed_wf_def delete_node_peer_def Let_def
  by (simp add: distinct_map_delete_where del: set_delete_where set_filter)

lemma fed_wf_insert_peer: "fed_wf db \<Longrightarrow> fed_wf (fst (insert_node_peer now url name db))"
  by (simp add: fed_wf_def insert_node_peer_def Let_def subset_insertI2)

lemma fed_wf_insert_collection_peer:
  "fed_wf db \<Longrightarrow> fed_wf (fst (insert_collection_peer now l n r w db))"
  by (simp add: fed_wf_def insert_collection_peer_def Let_def cp_key_def [of "\<lparr>cp_id = _,
      cp_local_collection = _, cp_node_peer_id = _, cp_remote_collection = _,
      cp_source_weight = _, cp_enabled = _, cp_created_at = _\<rparr>"])

lemma fed_wf_delete_collection_peer: "fed_wf db \<Longrightarrow> fed_wf (delete_collection_peer rid db)"
  by (simp add: fed_wf_def delete_collection_peer_def distinct_map_delete_where refs_delete_mono
      del: set_delete_where)

lemma fed_wf_sweep: "fed_wf db \<Longrightarrow> fed_wf (fst (health_sweep probe now ps db acc))"
  by (induction probe now ps db acc rule: health_sweep.induct)
    (simp_all add: fed_wf_notification fed_wf_set_enabled)

interpretation federation: state_machine fed_step fed_wf "\<lambda>_. True"
proof unfold_locales
  show "fed_step db oper \<noteq> None" for db :: "'w fed_db" and oper
    by (cases oper) (simp_all add: Let_def split: prod.splits)
  show "fed_wf db'" if wf: "fed_wf db" and step: "fed_step db oper = Some (db', ok)"
    for db :: "'w fed_db" and oper db' ok
  proof (cases oper)
    case (AddPeer now url name)
    then show ?thesis using step fed_wf_insert_peer [OF wf, of now url name]
      by (simp split: prod.splits)
  next
    case (DeletePeer rid)
    then show ?thesis using step fed_wf_delete_peer [OF wf, of rid] by simp
  next
    case (SetPeerEnabled now rid e)
    then show ?thesis using step fed_wf_set_enabled [OF wf, of now rid e] by simp
  next
    case (AddCollectionPeer now l n r w)
    then show ?thesis using step fed_wf_insert_collection_peer [OF wf, of now l n r w]
      by (simp split: prod.splits)
  next
    case (DeleteCollectionPeer rid)
    then show ?thesis using step fed_wf_delete_collection_peer [OF wf, of rid] by simp
  next
    case (RecordResult now rid succ ms)
    then show ?thesis using step fed_wf_record_result [OF wf, of now rid succ ms]
      by (simp split: prod.splits)
  next
    case (Sweep answers now)
    then show ?thesis
      using step by (auto simp: run_health_check_once_def fed_wf_sweep [OF wf])
  qed
qed

section \<open>Automatic disabling\<close>

lemma get_update_node_peer:
  assumes "\<And>p. np_id (f p) = np_id p"
  shows "get_node_peer k (update_node_peer rid f db) =
    map_option (\<lambda>p. if np_id p = rid then f p else p) (get_node_peer k db)"
  by (simp add: get_node_peer_def update_node_peer_def find_by_update_where assms)

lemma get_insert_notification [simp]:
  "get_node_peer k (insert_notification now kind m db) = get_node_peer k db"
  by (simp add: get_node_peer_def insert_notification_def)

lemma length_insert_notification [simp]:
  "length (notifications (insert_notification now kind m db)) = Suc (length (notifications db))"
  by (simp add: insert_notification_def)

lemma notifications_update [simp]: "notifications (update_node_peer rid f db) = notifications db"
  by (simp add: update_node_peer_def)

lemma get_node_peer_id: "get_node_peer rid db = Some p \<Longrightarrow> np_id p = rid"
  using find_by_SomeD [of np_id rid "node_peers db" p] by (simp add: get_node_peer_def)

text \<open>What one result does to the counter and the switch of the peer it is about.\<close>

lemma record_result_view:
  assumes p: "get_node_peer rid db = Some p"
  shows "\<exists>p'. get_node_peer rid (fst (record_result now rid ok ms db)) = Some p' \<and>
    np_consecutive_failures p' = (if ok then 0 else np_consecutive_failures p + 1) \<and>
    np_enabled p' =
      (np_enabled p \<and> (ok \<or> np_consecutive_failures p + 1 < FAILURE_THRESHOLD)) \<and>
    length (notifications (fst (record_result now rid ok ms db))) =
      length (notifications db) + (if np_enabled p \<and> \<not> np_enabled p' then 1 else 0)"
  using get_node_peer_id [OF p] p
  by (cases ok) (simp_all add: record_result_def Let_def get_update_node_peer not_le)

text \<open>A run of results of one peer: the time, whether the peer answered, how fast.\<close>

fun record_results :: "int \<Rightarrow> (int \<times> bool \<times> int option) list \<Rightarrow> 'w fed_db \<Rightarrow> 'w fed_db" where
  "record_results rid [] db = db"
| "record_results rid ((now, ok, ms) # rs) db =
     record_results rid rs (fst (record_result now rid ok ms db))"

lemma record_results_append:
  "record_results rid (rs @ rs') db = record_results rid rs' (record_results rid rs db)"
  by (induction rid rs db rule: record_results.induct) simp_all

definition answers :: "(int \<times> bool \<times> int option) list \<Rightarrow> bool list" where
  "answers rs = map (\<lambda>r. fst (snd r)) rs"

definition trailing :: "bool list \<Rightarrow> nat" where
  "trailing bs = length (takeWhile Not (rev bs))"

lemma trailing_snoc [simp]: "trailing (bs @ [b]) = (if b then 0 else Suc (trailing bs))"
  by (simp add: trailing_def)

lemma takeWhile_prefix_replicate:
  "prefix (replicate n False) bs \<longleftrightarrow> n \<le> length (takeWhile Not bs)"
proof (induction n arbitrary: bs)
  case (Suc n)
  then show ?case by (cases bs) auto
qed simp

lemma suffix_replicate_iff: "suffix (replicate n False) bs \<longleftrightarrow> n \<le> trailing bs"
  by (simp add: suffix_to_prefix takeWhile_prefix_replicate trailing_def)

lemma sublist_snoc_iff: "sublist xs (ys @ [y]) \<longleftrightarrow> sublist xs ys \<or> suffix xs (ys @ [y])"
  by (auto simp: sublist_snoc)

lemma record_results_view:
  assumes "get_node_peer rid db = Some p" and "np_enabled p" and "np_consecutive_failures p = 0"
  shows "\<exists>p'. get_node_peer rid (record_results rid rs db) = Some p' \<and>
    np_consecutive_failures p' = int (trailing (answers rs)) \<and>
    np_enabled p' = (\<not> sublist (replicate 5 False) (answers rs)) \<and>
    length (notifications (record_results rid rs db)) =
      length (notifications db) + (if np_enabled p' then 0 else 1)"
  using assms
proof (induction rs rule: rev_induct)
  case Nil
  then show ?case by (simp add: answers_def trailing_def)
next
  case (snoc r rs)
  obtain now ok ms where r: "r = (now, ok, ms)" by (cases r)
  let ?db = "record_results rid rs db"
  from snoc obtain p1 where p1: "get_node_peer rid ?db = Some p1"
    "np_consecutive_failures p1 = int (trailing (answers rs))"
    "np_enabled p1 = (\<not> sublist (replicate 5 False) (answers rs))"
    "length (notifications ?db) = length (notifications db) + (if np_enabled p1 then 0 else 1)"
    by blast
  from record_result_view [OF p1(1), of now ok ms] obtain p' where p':
    "get_node_peer rid (fst (record_result now rid ok ms ?db)) = Some p'"
    "np_consecutive_failures p' = (if ok then 0 else np_consecutive_failures p1 + 1)"
    "np_enabled p' =
      (np_enabled p1 \<and> (ok \<or> np_consecutive_failures p1 + 1 < FAILURE_THRESHOLD))"
    "length (notifications (fst (record_result now rid ok ms ?db))) =
      length (notifications ?db) + (if np_enabled p1 \<and> \<not> np_enabled p' then 1 else 0)"
    by blast
  have run: "record_results rid (rs @ [r]) db = fst (record_result now rid ok ms ?db)"
    by (simp add: record_results_append r)
  have ans: "answers (rs @ [r]) = answers rs @ [ok]" by (simp add: answers_def r)
  have "sublist (replicate 5 False) (answers (rs @ [r])) \<longleftrightarrow>
      sublist (replicate 5 False) (answers rs) \<or> 5 \<le> trailing (answers rs @ [ok])"
    unfolding ans by (simp only: sublist_snoc_iff suffix_replicate_iff)
  then show ?case
    using p1(2-4) p'
    by (intro exI [of _ p']) (auto simp: run ans FAILURE_THRESHOLD_def)
qed

section \<open>The recovery sweep\<close>

definition recovered :: "node_peer \<Rightarrow> node_peer" where
  "recovered p = p\<lparr>np_enabled := True, np_disabled_at := None, np_consecutive_failures := 0\<rparr>"

lemma health_sweep_view:
  "get_node_peer k (fst (health_sweep probe now ps db acc)) =
     map_option (\<lambda>p. if \<exists>q \<in> set ps. np_id q = k \<and> probe (np_url q) then recovered p else p)
       (get_node_peer k db)"
proof (induction probe now ps db acc rule: health_sweep.induct)
  case (2 probe now p ps db acc)
  have "get_node_peer k (set_node_peer_enabled now (np_id p) True db) =
      map_option (\<lambda>x. if np_id p = k then recovered x else x) (get_node_peer k db)"
    by (cases "get_node_peer k db")
      (auto simp: set_node_peer_enabled_def get_update_node_peer recovered_def
        dest: get_node_peer_id)
  with 2 show ?case
    by (cases "get_node_peer k db") (auto simp: recovered_def)
qed (simp add: option.map_ident)

lemma health_sweep_outcome:
  "snd (health_sweep probe now ps db acc) =
     \<lparr>re_enabled = re_enabled acc @ map np_id (filter (\<lambda>p. probe (np_url p)) ps),
      still_down = still_down acc @ map np_id (filter (\<lambda>p. \<not> probe (np_url p)) ps)\<rparr>"
  by (induction probe now ps db acc rule: health_sweep.induct) simp_all

section \<open>Properties\<close>

text \<open>The federation tables keep their integrity under any sequence of operations: unique ids, URLs and
  mappings, and no collection peer without its node peer (deleting a node peer takes its mappings along).\<close>

theorem federation_integrity:
  "\<exists>db oks. run_steps fed_step \<lparr>node_peers = [], collection_peers = [], notifications = []\<rparr> ops =
     Some (db, oks) \<and> length oks = length ops \<and> fed_wf db"
proof -
  have "fed_wf \<lparr>node_peers = [], collection_peers = [], notifications = []\<rparr>" by (simp add: fed_wf_def)
  from federation.run_total [OF this, of ops] show ?thesis by auto
qed

text \<open>C30: a peer is switched off exactly by five failures in a row. Whatever answers a peer gives from a
  clean start, it is still enabled iff no five consecutive answers were failures, its counter is the number
  of failures since the last success, and switching it off adds one notification.\<close>

theorem disabled_iff_five_in_a_row:
  assumes "get_node_peer rid db = Some p" and "np_enabled p" and "np_consecutive_failures p = 0"
  shows "\<exists>p'. get_node_peer rid (record_results rid rs db) = Some p' \<and>
    (np_enabled p' \<longleftrightarrow> \<not> sublist (replicate 5 False) (answers rs)) \<and>
    np_consecutive_failures p' = int (trailing (answers rs)) \<and>
    length (notifications (record_results rid rs db)) =
      length (notifications db) + (if np_enabled p' then 0 else 1)"
proof -
  from record_results_view [OF assms, of rs] obtain p' where
    "get_node_peer rid (record_results rid rs db) = Some p'"
    "np_consecutive_failures p' = int (trailing (answers rs))"
    "np_enabled p' = (\<not> sublist (replicate 5 False) (answers rs))"
    "length (notifications (record_results rid rs db)) =
      length (notifications db) + (if np_enabled p' then 0 else 1)"
    by blast
  then show ?thesis by (intro exI [of _ p'] conjI)
qed

definition sample_fed :: "bool \<Rightarrow> unit fed_db" where
  "sample_fed enabled =
     \<lparr>node_peers = [\<lparr>np_id = 1, np_url = ''http://p'', np_name = None, np_enabled = enabled,
        np_consecutive_failures = 0, np_last_response_ms = None, np_last_checked_at = None,
        np_disabled_at = None, np_created_at = 0\<rparr>], collection_peers = [], notifications = []\<rparr>"

theorem disabled_iff_five_in_a_row_witness:
  "\<exists>p'. get_node_peer 1 (record_results 1 (replicate 5 (7, False, None)) (sample_fed True)) = Some p' \<and>
     \<not> np_enabled p'"
proof -
  have "\<exists>p'. get_node_peer 1 (record_results 1 (replicate 5 (7, False, None)) (sample_fed True)) = Some p' \<and>
      (np_enabled p' \<longleftrightarrow>
        \<not> sublist (replicate 5 False) (answers (replicate 5 (7, False, None)))) \<and>
      np_consecutive_failures p' = int (trailing (answers (replicate 5 (7, False, None)))) \<and>
      length (notifications (record_results 1 (replicate 5 (7, False, None)) (sample_fed True))) =
        length (notifications (sample_fed True)) + (if np_enabled p' then 0 else 1)"
    by (rule disabled_iff_five_in_a_row [where p = "hd (node_peers (sample_fed True))"])
      (simp_all add: sample_fed_def get_node_peer_def)
  moreover have "answers (replicate 5 (7, False, None)) = replicate 5 False"
    by (simp add: answers_def)
  ultimately show ?thesis by auto
qed

text \<open>The recovery sweep switches on exactly the disabled peers that answer, with a fresh counter, and
  leaves every other peer as it was; its outcome lists them in two groups.\<close>

theorem sweep_re_enables_exactly_the_answering:
  assumes wf: "fed_wf db" and p: "get_node_peer k db = Some p"
  shows "get_node_peer k (fst (run_health_check_once probe now db)) =
      Some (if \<not> np_enabled p \<and> probe (np_url p) then recovered p else p) \<and>
    (k \<in> set (re_enabled (snd (run_health_check_once probe now db))) \<longleftrightarrow>
      \<not> np_enabled p \<and> probe (np_url p)) \<and>
    (k \<in> set (still_down (snd (run_health_check_once probe now db))) \<longleftrightarrow>
      \<not> np_enabled p \<and> \<not> probe (np_url p))"
proof -
  have only: "q = p" if "q \<in> set (node_peers db)" "np_id q = k" for q
    using that p wf
    by (simp add: get_node_peer_def fed_wf_def find_by_Some_iff distinct_map inj_on_def)
  have mem: "p \<in> set (node_peers db)" "np_id p = k"
    using p find_by_SomeD [of np_id k "node_peers db" p] by (simp_all add: get_node_peer_def)
  let ?ps = "filter (\<lambda>p. \<not> np_enabled p) (list_node_peers db)"
  have ps: "q \<in> set ?ps \<longleftrightarrow> q \<in> set (node_peers db) \<and> \<not> np_enabled q" for q
    by (simp add: list_node_peers_def)
  have ex: "(\<exists>q \<in> set ?ps. np_id q = k \<and> R q) \<longleftrightarrow> \<not> np_enabled p \<and> R p" for R
    using only mem unfolding Bex_def ps by blast
  have grp: "k \<in> set (map np_id (filter R ?ps)) \<longleftrightarrow> (\<exists>q \<in> set ?ps. np_id q = k \<and> R q)" for R
    by auto
  show ?thesis
    unfolding run_health_check_once_def health_sweep_view health_sweep_outcome p ex
      health_outcome.simps append_Nil grp
    by simp
qed

theorem sweep_re_enables_exactly_the_answering_witness:
  "get_node_peer 1 (fst (run_health_check_once (\<lambda>_. True) 9 (sample_fed False))) =
     Some (recovered (hd (node_peers (sample_fed False))))"
proof -
  have "fed_wf (sample_fed False)" by (simp add: fed_wf_def sample_fed_def)
  moreover have "get_node_peer 1 (sample_fed False) = Some (hd (node_peers (sample_fed False)))"
    by (simp add: sample_fed_def get_node_peer_def)
  ultimately have "get_node_peer 1 (fst (run_health_check_once (\<lambda>_. True) 9 (sample_fed False))) =
      Some (if \<not> np_enabled (hd (node_peers (sample_fed False))) \<and> True
        then recovered (hd (node_peers (sample_fed False))) else hd (node_peers (sample_fed False)))"
    by (rule conjunct1 [OF sweep_re_enables_exactly_the_answering])
  then show ?thesis by (simp add: sample_fed_def)
qed

end
