(* ===== verification/Gossip.thy ===== *)
theory Gossip
  imports Peers Protocol
begin

text \<open>
  Discovery by gossip: the table \<open>discovered_engines\<close> (\<open>federation/discovered.rs\<close>), the merge and the
  outbound client (\<open>federation/gossip.rs\<close>), the endpoint peers call (\<open>api/gossip.rs\<close>) and the admin
  handlers (\<open>api/admin/gossip.rs\<close>, \<open>api/admin/discovered.rs\<close>). A peer's answer to our POST is an argument,
  a function of the URL and of the body we send. Where the code releases the database lock during the
  exchange, the definitions take the state at both ends.
\<close>

section \<open>The table of discovered engines\<close>

record engine =
  eng_url :: string
  eng_name :: string
  eng_description :: string
  eng_first_seen :: int
  eng_last_seen :: int

type_synonym engines = "engine list"

definition discovered_upsert :: "engines \<Rightarrow> engine \<Rightarrow> engines" where
  "discovered_upsert db e =
     upsert_row eng_url e
       (\<lambda>r. r\<lparr>eng_name := eng_name e, eng_description := eng_description e,
              eng_last_seen := max (eng_last_seen r) (eng_last_seen e)\<rparr>) db"

definition discovered_list :: "engines \<Rightarrow> engine list" where
  "discovered_list db = sort_key (\<lambda>e. - eng_last_seen e) db"

definition discovered_get :: "engines \<Rightarrow> string \<Rightarrow> engine option" where
  "discovered_get db url = find_by eng_url url db"

definition discovered_remove :: "engines \<Rightarrow> string \<Rightarrow> engines \<times> nat" where
  "discovered_remove db url =
     (delete_where (\<lambda>e. eng_url e = url) db, count_where (\<lambda>e. eng_url e = url) db)"

definition ensure_self_entry :: "engines \<Rightarrow> string \<Rightarrow> string \<Rightarrow> string \<Rightarrow> int \<Rightarrow> engines" where
  "ensure_self_entry db self_url name description now =
     discovered_upsert db \<lparr>eng_url = self_url, eng_name = name, eng_description = description,
       eng_first_seen = now, eng_last_seen = now\<rparr>"

section \<open>The merge\<close>

text \<open>
  The map of \<open>merge_engine_lists\<close> is the list of its values; inserting replaces the value of a key.
\<close>

definition map_insert :: "engine \<Rightarrow> engines \<Rightarrow> engines" where
  "map_insert e m = upsert_row eng_url e (\<lambda>_. e) m"

definition merge_existing :: "int \<Rightarrow> engine \<Rightarrow> engine \<Rightarrow> engine" where
  "merge_existing now inc existing =
     (let e1 = existing\<lparr>eng_first_seen := min (eng_first_seen existing) (eng_first_seen inc)\<rparr>;
          e2 = (if eng_last_seen inc \<ge> eng_last_seen e1
                then e1\<lparr>eng_name := eng_name inc, eng_description := eng_description inc,
                        eng_last_seen := eng_last_seen inc\<rparr>
                else e1) in
      e2\<lparr>eng_last_seen := max (eng_last_seen e2) now\<rparr>)"

definition merge_new :: "int \<Rightarrow> engine \<Rightarrow> engine" where
  "merge_new now inc = inc\<lparr>eng_last_seen := max (eng_last_seen inc) now\<rparr>"

definition merge_incoming :: "int \<Rightarrow> engine \<Rightarrow> engines \<Rightarrow> engines" where
  "merge_incoming now inc m = upsert_row eng_url (merge_new now inc) (merge_existing now inc) m"

definition merge_map :: "engine list \<Rightarrow> engine list \<Rightarrow> int \<Rightarrow> engines" where
  "merge_map local incoming now =
     fold (merge_incoming now) incoming (fold map_insert local [])"

definition merge_order :: "engine \<Rightarrow> int \<times> string" where
  "merge_order e = (- eng_last_seen e, eng_url e)"

definition merge_engine_lists :: "engine list \<Rightarrow> engine list \<Rightarrow> int \<Rightarrow> engine list" where
  "merge_engine_lists local incoming now = sort_key merge_order (merge_map local incoming now)"

section \<open>Messages\<close>

record engine_summary =
  sum_url :: string
  sum_name :: string
  sum_description :: string

record exchange_message =
  msg_version :: string
  msg_engines :: "engine_summary list"

definition summary_of :: "engine \<Rightarrow> engine_summary" where
  "summary_of e = \<lparr>sum_url = eng_url e, sum_name = eng_name e, sum_description = eng_description e\<rparr>"

definition engine_of_summary :: "int \<Rightarrow> engine_summary \<Rightarrow> engine" where
  "engine_of_summary now s =
     \<lparr>eng_url = sum_url s, eng_name = sum_name s, eng_description = sum_description s,
      eng_first_seen = now, eng_last_seen = now\<rparr>"

definition our_payload :: "engine list \<Rightarrow> exchange_message" where
  "our_payload local = \<lparr>msg_version = PROTOCOL_VERSION, msg_engines = map summary_of local\<rparr>"

text \<open>What a POST to a peer comes to: no response, a response with its status and, when it parses, its body.\<close>

datatype peer_reply = NoResponse string | Response nat "exchange_message option"

type_synonym gossip_net = "string \<Rightarrow> exchange_message \<Rightarrow> peer_reply"

definition exchange_url :: "string \<Rightarrow> string" where
  "exchange_url peer_url = trim_end_matches CHR ''/'' peer_url @ ''/api/gossip/exchange''"

datatype gossip_error =
    GossipHttp
  | GossipDb db_error
  | GossipVersion string
  | GossipStatus nat

record exchange_outcome =
  sent_count :: nat
  received_count :: nat

definition persist_all :: "engine list \<Rightarrow> engines \<Rightarrow> engines" where
  "persist_all es db = fold (\<lambda>e d. discovered_upsert d e) es db"

text \<open>The part of an exchange between the response and the merged list.\<close>

definition checked_reply ::
  "(string \<Rightarrow> (nat \<times> nat) option) \<Rightarrow> peer_reply \<Rightarrow> gossip_error + exchange_message" where
  "checked_reply semver reply =
     (case reply of
        NoResponse _ \<Rightarrow> Inl GossipHttp
      | Response status body \<Rightarrow>
          if \<not> (200 \<le> status \<and> status < 300) then Inl (GossipStatus status)
          else (case body of
                  None \<Rightarrow> Inl GossipHttp
                | Some b \<Rightarrow>
                    if check_compatibility semver (msg_version b) = Incompatible
                    then Inl (GossipVersion (msg_version b)) else Inr b))"

definition exchange_with_peer ::
  "(string \<Rightarrow> (nat \<times> nat) option) \<Rightarrow> gossip_net \<Rightarrow> int \<Rightarrow> string \<Rightarrow> engines \<Rightarrow>
   engines \<times> (gossip_error + exchange_outcome)" where
  "exchange_with_peer semver net now peer_url db =
     (let local = discovered_list db; payload = our_payload local in
      case checked_reply semver (net (exchange_url peer_url) payload) of
        Inl e \<Rightarrow> (db, Inl e)
      | Inr body \<Rightarrow>
          (let incoming = map (engine_of_summary now) (msg_engines body);
               merged = merge_engine_lists local incoming now in
           (persist_all merged db,
            Inr \<lparr>sent_count = length (msg_engines payload), received_count = length incoming\<rparr>)))"

text \<open>
  The background form: \<open>db\<close> when the list is read, \<open>db_later\<close> when the merged list is written; \<open>poisoned\<close>
  and \<open>poisoned_later\<close> whether the mutex is poisoned then.
\<close>

definition spawn_gossip_exchange_with_peer ::
  "(string \<Rightarrow> (nat \<times> nat) option) \<Rightarrow> gossip_net \<Rightarrow> int \<Rightarrow> string \<Rightarrow> bool \<Rightarrow> engines \<Rightarrow> bool \<Rightarrow> engines \<Rightarrow>
   engines" where
  "spawn_gossip_exchange_with_peer semver net now peer_url poisoned db poisoned_later db_later =
     (if poisoned then db_later
      else
        (let local = discovered_list db in
         case checked_reply semver (net (exchange_url peer_url) (our_payload local)) of
           Inl _ \<Rightarrow> db_later
         | Inr body \<Rightarrow>
             if poisoned_later then db_later
             else persist_all
                    (merge_engine_lists local (map (engine_of_summary now) (msg_engines body)) now)
                    db_later))"

record sync_result =
  attempted :: nat
  succeeded :: nat

fun sync_peers ::
  "(string \<Rightarrow> (nat \<times> nat) option) \<Rightarrow> gossip_net \<Rightarrow> int \<Rightarrow> node_peer list \<Rightarrow> engines \<Rightarrow> nat \<Rightarrow>
   engines \<times> nat" where
  "sync_peers semver net now [] db ok = (db, ok)"
| "sync_peers semver net now (p # ps) db ok =
     (let (db', r) = exchange_with_peer semver net now (np_url p) db in
      sync_peers semver net now ps db' (case r of Inl _ \<Rightarrow> ok | Inr _ \<Rightarrow> ok + 1))"

definition run_periodic_sync_once ::
  "(string \<Rightarrow> (nat \<times> nat) option) \<Rightarrow> gossip_net \<Rightarrow> int \<Rightarrow> 'w fed_db \<Rightarrow> engines \<Rightarrow> engines \<times> sync_result" where
  "run_periodic_sync_once semver net now fed db =
     (let peers = filter np_enabled (list_node_peers fed);
          (db', ok) = sync_peers semver net now peers db 0 in
      (db', \<lparr>attempted = length peers, succeeded = ok\<rparr>))"

text \<open>One tick of \<open>run_periodic_sync_loop\<close>: the peers it spawns an exchange with.\<close>

definition sync_loop_targets :: "bool \<Rightarrow> 'w fed_db \<Rightarrow> string list" where
  "sync_loop_targets poisoned fed =
     (if poisoned then [] else map np_url (filter np_enabled (list_node_peers fed)))"

section \<open>Handlers\<close>

definition exchange ::
  "(string \<Rightarrow> (nat \<times> nat) option) \<Rightarrow> bool \<Rightarrow> int \<Rightarrow> exchange_message \<Rightarrow> engines \<Rightarrow>
   engines \<times> exchange_message http_result" where
  "exchange semver poisoned now req db =
     (if check_compatibility semver (msg_version req) = Incompatible then
        (db, Inl (400, Msg (''incompatible protocol version: theirs='' @ msg_version req @
                            '' ours='' @ PROTOCOL_VERSION)))
      else if poisoned then (db, Inl db_mutex_poisoned)
      else
        (let local = discovered_list db;
             merged = merge_engine_lists local (map (engine_of_summary now) (msg_engines req)) now in
         (persist_all merged db, Inr (our_payload local))))"

record trigger_response =
  trig_sent :: nat
  trig_received :: nat

definition trigger_gossip ::
  "(string \<Rightarrow> (nat \<times> nat) option) \<Rightarrow> gossip_net \<Rightarrow> int \<Rightarrow> string \<Rightarrow> bool \<Rightarrow> engines \<Rightarrow> bool \<Rightarrow> engines \<Rightarrow>
   engines \<times> trigger_response http_result" where
  "trigger_gossip semver net now url poisoned db poisoned_later db_later =
     (if poisoned then (db_later, Inl db_mutex_poisoned)
      else
        (let local = discovered_list db; payload = our_payload local in
         case net (exchange_url url) payload of
           NoResponse e \<Rightarrow> (db_later, Inl (400, LibText e))
         | Response status body \<Rightarrow>
             if \<not> (200 \<le> status \<and> status < 300)
             then (db_later, Inl (400, Msg (''peer returned status '' @ show_nat status)))
             else (case body of
                     None \<Rightarrow> (db_later, Inl (400, LibText ''json''))
                   | Some b \<Rightarrow>
                       if check_compatibility semver (msg_version b) = Incompatible then
                         (db_later, Inl (400, Msg (''incompatible protocol version: peer='' @
                            msg_version b @ '' ours='' @ PROTOCOL_VERSION)))
                       else if poisoned_later then (db_later, Inl db_mutex_poisoned)
                       else
                         (let incoming = map (engine_of_summary now) (msg_engines b) in
                          (persist_all (merge_engine_lists local incoming now) db_later,
                           Inr \<lparr>trig_sent = length (msg_engines payload),
                                trig_received = length incoming\<rparr>)))))"

definition list_discovered :: "bool \<Rightarrow> engines \<Rightarrow> engine list http_result" where
  "list_discovered poisoned db =
     (if poisoned then Inl db_mutex_poisoned else Inr (discovered_list db))"

definition promote_discovered ::
  "bool \<Rightarrow> int \<Rightarrow> string \<Rightarrow> engines \<Rightarrow> 'w fed_db \<Rightarrow> 'w fed_db \<times> unit http_result" where
  "promote_discovered poisoned now url db fed =
     (if poisoned then (fed, Inl db_mutex_poisoned)
      else
        (case discovered_get db url of
           None \<Rightarrow> (fed, Inl (404, Msg ''unknown discovered engine''))
         | Some e \<Rightarrow>
             (let (fed', r) = insert_node_peer now (eng_url e) (Some (eng_name e)) fed in
              case r of
                Inl err \<Rightarrow> (fed', Inl (internal_db_error err))
              | Inr _ \<Rightarrow> (fed', Inr ()))))"

definition remove_discovered ::
  "string \<Rightarrow> bool \<Rightarrow> string \<Rightarrow> engines \<Rightarrow> engines \<times> nat http_result" where
  "remove_discovered self_url poisoned url db =
     (if url = self_url then (db, Inl (400, Msg ''cannot remove self-entry''))
      else if poisoned then (db, Inl db_mutex_poisoned)
      else
        (let (db', n) = discovered_remove db url in
         if n = 0 then (db', Inl (404, Msg ''no such discovered engine'')) else (db', Inr n)))"

section \<open>The table is a removable keyed store\<close>

lemma find_by_perm:
  assumes "distinct (map key xs)" and "mset xs = mset ys"
  shows "find_by key k xs = find_by key k ys"
proof -
  have "distinct (map key ys)" using assms by (metis mset_eq_imp_distinct_iff mset_map)
  moreover have "set xs = set ys" using assms(2) by (rule mset_eq_setD)
  ultimately have "find_by key k xs = Some r \<longleftrightarrow> find_by key k ys = Some r" for r
    using assms(1) by (simp add: find_by_Some_iff)
  then show ?thesis by (metis not_None_eq)
qed

lemma eng_url_same: "eng_url x = u \<Longrightarrow> x\<lparr>eng_url := u\<rparr> = x"
  by auto

definition upserted :: "engine \<Rightarrow> engine option \<Rightarrow> engine" where
  "upserted e r =
     (case r of
        None \<Rightarrow> e
      | Some x \<Rightarrow> x\<lparr>eng_name := eng_name e, eng_description := eng_description e,
                    eng_last_seen := max (eng_last_seen x) (eng_last_seen e)\<rparr>)"

interpretation engine_store: removable_store "\<lambda>db u. find_by eng_url u db"
  "\<lambda>db u e. discovered_upsert db (e\<lparr>eng_url := u\<rparr>)" "\<lambda>u e r. upserted (e\<lparr>eng_url := u\<rparr>) r"
  "\<lambda>db u. fst (discovered_remove db u)"
proof unfold_locales
  show "find_by eng_url k' (discovered_upsert db (v\<lparr>eng_url := k\<rparr>)) =
      (if k' = k then Some (upserted (v\<lparr>eng_url := k\<rparr>) (find_by eng_url k db))
       else find_by eng_url k' db)" for db k v k'
    by (auto simp: discovered_upsert_def find_by_upsert_row upserted_def split: option.splits)
  show "find_by eng_url k' (fst (discovered_remove db k)) =
      (if k' = k then None else find_by eng_url k' db)" for db k k'
    by (auto simp: discovered_remove_def find_by_delete_where_same find_by_delete_where_other)
qed

definition keyed_engines :: "engine list \<Rightarrow> (string \<times> engine) list" where
  "keyed_engines es = map (\<lambda>e. (eng_url e, e)) es"

lemma keyed_engines_fst [simp]: "map fst (keyed_engines es) = map eng_url es"
  by (simp add: keyed_engines_def comp_def)

lemma persist_all_puts: "persist_all es db = engine_store.put_all db (keyed_engines es)"
  by (induction es arbitrary: db)
    (simp_all add: persist_all_def engine_store.put_all_def keyed_engines_def)

lemma persist_all_get:
  assumes "distinct (map eng_url es)"
  shows "find_by eng_url u (persist_all es db) =
    (case find_by eng_url u es of
       None \<Rightarrow> find_by eng_url u db
     | Some e \<Rightarrow> Some (upserted e (find_by eng_url u db)))"
proof (cases "find_by eng_url u es")
  case None
  then have "u \<notin> fst ` set (keyed_engines es)" by (auto simp: find_by_None_iff keyed_engines_def)
  with None show ?thesis by (simp add: persist_all_puts engine_store.get_put_all_notin)
next
  case (Some e)
  then have "e \<in> set es" "eng_url e = u" using find_by_SomeD [OF Some] by simp_all
  then have "(u, e) \<in> set (keyed_engines es)" by (auto simp: keyed_engines_def)
  moreover have "distinct (map fst (keyed_engines es))" using assms by simp
  ultimately have "find_by eng_url u (persist_all es db) =
      Some (upserted (e\<lparr>eng_url := u\<rparr>) (find_by eng_url u db))"
    by (simp add: persist_all_puts engine_store.get_put_all_once)
  with Some \<open>eng_url e = u\<close> show ?thesis by auto
qed

lemma persist_all_distinct:
  "distinct (map eng_url db) \<Longrightarrow> distinct (map eng_url (persist_all es db))"
proof (induction es arbitrary: db)
  case (Cons e es)
  have "distinct (map eng_url (discovered_upsert db e))"
    unfolding discovered_upsert_def using Cons.prems by (intro distinct_upsert_row) simp_all
  from Cons.IH [OF this] show ?case by (simp add: persist_all_def)
qed (simp add: persist_all_def)

section \<open>The merged list\<close>

definition merged_value :: "int \<Rightarrow> engine \<Rightarrow> engine option \<Rightarrow> engine" where
  "merged_value now inc r = (case r of None \<Rightarrow> merge_new now inc | Some x \<Rightarrow> merge_existing now inc x)"

lemma merge_existing_url [simp]: "eng_url (merge_existing now inc x) = eng_url x"
  by (simp add: merge_existing_def Let_def)

lemma merge_new_url [simp]: "eng_url (merge_new now inc) = eng_url inc"
  by (simp add: merge_new_def)

interpretation merge_store: keyed_store "\<lambda>m u. find_by eng_url u m"
  "\<lambda>m u inc. merge_incoming now (inc\<lparr>eng_url := u\<rparr>) m"
  "\<lambda>u inc r. merged_value now (inc\<lparr>eng_url := u\<rparr>) r" for now
  by unfold_locales
    (auto simp: merge_incoming_def find_by_upsert_row merged_value_def split: option.splits)

lemma fold_merge_puts:
  "fold (merge_incoming now) incoming m = merge_store.put_all now m (keyed_engines incoming)"
  by (induction incoming arbitrary: m)
    (simp_all add: merge_store.put_all_def keyed_engines_def)

lemma distinct_map_insert: "distinct (map eng_url m) \<Longrightarrow> distinct (map eng_url (map_insert e m))"
  unfolding map_insert_def by (rule distinct_upsert_row) simp_all

lemma distinct_merge_incoming:
  "distinct (map eng_url m) \<Longrightarrow> distinct (map eng_url (merge_incoming now e m))"
  unfolding merge_incoming_def by (rule distinct_upsert_row) simp_all

lemma distinct_fold_map_insert:
  "distinct (map eng_url m) \<Longrightarrow> distinct (map eng_url (fold map_insert local m))"
  by (induction local arbitrary: m) (simp_all add: distinct_map_insert)

lemma distinct_fold_merge:
  "distinct (map eng_url m) \<Longrightarrow> distinct (map eng_url (fold (merge_incoming now) incoming m))"
  by (induction incoming arbitrary: m) (simp_all add: distinct_merge_incoming)

lemma distinct_merge_map: "distinct (map eng_url (merge_map local incoming now))"
  by (simp add: merge_map_def distinct_fold_merge distinct_fold_map_insert)

lemma map_insert_fresh: "eng_url e \<notin> eng_url ` set m \<Longrightarrow> map_insert e m = m @ [e]"
  by (simp add: map_insert_def upsert_row_def)

lemma fold_map_insert_distinct:
  "distinct (map eng_url (m @ local)) \<Longrightarrow> fold map_insert local m = m @ local"
  by (induction local arbitrary: m) (simp_all add: map_insert_fresh)

lemma merge_map_get:
  assumes "distinct (map eng_url local)"
  shows "find_by eng_url u (merge_map local incoming now) =
    fold (\<lambda>inc r. Some (merged_value now inc r)) (filter (\<lambda>e. eng_url e = u) incoming)
      (find_by eng_url u local)"
proof -
  have "fold map_insert local [] = local" using fold_map_insert_distinct [of "[]" local] assms by simp
  then have "find_by eng_url u (merge_map local incoming now) =
      fold (\<lambda>kv r. Some (merged_value now ((snd kv)\<lparr>eng_url := u\<rparr>) r))
        (filter (\<lambda>kv. fst kv = u) (keyed_engines incoming)) (find_by eng_url u local)"
    by (simp add: merge_map_def fold_merge_puts merge_store.get_put_all)
  also have "filter (\<lambda>kv. fst kv = u) (keyed_engines incoming) =
      map (\<lambda>e. (u, e)) (filter (\<lambda>e. eng_url e = u) incoming)"
    by (induction incoming) (simp_all add: keyed_engines_def)
  also have "fold (\<lambda>kv r. Some (merged_value now ((snd kv)\<lparr>eng_url := u\<rparr>) r)) \<dots> (find_by eng_url u local) =
      fold (\<lambda>inc r. Some (merged_value now inc r)) (filter (\<lambda>e. eng_url e = u) incoming)
        (find_by eng_url u local)"
    unfolding fold_map by (intro fold_cong) (auto simp: eng_url_same)
  finally show ?thesis .
qed

lemma distinct_merged: "distinct (map eng_url (merge_engine_lists local incoming now))"
proof -
  have "mset (map eng_url (merge_engine_lists local incoming now)) =
      mset (map eng_url (merge_map local incoming now))"
    by (simp add: merge_engine_lists_def)
  with distinct_merge_map show ?thesis by (metis mset_eq_imp_distinct_iff)
qed

lemma merged_get:
  "find_by eng_url u (merge_engine_lists local incoming now) =
   find_by eng_url u (merge_map local incoming now)"
  by (rule find_by_perm [OF distinct_merged]) (simp add: merge_engine_lists_def)

section \<open>What an exchange leaves in the table\<close>

definition just_seen :: "int \<Rightarrow> engine \<Rightarrow> bool" where
  "just_seen now e \<longleftrightarrow> eng_first_seen e = now \<and> eng_last_seen e = now"

definition refreshed :: "int \<Rightarrow> engine \<Rightarrow> engine \<Rightarrow> engine" where
  "refreshed now e x =
     (if eng_last_seen x \<le> now
      then x\<lparr>eng_name := eng_name e, eng_description := eng_description e, eng_last_seen := now\<rparr>
      else x)"

lemma merge_fold_known:
  assumes "xs \<noteq> []" and "\<forall>e \<in> set xs. just_seen now e"
  shows "fold (\<lambda>inc r. Some (merged_value now inc r)) xs (Some x) =
    Some ((refreshed now (last xs) x)\<lparr>eng_first_seen := min (eng_first_seen x) now\<rparr>)"
  using assms
proof (induction xs rule: rev_induct)
  case (snoc y ys)
  then have y: "eng_first_seen y = now" "eng_last_seen y = now" by (simp_all add: just_seen_def)
  show ?case
  proof (cases "ys = []")
    case True
    then show ?thesis
      using y by (simp add: merged_value_def merge_existing_def refreshed_def Let_def)
  next
    case False
    with snoc y show ?thesis
      by (simp add: merged_value_def merge_existing_def refreshed_def Let_def)
  qed
qed simp

lemma merge_fold_new:
  assumes "xs \<noteq> []" and "\<forall>e \<in> set xs. just_seen now e \<and> eng_url e = u"
  shows "fold (\<lambda>inc r. Some (merged_value now inc r)) xs None = Some (last xs)"
  using assms
proof (induction xs rule: rev_induct)
  case (snoc y ys)
  then have y: "eng_first_seen y = now" "eng_last_seen y = now" "eng_url y = u"
    by (simp_all add: just_seen_def)
  show ?case
  proof (cases "ys = []")
    case True
    then show ?thesis using y by (simp add: merged_value_def merge_new_def)
  next
    case False
    then have "last ys \<in> set ys" by simp
    with snoc.prems have z: "eng_first_seen (last ys) = now" "eng_last_seen (last ys) = now"
      "eng_url (last ys) = u" by (simp_all add: just_seen_def)
    then have "merge_existing now y (last ys) = y"
      using y by (cases y; cases "last ys") (simp add: merge_existing_def Let_def)
    with False snoc show ?thesis by (simp add: merged_value_def)
  qed
qed simp

text \<open>The last summary the request has for a URL.\<close>

definition last_summary :: "string \<Rightarrow> engine_summary list \<Rightarrow> engine_summary option" where
  "last_summary u ss =
     (let xs = filter (\<lambda>s. sum_url s = u) ss in if xs = [] then None else Some (last xs))"

definition after_exchange ::
  "int \<Rightarrow> engine_summary list \<Rightarrow> string \<Rightarrow> engine option \<Rightarrow> engine option" where
  "after_exchange now ss u old =
     (case last_summary u ss of
        None \<Rightarrow> old
      | Some s \<Rightarrow>
          (case old of
             None \<Rightarrow> Some (engine_of_summary now s)
           | Some x \<Rightarrow> Some (refreshed now (engine_of_summary now s) x)))"

lemma exchange_effect:
  assumes db: "distinct (map eng_url db)"
  shows "find_by eng_url u
      (persist_all (merge_engine_lists (discovered_list db) (map (engine_of_summary now) ss) now) db) =
    after_exchange now ss u (find_by eng_url u db)"
proof -
  let ?inc = "map (engine_of_summary now) ss"
  let ?xs = "filter (\<lambda>e. eng_url e = u) ?inc"
  have mine: "?xs = map (engine_of_summary now) (filter (\<lambda>s. sum_url s = u) ss)"
    by (simp add: filter_map comp_def engine_of_summary_def)
  have local: "distinct (map eng_url (discovered_list db))"
    using db unfolding discovered_list_def
    by (metis mset_eq_imp_distinct_iff mset_map mset_sort)
  have same: "find_by eng_url u (discovered_list db) = find_by eng_url u db"
    by (rule find_by_perm [OF local]) (simp add: discovered_list_def)
  have "find_by eng_url u (persist_all (merge_engine_lists (discovered_list db) ?inc now) db) =
      (case fold (\<lambda>inc r. Some (merged_value now inc r)) ?xs (find_by eng_url u db) of
         None \<Rightarrow> find_by eng_url u db
       | Some e \<Rightarrow> Some (upserted e (find_by eng_url u db)))"
    by (simp only: persist_all_get [OF distinct_merged] merged_get merge_map_get [OF local] same)
  also have "\<dots> = after_exchange now ss u (find_by eng_url u db)"
  proof (cases "filter (\<lambda>s. sum_url s = u) ss = []")
    case True
    then show ?thesis
      unfolding mine
      by (auto simp: after_exchange_def last_summary_def upserted_def split: option.splits)
  next
    case False
    then have ne: "?xs \<noteq> []" unfolding mine by simp
    have all: "\<forall>e \<in> set ?xs. just_seen now e \<and> eng_url e = u"
      by (auto simp: just_seen_def engine_of_summary_def)
    have last: "last ?xs = engine_of_summary now (last (filter (\<lambda>s. sum_url s = u) ss))"
      unfolding mine by (rule last_map [OF False])
    show ?thesis
    proof (cases "find_by eng_url u db")
      case None
      have "fold (\<lambda>inc r. Some (merged_value now inc r)) ?xs None = Some (last ?xs)"
        by (rule merge_fold_new [OF ne all])
      with None False show ?thesis
        by (simp add: last after_exchange_def last_summary_def upserted_def)
    next
      case (Some x)
      have "fold (\<lambda>inc r. Some (merged_value now inc r)) ?xs (Some x) =
          Some ((refreshed now (last ?xs) x)\<lparr>eng_first_seen := min (eng_first_seen x) now\<rparr>)"
        using all by (intro merge_fold_known [OF ne]) simp
      with Some False show ?thesis
        by (simp add: last after_exchange_def last_summary_def upserted_def refreshed_def
            engine_of_summary_def)
    qed
  qed
  finally show ?thesis .
qed

lemma after_exchange_idem:
  "after_exchange now ss u (after_exchange now ss u old) = after_exchange now ss u old"
  by (auto simp: after_exchange_def refreshed_def engine_of_summary_def last_summary_def Let_def
      split: option.splits dest: filter_eq_Cons_iff [THEN iffD1])

text \<open>
  The lock is free during the HTTP exchange of the background task: an engine removed in the meantime comes
  back, because the whole merged list is written again.
\<close>

lemma removed_engine_comes_back:
  assumes "distinct (map eng_url db)" and "find_by eng_url u db = Some e"
    and "checked_reply semver (net (exchange_url p) (our_payload (discovered_list db))) =
      Inr \<lparr>msg_version = v, msg_engines = []\<rparr>"
    and "find_by eng_url u db_later = None"
  shows "find_by eng_url u
    (spawn_gossip_exchange_with_peer semver net now p False db False db_later) = Some e"
proof -
  have local: "distinct (map eng_url (discovered_list db))"
    using assms(1) unfolding discovered_list_def
    by (metis mset_eq_imp_distinct_iff mset_map mset_sort)
  have same: "find_by eng_url u (discovered_list db) = find_by eng_url u db"
    by (rule find_by_perm [OF local]) (simp add: discovered_list_def)
  show ?thesis
    using assms(2-4)
    by (simp add: spawn_gossip_exchange_with_peer_def Let_def persist_all_get [OF distinct_merged]
        merged_get merge_map_get [OF local] same upserted_def)
qed

section \<open>Facts for the properties of the merge\<close>

lemma merge_existing_bounds:
  "eng_first_seen (merge_existing now inc x) \<le> eng_first_seen x"
  "eng_last_seen x \<le> eng_last_seen (merge_existing now inc x)"
  "now \<le> eng_last_seen (merge_existing now inc x)"
  by (auto simp: merge_existing_def Let_def)

lemma merge_fold_mono:
  assumes "fold (\<lambda>inc r. Some (merged_value now inc r)) xs (Some x) = Some y"
  shows "eng_first_seen y \<le> eng_first_seen x \<and> eng_last_seen x \<le> eng_last_seen y"
  using assms
proof (induction xs arbitrary: x)
  case (Cons a xs)
  then have "eng_first_seen y \<le> eng_first_seen (merge_existing now a x)"
      "eng_last_seen (merge_existing now a x) \<le> eng_last_seen y"
    by (simp_all add: merged_value_def)
  with merge_existing_bounds(1) [of now a x] merge_existing_bounds(2) [of x now a] show ?case by linarith
qed simp

lemma merge_fold_advances:
  assumes "xs \<noteq> []" and "fold (\<lambda>inc r. Some (merged_value now inc r)) xs r = Some y"
  shows "now \<le> eng_last_seen y"
  using assms
  by (cases xs rule: rev_cases)
    (auto simp: merged_value_def merge_new_def merge_existing_bounds split: option.splits)

lemma merge_fold_Some:
  "fold (\<lambda>inc r. Some (merged_value now inc r)) xs r = None \<longleftrightarrow> xs = [] \<and> r = None"
  by (cases xs rule: rev_cases) simp_all

lemma in_merged_iff:
  "e \<in> set (merge_engine_lists local incoming now) \<longleftrightarrow>
   find_by eng_url (eng_url e) (merge_map local incoming now) = Some e"
  using find_by_Some_iff [OF distinct_merge_map, of "eng_url e" local incoming now e]
  by (simp add: merge_engine_lists_def)

lemma merge_order_inj: "distinct (map eng_url m) \<Longrightarrow> inj_on merge_order (set m)"
  by (auto simp: inj_on_def merge_order_def distinct_map)

section \<open>Properties\<close>

text \<open>The parts of the theorem on the merge below.\<close>

lemma merged_urls:
  assumes "distinct (map eng_url local)"
  shows "eng_url ` set (merge_engine_lists local incoming now) = eng_url ` set local \<union> eng_url ` set incoming"
proof -
  have "u \<in> eng_url ` set (merge_engine_lists local incoming now) \<longleftrightarrow> u \<in> eng_url ` set local \<union> eng_url ` set incoming" for u
  proof -
    have "u \<notin> eng_url ` set (merge_engine_lists local incoming now) \<longleftrightarrow>
        find_by eng_url u (merge_engine_lists local incoming now) = None" by (simp add: find_by_None_iff)
    also have "\<dots> \<longleftrightarrow> filter (\<lambda>e. eng_url e = u) incoming = [] \<and> find_by eng_url u local = None"
      unfolding merged_get merge_map_get [OF assms] by (rule merge_fold_Some)
    also have "\<dots> \<longleftrightarrow> u \<notin> eng_url ` set incoming \<and> u \<notin> eng_url ` set local"
      by (auto simp: filter_empty_conv find_by_None_iff)
    finally show ?thesis by blast
  qed
  then show ?thesis by blast
qed

lemma merged_keeps:
  assumes "distinct (map eng_url local)" and "e \<in> set local" and "eng_url e \<notin> eng_url ` set incoming"
  shows "e \<in> set (merge_engine_lists local incoming now)"
proof -
  have "filter (\<lambda>x. eng_url x = eng_url e) incoming = []" "find_by eng_url (eng_url e) local = Some e"
    using assms by (auto simp: filter_empty_conv find_by_Some_iff image_iff)
  then show ?thesis unfolding in_merged_iff merge_map_get [OF assms(1)] by simp
qed

lemma merged_advances:
  assumes "distinct (map eng_url local)" and "e \<in> set (merge_engine_lists local incoming now)"
    and "eng_url e \<in> eng_url ` set incoming"
  shows "now \<le> eng_last_seen e"
  using assms(2,3) unfolding in_merged_iff merge_map_get [OF assms(1)]
  by (intro merge_fold_advances [where xs = "filter (\<lambda>x. eng_url x = eng_url e) incoming"])
    (auto simp: filter_empty_conv)

lemma merged_mono:
  assumes "distinct (map eng_url local)" and "e \<in> set local" and "e' \<in> set (merge_engine_lists local incoming now)"
    and "eng_url e' = eng_url e"
  shows "eng_first_seen e' \<le> eng_first_seen e \<and> eng_last_seen e \<le> eng_last_seen e'"
proof -
  have "find_by eng_url (eng_url e) local = Some e" using assms(1,2) by (simp add: find_by_Some_iff)
  then show ?thesis
    using assms(3,4) unfolding in_merged_iff merge_map_get [OF assms(1)] by (intro merge_fold_mono) simp
qed

lemma merged_order_free:
  assumes "mset vs = mset (merge_map local incoming now)"
  shows "sort_key merge_order vs = merge_engine_lists local incoming now"
proof -
  have "set vs = set (merge_map local incoming now)" using assms by (rule mset_eq_setD)
  then have "inj_on merge_order (set vs)" using merge_order_inj [OF distinct_merge_map] by metis
  from sort_key_unique [OF assms this] show ?thesis by (simp add: merge_engine_lists_def)
qed

text \<open>C28: the merge is a union. Merging into a list without duplicate URLs gives a list without duplicates,
  in the documented order, whose URLs are those of both sides; entries the peer did not mention are
  unchanged, every mentioned one has been seen now at the earliest, no entry loses an earlier
  \<open>first_seen\<close> or a later \<open>last_seen\<close>, and the result does not depend on the order in which the hash map
  yields its values.\<close>

theorem merge_engine_lists_correct:
  assumes local: "distinct (map eng_url local)" and m: "m = merge_engine_lists local incoming now"
  shows "distinct (map eng_url m) \<and> sorted (map merge_order m) \<and>
    eng_url ` set m = eng_url ` set local \<union> eng_url ` set incoming \<and>
    (\<forall>e \<in> set local. eng_url e \<notin> eng_url ` set incoming \<longrightarrow> e \<in> set m) \<and>
    (\<forall>e \<in> set m. eng_url e \<in> eng_url ` set incoming \<longrightarrow> now \<le> eng_last_seen e) \<and>
    (\<forall>e \<in> set local. \<forall>e' \<in> set m. eng_url e' = eng_url e \<longrightarrow>
       eng_first_seen e' \<le> eng_first_seen e \<and> eng_last_seen e \<le> eng_last_seen e') \<and>
    (\<forall>vs. mset vs = mset (merge_map local incoming now) \<longrightarrow> sort_key merge_order vs = m)"
  unfolding m
proof (intro conjI)
  show "sorted (map merge_order (merge_engine_lists local incoming now))" by (simp add: merge_engine_lists_def)
  show "\<forall>e \<in> set (merge_engine_lists local incoming now). eng_url e \<in> eng_url ` set incoming \<longrightarrow> now \<le> eng_last_seen e"
    using merged_advances [OF local] by blast
  show "\<forall>e \<in> set local. \<forall>e' \<in> set (merge_engine_lists local incoming now). eng_url e' = eng_url e \<longrightarrow>
      eng_first_seen e' \<le> eng_first_seen e \<and> eng_last_seen e \<le> eng_last_seen e'"
    using merged_mono [OF local] by blast
  show "\<forall>e \<in> set local. eng_url e \<notin> eng_url ` set incoming \<longrightarrow> e \<in> set (merge_engine_lists local incoming now)"
    using merged_keeps [OF local] by blast
  show "\<forall>vs. mset vs = mset (merge_map local incoming now) \<longrightarrow> sort_key merge_order vs = merge_engine_lists local incoming now"
    by (intro allI impI) (rule merged_order_free)
qed (rule distinct_merged merged_urls [OF local])+

definition sample_engine :: "string \<Rightarrow> int \<Rightarrow> engine" where
  "sample_engine u t =
     \<lparr>eng_url = u, eng_name = ''n'', eng_description = ''d'', eng_first_seen = t, eng_last_seen = t\<rparr>"

theorem merge_engine_lists_correct_witness:
  "sample_engine ''a'' 3 \<in> set (merge_engine_lists [sample_engine ''a'' 3] [sample_engine ''b'' 9] 9)"
proof -
  have "distinct (map eng_url [sample_engine ''a'' 3])" by simp
  from merge_engine_lists_correct [OF this refl, of "[sample_engine ''b'' 9]" 9]
  have "\<forall>e \<in> set [sample_engine ''a'' 3]. eng_url e \<notin> eng_url ` set [sample_engine ''b'' 9] \<longrightarrow>
      e \<in> set (merge_engine_lists [sample_engine ''a'' 3] [sample_engine ''b'' 9] 9)"
    by (elim conjE)
  then show ?thesis by (simp add: sample_engine_def)
qed

text \<open>What a peer can do to our table through the exchange endpoint, URL by URL. An incompatible version
  changes nothing and is answered 400. Otherwise the answer is the list as it was before, a URL the peer did
  not mention keeps its row, an unknown one gets a new row, and a known one takes the last summary sent for
  it, unless it has been seen after \<open>now\<close>; \<open>first_seen\<close> never changes and nothing is removed. Sending the
  same request again changes nothing more.\<close>

theorem exchange_functional:
  assumes db: "distinct (map eng_url db)"
  shows "if check_compatibility semver (msg_version req) = Incompatible
    then fst (exchange semver False now req db) = db \<and>
      (\<exists>msg. snd (exchange semver False now req db) = Inl (400, msg))
    else snd (exchange semver False now req db) = Inr (our_payload (discovered_list db)) \<and>
      distinct (map eng_url (fst (exchange semver False now req db))) \<and>
      (\<forall>u. find_by eng_url u (fst (exchange semver False now req db)) =
        (case last_summary u (msg_engines req) of
           None \<Rightarrow> find_by eng_url u db
         | Some s \<Rightarrow> Some (case find_by eng_url u db of
             None \<Rightarrow> engine_of_summary now s
           | Some x \<Rightarrow> if eng_last_seen x \<le> now
               then x\<lparr>eng_name := sum_name s, eng_description := sum_description s,
                      eng_last_seen := now\<rparr>
               else x))) \<and>
      (\<forall>u. find_by eng_url u (fst (exchange semver False now req (fst (exchange semver False now req db)))) =
        find_by eng_url u (fst (exchange semver False now req db)))"
proof (cases "check_compatibility semver (msg_version req) = Incompatible")
  case False
  let ?db' = "fst (exchange semver False now req db)"
  have step: "fst (exchange semver False now req d) = persist_all
      (merge_engine_lists (discovered_list d) (map (engine_of_summary now) (msg_engines req)) now) d" for d
    using False by (simp add: exchange_def Let_def)
  have db': "distinct (map eng_url ?db')" unfolding step by (rule persist_all_distinct [OF db])
  have 1: "find_by eng_url u ?db' = after_exchange now (msg_engines req) u (find_by eng_url u db)" for u
    unfolding step by (rule exchange_effect [OF db])
  have "find_by eng_url u (fst (exchange semver False now req ?db')) =
      after_exchange now (msg_engines req) u (find_by eng_url u ?db')" for u
    unfolding step [of ?db'] by (rule exchange_effect [OF db'])
  then have 2: "find_by eng_url u (fst (exchange semver False now req ?db')) =
      find_by eng_url u ?db'" for u
    by (simp add: 1 after_exchange_idem)
  have "snd (exchange semver False now req db) = Inr (our_payload (discovered_list db))"
    using False by (simp add: exchange_def Let_def)
  with False db' 2 show ?thesis
    by (simp add: 1 after_exchange_def refreshed_def engine_of_summary_def split: option.splits)
qed (simp add: exchange_def)

theorem exchange_functional_witness:
  "snd (exchange (\<lambda>_. Some (1, 0)) False 9 \<lparr>msg_version = ''1.0'', msg_engines = []\<rparr> [sample_engine ''a'' 3]) =
   Inr (our_payload (discovered_list [sample_engine ''a'' 3]))"
proof -
  have "check_compatibility (\<lambda>_. Some (1, 0)) ''1.0'' = Compatible"
    by (simp add: check_compatibility_def)
  moreover have "distinct (map eng_url [sample_engine ''a'' 3])" by simp
  note exchange_functional [OF this, of "\<lambda>_. Some (1, 0)" "\<lparr>msg_version = ''1.0'', msg_engines = []\<rparr>" 9]
  ultimately show ?thesis by (simp only: exchange_message.simps compatibility.distinct if_False)
qed

end
