(* ===== verification/Ranking_Config.thy ===== *)
theory Ranking_Config
  imports Outlinks Rust_Text
begin

text \<open>
  \<open>db/ranking_config.rs\<close> and \<open>api/admin/ranking.rs\<close>: the ranking configuration of a collection, keyed by the
  collection's rowid. \<open>'f\<close> is the type of the \<open>f64\<close> numbers, \<open>'j\<close> of JSON texts and \<open>'v\<close> of parsed JSON
  values; the functions of \<open>ranking_json\<close> are \<open>serde_json\<close>'s readers and writers.
\<close>

section \<open>The table\<close>

record 'f ranking_config =
  rc_collection_id :: int
  rc_half_life :: 'f
  rc_source_weights :: "(string \<times> 'f) list"
  rc_domain_boosts :: "(string \<times> 'f) list"

record ('f, 'j) ranking_row =
  rk_collection_id :: int
  rk_half_life :: 'f
  rk_source_weights_json :: 'j
  rk_domain_boosts_json :: 'j
  rk_config_json :: "'j option"
  rk_updated_at :: int

record ('f, 'j) ranking_json =
  map_text :: "(string \<times> 'f) list \<Rightarrow> 'j option"
  map_of_text :: "'j \<Rightarrow> (string \<times> 'f) list option"
  config_of_text :: "'j \<Rightarrow> 'f ranking_config option"

definition default_for :: "'f \<Rightarrow> 'f \<Rightarrow> int \<Rightarrow> 'f ranking_config" where
  "default_for ninety one collection_id =
     \<lparr>rc_collection_id = collection_id, rc_half_life = ninety,
      rc_source_weights = [(''local'', one)], rc_domain_boosts = []\<rparr>"

definition ranking_load ::
  "('f, 'j) ranking_json \<Rightarrow> 'f \<Rightarrow> 'f \<Rightarrow> ('f, 'j) ranking_row list \<Rightarrow> int \<Rightarrow> 'f ranking_config" where
  "ranking_load J ninety one db collection_id =
     (case find_by rk_collection_id collection_id db of
        None \<Rightarrow> default_for ninety one collection_id
      | Some r \<Rightarrow>
          \<lparr>rc_collection_id = collection_id, rc_half_life = rk_half_life r,
           rc_source_weights = option_or [] (map_of_text J (rk_source_weights_json r)),
           rc_domain_boosts = option_or [] (map_of_text J (rk_domain_boosts_json r))\<rparr>)"

text \<open>
  \<open>save\<close> runs with foreign keys enforced. The child column is an INTEGER and the parent a TEXT: SQLite compares
  the decimal text of the number with the UUIDs of the collections, and only when a row is inserted.
\<close>

definition ranking_save ::
  "('f, 'j) ranking_json \<Rightarrow> int \<Rightarrow> 'f ranking_config \<Rightarrow> 'x content_db \<Rightarrow> ('f, 'j) ranking_row list \<Rightarrow>
   ('f, 'j) ranking_row list \<times> unit db_result" where
  "ranking_save J now cfg content db =
     (case map_text J (rc_source_weights cfg) of
        None \<Rightarrow> (db, Inl ToSqlConversionFailure)
      | Some sw \<Rightarrow>
          (case map_text J (rc_domain_boosts cfg) of
             None \<Rightarrow> (db, Inl ToSqlConversionFailure)
           | Some dbo \<Rightarrow>
               if rc_collection_id cfg \<notin> rk_collection_id ` set db \<and>
                  show_int (rc_collection_id cfg) \<notin> c_id ` set (collections content)
               then (db, Inl ForeignKeyViolation)
               else (upsert_row rk_collection_id
                   \<lparr>rk_collection_id = rc_collection_id cfg, rk_half_life = rc_half_life cfg,
                    rk_source_weights_json = sw, rk_domain_boosts_json = dbo,
                    rk_config_json = None, rk_updated_at = now\<rparr>
                   (\<lambda>r. r\<lparr>rk_half_life := rc_half_life cfg, rk_source_weights_json := sw,
                          rk_domain_boosts_json := dbo, rk_updated_at := now\<rparr>) db, Inr ())))"

definition ranking_row_of :: "int \<Rightarrow> 'f \<Rightarrow> 'j \<Rightarrow> 'j \<Rightarrow> 'j \<Rightarrow> int \<Rightarrow> ('f, 'j) ranking_row" where
  "ranking_row_of collection_id half_life sw dbo payload now =
     \<lparr>rk_collection_id = collection_id, rk_half_life = half_life, rk_source_weights_json = sw,
      rk_domain_boosts_json = dbo, rk_config_json = Some payload, rk_updated_at = now\<rparr>"

definition ranking_upsert ::
  "('f, 'j) ranking_json \<Rightarrow> int \<Rightarrow> int \<Rightarrow> 'j \<Rightarrow> ('f, 'j) ranking_row list \<Rightarrow>
   ('f, 'j) ranking_row list \<times> unit db_result" where
  "ranking_upsert J now collection_id payload_json db =
     (case config_of_text J payload_json of
        None \<Rightarrow> (db, Inl ToSqlConversionFailure)
      | Some cfg \<Rightarrow>
          (case map_text J (rc_source_weights cfg) of
             None \<Rightarrow> (db, Inl ToSqlConversionFailure)
           | Some sw \<Rightarrow>
               (case map_text J (rc_domain_boosts cfg) of
                  None \<Rightarrow> (db, Inl ToSqlConversionFailure)
                | Some dbo \<Rightarrow>
                    (upsert_row rk_collection_id
                       (ranking_row_of collection_id (rc_half_life cfg) sw dbo payload_json now)
                       (\<lambda>r. r\<lparr>rk_half_life := rc_half_life cfg, rk_source_weights_json := sw,
                              rk_domain_boosts_json := dbo, rk_config_json := Some payload_json,
                              rk_updated_at := now\<rparr>) db, Inr ()))))"

definition ranking_get :: "('f, 'j) ranking_row list \<Rightarrow> int \<Rightarrow> 'j option" where
  "ranking_get db collection_id =
     (case find_by rk_collection_id collection_id db of None \<Rightarrow> None | Some r \<Rightarrow> rk_config_json r)"

section \<open>Handlers\<close>

text \<open>
  \<open>id_field\<close> reads an integer \<open>collection_id\<close> from the body, \<open>value_text\<close> writes a JSON value and
  \<open>text_value\<close> reads one back.
\<close>

definition put_ranking ::
  "('f, 'j) ranking_json \<Rightarrow> ('v \<Rightarrow> int option) \<Rightarrow> ('v \<Rightarrow> 'j) \<Rightarrow> bool \<Rightarrow> int \<Rightarrow> 'v \<Rightarrow> 'x content_db \<Rightarrow>
   ('f, 'j) ranking_row list \<Rightarrow> ('f, 'j) ranking_row list \<times> unit http_result" where
  "put_ranking J id_field value_text poisoned now raw content db =
     (case id_field raw of
        None \<Rightarrow> (db, Inl (400, Msg ''collection_id must be an integer''))
      | Some collection_id \<Rightarrow>
          if poisoned then (db, Inl db_mutex_poisoned)
          else if \<not> collection_exists collection_id content
          then (db, Inl (404, Msg (''collection '' @ show_int collection_id @ '' not found'')))
          else
            (let (db', r) = ranking_upsert J now collection_id (value_text raw) db in
             case r of Inl e \<Rightarrow> (db', Inl (internal_db_error e)) | Inr _ \<Rightarrow> (db', Inr ())))"

definition get_ranking ::
  "('j \<Rightarrow> 'v option) \<Rightarrow> bool \<Rightarrow> int \<Rightarrow> ('f, 'j) ranking_row list \<Rightarrow> 'v http_result" where
  "get_ranking text_value poisoned collection_id db =
     (if poisoned then Inl db_mutex_poisoned
      else
        (case ranking_get db collection_id of
           None \<Rightarrow> Inl (404, Msg (''no ranking config for collection '' @ show_int collection_id))
         | Some json \<Rightarrow>
             (case text_value json of None \<Rightarrow> Inl (500, LibText ''json'') | Some v \<Rightarrow> Inr v)))"

section \<open>Facts\<close>

interpretation ranking_store: keyed_store "\<lambda>db k. find_by rk_collection_id k db"
  "\<lambda>db k (half, sw, dbo, payload, now). upsert_row rk_collection_id
     (ranking_row_of k half sw dbo payload now)
     (\<lambda>r. r\<lparr>rk_half_life := half, rk_source_weights_json := sw, rk_domain_boosts_json := dbo,
            rk_config_json := Some payload, rk_updated_at := now\<rparr>) db"
  "\<lambda>k v _. (case v of (half, sw, dbo, payload, now) \<Rightarrow> ranking_row_of k half sw dbo payload now)"
proof unfold_locales
  show "find_by rk_collection_id k' (case v of (half, sw, dbo, payload, now) \<Rightarrow>
      upsert_row rk_collection_id (ranking_row_of k half sw dbo payload now)
       (\<lambda>r. r\<lparr>rk_half_life := half, rk_source_weights_json := sw, rk_domain_boosts_json := dbo,
              rk_config_json := Some payload, rk_updated_at := now\<rparr>) db) =
    (if k' = k then Some (case v of (half, sw, dbo, payload, now) \<Rightarrow> ranking_row_of k half sw dbo payload now)
     else find_by rk_collection_id k' db)" for db k v k'
    by (cases v)
      (auto simp: find_by_upsert_row ranking_row_of_def dest!: find_by_SomeD split: option.splits)
qed

lemma ranking_upsert_get:
  assumes "ranking_upsert J now k payload db = (db', Inr ())"
  shows "\<exists>cfg sw dbo. config_of_text J payload = Some cfg \<and>
    map_text J (rc_source_weights cfg) = Some sw \<and> map_text J (rc_domain_boosts cfg) = Some dbo \<and>
    (\<forall>k'. find_by rk_collection_id k' db' =
      (if k' = k then Some (ranking_row_of k (rc_half_life cfg) sw dbo payload now)
       else find_by rk_collection_id k' db))"
proof -
  from assms obtain cfg sw dbo where
    c: "config_of_text J payload = Some cfg" "map_text J (rc_source_weights cfg) = Some sw"
      "map_text J (rc_domain_boosts cfg) = Some dbo"
    by (auto simp: ranking_upsert_def split: option.splits)
  have "find_by rk_collection_id k' db' =
      (if k' = k then Some (ranking_row_of k (rc_half_life cfg) sw dbo payload now)
       else find_by rk_collection_id k' db)" for k'
    using assms c ranking_store.get_put [where k = k and k' = k' and db = db and
        v = "(rc_half_life cfg, sw, dbo, payload, now)"]
    by (simp add: ranking_upsert_def)
  with c show ?thesis by blast
qed

text \<open>
  A collection created after the newest one was deleted gets the same rowid, and with it the ranking
  configuration of the deleted one, which nothing removes.
\<close>

lemma ranking_config_is_inherited:
  assumes "collections db = [c]" and "uuid \<noteq> c_id c"
  shows "\<exists>db' db'' rec. delete_item (c_rowid c) db = (db', True) \<and>
    create_item uuid ts name descr db' = (db'', Inr rec) \<and>
    cr_id rec = 1"
proof -
  let ?db' = "delete_collections_where (\<lambda>r. c_rowid r = c_rowid c) db"
  have "delete_item (c_rowid c) db = (?db', True)"
    by (simp add: delete_item_def assms count_where_def)
  moreover have "collections ?db' = []"
    by (simp add: delete_collections_where_def Let_def assms)
  then have "\<exists>db'' rec. create_item uuid ts name descr ?db' = (db'', Inr rec) \<and> cr_id rec = 1"
    by (simp add: create_item_def insert_collection_def Let_def query_collection_def
        find_collection_def record_of_collection_def next_rowid_def)
  ultimately show ?thesis by blast
qed

section \<open>Properties\<close>

text \<open>What the admin saves is what ranking uses. After a successful PUT, loading the collection's
  configuration gives the half-life, weights and boosts of the payload, GET returns the payload itself, and the
  configurations of the other collections are unchanged; a PUT for a collection that does not exist is a 404
  that writes nothing.\<close>

theorem put_ranking_correct:
  assumes json: "\<And>m t. map_text J m = Some t \<Longrightarrow> map_of_text J t = Some m"
    and reads_back: "text_value (value_text raw) = Some raw"
    and k: "id_field raw = Some k"
    and cfg: "config_of_text J (value_text raw) = Some cfg"
  shows "if \<not> collection_exists k content
    then put_ranking J id_field value_text False now raw content db =
      (db, Inl (404, Msg (''collection '' @ show_int k @ '' not found'')))
    else (\<forall>db'. put_ranking J id_field value_text False now raw content db = (db', Inr ()) \<longrightarrow>
      ranking_load J ninety one db' k = cfg\<lparr>rc_collection_id := k\<rparr> \<and>
      get_ranking text_value False k db' = Inr raw \<and>
      (\<forall>k'. k' \<noteq> k \<longrightarrow> ranking_load J ninety one db' k' = ranking_load J ninety one db k'))"
proof (cases "collection_exists k content")
  case True
  have "ranking_load J ninety one db' k = cfg\<lparr>rc_collection_id := k\<rparr> \<and>
      get_ranking text_value False k db' = Inr raw \<and>
      (\<forall>k'. k' \<noteq> k \<longrightarrow> ranking_load J ninety one db' k' = ranking_load J ninety one db k')"
    if put: "put_ranking J id_field value_text False now raw content db = (db', Inr ())" for db'
  proof -
    have "ranking_upsert J now k (value_text raw) db = (db', Inr ())"
      using put True k by (auto simp: put_ranking_def split: prod.splits sum.splits)
    from ranking_upsert_get [OF this] obtain c sw dbo where
      c: "config_of_text J (value_text raw) = Some c"
      and t: "map_text J (rc_source_weights c) = Some sw" "map_text J (rc_domain_boosts c) = Some dbo"
      and get: "\<forall>k'. find_by rk_collection_id k' db' =
        (if k' = k then Some (ranking_row_of k (rc_half_life c) sw dbo (value_text raw) now)
         else find_by rk_collection_id k' db)"
      by blast
    have "c = cfg" using c cfg by simp
    show ?thesis
      using json [OF t(1)] json [OF t(2)] reads_back \<open>c = cfg\<close>
      by (cases cfg) (simp add: ranking_load_def get_ranking_def ranking_get_def get ranking_row_of_def)
  qed
  with True show ?thesis by simp
qed (simp add: put_ranking_def k)

definition sample_ranking :: "nat ranking_config" where
  "sample_ranking = \<lparr>rc_collection_id = 1, rc_half_life = 30, rc_source_weights = [(''local'', 2)],
     rc_domain_boosts = []\<rparr>"

definition sample_json :: "(nat, nat ranking_config + (string \<times> nat) list) ranking_json" where
  "sample_json = \<lparr>map_text = \<lambda>m. Some (Inr m), map_of_text = case_sum (\<lambda>_. None) Some,
     config_of_text = case_sum Some (\<lambda>_. None)\<rparr>"

theorem put_ranking_correct_witness:
  "\<exists>db'. put_ranking sample_json (\<lambda>_. Some 1) Inl False 9 sample_ranking sample_content [] = (db', Inr ()) \<and>
     ranking_load sample_json 90 1 db' 1 = sample_ranking"
proof -
  have ex: "collection_exists 1 sample_content"
    by (simp add: collection_exists_def sample_content_def sample_collection_def count_where_def)
  obtain db' where put:
    "put_ranking sample_json (\<lambda>_. Some 1) Inl False 9 sample_ranking sample_content [] = (db', Inr ())"
    by (simp add: put_ranking_def ex ranking_upsert_def sample_json_def)
  have "if \<not> collection_exists 1 sample_content
    then put_ranking sample_json (\<lambda>_. Some 1) Inl False 9 sample_ranking sample_content [] =
      ([], Inl (404, Msg (''collection '' @ show_int 1 @ '' not found'')))
    else (\<forall>db'. put_ranking sample_json (\<lambda>_. Some 1) Inl False 9 sample_ranking sample_content [] =
        (db', Inr ()) \<longrightarrow>
      ranking_load sample_json 90 1 db' 1 = sample_ranking\<lparr>rc_collection_id := 1\<rparr> \<and>
      get_ranking (case_sum Some (\<lambda>_. None)) False 1 db' = Inr sample_ranking \<and>
      (\<forall>k'. k' \<noteq> 1 \<longrightarrow> ranking_load sample_json 90 1 db' k' = ranking_load sample_json 90 1 [] k'))"
    by (rule put_ranking_correct) (simp_all add: sample_json_def)
  with ex put have "ranking_load sample_json 90 1 db' 1 = sample_ranking\<lparr>rc_collection_id := 1\<rparr>"
    by simp
  with put show ?thesis by (intro exI [of _ db']) (simp add: sample_ranking_def)
qed

end
