(* ===== verification/Admin_Content.thy ===== *)
theory Admin_Content
  imports Outlinks Url_Class
begin

text \<open>
  The admin handlers over the content tables: \<open>api/admin/collections.rs\<close>, \<open>api/admin/crawl_targets.rs\<close>,
  \<open>api/admin/outlinks.rs\<close>, \<open>api/admin/status.rs\<close>, \<open>api/admin/crawl_control.rs\<close>. The state is the part of
  \<open>AppState\<close> they use; a handler answers a value (status 200) or an error with its status. Requests are the
  action values \<open>serde\<close> parses; a body it refuses is \<open>Inl\<close> of its message.
\<close>

section \<open>State\<close>

record 'j admin_state =
  as_db :: "'j content_db"
  as_poisoned :: bool
  as_delete_queue :: "string list list"
  as_queue_open :: bool
  as_crawl_paused :: bool
  as_indexing_inflight :: int
  as_max_index_bytes :: nat

definition set_db :: "'j admin_state \<Rightarrow> 'j content_db \<Rightarrow> 'j admin_state" where
  "set_db st db = st\<lparr>as_db := db\<rparr>"

definition not_found :: "string \<Rightarrow> int \<Rightarrow> http_error" where
  "not_found what rid = (404, Msg (what @ '' '' @ show_int rid @ '' not found''))"

section \<open>Collections\<close>

datatype collection_action =
    CollCreate string string
  | CollUpdate int string string
  | CollDelete int

definition handle_collections ::
  "string \<Rightarrow> string \<Rightarrow> string + collection_action \<Rightarrow> 'j admin_state \<Rightarrow>
   'j admin_state \<times> collection_record option http_result" where
  "handle_collections uuid ts raw st =
     (case raw of
        Inl e \<Rightarrow> (st, Inl (400, Msg (''invalid action: '' @ e)))
      | Inr action \<Rightarrow>
          if as_poisoned st then (st, Inl db_mutex_poisoned)
          else
            (case action of
               CollCreate name descr \<Rightarrow>
                 (let (db, r) = create_item uuid ts name descr (as_db st) in
                  (set_db st db, case r of Inl e \<Rightarrow> Inl (internal_db_error e) | Inr x \<Rightarrow> Inr (Some x)))
             | CollUpdate rid name descr \<Rightarrow>
                 (let (db, r) = update_item ts rid name descr (as_db st) in
                  (set_db st db,
                   case r of
                     Inl e \<Rightarrow> Inl (internal_db_error e)
                   | Inr (Some x) \<Rightarrow> Inr (Some x)
                   | Inr None \<Rightarrow> Inl (not_found ''collection'' rid)))
             | CollDelete rid \<Rightarrow>
                 (let (db, found) = delete_item rid (as_db st) in
                  (set_db st db,
                   if found then Inr None else Inl (not_found ''collection'' rid)))))"

text \<open>\<open>doc_count name\<close> is \<open>state.search.count_in_collection(name)\<close>, \<open>None\<close> when the index fails.\<close>

definition list_collections ::
  "(string \<Rightarrow> nat option) \<Rightarrow> 'j admin_state \<Rightarrow> collection_record list http_result" where
  "list_collections doc_count st =
     (if as_poisoned st then Inl db_mutex_poisoned
      else Inr (map (\<lambda>r. r\<lparr>cr_documents := option_or 0 (doc_count (cr_name r))\<rparr>) (list_items (as_db st))))"

section \<open>Crawl targets\<close>

datatype crawl_target_action =
    TgtAdd int string int
  | TgtRemove int
  | TgtSetInterval int int
  | TgtSetCrawlDelay int "int option"

definition lock_db :: "'j admin_state \<Rightarrow> 'j content_db http_result" where
  "lock_db st = (if as_poisoned st then Inl db_mutex_poisoned else Inr (as_db st))"

definition list_crawl_targets :: "'j admin_state \<Rightarrow> target_list_item list http_result" where
  "list_crawl_targets st =
     (case lock_db st of Inl e \<Rightarrow> Inl e | Inr db \<Rightarrow> Inr (target_list db))"

text \<open>\<open>canonical url_prefix\<close> is \<open>detect_canonical_prefix(..).await\<close>.\<close>

definition handle_crawl_targets ::
  "(string \<Rightarrow> string option) \<Rightarrow> string \<Rightarrow> string \<Rightarrow> string + crawl_target_action \<Rightarrow> 'j admin_state \<Rightarrow>
   'j admin_state \<times> target_record option http_result" where
  "handle_crawl_targets canonical uuid ts raw st =
     (case raw of
        Inl e \<Rightarrow> (st, Inl (400, Msg (''invalid action: '' @ e)))
      | Inr (TgtAdd collection_id url_prefix secs) \<Rightarrow>
          (let effective_prefix = option_or url_prefix (canonical url_prefix) in
           case lock_db st of
             Inl e \<Rightarrow> (st, Inl e)
           | Inr db \<Rightarrow>
               if \<not> collection_exists collection_id db
               then (st, Inl (not_found ''collection'' collection_id))
               else
                 (let (db', r) = target_add uuid ts collection_id effective_prefix secs db in
                  (set_db st db',
                   case r of Inl e \<Rightarrow> Inl (internal_db_error e) | Inr x \<Rightarrow> Inr (Some x))))
      | Inr (TgtRemove rid) \<Rightarrow>
          (case lock_db st of
             Inl e \<Rightarrow> (st, Inl e)
           | Inr db \<Rightarrow>
               (let urls = list_page_urls rid db; (db', found) = target_remove rid db;
                    st' = set_db st db' in
                if \<not> found then (st', Inl (not_found ''crawl target'' rid))
                else if urls \<noteq> [] \<and> as_queue_open st'
                then (st'\<lparr>as_delete_queue := as_delete_queue st' @ [urls]\<rparr>, Inr None)
                else (st', Inr None)))
      | Inr (TgtSetInterval rid secs) \<Rightarrow>
          (case lock_db st of
             Inl e \<Rightarrow> (st, Inl e)
           | Inr db \<Rightarrow>
               (let (db', found) = set_interval rid secs db in
                (set_db st db',
                 if found then Inr None else Inl (not_found ''crawl target'' rid))))
      | Inr (TgtSetCrawlDelay rid secs) \<Rightarrow>
          (case lock_db st of
             Inl e \<Rightarrow> (st, Inl e)
           | Inr db \<Rightarrow>
               (let (db', found) = set_crawl_delay rid secs db in
                (set_db st db',
                 if found then Inr None else Inl (not_found ''crawl target'' rid)))))"

section \<open>Outlinks\<close>

definition list_outlinks ::
  "('j \<Rightarrow> outlink_example list option) \<Rightarrow> int \<Rightarrow> int option \<Rightarrow> int option \<Rightarrow> 'j admin_state \<Rightarrow>
   outlink_host_item list http_result" where
  "list_outlinks dec collection_id lim off st =
     (if as_poisoned st then Inl db_mutex_poisoned
      else map_err internal_db_error (list_pending dec collection_id lim off (as_db st)))"

definition promote_outlink ::
  "string \<Rightarrow> string \<Rightarrow> int \<Rightarrow> int \<Rightarrow> string option \<Rightarrow> 'j admin_state \<Rightarrow> 'j admin_state \<times> int http_result" where
  "promote_outlink uuid ts rid secs pfx st =
     (if as_poisoned st then (st, Inl db_mutex_poisoned)
      else
        (case outlink_find rid (as_db st) of
           None \<Rightarrow> (st, Inl (not_found ''outlink'' rid))
         | Some row \<Rightarrow>
             (case find_by c_id (or_collection_id row) (collections (as_db st)) of
                None \<Rightarrow> (st, Inl (internal_db_error QueryReturnedNoRows))
              | Some c \<Rightarrow>
                  (let url_prefix = option_or (''https://'' @ or_host row @ ''/'') pfx;
                       (db1, r) = target_add uuid ts (c_rowid c) url_prefix secs (as_db st) in
                   case r of
                     Inl e \<Rightarrow> (set_db st db1, Inl (internal_db_error e))
                   | Inr ct \<Rightarrow>
                       (set_db st (fst (mark_promoted rid (tr_id ct) db1)), Inr (tr_id ct))))))"

definition dismiss_outlink :: "int \<Rightarrow> 'j admin_state \<Rightarrow> 'j admin_state \<times> unit http_result" where
  "dismiss_outlink rid st =
     (if as_poisoned st then (st, Inl db_mutex_poisoned)
      else
        (let (db, updated) = mark_dismissed rid (as_db st) in
         (set_db st db, if updated then Inr () else Inl (not_found ''outlink'' rid))))"

section \<open>Status and pause\<close>

record status_response =
  st_index_size_bytes :: int
  st_max_index_bytes :: int
  st_crawl_targets_total :: int
  st_crawls_active :: int
  st_crawls_queued :: int
  st_peers :: "string list"
  st_crawl_paused :: bool
  st_indexing_pending_count :: int

definition i64_max :: int where "i64_max = 2 ^ 63 - 1"

text \<open>\<open>index_size\<close> is the result of walking the index directory; \<open>None\<close> is a panic on a poisoned mutex.\<close>

definition get_status :: "nat option \<Rightarrow> 'j admin_state \<Rightarrow> status_response option" where
  "get_status index_size st =
     (if as_poisoned st then None
      else Some
        \<lparr>st_index_size_bytes = min (int (option_or 0 index_size)) i64_max,
         st_max_index_bytes = min (int (as_max_index_bytes st)) i64_max,
         st_crawl_targets_total = int (target_count_all (as_db st)),
         st_crawls_active = 0, st_crawls_queued = 0, st_peers = [],
         st_crawl_paused = as_crawl_paused st,
         st_indexing_pending_count = max (as_indexing_inflight st) 0\<rparr>)"

definition handle_pause :: "bool \<Rightarrow> 'j admin_state \<Rightarrow> 'j admin_state \<times> bool" where
  "handle_pause paused st = (st\<lparr>as_crawl_paused := paused\<rparr>, paused)"

section \<open>Facts\<close>

lemma set_db_simps [simp]:
  "as_db (set_db st db) = db" "as_poisoned (set_db st db) = as_poisoned st"
  "as_delete_queue (set_db st db) = as_delete_queue st"
  "as_queue_open (set_db st db) = as_queue_open st" "set_db (set_db st a) b = set_db st b"
  "set_db st (as_db st) = st"
  by (simp_all add: set_db_def)

lemma set_list_page_urls:
  "set (list_page_urls rid db) =
     {p_url p |p t. p \<in> set (pages db) \<and> t \<in> set (targets db) \<and> t_id t = p_crawl_target_id p \<and>
        t_rowid t = rid}"
  by (auto simp: list_page_urls_def)

lemma target_add_error_keeps: "target_add uuid ts rid pfx secs db = (db', Inl e) \<Longrightarrow> db' = db"
  by (auto simp: target_add_def split: option.splits sum.splits prod.splits)

lemma target_add_ok:
  assumes "target_add uuid ts rid pfx secs db = (db', Inr x)"
  shows "\<exists>c. find_collection rid db = Some c \<and> tr_id x = next_rowid (map t_rowid (targets db)) \<and>
    tr_url_prefix x = pfx \<and> outlinks db' = outlinks db \<and> collections db' = collections db \<and>
    pages db' = pages db \<and>
    (\<exists>t. targets db' = targets db @ [t] \<and> t_rowid t = tr_id x \<and> t_id t = uuid \<and>
       t_collection_id t = c_id c \<and> t_url_prefix t = pfx \<and> t_recrawl_interval_secs t = secs \<and>
       t_enabled t = 1)"
  using assms
  by (auto simp: target_add_def insert_target_def Let_def split: option.splits sum.splits prod.splits
      if_splits)

text \<open>
  Deleting a collection deletes its pages but queues nothing for the indexer: their documents stay in the
  search index.
\<close>

lemma delete_collection_queues_nothing:
  "as_delete_queue (fst (handle_collections uuid ts (Inr (CollDelete rid)) st)) = as_delete_queue st"
  by (simp add: handle_collections_def split: prod.splits)

section \<open>Properties\<close>

text \<open>C35: removing a crawl target leaves nothing of it behind. Whenever the handler answers 200 and the
  indexer's queue is open, the target and all its pages are gone from the database, the pages of other targets
  are still there, and every URL of a removed page has been queued for deletion from the search index.\<close>

theorem remove_target_complete:
  assumes wf: "content_wf (as_db st)" and ok: "as_queue_open st"
    and run: "handle_crawl_targets canonical uuid ts (Inr (TgtRemove rid)) st = (st', Inr r)"
  shows "\<exists>t. {x \<in> set (targets (as_db st)). t_rowid x = rid} = {t} \<and>
    set (targets (as_db st')) = set (targets (as_db st)) - {t} \<and>
    set (pages (as_db st')) = {p \<in> set (pages (as_db st)). p_crawl_target_id p \<noteq> t_id t} \<and>
    (\<forall>p \<in> set (pages (as_db st)). p_crawl_target_id p = t_id t \<longrightarrow>
       p_url p \<in> \<Union> (set ` set (as_delete_queue st'))) \<and>
    content_wf (as_db st')"
proof -
  let ?db = "as_db st"
  have np: "\<not> as_poisoned st" using run by (auto simp: handle_crawl_targets_def lock_db_def)
  have found: "\<exists>t \<in> set (targets ?db). t_rowid t = rid"
    and db': "as_db st' = delete_targets_where (\<lambda>t. t_rowid t = rid) ?db"
    and queue: "as_delete_queue st' =
      (if list_page_urls rid ?db = [] then as_delete_queue st
       else as_delete_queue st @ [list_page_urls rid ?db])"
    using run np ok
    by (auto simp: handle_crawl_targets_def lock_db_def target_remove_def Let_def
        count_where_pos_iff split: if_splits)
  then obtain t where t: "t \<in> set (targets ?db)" "t_rowid t = rid" by blast
  have inj: "inj_on t_rowid (set (targets ?db))" using wf by (simp add: content_wf_def distinct_map)
  have only: "{x \<in> set (targets ?db). t_rowid x = rid} = {t}"
    using t inj by (auto dest: inj_onD)
  have "p_url p \<in> \<Union> (set ` set (as_delete_queue st'))"
    if "p \<in> set (pages ?db)" "p_crawl_target_id p = t_id t" for p
  proof -
    have "p_url p \<in> set (list_page_urls rid ?db)"
      unfolding set_list_page_urls using that t
      by (intro CollectI exI [of _ p] exI [of _ t]) simp
    then show ?thesis using queue by (auto split: if_splits)
  qed
  moreover have "content_wf (as_db st')" unfolding db' by (rule content_wf_delete_targets [OF wf])
  moreover have "set (pages (as_db st')) = {p \<in> set (pages ?db). p_crawl_target_id p \<noteq> t_id t}"
    unfolding db' delete_targets_where_def Let_def by (simp add: only)
  moreover have "set (targets (as_db st')) = set (targets ?db) - {t}"
    using only unfolding db' delete_targets_where_def Let_def by auto
  ultimately show ?thesis using only by (intro exI [of _ t]) simp
qed

definition sample_admin :: "outlink_example list admin_state" where
  "sample_admin =
     \<lparr>as_db = sample_content\<lparr>targets :=
        [\<lparr>t_rowid = 4, t_id = ''t'', t_collection_id = ''u'', t_url_prefix = ''https://a/'',
          t_recrawl_interval_s = 60, t_recrawl_interval_secs = 60, t_last_crawled_at = None,
          t_enabled = 1, t_created_at = ''t'', t_crawl_delay_secs = None\<rparr>],
        pages := [\<lparr>p_id = 1, p_collection_id = ''u'', p_crawl_target_id = ''t'',
          p_url = ''https://a/x'', p_etag = None, p_last_modified = None, p_content_hash = None,
          p_last_status = Some 200, p_last_crawled_at = 7, p_indexed_content_hash = None\<rparr>]\<rparr>,
      as_poisoned = False, as_delete_queue = [], as_queue_open = True, as_crawl_paused = False,
      as_indexing_inflight = 0, as_max_index_bytes = 10\<rparr>"

theorem remove_target_complete_witness:
  "\<exists>st'. handle_crawl_targets (\<lambda>_. None) ''v'' ''t'' (Inr (TgtRemove 4)) sample_admin = (st', Inr None) \<and>
     content_wf (as_db st')"
proof -
  have wf: "content_wf (as_db sample_admin)"
    by (simp add: content_wf_def sample_admin_def sample_content_def sample_collection_def)
  obtain st' where run:
    "handle_crawl_targets (\<lambda>_. None) ''v'' ''t'' (Inr (TgtRemove 4)) sample_admin = (st', Inr None)"
    by (simp add: handle_crawl_targets_def lock_db_def sample_admin_def target_remove_def
        count_where_def Let_def list_page_urls_def sample_content_def)
  have "as_queue_open sample_admin" by (simp add: sample_admin_def)
  from remove_target_complete [OF wf this run] run show ?thesis by blast
qed

text \<open>Promoting a host is all or nothing. Answered with an id, the handler has added exactly one crawl
  target with that id to the host's collection, with the given prefix or the root of the host, and marked the
  entry promoted with it; answered with an error, it has changed nothing.\<close>

theorem promote_outlink_atomic:
  assumes wf: "content_wf (as_db st)" and run: "promote_outlink uuid ts rid secs pfx st = (st', r)"
  shows "case r of
      Inl _ \<Rightarrow> st' = st
    | Inr target_id \<Rightarrow>
        (\<exists>row t. find_by o_rowid rid (outlinks (as_db st)) = Some row \<and>
           targets (as_db st') = targets (as_db st) @ [t] \<and> t_rowid t = target_id \<and>
           t_collection_id t = o_collection_id row \<and>
           t_url_prefix t = (case pfx of None \<Rightarrow> ''https://'' @ o_host row @ ''/'' | Some p \<Rightarrow> p) \<and>
           find_by o_rowid rid (outlinks (as_db st')) =
             Some (row\<lparr>o_status := ''promoted'', o_promoted_target_id := Some target_id\<rparr>) \<and>
           pages (as_db st') = pages (as_db st) \<and> collections (as_db st') = collections (as_db st))"
proof (cases "as_poisoned st \<or> find_by o_rowid rid (outlinks (as_db st)) = None")
  case True
  with run show ?thesis
    by (cases "as_poisoned st") (auto simp: promote_outlink_def outlink_find_def)
next
  case False
  then obtain row where row: "find_by o_rowid rid (outlinks (as_db st)) = Some row" by auto
  have np: "\<not> as_poisoned st" using False by simp
  let ?pfx = "option_or (''https://'' @ o_host row @ ''/'') pfx"
  show ?thesis
  proof (cases "find_by c_id (o_collection_id row) (collections (as_db st))")
    case None
    then show ?thesis using run row np by (auto simp: promote_outlink_def outlink_find_def)
  next
    case (Some c)
    obtain db1 res where add: "target_add uuid ts (c_rowid c) ?pfx secs (as_db st) = (db1, res)"
      by (cases "target_add uuid ts (c_rowid c) ?pfx secs (as_db st)")
    show ?thesis
    proof (cases res)
      case (Inl e)
      then have "db1 = as_db st" using add target_add_error_keeps by simp
      then show ?thesis using run row np Some add Inl
        by (auto simp: promote_outlink_def outlink_find_def)
    next
      case (Inr x)
      from target_add_ok [OF add [unfolded Inr]] obtain c' t where
        c': "find_collection (c_rowid c) (as_db st) = Some c'"
        and t: "targets db1 = targets (as_db st) @ [t]" "t_rowid t = tr_id x"
          "t_collection_id t = c_id c'" "t_url_prefix t = ?pfx"
        and same: "outlinks db1 = outlinks (as_db st)" "collections db1 = collections (as_db st)"
          "pages db1 = pages (as_db st)"
        by blast
      have "find_by c_rowid (c_rowid c) (collections (as_db st)) = Some c"
        using wf find_by_SomeD [OF Some] by (simp add: content_wf_def find_by_Some_iff)
      then have cc: "c' = c" "c_id c = o_collection_id row"
        using c' find_by_SomeD [OF Some] by (simp_all add: find_collection_def)
      have res: "st' = set_db st (fst (mark_promoted rid (tr_id x) db1))" "r = Inr (tr_id x)"
        using run row np Some add Inr by (auto simp: promote_outlink_def outlink_find_def)
      have "find_by o_rowid rid (outlinks (as_db st')) =
          Some (row\<lparr>o_status := ''promoted'', o_promoted_target_id := Some (tr_id x)\<rparr>)"
        using row find_by_SomeD [OF row]
        by (simp add: res mark_promoted_def find_by_update_where same)
      with row t cc same show ?thesis
        by (auto simp: res mark_promoted_def option_or_def split: option.splits)
    qed
  qed
qed

theorem promote_outlink_atomic_witness:
  "\<exists>st' target_id t. promote_outlink ''v'' ''t'' 1 60 None sample_admin = (st', Inr target_id) \<and>
     targets (as_db st') = targets (as_db sample_admin) @ [t] \<and> t_url_prefix t = ''https://h.com/''"
proof -
  have wf: "content_wf (as_db sample_admin)"
    by (simp add: content_wf_def sample_admin_def sample_content_def sample_collection_def)
  obtain st' i where run: "promote_outlink ''v'' ''t'' 1 60 None sample_admin = (st', Inr i)"
    by (simp add: promote_outlink_def sample_admin_def sample_content_def sample_collection_def
        outlink_find_def target_add_def find_collection_def insert_target_def target_key_def Let_def)
  from promote_outlink_atomic [OF wf run] obtain row t where
    "find_by o_rowid 1 (outlinks (as_db sample_admin)) = Some row"
    "targets (as_db st') = targets (as_db sample_admin) @ [t]"
    "t_url_prefix t = ''https://'' @ o_host row @ ''/''"
    by auto
  with run show ?thesis
    by (intro exI [of _ st'] exI [of _ i] exI [of _ t])
      (auto simp: sample_admin_def sample_content_def)
qed

end
