(* ===== verification/Admin_Peers.thy ===== *)
theory Admin_Peers
  imports Gossip
begin

text \<open>
  The admin handlers over the federation tables: \<open>api/admin/nodes.rs\<close> and
  \<open>api/admin/collection_peers.rs\<close>. \<open>poisoned\<close> tells whether the database mutex is poisoned; the third
  component of an answer of \<open>add_node_peer\<close> is the peer a background gossip exchange is spawned with.
\<close>

section \<open>Node peers\<close>

definition list_node_peers_handler :: "bool \<Rightarrow> 'w fed_db \<Rightarrow> node_peer list http_result" where
  "list_node_peers_handler poisoned db =
     (if poisoned then Inl db_mutex_poisoned else Inr (list_node_peers db))"

definition add_node_peer ::
  "bool \<Rightarrow> int \<Rightarrow> string \<Rightarrow> string option \<Rightarrow> 'w fed_db \<Rightarrow> 'w fed_db \<times> int http_result \<times> string option" where
  "add_node_peer poisoned now url name db =
     (if poisoned then (db, Inl db_mutex_poisoned, None)
      else
        (let (db', r) = insert_node_peer now url name db in
         case r of
           Inl e \<Rightarrow> (db', Inl (internal_db_error e), None)
         | Inr rid \<Rightarrow> (db', Inr rid, Some url)))"

definition update_node_peer_handler ::
  "bool \<Rightarrow> int \<Rightarrow> int \<Rightarrow> bool \<Rightarrow> 'w fed_db \<Rightarrow> 'w fed_db \<times> unit http_result" where
  "update_node_peer_handler poisoned now rid enabled db =
     (if poisoned then (db, Inl db_mutex_poisoned)
      else (set_node_peer_enabled now rid enabled db, Inr ()))"

text \<open>\<open>list_remote\<close> is the peer client's \<open>list_collections\<close>.\<close>

definition browse_node_collections_handler ::
  "(string \<Rightarrow> string + 'c list) \<Rightarrow> bool \<Rightarrow> int \<Rightarrow> 'w fed_db \<Rightarrow> 'c list http_result" where
  "browse_node_collections_handler list_remote poisoned rid db =
     (if poisoned then Inl db_mutex_poisoned
      else
        (case get_node_peer rid db of
           None \<Rightarrow> Inl (404, Msg (''node peer '' @ show_int rid @ '' not found''))
         | Some p \<Rightarrow> map_err (\<lambda>e. (500, LibText e)) (list_remote (np_url p))))"

definition delete_node_peer_handler ::
  "bool \<Rightarrow> int \<Rightarrow> 'w fed_db \<Rightarrow> 'w fed_db \<times> unit http_result" where
  "delete_node_peer_handler poisoned rid db =
     (if poisoned then (db, Inl db_mutex_poisoned) else (delete_node_peer rid db, Inr ()))"

section \<open>Collection peers\<close>

record 'w subscribe_req =
  sr_local_collection :: string
  sr_node_peer_id :: int
  sr_remote_collection :: string
  sr_source_weight :: 'w

definition add_collection_peer_handler ::
  "bool \<Rightarrow> int \<Rightarrow> 'w subscribe_req \<Rightarrow> 'w fed_db \<Rightarrow> 'w fed_db \<times> int http_result" where
  "add_collection_peer_handler poisoned now body db =
     (if poisoned then (db, Inl db_mutex_poisoned)
      else
        (case get_node_peer (sr_node_peer_id body) db of
           None \<Rightarrow> (db, Inl (400, Msg ''node_peer_id does not exist''))
         | Some _ \<Rightarrow>
             (let (db', r) = insert_collection_peer now (sr_local_collection body)
                    (sr_node_peer_id body) (sr_remote_collection body) (sr_source_weight body) db in
              (db', map_err internal_db_error r))))"

definition list_collection_peers_handler :: "bool \<Rightarrow> 'w fed_db \<Rightarrow> 'w collection_peer list http_result" where
  "list_collection_peers_handler poisoned db =
     (if poisoned then Inl db_mutex_poisoned else Inr (list_collection_peers None db))"

definition delete_collection_peer_handler ::
  "bool \<Rightarrow> int \<Rightarrow> 'w fed_db \<Rightarrow> 'w fed_db \<times> unit http_result" where
  "delete_collection_peer_handler poisoned rid db =
     (if poisoned then (db, Inl db_mutex_poisoned) else (delete_collection_peer rid db, Inr ()))"

section \<open>Facts\<close>

lemma insert_node_peer_error_keeps: "insert_node_peer now url name db = (db', Inl e) \<Longrightarrow> db' = db"
  by (auto simp: insert_node_peer_def Let_def split: if_splits)

lemma insert_collection_peer_error_keeps:
  "insert_collection_peer now l n r w db = (db', Inl e) \<Longrightarrow> db' = db"
  by (auto simp: insert_collection_peer_def Let_def split: if_splits)

lemma insert_node_peer_get:
  assumes "insert_node_peer now url name db = (db', Inr rid)"
  shows "get_node_peer k db' =
    (if k = rid then Some \<lparr>np_id = rid, np_url = url, np_name = name, np_enabled = True,
       np_consecutive_failures = 0, np_last_response_ms = None, np_last_checked_at = None,
       np_disabled_at = None, np_created_at = now\<rparr>
     else get_node_peer k db)"
proof -
  have rid: "rid = next_rowid (map np_id (node_peers db))"
    and db': "node_peers db' = node_peers db @ [\<lparr>np_id = rid, np_url = url, np_name = name,
       np_enabled = True, np_consecutive_failures = 0, np_last_response_ms = None,
       np_last_checked_at = None, np_disabled_at = None, np_created_at = now\<rparr>]"
    using assms by (auto simp: insert_node_peer_def Let_def split: if_splits)
  have "find_by np_id rid (node_peers db) = None" by (simp add: rid find_by_None_iff)
  then show ?thesis
    by (auto simp: get_node_peer_def db' find_by_append split: option.splits)
qed

text \<open>
  The check that answers 400 makes the foreign key of the insertion hold: the only database error left is a
  duplicate subscription.
\<close>

lemma subscribe_error_is_duplicate:
  assumes "add_collection_peer_handler False now body db = (db', Inl (500, m))"
  shows "db' = db \<and>
    (sr_local_collection body, sr_node_peer_id body, sr_remote_collection body)
      \<in> cp_key ` set (collection_peers db)"
proof -
  from assms obtain p e where p: "get_node_peer (sr_node_peer_id body) db = Some p"
    and ins: "insert_collection_peer now (sr_local_collection body) (sr_node_peer_id body)
      (sr_remote_collection body) (sr_source_weight body) db = (db', Inl e)"
    by (auto simp: add_collection_peer_handler_def map_err_def split: option.splits prod.splits
        sum.splits)
  have "sr_node_peer_id body \<in> np_id ` set (node_peers db)"
    using find_by_SomeD [of np_id "sr_node_peer_id body" "node_peers db" p] p
    by (auto simp: get_node_peer_def intro: rev_image_eqI)
  with ins insert_collection_peer_error_keeps [OF ins] show ?thesis
    by (auto simp: insert_collection_peer_def Let_def split: if_splits)
qed

section \<open>Properties\<close>

text \<open>Promoting a discovered engine registers exactly that engine. On success a new enabled peer with the
  engine's URL and name and no failures is in the table under a new id, every other peer is unchanged; an
  engine we have not discovered is a 404 and one that is already a peer a 500, and both change nothing.\<close>

theorem promote_discovered_correct:
  assumes wf: "fed_wf fed"
  shows "case discovered_get db url of
      None \<Rightarrow> promote_discovered False now url db fed = (fed, Inl (404, Msg ''unknown discovered engine''))
    | Some e \<Rightarrow>
        if url \<in> np_url ` set (node_peers fed)
        then \<exists>m. promote_discovered False now url db fed = (fed, Inl (500, m))
        else \<exists>fed' rid p. promote_discovered False now url db fed = (fed', Inr ()) \<and> fed_wf fed' \<and>
          get_node_peer rid fed = None \<and> get_node_peer rid fed' = Some p \<and>
          np_url p = url \<and> np_name p = Some (eng_name e) \<and> np_enabled p \<and>
          np_consecutive_failures p = 0 \<and>
          (\<forall>k. k \<noteq> rid \<longrightarrow> get_node_peer k fed' = get_node_peer k fed)"
proof (cases "discovered_get db url")
  case None
  then show ?thesis by (simp add: promote_discovered_def)
next
  case (Some e)
  have url: "eng_url e = url" using find_by_SomeD [of eng_url url db e] Some by (simp add: discovered_get_def)
  show ?thesis
  proof (cases "url \<in> np_url ` set (node_peers fed)")
    case True
    then show ?thesis
      by (simp add: Some promote_discovered_def insert_node_peer_def url internal_db_error_def)
  next
    case False
    let ?rid = "next_rowid (map np_id (node_peers fed))"
    obtain fed' where ins: "insert_node_peer now url (Some (eng_name e)) fed = (fed', Inr ?rid)"
      using False by (simp add: insert_node_peer_def Let_def)
    have "fed_wf fed'" using fed_wf_insert_peer [OF wf, of now url "Some (eng_name e)"] ins by simp
    moreover have "get_node_peer ?rid fed = None" by (simp add: get_node_peer_def find_by_None_iff)
    moreover have "promote_discovered False now url db fed = (fed', Inr ())"
      by (simp add: promote_discovered_def Some url ins)
    ultimately show ?thesis
      using False insert_node_peer_get [OF ins]
      by (simp add: Some)
  qed
qed

theorem promote_discovered_correct_witness:
  "\<exists>fed'. promote_discovered False 9 ''http://q'' [sample_engine ''http://q'' 3] (sample_fed True) =
     (fed', Inr ()) \<and> fed_wf fed'"
proof -
  have wf: "fed_wf (sample_fed True)" by (simp add: fed_wf_def sample_fed_def)
  have get: "discovered_get [sample_engine ''http://q'' 3] ''http://q'' = Some (sample_engine ''http://q'' 3)"
    by (simp add: discovered_get_def sample_engine_def)
  have new: "''http://q'' \<notin> np_url ` set (node_peers (sample_fed True))" by (simp add: sample_fed_def)
  from promote_discovered_correct [OF wf, where db = "[sample_engine ''http://q'' 3]"
      and url = "''http://q''" and now = 9]
  show ?thesis unfolding get by (auto simp: new)
qed

end
