(* ===== verification/Floats.thy ===== *)
theory Floats
  imports Complex_Main "HOL-Library.Product_Lexorder"
begin

text \<open>
  The \<open>f32\<close> and \<open>f64\<close> arithmetic of the ranking code, IEEE 754 with round-half-to-even: a finite float is its
  rational value, every operation is the exact result rounded into the format. Signed zeros and NaN
  payloads are not told apart (no code of the repository looks at them).
\<close>

datatype flt = Fin rat | PosInf | NegInf | NaN

text \<open>Precision in bits, exponent of the smallest positive float, exponent of the overflow threshold.\<close>

record float_format =
  ff_prec :: int
  ff_emin :: int
  ff_emax :: int

definition f32 :: float_format where "f32 = \<lparr>ff_prec = 24, ff_emin = -149, ff_emax = 128\<rparr>"
definition f64 :: float_format where "f64 = \<lparr>ff_prec = 53, ff_emin = -1074, ff_emax = 1024\<rparr>"

section \<open>Rounding\<close>

text \<open>The binary exponent of a positive number.\<close>

function ilog2 :: "rat \<Rightarrow> int" where
  "ilog2 x = (if x \<le> 0 then 0 else if 2 \<le> x then ilog2 (x / 2) + 1
              else if x < 1 then ilog2 (2 * x) - 1 else 0)"
  by pat_completeness auto

definition ilog2_size :: "rat \<Rightarrow> nat" where
  "ilog2_size x = (if 1 \<le> x then nat (\<lfloor>x\<rfloor> - 1) else nat \<lceil>1 / x\<rceil>)"

lemma ilog2_size_half: "2 \<le> x \<Longrightarrow> ilog2_size (x / 2) < ilog2_size x"
proof -
  assume x: "2 \<le> x"
  have "\<lfloor>x / 2\<rfloor> < \<lfloor>x\<rfloor>" using x by linarith
  moreover have "1 \<le> \<lfloor>x / 2\<rfloor>" using x by linarith
  ultimately show ?thesis using x by (simp add: ilog2_size_def)
qed

lemma ilog2_size_double: "0 < x \<Longrightarrow> x < 1 \<Longrightarrow> ilog2_size (2 * x) < ilog2_size x"
proof -
  assume x: "0 < x" "x < 1"
  have inv: "1 < 1 / x" using x by simp
  then have two: "2 \<le> \<lceil>1 / x\<rceil>" by linarith
  show ?thesis
  proof (cases "1 \<le> 2 * x")
    case True
    have "\<lfloor>2 * x\<rfloor> \<le> 1" using x(2) by linarith
    with True x two show ?thesis by (simp add: ilog2_size_def)
  next
    case False
    have eq: "1 / (2 * x) = (1 / x) / 2" using x by simp
    have "2 < 1 / x" using False x by (simp add: field_simps)
    then have "(1 / x) / 2 + 1 < 1 / x" by simp
    moreover have "of_int \<lceil>(1 / x) / 2\<rceil> < (1 / x) / 2 + 1" by linarith
    moreover have "1 / x \<le> of_int \<lceil>1 / x\<rceil>" by linarith
    ultimately have "rat_of_int \<lceil>(1 / x) / 2\<rceil> < of_int \<lceil>1 / x\<rceil>" by (meson less_le_trans less_trans)
    then have "\<lceil>(1 / x) / 2\<rceil> < \<lceil>1 / x\<rceil>" by (simp only: of_int_less_iff)
    with False x two show ?thesis by (simp add: ilog2_size_def eq)
  qed
qed

termination ilog2
  by (relation "measure ilog2_size") (simp_all add: ilog2_size_half ilog2_size_double)

declare ilog2.simps [simp del]

lemma ilog2_bounds: "0 < x \<Longrightarrow> 2 powi ilog2 x \<le> x \<and> x < 2 powi (ilog2 x + 1)"
proof (induction x rule: ilog2.induct)
  case (1 x)
  consider "2 \<le> x" | "x < 1" | "1 \<le> x" "x < 2" by linarith
  then show ?case
  proof cases
    case 1
    with "1.IH"(1) "1.prems" have IH: "2 powi ilog2 (x / 2) \<le> x / 2"
      "x / 2 < 2 powi (ilog2 (x / 2) + 1)" by simp_all
    have e: "ilog2 x = ilog2 (x / 2) + 1" using 1 by (simp add: ilog2.simps [of x])
    show ?thesis using IH by (simp add: e power_int_add)
  next
    case 2
    with "1.IH"(2) "1.prems" have IH: "2 powi ilog2 (2 * x) \<le> 2 * x"
      "2 * x < 2 powi (ilog2 (2 * x) + 1)" by simp_all
    have e: "ilog2 x = ilog2 (2 * x) - 1" using 2 "1.prems" by (simp add: ilog2.simps [of x])
    show ?thesis using IH by (simp add: e power_int_diff power_int_add)
  next
    case 3
    then show ?thesis by (simp add: ilog2.simps [of x])
  qed
qed

lemma powi_2_less_iff [simp]: "(2::rat) powi a < 2 powi b \<longleftrightarrow> a < b"
  by (metis linorder_not_less one_less_numeral_iff power_int_strict_increasing
      power_int_increasing semiring_norm(76) less_imp_le order.asym)

lemma powi_2_le_iff [simp]: "(2::rat) powi a \<le> 2 powi b \<longleftrightarrow> a \<le> b"
  by (simp add: linorder_not_less [symmetric])

lemma powi_2_pos [simp]: "0 < (2::rat) powi a"
  by simp

text \<open>Round to the nearest integer, ties to even.\<close>

definition round_even :: "rat \<Rightarrow> int" where
  "round_even q =
     (let n = \<lfloor>q\<rfloor>; r = q - of_int n in
      if r < 1 / 2 then n else if 1 / 2 < r then n + 1 else if even n then n else n + 1)"

definition ulp_exp :: "float_format \<Rightarrow> rat \<Rightarrow> int" where
  "ulp_exp F x = max (ilog2 \<bar>x\<bar> - (ff_prec F - 1)) (ff_emin F)"

definition round_rat :: "float_format \<Rightarrow> rat \<Rightarrow> rat" where
  "round_rat F x =
     (if x = 0 then 0
      else of_int (round_even (x / 2 powi ulp_exp F x)) * 2 powi ulp_exp F x)"

definition fround :: "float_format \<Rightarrow> rat \<Rightarrow> flt" where
  "fround F x =
     (let y = round_rat F x in
      if 2 powi ff_emax F \<le> y then PosInf else if y \<le> - (2 powi ff_emax F) then NegInf else Fin y)"

lemma round_even_of_int [simp]: "round_even (of_int n) = n"
  by (simp add: round_even_def)

lemma round_even_near: "of_int (round_even q) \<le> q + 1 / 2" "q - 1 / 2 \<le> of_int (round_even q)"
  by (auto simp: round_even_def Let_def) linarith+

lemma round_even_mono:
  assumes "p \<le> q"
  shows "round_even p \<le> round_even q"
proof (cases "\<lfloor>p\<rfloor> = \<lfloor>q\<rfloor>")
  case True
  with assms show ?thesis by (auto simp: round_even_def Let_def)
next
  case False
  with assms have less: "\<lfloor>p\<rfloor> + 1 \<le> \<lfloor>q\<rfloor>" using floor_mono [of p q] by linarith
  have "round_even p \<le> \<lfloor>p\<rfloor> + 1" by (simp add: round_even_def Let_def)
  moreover have "\<lfloor>q\<rfloor> \<le> round_even q" by (simp add: round_even_def Let_def)
  ultimately show ?thesis using less by linarith
qed

lemma round_even_minus: "round_even (- q) = - round_even q"
proof (cases "q = of_int \<lfloor>q\<rfloor>")
  case True
  then show ?thesis by (metis of_int_minus round_even_of_int)
next
  case False
  then have r: "of_int \<lfloor>q\<rfloor> < q" "q < of_int \<lfloor>q\<rfloor> + 1" by linarith+
  then have f: "\<lfloor>- q\<rfloor> = - \<lfloor>q\<rfloor> - 1" by linarith
  show ?thesis
    using r by (auto simp: round_even_def Let_def f)
qed

lemma ulp_exp_minus [simp]: "ulp_exp F (- x) = ulp_exp F x"
  by (simp add: ulp_exp_def)

lemma round_rat_minus: "round_rat F (- x) = - round_rat F x"
  by (simp add: round_rat_def round_even_minus)

lemma round_rat_0 [simp]: "round_rat F 0 = 0"
  by (simp add: round_rat_def)

lemma round_rat_nonneg: "0 \<le> x \<Longrightarrow> 0 \<le> round_rat F x"
proof -
  assume "0 \<le> x"
  then have "round_even 0 \<le> round_even (x / 2 powi ulp_exp F x)" by (intro round_even_mono) simp
  then show ?thesis by (simp add: round_rat_def round_even_def)
qed

text \<open>A power of two in range is a float, and rounding does not step over it.\<close>

lemma powi_multiple: "e \<le> k \<Longrightarrow> \<exists>n. (2::rat) powi k = of_int n * 2 powi e"
proof -
  assume "e \<le> k"
  then have "(2::rat) powi k = 2 ^ nat (k - e) * 2 powi e"
    by (simp flip: power_int_of_nat add: power_int_diff)
  also have "\<dots> = of_int (2 ^ nat (k - e)) * 2 powi e" by simp
  finally show ?thesis by blast
qed

lemma round_rat_le_power:
  assumes "x \<noteq> 0" and "x \<le> 2 powi k" and "ulp_exp F x \<le> k"
  shows "round_rat F x \<le> 2 powi k"
proof -
  obtain n where n: "(2::rat) powi k = of_int n * 2 powi ulp_exp F x"
    using powi_multiple [OF assms(3)] by auto
  have "x / 2 powi ulp_exp F x \<le> of_int n" using assms(2) by (simp add: n pos_divide_le_eq)
  from round_even_mono [OF this] have "round_even (x / 2 powi ulp_exp F x) \<le> n" by simp
  then show ?thesis using assms(1) by (simp add: round_rat_def n)
qed

lemma round_rat_ge_power:
  assumes "x \<noteq> 0" and "2 powi k \<le> x" and "ulp_exp F x \<le> k"
  shows "2 powi k \<le> round_rat F x"
proof -
  obtain n where n: "(2::rat) powi k = of_int n * 2 powi ulp_exp F x"
    using powi_multiple [OF assms(3)] by auto
  have "of_int n \<le> x / 2 powi ulp_exp F x" using assms(2) by (simp add: n pos_le_divide_eq)
  from round_even_mono [OF this] have "n \<le> round_even (x / 2 powi ulp_exp F x)" by simp
  then show ?thesis using assms(1) by (simp add: round_rat_def n)
qed

lemma ilog2_mono: "0 < x \<Longrightarrow> x \<le> y \<Longrightarrow> ilog2 x \<le> ilog2 y"
proof -
  assume xy: "0 < x" "x \<le> y"
  have "2 powi ilog2 x \<le> x" using ilog2_bounds [OF xy(1)] by simp
  also have "x \<le> y" by (rule xy(2))
  also have "y < 2 powi (ilog2 y + 1)" using ilog2_bounds [of y] xy by simp
  finally show ?thesis by simp
qed

lemma round_rat_mono_pos:
  assumes x: "0 < x" and xy: "x \<le> y" and p: "1 \<le> ff_prec F"
  shows "round_rat F x \<le> round_rat F y"
proof (cases "ulp_exp F x = ulp_exp F y")
  case True
  have "round_even (x / 2 powi ulp_exp F y) \<le> round_even (y / 2 powi ulp_exp F y)"
    using xy by (intro round_even_mono divide_right_mono) simp_all
  with True x xy show ?thesis by (simp add: round_rat_def)
next
  case False
  let ?k = "ilog2 y"
  have pos: "\<bar>x\<bar> = x" "\<bar>y\<bar> = y" using x xy by simp_all
  from False ilog2_mono [OF x xy] have less: "ulp_exp F x < ulp_exp F y"
    by (auto simp: ulp_exp_def pos max_def split: if_splits)
  then have ey: "ulp_exp F y = ?k - (ff_prec F - 1)" and ex: "ilog2 x < ?k"
    by (auto simp: ulp_exp_def pos max_def split: if_splits)
  have "x < 2 powi (ilog2 x + 1)" using ilog2_bounds [OF x] by simp
  also have "\<dots> \<le> 2 powi ?k" using ex by simp
  finally have "round_rat F x \<le> 2 powi ?k"
    using x less ey p by (intro round_rat_le_power) simp_all
  also have "\<dots> \<le> round_rat F y"
    using ilog2_bounds [of y] x xy ey p by (intro round_rat_ge_power) simp_all
  finally show ?thesis .
qed

lemma round_rat_mono:
  assumes "x \<le> y" and p: "1 \<le> ff_prec F"
  shows "round_rat F x \<le> round_rat F y"
proof -
  consider "0 < x" | "y < 0" | "x \<le> 0" "0 \<le> y" by linarith
  then show ?thesis
  proof cases
    case 1
    then show ?thesis using assms by (intro round_rat_mono_pos)
  next
    case 2
    have "round_rat F (- y) \<le> round_rat F (- x)" using 2 assms by (intro round_rat_mono_pos) simp_all
    then show ?thesis by (simp add: round_rat_minus)
  next
    case 3
    have "round_rat F x \<le> 0" using round_rat_nonneg [of "- x" F] 3 by (simp add: round_rat_minus)
    also have "0 \<le> round_rat F y" using 3 by (intro round_rat_nonneg)
    finally show ?thesis .
  qed
qed

section \<open>Operations\<close>

text \<open>The order of the non-NaN values (\<open>partial_cmp\<close>).\<close>

fun flt_rank :: "flt \<Rightarrow> int \<times> rat" where
  "flt_rank (Fin x) = (0, x)"
| "flt_rank PosInf = (1, 0)"
| "flt_rank NegInf = (- 1, 0)"
| "flt_rank NaN = (2, 0)"

definition flt_le :: "flt \<Rightarrow> flt \<Rightarrow> bool" where
  "flt_le a b \<longleftrightarrow> a \<noteq> NaN \<and> b \<noteq> NaN \<and> flt_rank a \<le> flt_rank b"

definition inf_of_sign :: "bool \<Rightarrow> flt" where
  "inf_of_sign pos = (if pos then PosInf else NegInf)"

fun fmul :: "float_format \<Rightarrow> flt \<Rightarrow> flt \<Rightarrow> flt" where
  "fmul F NaN b = NaN"
| "fmul F (Fin x) NaN = NaN"
| "fmul F PosInf NaN = NaN"
| "fmul F NegInf NaN = NaN"
| "fmul F (Fin x) (Fin y) = fround F (x * y)"
| "fmul F (Fin x) PosInf = (if x = 0 then NaN else inf_of_sign (0 < x))"
| "fmul F (Fin x) NegInf = (if x = 0 then NaN else inf_of_sign (x < 0))"
| "fmul F PosInf (Fin y) = (if y = 0 then NaN else inf_of_sign (0 < y))"
| "fmul F NegInf (Fin y) = (if y = 0 then NaN else inf_of_sign (y < 0))"
| "fmul F PosInf PosInf = PosInf"
| "fmul F PosInf NegInf = NegInf"
| "fmul F NegInf PosInf = NegInf"
| "fmul F NegInf NegInf = PosInf"

text \<open>Division; a zero divisor counts as the positive zero.\<close>

fun fdiv :: "float_format \<Rightarrow> flt \<Rightarrow> flt \<Rightarrow> flt" where
  "fdiv F NaN b = NaN"
| "fdiv F (Fin x) NaN = NaN"
| "fdiv F PosInf NaN = NaN"
| "fdiv F NegInf NaN = NaN"
| "fdiv F (Fin x) (Fin y) =
     (if y = 0 then (if x = 0 then NaN else inf_of_sign (0 < x)) else fround F (x / y))"
| "fdiv F (Fin x) PosInf = Fin 0"
| "fdiv F (Fin x) NegInf = Fin 0"
| "fdiv F PosInf (Fin y) = inf_of_sign (0 \<le> y)"
| "fdiv F NegInf (Fin y) = inf_of_sign (y < 0)"
| "fdiv F PosInf PosInf = NaN"
| "fdiv F PosInf NegInf = NaN"
| "fdiv F NegInf PosInf = NaN"
| "fdiv F NegInf NegInf = NaN"

text \<open>\<open>i as f64\<close> of an integer, and \<open>x as f32\<close> of a float.\<close>

definition of_i64 :: "float_format \<Rightarrow> int \<Rightarrow> flt" where
  "of_i64 F i = fround F (of_int i)"

fun fcast :: "float_format \<Rightarrow> flt \<Rightarrow> flt" where
  "fcast F (Fin x) = fround F x"
| "fcast F v = v"

section \<open>Laws used by the ranking code\<close>

lemma flt_le_Fin [simp]: "flt_le (Fin x) (Fin y) \<longleftrightarrow> x \<le> y"
  by (simp add: flt_le_def)

lemma flt_le_PosInf [simp]: "flt_le a PosInf \<longleftrightarrow> a \<noteq> NaN"
  by (cases a) (simp_all add: flt_le_def)

lemma flt_le_PosInf_left [simp]: "flt_le PosInf b \<longleftrightarrow> b = PosInf"
  by (cases b) (simp_all add: flt_le_def)

lemma flt_le_NegInf [simp]: "flt_le NegInf b \<longleftrightarrow> b \<noteq> NaN"
  by (cases b) (simp_all add: flt_le_def)

lemma flt_le_Fin_NegInf [simp]: "\<not> flt_le (Fin x) NegInf"
  by (simp add: flt_le_def)

lemma flt_le_NaN [simp]: "\<not> flt_le NaN b" "\<not> flt_le a NaN"
  by (simp_all add: flt_le_def)

lemma flt_le_trans: "flt_le a b \<Longrightarrow> flt_le b c \<Longrightarrow> flt_le a c"
  by (auto simp: flt_le_def)

lemma flt_le_refl [simp]: "flt_le a a \<longleftrightarrow> a \<noteq> NaN"
  by (simp add: flt_le_def)

lemma flt_le_cases:
  assumes "flt_le (Fin x) v"
  obtains (Fin) y where "v = Fin y" "x \<le> y" | (PosInf) "v = PosInf"
  using assms by (cases v) auto

lemma fround_not_NaN [simp]: "fround F x \<noteq> NaN"
  by (simp add: fround_def Let_def)

lemma fround_mono: "x \<le> y \<Longrightarrow> 1 \<le> ff_prec F \<Longrightarrow> flt_le (fround F x) (fround F y)"
proof -
  assume "x \<le> y" "1 \<le> ff_prec F"
  then have "round_rat F x \<le> round_rat F y" by (rule round_rat_mono)
  moreover have "(0::rat) < 2 powi ff_emax F" by simp
  ultimately show ?thesis unfolding fround_def Let_def by auto
qed

lemma fround_0 [simp]: "fround F 0 = Fin 0"
  by (simp add: fround_def Let_def not_le)

lemma prec_f32 [simp]: "1 \<le> ff_prec f32" and prec_f64 [simp]: "1 \<le> ff_prec f64"
  by (simp_all add: f32_def f64_def)

lemma ilog2_1 [simp]: "ilog2 1 = 0"
  by (simp add: ilog2.simps)

lemma fround_1 [simp]: "fround f32 1 = Fin 1" "fround f64 1 = Fin 1"
proof -
  have "round_rat f32 1 = 1" "round_rat f64 1 = 1"
    using round_even_of_int [of "2 ^ 23"] round_even_of_int [of "2 ^ 52"]
    by (simp_all add: round_rat_def ulp_exp_def f32_def f64_def power_int_minus)
  then show "fround f32 1 = Fin 1" "fround f64 1 = Fin 1"
    by (simp_all add: fround_def f32_def f64_def)
qed

lemma flt_le_antisym: "flt_le a b \<Longrightarrow> flt_le b a \<Longrightarrow> a = b"
  by (cases a; cases b) (simp_all add: flt_le_def)

lemma fround_nonneg: "0 \<le> x \<Longrightarrow> 1 \<le> ff_prec F \<Longrightarrow> flt_le (Fin 0) (fround F x)"
  using fround_mono [of 0 x F] by simp

text \<open>
  Scaling by a factor between 0 and 1 never raises a non-negative float of the format, and a factor of one is the
  identity on them.
\<close>

lemma fmul_le:
  assumes "fround F b = Fin b" and "0 \<le> b" and "0 \<le> w" and "w \<le> 1" and "1 \<le> ff_prec F"
  shows "flt_le (Fin 0) (fmul F (Fin b) (Fin w)) \<and> flt_le (fmul F (Fin b) (Fin w)) (Fin b)"
proof -
  have "b * w \<le> b" using assms by (simp add: mult_left_le)
  from fround_mono [OF this assms(5)] assms(1)
  have "flt_le (fround F (b * w)) (Fin b)" by simp
  moreover have "flt_le (Fin 0) (fround F (b * w))" using assms by (intro fround_nonneg) simp_all
  ultimately show ?thesis by simp
qed

lemma fmul_1: "fround F b = Fin b \<Longrightarrow> fmul F (Fin b) (Fin 1) = Fin b"
  by simp

lemma fmul_mono_left:
  assumes "flt_le a b" and "0 \<le> w" and "1 \<le> ff_prec F" and "fmul F a (Fin w) \<noteq> NaN"
    and "fmul F b (Fin w) \<noteq> NaN"
  shows "flt_le (fmul F a (Fin w)) (fmul F b (Fin w))"
  using assms
  by (cases a; cases b) (auto simp: inf_of_sign_def intro!: fround_mono mult_right_mono split: if_splits)

end
