(* ===== verification/Search.thy ===== *)
theory Search
  imports Floats Ranking_Config
begin

text \<open>
  \<open>search/ranking.rs\<close>, \<open>search/result.rs\<close>, \<open>search/service.rs\<close> and \<open>index/reader.rs\<close>: the local search. Tantivy
  is the record \<open>tantivy\<close> of the functions the reader calls ('q a parsed query, 'd a stored document); \<open>half_pow\<close> is
  the standard library's \<open>0.5_f64.powf\<close> and \<open>lowercase\<close> its \<open>str::to_lowercase\<close>.
\<close>

section \<open>Scores\<close>

record score_inputs =
  si_base_relevance :: flt
  si_source :: string
  si_domain :: string
  si_doc_timestamp_secs :: int
  si_now_secs :: int

text \<open>Subtraction of \<open>i64\<close> values as a release build computes it: in two's complement.\<close>

definition i64_sub :: "int \<Rightarrow> int \<Rightarrow> int" where
  "i64_sub a b = (a - b + 2 ^ 63) mod 2 ^ 64 - 2 ^ 63"

definition freshness_factor :: "(flt \<Rightarrow> flt) \<Rightarrow> int \<Rightarrow> int \<Rightarrow> flt \<Rightarrow> flt" where
  "freshness_factor half_pow doc_ts now half_life_days =
     (if flt_le half_life_days (Fin 0) then Fin 1
      else
        (let age_secs = of_i64 f64 (max (i64_sub now doc_ts) 0);
             age_days = fdiv f64 age_secs (Fin 86400) in
         fcast f32 (half_pow (fdiv f64 age_days half_life_days))))"

definition score :: "(flt \<Rightarrow> flt) \<Rightarrow> score_inputs \<Rightarrow> flt ranking_config \<Rightarrow> flt" where
  "score half_pow inputs cfg =
     (let source_weight =
            fcast f32 (option_or (Fin 1) (map_of (rc_source_weights cfg) (si_source inputs)));
          domain_boost =
            fcast f32 (option_or (Fin 1) (map_of (rc_domain_boosts cfg) (si_domain inputs)));
          freshness =
            freshness_factor half_pow (si_doc_timestamp_secs inputs) (si_now_secs inputs)
              (rc_half_life cfg) in
      fmul f32 (fmul f32 (fmul f32 (si_base_relevance inputs) source_weight) freshness) domain_boost)"

section \<open>The index reader\<close>

definition ends_at_boundary :: "string \<Rightarrow> bool" where
  "ends_at_boundary out \<longleftrightarrow>
     out = [] \<or> list_ex (\<lambda>w. w \<noteq> [] \<and> ends_with w out) (whitespace_seqs @ [''('', ''-'', ''+''])"

function rewrite_loop :: "string \<Rightarrow> bool \<Rightarrow> string \<Rightarrow> string" where
  "rewrite_loop out in_quote [] = out"
| "rewrite_loop out in_quote (c # cs) =
     (if c = CHR 0x22 then rewrite_loop (out @ [c]) (\<not> in_quote) cs
      else if \<not> in_quote \<and> c = CHR ''s'' \<and> ends_at_boundary out \<and> starts_with ''ite:'' cs
      then rewrite_loop (out @ ''+host:'') in_quote (drop 4 cs)
      else rewrite_loop (out @ [c]) in_quote cs)"
  by pat_completeness auto
termination by (relation "measure (\<lambda>(_, _, s). length s)") auto

definition rewrite_site_filter :: "string \<Rightarrow> string" where
  "rewrite_site_filter q = rewrite_loop [] False q"

datatype owned_value = StrValue string | I64Value int | DateValue int | OtherValue

datatype doc_field = FTitle | FBody | FUrl | FHost | FCollection | FTimestamp

record ('q, 'd) tantivy =
  parse_query :: "string \<Rightarrow> 'q option"
  snippets_for :: "'q \<Rightarrow> bool"
  snippet_html_of :: "'q \<Rightarrow> 'd \<Rightarrow> string option"
  must_collection :: "'q \<Rightarrow> string \<Rightarrow> 'q"
  collection_query :: "string \<Rightarrow> 'q"
  top_docs :: "'q \<Rightarrow> nat \<Rightarrow> (flt \<times> 'd) list option"
  count_docs :: "'q \<Rightarrow> nat option"
  all_query :: 'q
  num_docs :: nat
  get_first :: "'d \<Rightarrow> doc_field \<Rightarrow> owned_value option"

definition first_text :: "('q, 'd) tantivy \<Rightarrow> 'd \<Rightarrow> doc_field \<Rightarrow> string" where
  "first_text T doc field = (case get_first T doc field of Some (StrValue s) \<Rightarrow> s | _ \<Rightarrow> [])"

definition first_i64 :: "('q, 'd) tantivy \<Rightarrow> 'd \<Rightarrow> doc_field \<Rightarrow> int" where
  "first_i64 T doc field =
     (case get_first T doc field of Some (I64Value n) \<Rightarrow> n | Some (DateValue n) \<Rightarrow> n | _ \<Rightarrow> 0)"

text \<open>The first \<open>n\<close> characters of a UTF-8 text: continuation bytes belong to the character before them.\<close>

definition continuation_byte :: "char \<Rightarrow> bool" where
  "continuation_byte c \<longleftrightarrow> 128 \<le> (of_char c :: nat) \<and> (of_char c :: nat) < 192"

fun take_chars :: "nat \<Rightarrow> string \<Rightarrow> string" where
  "take_chars n [] = []"
| "take_chars n (c # cs) =
     (if continuation_byte c then c # take_chars n cs
      else (case n of 0 \<Rightarrow> [] | Suc m \<Rightarrow> c # take_chars m cs))"

record raw_hit_with_snippet =
  rh_title :: string
  rh_url :: string
  rh_snippet_html :: string
  rh_timestamp :: int
  rh_bm25 :: flt

datatype search_error = QueryParseError | SnippetError | IndexError

definition hit_of :: "('q, 'd) tantivy \<Rightarrow> 'q \<Rightarrow> flt \<times> 'd \<Rightarrow> raw_hit_with_snippet" where
  "hit_of T user_q sd =
     (let doc = snd sd in
      \<lparr>rh_title = first_text T doc FTitle, rh_url = first_text T doc FUrl,
       rh_snippet_html =
         (case snippet_html_of T user_q doc of
            None \<Rightarrow> take_chars 220 (first_text T doc FBody) | Some html \<Rightarrow> html),
       rh_timestamp = first_i64 T doc FTimestamp, rh_bm25 = fst sd\<rparr>)"

text \<open>\<open>TopDocs::with_limit(0)\<close> panics.\<close>

definition search_with_snippets ::
  "('q, 'd) tantivy \<Rightarrow> string \<Rightarrow> string option \<Rightarrow> nat \<Rightarrow>
   (search_error + raw_hit_with_snippet list) option" where
  "search_with_snippets T query_text collection limit =
     (case parse_query T (rewrite_site_filter query_text) of
        None \<Rightarrow> Some (Inl QueryParseError)
      | Some user_q \<Rightarrow>
          if \<not> snippets_for T user_q then Some (Inl SnippetError)
          else
            (let q = (case collection of None \<Rightarrow> user_q | Some c \<Rightarrow> must_collection T user_q c) in
             if limit = 0 then None
             else (case top_docs T q limit of
                     None \<Rightarrow> Some (Inl IndexError)
                   | Some docs \<Rightarrow> Some (Inr (map (hit_of T user_q) docs)))))"

definition count_in_collection :: "('q, 'd) tantivy \<Rightarrow> string \<Rightarrow> nat option" where
  "count_in_collection T collection = count_docs T (collection_query T collection)"

record exported_doc =
  xd_collection :: string
  xd_url :: string
  xd_title :: string
  xd_body :: string
  xd_indexed_at :: int

definition exported_doc_of :: "('q, 'd) tantivy \<Rightarrow> 'd \<Rightarrow> exported_doc" where
  "exported_doc_of T doc =
     \<lparr>xd_collection = first_text T doc FCollection, xd_url = first_text T doc FUrl,
      xd_title = first_text T doc FTitle, xd_body = first_text T doc FBody,
      xd_indexed_at = first_i64 T doc FTimestamp\<rparr>"

definition export_all_docs :: "('q, 'd) tantivy \<Rightarrow> search_error + exported_doc list" where
  "export_all_docs T =
     (if num_docs T = 0 then Inr []
      else (case top_docs T (all_query T) (num_docs T) of
              None \<Rightarrow> Inl IndexError
            | Some docs \<Rightarrow> Inr (map (\<lambda>sd. exported_doc_of T (snd sd)) docs)))"

section \<open>The search service\<close>

record search_result =
  sr_title :: string
  sr_url :: string
  sr_snippet_html :: string
  sr_source :: string
  sr_timestamp :: int
  sr_score :: flt

definition extract_domain :: "(string \<Rightarrow> string) \<Rightarrow> string \<Rightarrow> string" where
  "extract_domain lowercase url =
     (let after_scheme = (case split_once ''://'' url of Some (_, rest) \<Rightarrow> rest | None \<Rightarrow> url);
          host_and_port = hd (split_char CHR ''/'' after_scheme);
          host = last (split_char CHR ''@'' host_and_port) in
      lowercase host)"

text \<open>
  \<open>sort_by(|a, b| b.score.partial_cmp(&a.score).unwrap_or(Equal))\<close>: a stable sort by descending score. With a NaN
  among the scores the comparison is no total order and the standard library leaves the outcome open (an order of its
  own, or a panic): that case is the parameter \<open>unordered\<close>.
\<close>

definition descending :: "flt \<Rightarrow> int \<times> rat" where
  "descending v = (- fst (flt_rank v), - snd (flt_rank v))"

definition sort_by_score ::
  "(search_result list \<Rightarrow> search_result list option) \<Rightarrow> search_result list \<Rightarrow> search_result list option" where
  "sort_by_score unordered rs =
     (if list_ex (\<lambda>r. sr_score r = NaN) rs then unordered rs
      else Some (sort_key (\<lambda>r. descending (sr_score r)) rs))"

record rust_std =
  half_pow :: "flt \<Rightarrow> flt"
  lowercase :: "string \<Rightarrow> string"
  unordered :: "search_result list \<Rightarrow> search_result list option"

definition rank_hit ::
  "rust_std \<Rightarrow> int \<Rightarrow> flt ranking_config \<Rightarrow> raw_hit_with_snippet \<Rightarrow> search_result" where
  "rank_hit R now cfg h =
     \<lparr>sr_title = rh_title h, sr_url = rh_url h, sr_snippet_html = rh_snippet_html h,
      sr_source = ''local'', sr_timestamp = rh_timestamp h,
      sr_score = score (half_pow R)
        \<lparr>si_base_relevance = rh_bm25 h, si_source = ''local'',
         si_domain = extract_domain (lowercase R) (rh_url h), si_doc_timestamp_secs = rh_timestamp h,
         si_now_secs = now\<rparr> cfg\<rparr>"

definition local_search ::
  "('q, 'd) tantivy \<Rightarrow> rust_std \<Rightarrow> (flt, 'j) ranking_json \<Rightarrow> bool \<Rightarrow> (flt, 'j) ranking_row list \<Rightarrow> string \<Rightarrow>
   string option \<Rightarrow> int option \<Rightarrow> nat \<Rightarrow> int \<Rightarrow> (search_error + search_result list) option" where
  "local_search T R J poisoned rows query collection cid limit now =
     (case search_with_snippets T query collection ((limit * 4) mod 2 ^ 64) of
        None \<Rightarrow> None
      | Some (Inl e) \<Rightarrow> Some (Inl e)
      | Some (Inr raw_hits) \<Rightarrow>
          if cid \<noteq> None \<and> poisoned then None
          else
            (let cfg = (case cid of
                          Some i \<Rightarrow> ranking_load J (Fin 90) (Fin 1) rows i
                        | None \<Rightarrow> default_for (Fin 90) (Fin 1) 0) in
             case sort_by_score (unordered R) (map (rank_hit R now cfg) raw_hits) of
               None \<Rightarrow> None
             | Some results \<Rightarrow> Some (Inr (take limit results))))"

section \<open>Snippet texts\<close>

fun html_escape :: "string \<Rightarrow> string" where
  "html_escape [] = []"
| "html_escape (c # cs) =
     (if c = CHR ''&'' then ''&amp;''
      else if c = CHR ''<'' then ''&lt;''
      else if c = CHR ''>'' then ''&gt;''
      else if c = CHR 0x22 then ''&quot;''
      else [c]) @ html_escape cs"

text \<open>A slice \<open>s[a..b]\<close> panics out of range and inside a character.\<close>

definition is_char_boundary :: "string \<Rightarrow> nat \<Rightarrow> bool" where
  "is_char_boundary s i \<longleftrightarrow>
     i = length s \<or> (i < length s \<and> (i = 0 \<or> \<not> continuation_byte (s ! i)))"

definition str_slice :: "string \<Rightarrow> nat \<Rightarrow> nat \<Rightarrow> string option" where
  "str_slice s a b =
     (if a \<le> b \<and> is_char_boundary s a \<and> is_char_boundary s b then Some (take (b - a) (drop a s))
      else None)"

partial_function (option) wrap_loop ::
  "string \<Rightarrow> string \<Rightarrow> string \<Rightarrow> string \<Rightarrow> string \<Rightarrow> nat \<Rightarrow> string \<Rightarrow> string option" where
  "wrap_loop haystack lower_haystack lower_needle pre post start out =
     (if length lower_haystack \<le> start then Some out
      else
        Option.bind (str_slice lower_haystack start (length lower_haystack)) (\<lambda>rest.
          case str_find lower_needle rest of
            None \<Rightarrow> map_option (\<lambda>t. out @ t) (str_slice haystack start (length haystack))
          | Some rel_pos \<Rightarrow>
              (let abs_pos = start + rel_pos; stop = abs_pos + length lower_needle in
               Option.bind (str_slice haystack start abs_pos) (\<lambda>before.
                 Option.bind (str_slice haystack abs_pos stop) (\<lambda>hit.
                   wrap_loop haystack lower_haystack lower_needle pre post stop
                     (out @ before @ pre @ hit @ post))))))"

definition case_insensitive_wrap ::
  "(string \<Rightarrow> string) \<Rightarrow> string \<Rightarrow> string \<Rightarrow> string \<Rightarrow> string \<Rightarrow> string option" where
  "case_insensitive_wrap lower haystack needle pre post =
     (if needle = [] then Some haystack
      else wrap_loop haystack (lower haystack) (lower needle) pre post 0 [])"

fun highlight_terms :: "(string \<Rightarrow> string) \<Rightarrow> string list \<Rightarrow> string \<Rightarrow> string option" where
  "highlight_terms lower [] out = Some out"
| "highlight_terms lower (term # terms) out =
     (if term = [] then highlight_terms lower terms out
      else
        (case case_insensitive_wrap lower out term ''<mark>'' ''</mark>'' of
           None \<Rightarrow> None | Some out' \<Rightarrow> highlight_terms lower terms out'))"

definition highlight_fallback :: "(string \<Rightarrow> string) \<Rightarrow> string \<Rightarrow> string list \<Rightarrow> string option" where
  "highlight_fallback lower text query_terms = highlight_terms lower query_terms (html_escape text)"

section \<open>Freshness and scores\<close>

text \<open>What the code relies on of \<open>powf\<close> with base one half.\<close>

definition half_pow_ok :: "(flt \<Rightarrow> flt) \<Rightarrow> bool" where
  "half_pow_ok hp \<longleftrightarrow>
     hp (Fin 0) = Fin 1 \<and> (\<forall>x. flt_le (Fin 0) x \<longrightarrow> (\<exists>r. hp x = Fin r \<and> 0 \<le> r \<and> r \<le> 1))"

lemma half_pow_range:
  assumes "half_pow_ok hp" and "flt_le (Fin 0) x"
  obtains r where "hp x = Fin r" "0 \<le> r" "r \<le> 1"
  using assms by (auto simp: half_pow_ok_def)

lemma fround_unit: "0 \<le> r \<Longrightarrow> r \<le> 1 \<Longrightarrow> \<exists>q. fround f32 r = Fin q \<and> 0 \<le> q \<and> q \<le> 1"
proof -
  assume r: "0 \<le> r" "r \<le> 1"
  from fround_nonneg [OF r(1) prec_f32] fround_mono [OF r(2) prec_f32]
  have "flt_le (Fin 0) (fround f32 r)" "flt_le (fround f32 r) (Fin 1)" by simp_all
  then show ?thesis by (cases "fround f32 r") (auto simp: flt_le_def)
qed

lemma fround_f64_bounded:
  assumes "0 \<le> x" and "x \<le> 2 ^ 63"
  shows "\<exists>y. fround f64 x = Fin y \<and> 0 \<le> y \<and> y \<le> 2 ^ 63"
proof -
  have "fround f64 (2 powi 63) = Fin (2 ^ 63)"
  proof -
    have "ilog2 (2 powi 63) = 63"
    proof -
      have "2 powi ilog2 (2 powi 63) \<le> (2::rat) powi 63" "(2::rat) powi 63 < 2 powi (ilog2 (2 powi 63) + 1)"
        using ilog2_bounds [of "2 powi 63"] by simp_all
      then show ?thesis unfolding powi_2_le_iff powi_2_less_iff by linarith
    qed
    then have e: "ulp_exp f64 (2 powi 63) \<le> 63" by (simp add: ulp_exp_def f64_def)
    have "round_rat f64 (2 powi 63) = 2 powi 63"
      using round_rat_le_power [of "2 powi 63" 63 f64] round_rat_ge_power [of "2 powi 63" 63 f64] e
      by (intro antisym) simp_all
    then show ?thesis by (simp add: fround_def f64_def)
  qed
  then have "flt_le (fround f64 x) (Fin (2 ^ 63))"
    using fround_mono [OF assms(2) prec_f64] by simp
  moreover have "flt_le (Fin 0) (fround f64 x)" using assms by (intro fround_nonneg) simp_all
  ultimately show ?thesis by (cases "fround f64 x") (auto simp: flt_le_def)
qed

lemma i64_sub_bounds: "- (2 ^ 63) \<le> i64_sub a b" "i64_sub a b < 2 ^ 63"
  by (simp_all add: i64_sub_def)

lemma i64_sub_exact: "- (2 ^ 63) \<le> a - b \<Longrightarrow> a - b < 2 ^ 63 \<Longrightarrow> i64_sub a b = a - b"
  by (simp add: i64_sub_def)

text \<open>The exponent handed to \<open>powf\<close> is never negative and never NaN, whatever the timestamps are.\<close>

lemma freshness_exponent:
  assumes "\<not> flt_le h (Fin 0)" and "h \<noteq> NaN" and "0 \<le> age" and "age < 2 ^ 63"
  shows "flt_le (Fin 0) (fdiv f64 (fdiv f64 (of_i64 f64 age) (Fin 86400)) h)"
    and "age = 0 \<Longrightarrow> fdiv f64 (fdiv f64 (of_i64 f64 age) (Fin 86400)) h = Fin 0"
proof -
  have "rat_of_int age \<le> rat_of_int (2 ^ 63)" using assms(4) by (subst of_int_le_iff) simp
  then have r: "0 \<le> rat_of_int age" "rat_of_int age \<le> 2 ^ 63" using assms(3) by simp_all
  from fround_f64_bounded [OF r] obtain y where
    y: "of_i64 f64 age = Fin y" "0 \<le> y" "y \<le> 2 ^ 63" by (auto simp: of_i64_def)
  then have "0 \<le> y / 86400" "y / 86400 \<le> 2 ^ 63" by simp_all
  from fround_f64_bounded [OF this] obtain d where
    d: "fdiv f64 (of_i64 f64 age) (Fin 86400) = Fin d" "0 \<le> d" by (auto simp: y(1))
  have h: "h = PosInf \<or> (\<exists>q. h = Fin q \<and> 0 < q)" using assms(1,2) by (cases h) auto
  then show "flt_le (Fin 0) (fdiv f64 (fdiv f64 (of_i64 f64 age) (Fin 86400)) h)"
    using d by (auto intro!: fround_nonneg)
  assume "age = 0"
  with h show "fdiv f64 (fdiv f64 (of_i64 f64 age) (Fin 86400)) h = Fin 0"
    by (auto simp: of_i64_def)
qed

lemma freshness_range:
  assumes "half_pow_ok hp" and "h \<noteq> NaN"
  shows "\<exists>r. freshness_factor hp doc_ts now h = Fin r \<and> 0 \<le> r \<and> r \<le> 1"
proof (cases "flt_le h (Fin 0)")
  case False
  let ?age = "max (i64_sub now doc_ts) 0"
  have age: "0 \<le> ?age" "?age < 2 ^ 63" using i64_sub_bounds(2) [of now doc_ts] by simp_all
  from half_pow_range [OF assms(1) freshness_exponent(1) [OF False assms(2) age]] obtain r where
    "hp (fdiv f64 (fdiv f64 (of_i64 f64 ?age) (Fin 86400)) h) = Fin r" "0 \<le> r" "r \<le> 1" by metis
  with False fround_unit [of r] show ?thesis by (simp add: freshness_factor_def Let_def)
qed (simp add: freshness_factor_def)

lemma freshness_clamped:
  assumes "half_pow_ok hp" and "h \<noteq> NaN" and "i64_sub now doc_ts \<le> 0"
  shows "freshness_factor hp doc_ts now h = Fin 1"
proof (cases "flt_le h (Fin 0)")
  case False
  have "max (i64_sub now doc_ts) 0 = 0" using assms(3) by simp
  moreover have "fdiv f64 (fdiv f64 (of_i64 f64 0) (Fin 86400)) h = Fin 0"
    using False assms(2) by (intro freshness_exponent(2)) simp_all
  ultimately show ?thesis
    using False assms(1) by (simp add: freshness_factor_def Let_def half_pow_ok_def)
qed (simp add: freshness_factor_def)

text \<open>Freshness is a discount, never a boost. For every half-life that is a number and every pair of timestamps,
  overflowing differences included, the factor is a finite \<open>f32\<close> between 0 and 1; it is exactly 1 when decay is
  switched off (a half-life of 0 or less) and for a document whose age is not positive, that is one dated now or in
  the future.\<close>

theorem freshness_never_boosts:
  assumes "half_pow_ok hp" and "half_life \<noteq> NaN"
  shows "\<exists>r. freshness_factor hp doc_ts now half_life = Fin r \<and> 0 \<le> r \<and> r \<le> 1 \<and>
    (flt_le half_life (Fin 0) \<or> i64_sub now doc_ts \<le> 0 \<longrightarrow> r = 1)"
proof -
  from freshness_range [OF assms] obtain r where
    r: "freshness_factor hp doc_ts now half_life = Fin r" "0 \<le> r" "r \<le> 1" by auto
  have "r = 1" if "flt_le half_life (Fin 0) \<or> i64_sub now doc_ts \<le> 0"
    using that r(1) freshness_clamped [OF assms] by (auto simp: freshness_factor_def)
  with r show ?thesis by auto
qed

text \<open>A \<open>powf\<close> for the witnesses: one at zero, one half above.\<close>

definition sample_pow :: "flt \<Rightarrow> flt" where
  "sample_pow x = (if x = Fin 0 then Fin 1 else Fin (1 / 2))"

lemma sample_pow_ok: "half_pow_ok sample_pow"
  by (auto simp: half_pow_ok_def sample_pow_def intro!: exI [where x = "1 / 2 :: rat"])

theorem freshness_never_boosts_witness:
  "\<exists>r. freshness_factor sample_pow 2000 1000 (Fin 90) = Fin r \<and> 0 \<le> r \<and> r \<le> 1 \<and>
    (flt_le (Fin 90) (Fin 0) \<or> i64_sub 1000 2000 \<le> 0 \<longrightarrow> r = 1)"
  by (rule freshness_never_boosts [OF sample_pow_ok]) simp

section \<open>The ranked list\<close>

lemma descending_le_iff:
  "a \<noteq> NaN \<Longrightarrow> b \<noteq> NaN \<Longrightarrow> descending a \<le> descending b \<longleftrightarrow> flt_le b a"
  by (cases a; cases b) (auto simp: descending_def flt_le_def less_eq_prod_def)

text \<open>
  A list ordered by descending score: every result is at least as good as those after it.
\<close>

definition ranked :: "search_result list \<Rightarrow> bool" where
  "ranked rs \<longleftrightarrow> sorted_wrt (\<lambda>a b. flt_le (sr_score b) (sr_score a)) rs"

lemma sort_by_score_ranked:
  assumes "\<And>r. r \<in> set rs \<Longrightarrow> sr_score r \<noteq> NaN" and "sort_by_score f rs = Some ss"
  shows "mset ss = mset rs" and "ranked ss"
    and "\<And>v. filter (\<lambda>r. sr_score r = v) ss = filter (\<lambda>r. sr_score r = v) rs"
proof -
  let ?k = "\<lambda>r. descending (sr_score r)"
  have ss: "ss = sort_key ?k rs"
    using assms by (auto simp: sort_by_score_def list_ex_iff split: if_splits)
  show m: "mset ss = mset rs" by (simp add: ss)
  have "sorted_wrt (\<lambda>a b. ?k a \<le> ?k b) ss"
    using sorted_sort_key [of ?k rs] by (simp add: ss sorted_map)
  then show "ranked ss"
    unfolding ranked_def
  proof (rule sorted_wrt_mono_rel [rotated])
    fix a b assume "a \<in> set ss" "b \<in> set ss" "?k a \<le> ?k b"
    with assms(1) show "flt_le (sr_score b) (sr_score a)" by (simp add: ss descending_le_iff)
  qed
  fix v
  have "inj_on descending (range sr_score - {NaN})"
    by (rule inj_onI) (metis DiffD2 descending_le_iff flt_le_antisym insertCI order_refl)
  then have eq: "(sr_score r = v) = (?k r = descending v)" if "r \<in> set rs" "v \<noteq> NaN" for r
    using that assms(1) by (metis descending_le_iff flt_le_antisym order_refl)
  show "filter (\<lambda>r. sr_score r = v) ss = filter (\<lambda>r. sr_score r = v) rs"
  proof (cases "v = NaN")
    case True
    then have "filter (\<lambda>r. sr_score r = v) ss = []" "filter (\<lambda>r. sr_score r = v) rs = []"
      using assms(1) by (auto simp: ss filter_empty_conv)
    then show ?thesis by simp
  next
    case False
    have "filter (\<lambda>r. sr_score r = v) ss = filter (\<lambda>r. ?k r = descending v) ss"
      using eq [OF _ False] by (intro filter_cong) (simp_all add: ss)
    also have "\<dots> = filter (\<lambda>r. ?k r = descending v) rs"
      unfolding ss using filter_sort by (simp add: sort_key_stable)
    also have "\<dots> = filter (\<lambda>r. sr_score r = v) rs"
      using eq [OF _ False] by (intro filter_cong) simp_all
    finally show ?thesis .
  qed
qed

lemma ranked_split:
  assumes "ranked rs" and "a \<in> set (take n rs)" and "b \<in> set (drop n rs)"
  shows "flt_le (sr_score b) (sr_score a)"
proof -
  have "ranked (take n rs @ drop n rs)" using assms(1) by simp
  then show ?thesis using assms(2,3) unfolding ranked_def sorted_wrt_append by blast
qed

lemma ranked_take: "ranked rs \<Longrightarrow> ranked (take n rs)"
  unfolding ranked_def by (rule sorted_wrt_take)

text \<open>The configuration a search ranks with.\<close>

definition ranking_of ::
  "(flt, 'j) ranking_json \<Rightarrow> (flt, 'j) ranking_row list \<Rightarrow> int option \<Rightarrow> flt ranking_config" where
  "ranking_of J rows cid =
     (case cid of Some i \<Rightarrow> ranking_load J (Fin 90) (Fin 1) rows i
      | None \<Rightarrow> default_for (Fin 90) (Fin 1) 0)"

lemma local_search_cases:
  assumes "search_with_snippets T query collection ((limit * 4) mod 2 ^ 64) = Some (Inr hits)"
    and "poisoned \<longrightarrow> cid = None"
    and "\<And>h. h \<in> set hits \<Longrightarrow> sr_score (rank_hit R now (ranking_of J rows cid) h) \<noteq> NaN"
  obtains ss where
    "local_search T R J poisoned rows query collection cid limit now = Some (Inr (take limit ss))"
    "mset ss = mset (map (rank_hit R now (ranking_of J rows cid)) hits)" "ranked ss"
    "\<And>v. filter (\<lambda>r. sr_score r = v) ss =
       filter (\<lambda>r. sr_score r = v) (map (rank_hit R now (ranking_of J rows cid)) hits)"
proof -
  let ?rs = "map (rank_hit R now (ranking_of J rows cid)) hits"
  have n: "sr_score r \<noteq> NaN" if "r \<in> set ?rs" for r using that assms(3) by auto
  then obtain ss where ss: "sort_by_score (unordered R) ?rs = Some ss"
    by (auto simp: sort_by_score_def list_ex_iff)
  note S = sort_by_score_ranked [OF n ss]
  have "local_search T R J poisoned rows query collection cid limit now = Some (Inr (take limit ss))"
    using assms(1,2) ss by (auto simp: local_search_def ranking_of_def split: option.splits)
  with S show thesis by (intro that [of ss])
qed

text \<open>C36: the local search returns the best of its candidates, in order. When the index answers and no score is NaN,
  the call succeeds with as many results as there are candidates, at most \<open>limit\<close>; they are ordered by descending
  final score, no candidate that was left out scores higher than one that was returned, nothing is invented or
  lost, and candidates of equal score keep the order of the index.\<close>

theorem local_search_returns_best:
  assumes "search_with_snippets T query collection ((limit * 4) mod 2 ^ 64) = Some (Inr hits)"
    and "poisoned \<longrightarrow> cid = None"
    and "\<forall>h \<in> set hits. sr_score (rank_hit R now (ranking_of J rows cid) h) \<noteq> NaN"
  shows "\<exists>rs rest. local_search T R J poisoned rows query collection cid limit now = Some (Inr rs) \<and>
    length rs = min limit (length hits) \<and> ranked rs \<and>
    mset (rs @ rest) = mset (map (rank_hit R now (ranking_of J rows cid)) hits) \<and>
    (\<forall>a \<in> set rs. \<forall>b \<in> set rest. flt_le (sr_score b) (sr_score a)) \<and>
    (\<forall>v. filter (\<lambda>r. sr_score r = v) (rs @ rest) =
      filter (\<lambda>r. sr_score r = v) (map (rank_hit R now (ranking_of J rows cid)) hits))"
proof -
  have n: "\<And>h. h \<in> set hits \<Longrightarrow> sr_score (rank_hit R now (ranking_of J rows cid) h) \<noteq> NaN"
    using assms(3) by simp
  obtain ss where ss:
    "local_search T R J poisoned rows query collection cid limit now = Some (Inr (take limit ss))"
    "mset ss = mset (map (rank_hit R now (ranking_of J rows cid)) hits)" "ranked ss"
    "\<And>v. filter (\<lambda>r. sr_score r = v) ss =
       filter (\<lambda>r. sr_score r = v) (map (rank_hit R now (ranking_of J rows cid)) hits)"
    by (rule local_search_cases [OF assms(1,2) n]) (assumption | rule that)+
  have "length ss = length hits" using arg_cong [OF ss(2), of size] by simp
  then show ?thesis
    using ss ranked_split [OF ss(3)] ranked_take [OF ss(3)]
    by (intro exI [where x = "take limit ss"] exI [where x = "drop limit ss"]) auto
qed

lemma fround_between:
  assumes "0 \<le> q" and "q \<le> b" and "fround f32 b = Fin b"
  shows "\<exists>q'. fround f32 q = Fin q' \<and> 0 \<le> q' \<and> q' \<le> b"
  using fround_nonneg [OF assms(1) prec_f32] fround_mono [OF assms(2) prec_f32] assms(3)
  by (cases "fround f32 q") auto

text \<open>
  A score under the default configuration, for a relevance that is a non-negative \<open>f32\<close>.
\<close>

definition is_f32 :: "rat \<Rightarrow> bool" where
  "is_f32 b \<longleftrightarrow> fround f32 b = Fin b"

lemma default_score:
  assumes "half_pow_ok hp" and "is_f32 b" and "0 \<le> b"
    and "i = \<lparr>si_base_relevance = Fin b, si_source = ''local'', si_domain = d,
      si_doc_timestamp_secs = ts, si_now_secs = now\<rparr>"
  shows "flt_le (Fin 0) (score hp i (default_for (Fin 90) (Fin 1) 0))"
    and "flt_le (score hp i (default_for (Fin 90) (Fin 1) 0)) (Fin b)"
    and "i64_sub now ts \<le> 0 \<Longrightarrow> score hp i (default_for (Fin 90) (Fin 1) 0) = Fin b"
proof -
  from freshness_range [OF assms(1), of "Fin 90" ts now] obtain r where
    r: "freshness_factor hp ts now (Fin 90) = Fin r" "0 \<le> r" "r \<le> 1" by auto
  have b: "fround f32 b = Fin b" using assms(2) by (simp add: is_f32_def)
  have "0 \<le> b * r" "b * r \<le> b" using assms(3) r by (simp_all add: mult_left_le)
  from fround_between [OF this b] obtain q where
    q: "fround f32 (b * r) = Fin q" "0 \<le> q" "q \<le> b" by auto
  from fround_between [OF q(2,3) b] obtain q' where
    q': "fround f32 q = Fin q'" "0 \<le> q'" "q' \<le> b" by auto
  have s: "score hp i (default_for (Fin 90) (Fin 1) 0) = Fin q'"
    by (simp add: score_def Let_def assms(4) default_for_def r b q q')
  then show "flt_le (Fin 0) (score hp i (default_for (Fin 90) (Fin 1) 0))"
    and "flt_le (score hp i (default_for (Fin 90) (Fin 1) 0)) (Fin b)"
    using q' by simp_all
  assume "i64_sub now ts \<le> 0"
  then have "r = 1" using freshness_clamped [OF assms(1), of "Fin 90" now ts] r(1) by simp
  then have "q = b" using q b by simp
  then have "q' = b" using q' b by simp
  with s show "score hp i (default_for (Fin 90) (Fin 1) 0) = Fin b" by simp
qed

text \<open>Without a ranking configuration of its own a collection is ranked by relevance discounted by age alone.
  When the relevances of the index are non-negative \<open>f32\<close> numbers the search cannot fail after the index answered,
  and every result is the rank of some candidate with a score between 0 and the candidate's relevance, exactly the
  relevance when the document is not older than now.\<close>

theorem default_ranking_discounts:
  assumes "half_pow_ok (half_pow R)"
    and "search_with_snippets T query collection ((limit * 4) mod 2 ^ 64) = Some (Inr hits)"
    and "\<forall>h \<in> set hits. \<exists>b. rh_bm25 h = Fin b \<and> 0 \<le> b \<and> is_f32 b"
  shows "\<exists>rs. local_search T R J poisoned rows query collection None limit now = Some (Inr rs) \<and> ranked rs \<and>
    (\<forall>r \<in> set rs. \<exists>h \<in> set hits. sr_url r = rh_url h \<and> flt_le (Fin 0) (sr_score r) \<and>
       flt_le (sr_score r) (rh_bm25 h) \<and>
       (i64_sub now (rh_timestamp h) \<le> 0 \<longrightarrow> sr_score r = rh_bm25 h))"
proof -
  let ?rank = "rank_hit R now (ranking_of J rows None)"
  have hit: "flt_le (Fin 0) (sr_score (?rank h)) \<and> flt_le (sr_score (?rank h)) (rh_bm25 h) \<and>
      (i64_sub now (rh_timestamp h) \<le> 0 \<longrightarrow> sr_score (?rank h) = rh_bm25 h)" if h: "h \<in> set hits" for h
  proof -
    from h assms(3) obtain b where b: "rh_bm25 h = Fin b" "0 \<le> b" "is_f32 b" by auto
    show ?thesis
      using default_score [OF assms(1) b(3,2) refl]
      by (simp add: rank_hit_def ranking_of_def b(1))
  qed
  have n: "\<And>h. h \<in> set hits \<Longrightarrow> sr_score (?rank h) \<noteq> NaN" using hit by fastforce
  obtain ss where ss:
    "local_search T R J poisoned rows query collection None limit now = Some (Inr (take limit ss))"
    "mset ss = mset (map ?rank hits)" "ranked ss"
    by (rule local_search_cases [OF assms(2) _ n]) (simp_all | rule that)+
  have "r \<in> ?rank ` set hits" if "r \<in> set (take limit ss)" for r
    using that in_set_takeD [of r limit ss] mset_eq_setD [OF ss(2)] by auto
  then show ?thesis
    using ss(1) ranked_take [OF ss(3)] hit by (fastforce simp: rank_hit_def)
qed

section \<open>Query rewriting\<close>

lemma str_find_None_Cons: "str_find n (c # cs) = None \<Longrightarrow> str_find n cs = None"
  by (simp split: if_splits option.splits)

lemma rewrite_loop_plain: "str_find ''site:'' s = None \<Longrightarrow> rewrite_loop out in_quote s = out @ s"
proof (induction out in_quote s rule: rewrite_loop.induct)
  case (2 out in_quote c cs)
  have rest: "str_find ''site:'' cs = None" by (rule str_find_None_Cons [OF 2(4)])
  have "\<not> (c = CHR ''s'' \<and> starts_with ''ite:'' cs)"
    using str_find_NoneD [OF 2(4), of 0] by auto
  with 2(1,3) rest show ?case by auto
qed simp

text \<open>Up to the first occurrence of \<open>site:\<close> the text is copied, and quotes are counted.\<close>

definition odd_quotes :: "string \<Rightarrow> bool" where
  "odd_quotes s \<longleftrightarrow> odd (length (filter (\<lambda>c. c = CHR 0x22) s))"

lemma rewrite_loop_prefix:
  assumes "\<And>i. i < length a \<Longrightarrow> \<not> starts_with ''site:'' (drop i (a @ b))"
  shows "rewrite_loop out in_quote (a @ b) = rewrite_loop (out @ a) (in_quote \<noteq> odd_quotes a) b"
  using assms
proof (induction a arbitrary: out in_quote)
  case (Cons c cs)
  have "\<not> (c = CHR ''s'' \<and> starts_with ''ite:'' (cs @ b))" using Cons.prems [of 0] by auto
  moreover have "rewrite_loop (out @ [c]) q (cs @ b) = rewrite_loop (out @ c # cs) (q \<noteq> odd_quotes cs) b" for q
    using Cons.IH [of "out @ [c]" q] Cons.prems [of "Suc _"] by auto
  moreover have "odd_quotes (c # cs) = (if c = CHR 0x22 then \<not> odd_quotes cs else odd_quotes cs)"
    by (simp add: odd_quotes_def)
  ultimately show ?case by (cases in_quote; cases "odd_quotes cs") auto
qed (simp add: odd_quotes_def)

text \<open>\<open>site:\<close> becomes a required host filter exactly where it should. In a query whose only \<open>site:\<close> stands between
  \<open>a\<close> and \<open>b\<close>, it is replaced by \<open>+host:\<close> when it is outside quotes and at the start of a word (the beginning, or after
  white space, an opening parenthesis, a minus or a plus), and otherwise the query is passed on unchanged; nothing
  around it is touched.\<close>

theorem site_filter_rewritten:
  assumes "\<forall>i < length a. \<not> starts_with ''site:'' (drop i (a @ ''site:'' @ b))"
    and "str_find ''site:'' b = None"
  shows "rewrite_site_filter (a @ ''site:'' @ b) =
    (if \<not> odd_quotes a \<and> ends_at_boundary a then a @ ''+host:'' @ b else a @ ''site:'' @ b)"
proof -
  have "str_find ''site:'' (''ite:'' @ b) = None"
    using assms(2) by simp
  then have plain: "rewrite_loop out q (''ite:'' @ b) = out @ ''ite:'' @ b" for out q
    by (rule rewrite_loop_plain)
  have "rewrite_site_filter (a @ ''site:'' @ b) = rewrite_loop a (odd_quotes a) (''site:'' @ b)"
    using rewrite_loop_prefix [of a "''site:'' @ b" "[]" False] assms(1)
    by (simp add: rewrite_site_filter_def)
  also have "\<dots> = (if \<not> odd_quotes a \<and> ends_at_boundary a then rewrite_loop (a @ ''+host:'') False b
      else rewrite_loop (a @ ''s'') (odd_quotes a) (''ite:'' @ b))"
    by simp
  finally show ?thesis
    using plain [of "a @ ''s''" "odd_quotes a"] rewrite_loop_plain [OF assms(2), of "a @ ''+host:''" False]
    by (cases "odd_quotes a") simp_all
qed

lemma ends_at_boundary_space: "ends_at_boundary ''tokio ''"
  by code_simp

theorem site_filter_rewritten_witness:
  "rewrite_site_filter (''tokio '' @ ''site:'' @ ''rust-lang.org'') = ''tokio +host:rust-lang.org''"
proof -
  have "\<forall>i < length ''tokio ''. \<not> starts_with ''site:'' (drop i (''tokio '' @ ''site:'' @ ''rust-lang.org''))"
    by (simp add: starts_with_def All_less_Suc numeral_eq_Suc)
  moreover have "str_find ''site:'' ''rust-lang.org'' = None" by (simp add: starts_with_def)
  ultimately show ?thesis
    using site_filter_rewritten [of "''tokio ''" "''rust-lang.org''"] ends_at_boundary_space
    by (simp add: odd_quotes_def)
qed

section \<open>Escaping\<close>

text \<open>Escaping is safe and loses nothing: the escaped text has no angle bracket and no quote, every ampersand in it
  starts one of the four entities the function writes, and two texts escape alike only when they are equal.\<close>

theorem html_escape_safe_and_injective:
  "set (html_escape s) \<inter> {CHR ''<'', CHR ''>'', CHR 0x22} = {} \<and>
   (\<forall>a b. html_escape s = a @ CHR ''&'' # b \<longrightarrow>
      list_ex (\<lambda>e. starts_with e b) [''amp;'', ''lt;'', ''gt;'', ''quot;'']) \<and>
   (html_escape s = html_escape t \<longleftrightarrow> s = t)"
proof (intro conjI allI impI)
  show "set (html_escape s) \<inter> {CHR ''<'', CHR ''>'', CHR 0x22} = {}"
    by (induction s) auto
  show "list_ex (\<lambda>e. starts_with e b) [''amp;'', ''lt;'', ''gt;'', ''quot;'']"
    if "html_escape s = a @ CHR ''&'' # b" for a b
    using that
  proof (induction s arbitrary: a)
    case (Cons c cs)
    then show ?case
      by (auto simp: append_eq_Cons_conv Cons_eq_append_conv starts_with_iff split: if_splits)
  qed simp
  show "html_escape s = html_escape t \<longleftrightarrow> s = t"
  proof
    show "html_escape s = html_escape t \<Longrightarrow> s = t"
    proof (induction s arbitrary: t)
      case Nil
      then show ?case by (cases t) (auto split: if_splits)
    next
      case (Cons c cs)
      then show ?case by (cases t) (auto split: if_splits)
    qed
  qed simp
qed

section \<open>A small index\<close>

definition sample_doc :: "bool \<Rightarrow> doc_field \<Rightarrow> owned_value option" where
  "sample_doc d field =
     (case field of
        FTitle \<Rightarrow> Some (StrValue ''title'')
      | FUrl \<Rightarrow> Some (StrValue (if d then ''https://a.example/'' else ''https://b.example/''))
      | FBody \<Rightarrow> Some (StrValue ''<script>'')
      | FTimestamp \<Rightarrow> Some (DateValue 1000)
      | _ \<Rightarrow> None)"

definition sample_index :: "(string \<times> string option, bool) tantivy" where
  "sample_index =
     \<lparr>parse_query = (\<lambda>q. Some (q, None)), snippets_for = (\<lambda>_. True), snippet_html_of = (\<lambda>_ _. None),
      must_collection = (\<lambda>q c. (fst q, Some c)), collection_query = (\<lambda>c. ([], Some c)),
      top_docs = (\<lambda>_ n. Some (take n [(Fin 2, True), (Fin 1, False)])), count_docs = (\<lambda>_. Some 2),
      all_query = ([], None), num_docs = 2, get_first = sample_doc\<rparr>"

definition sample_std :: rust_std where
  "sample_std = \<lparr>half_pow = sample_pow, lowercase = to_ascii_lowercase, unordered = Some\<rparr>"

definition sample_search_json :: "(flt, nat) ranking_json" where
  "sample_search_json = \<lparr>map_text = (\<lambda>_. None), map_of_text = (\<lambda>_. None), config_of_text = (\<lambda>_. None)\<rparr>"

lemma sample_search:
  "search_with_snippets sample_index ''q'' None ((25 * 4) mod 2 ^ 64) =
     Some (Inr [hit_of sample_index (''q'', None) (Fin 2, True), hit_of sample_index (''q'', None) (Fin 1, False)])"
proof -
  have "rewrite_site_filter ''q'' = ''q''" by (simp add: rewrite_site_filter_def)
  then show ?thesis by (simp add: search_with_snippets_def sample_index_def)
qed

lemma is_f32_small: "is_f32 1" "is_f32 2"
proof -
  have "ilog2 2 = 1" by (simp add: ilog2.simps)
  then have "round_rat f32 2 = 2"
    using round_even_of_int [of "2 ^ 23"]
    by (simp add: round_rat_def ulp_exp_def f32_def power_int_minus)
  then show "is_f32 2" by (simp add: is_f32_def fround_def f32_def)
  show "is_f32 1" by (simp add: is_f32_def)
qed

theorem default_ranking_discounts_witness:
  "\<exists>rs. local_search sample_index sample_std sample_search_json True [] ''q'' None None 25 2000 = Some (Inr rs) \<and>
    ranked rs"
proof -
  have "half_pow_ok (half_pow sample_std)" by (simp add: sample_std_def sample_pow_ok)
  from default_ranking_discounts [OF this sample_search, of sample_search_json True "[]" 2000] is_f32_small
  show ?thesis by (fastforce simp: hit_of_def)
qed

theorem local_search_returns_best_witness:
  "\<exists>rs rest. local_search sample_index sample_std sample_search_json True [] ''q'' None None 25 0 = Some (Inr rs) \<and>
    length rs = 2 \<and> ranked rs \<and> rest = ([] :: search_result list)"
proof -
  let ?rank = "rank_hit sample_std 0 (ranking_of sample_search_json [] None)"
  let ?hits = "[hit_of sample_index (''q'', None) (Fin 2, True), hit_of sample_index (''q'', None) (Fin 1, False)]"
  have pow: "half_pow_ok (half_pow sample_std)" by (simp add: sample_std_def sample_pow_ok)
  have "sr_score (?rank h) \<noteq> NaN" if h: "h \<in> set ?hits" for h
  proof -
    obtain b where b: "rh_bm25 h = Fin b" "0 \<le> b" "is_f32 b"
      using h is_f32_small by (auto simp: hit_of_def)
    have "flt_le (Fin 0) (sr_score (?rank h))"
      using default_score(1) [OF pow b(3,2) refl] by (simp add: rank_hit_def ranking_of_def b(1))
    then show ?thesis by auto
  qed
  then have n: "\<forall>h \<in> set ?hits. sr_score (?rank h) \<noteq> NaN" by blast
  from local_search_returns_best [OF sample_search _ n, of True] show ?thesis by auto
qed

text \<open>When the snippet generator finds nothing the start of the body is returned as it is, as HTML.\<close>

lemma fallback_snippet_is_raw:
  "rh_snippet_html (hit_of sample_index (''q'', None) (Fin 2, True)) = ''<script>''"
  by (simp add: hit_of_def sample_index_def sample_doc_def first_text_def continuation_byte_def)

text \<open>A highlighted term is also looked for inside the entities and the marks written before it.\<close>

lemma highlight_breaks_entities:
  "highlight_fallback to_ascii_lowercase ''a&b'' [''amp''] = Some ''a&<mark>amp</mark>;b''"
  by (simp add: highlight_fallback_def case_insensitive_wrap_def wrap_loop.simps str_slice_def
      is_char_boundary_def continuation_byte_def starts_with_def to_ascii_lowercase_def ascii_lower_def
      nth_Cons' Let_def)

end
