(* ===== verification/Fanout.thy ===== *)
theory Fanout
  imports Search Peers
begin

text \<open>
  \<open>federation/fanout.rs\<close>, \<open>federation/peer.rs\<close> and \<open>api/sse.rs\<close>: which peers a search is forwarded to, what is sent to
  them, and how a peer's event stream is read. What a peer answers to an HTTP request and the JSON reader are
  parameters; the order in which peers finish is one too.
\<close>

section \<open>Requests and events\<close>

record search_request =
  req_query :: string
  req_collection :: "string option"
  req_depth :: nat

datatype sse_event = ResultEvent search_result | SourceComplete string | DoneEvent

fun event_name :: "sse_event \<Rightarrow> string" where
  "event_name (ResultEvent _) = ''result''"
| "event_name (SourceComplete _) = ''source_complete''"
| "event_name DoneEvent = ''done''"

section \<open>The HTTP client of a peer\<close>

text \<open>
  An answer to a request is a failure to send, or a status with the items of the body: events (name and data), or a
  failure in the middle of the stream.
\<close>

datatype stream_item = StreamFailure | StreamEvent string string

datatype peer_answer = NoAnswer | Answer nat "stream_item list"

datatype peer_error = PeerSendError | PeerStatus nat | PeerStreamError | PeerBadJson

definition is_success :: "nat \<Rightarrow> bool" where
  "is_success status \<longleftrightarrow> 200 \<le> status \<and> status < 300"

fun read_events ::
  "(string \<Rightarrow> search_result option) \<Rightarrow> stream_item list \<Rightarrow> search_result list \<Rightarrow> peer_error + search_result list" where
  "read_events parse [] out = Inr out"
| "read_events parse (StreamFailure # _) out = Inl PeerStreamError"
| "read_events parse (StreamEvent name dat # items) out =
     (if name = ''result'' then
        (case parse dat of None \<Rightarrow> Inl PeerBadJson | Some r \<Rightarrow> read_events parse items (out @ [r]))
      else if name = ''complete'' then Inr out
      else read_events parse items out)"

definition peer_search ::
  "(string \<Rightarrow> search_result option) \<Rightarrow> (string \<Rightarrow> search_request \<Rightarrow> peer_answer) \<Rightarrow> string \<Rightarrow> search_request \<Rightarrow>
   peer_error + search_result list" where
  "peer_search parse post url query =
     (case post (trim_end_matches CHR ''/'' url @ ''/api/search'') query of
        NoAnswer \<Rightarrow> Inl PeerSendError
      | Answer status items \<Rightarrow>
          if \<not> is_success status then Inl (PeerStatus status) else read_events parse items [])"

record collection_info =
  ci_name :: string
  ci_description :: "string option"

text \<open>A GET answers with a status and, when the body is the expected JSON, its value.\<close>

definition peer_list_collections ::
  "(string \<Rightarrow> (nat \<times> collection_info list option) option) \<Rightarrow> string \<Rightarrow> peer_error + collection_info list" where
  "peer_list_collections http_get url =
     (case http_get (trim_end_matches CHR ''/'' url @ ''/api/collections'') of
        None \<Rightarrow> Inl PeerSendError
      | Some (status, body) \<Rightarrow>
          if \<not> is_success status then Inl (PeerStatus status)
          else (case body of None \<Rightarrow> Inl PeerBadJson | Some cols \<Rightarrow> Inr cols))"

definition peer_health_check ::
  "(string \<Rightarrow> (nat \<times> collection_info list option) option) \<Rightarrow> string \<Rightarrow> bool" where
  "peer_health_check http_get url =
     (case http_get (trim_end_matches CHR ''/'' url @ ''/api/collections'') of
        Some (status, _) \<Rightarrow> is_success status | None \<Rightarrow> False)"

definition peer_search_tagged ::
  "(string \<Rightarrow> search_result option) \<Rightarrow> (string \<Rightarrow> search_request \<Rightarrow> peer_answer) \<Rightarrow> string \<Rightarrow> search_request \<Rightarrow>
   string \<Rightarrow> peer_error + search_result list" where
  "peer_search_tagged parse post url query source_label =
     (case peer_search parse post url query of
        Inl e \<Rightarrow> Inl e | Inr rs \<Rightarrow> Inr (map (\<lambda>r. r\<lparr>sr_source := source_label\<rparr>) rs))"

section \<open>Fan-out\<close>

record active_collection_peer =
  ap_collection_peer_id :: int
  ap_node_peer_id :: int
  ap_node_peer_url :: string
  ap_remote_collection :: string
  ap_source_weight :: flt
  ap_source_label :: string

definition active_of :: "flt collection_peer \<Rightarrow> node_peer \<Rightarrow> active_collection_peer" where
  "active_of cp np =
     \<lparr>ap_collection_peer_id = cp_id cp, ap_node_peer_id = np_id np, ap_node_peer_url = np_url np,
      ap_remote_collection = cp_remote_collection cp, ap_source_weight = cp_source_weight cp,
      ap_source_label = ''peer:'' @ np_url np @ ''/'' @ cp_remote_collection cp\<rparr>"

text \<open>\<open>JOIN node_peers np ON np.id = cp.node_peer_id .. AND np.enabled = 1\<close>.\<close>

definition active_peer :: "flt fed_db \<Rightarrow> flt collection_peer \<Rightarrow> active_collection_peer option" where
  "active_peer db cp =
     (case get_node_peer (cp_node_peer_id cp) db of
        None \<Rightarrow> None | Some np \<Rightarrow> if np_enabled np then Some (active_of cp np) else None)"

definition active_collection_peers_for :: "flt fed_db \<Rightarrow> string \<Rightarrow> active_collection_peer list" where
  "active_collection_peers_for db local =
     List.map_filter (active_peer db)
       (sort_key cp_id
         (filter (\<lambda>cp. cp_local_collection cp = local \<and> cp_enabled cp) (collection_peers db)))"

record peer_outcome =
  po_node_peer_id :: int
  po_source_label :: string
  po_source_weight :: flt
  po_result :: "peer_error + search_result list"
  po_elapsed_ms :: int

definition outgoing_request :: "search_request \<Rightarrow> nat \<Rightarrow> active_collection_peer \<Rightarrow> search_request" where
  "outgoing_request request outgoing_depth peer =
     request\<lparr>req_depth := outgoing_depth, req_collection := Some (ap_remote_collection peer)\<rparr>"

definition weigh :: "active_collection_peer \<Rightarrow> search_result \<Rightarrow> search_result" where
  "weigh peer r =
     r\<lparr>sr_source := ap_source_label peer, sr_score := fmul f32 (sr_score r) (ap_source_weight peer)\<rparr>"

definition ask_peer ::
  "(string \<Rightarrow> search_request \<Rightarrow> peer_error + search_result list) \<Rightarrow> (active_collection_peer \<Rightarrow> int) \<Rightarrow>
   search_request \<Rightarrow> nat \<Rightarrow> active_collection_peer \<Rightarrow> peer_outcome" where
  "ask_peer client elapsed request outgoing_depth peer =
     \<lparr>po_node_peer_id = ap_node_peer_id peer, po_source_label = ap_source_label peer,
      po_source_weight = ap_source_weight peer,
      po_result =
        (case client (ap_node_peer_url peer) (outgoing_request request outgoing_depth peer) of
           Inl e \<Rightarrow> Inl e | Inr rs \<Rightarrow> Inr (map (weigh peer) rs)),
      po_elapsed_ms = elapsed peer\<rparr>"

text \<open>\<open>arrival\<close> lists the peers in the order in which their answers come in.\<close>

definition dispatch ::
  "(string \<Rightarrow> search_request \<Rightarrow> peer_error + search_result list) \<Rightarrow> (active_collection_peer \<Rightarrow> int) \<Rightarrow>
   (active_collection_peer list \<Rightarrow> active_collection_peer list) \<Rightarrow> active_collection_peer list \<Rightarrow> search_request \<Rightarrow>
   nat \<Rightarrow> peer_outcome list" where
  "dispatch client elapsed arrival peers request outgoing_depth =
     map (ask_peer client elapsed request outgoing_depth) (arrival peers)"

text \<open>The requests a dispatch sends.\<close>

definition requests_sent ::
  "active_collection_peer list \<Rightarrow> search_request \<Rightarrow> nat \<Rightarrow> (string \<times> search_request) list" where
  "requests_sent peers request outgoing_depth =
     map (\<lambda>p. (ap_node_peer_url p, outgoing_request request outgoing_depth p)) peers"

section \<open>Facts\<close>

lemma set_map_filter: "y \<in> set (List.map_filter f xs) \<longleftrightarrow> (\<exists>x \<in> set xs. f x = Some y)"
  by (force simp: List.map_filter_def)

text \<open>A search is forwarded exactly to the enabled mappings of its collection. With the tables in order, the peers
  are, in the order of their mapping ids and once each, those whose mapping is for the collection and enabled and
  whose node is enabled; label, weight and remote collection are those of the mapping.\<close>

theorem active_peers_exact:
  assumes "fed_wf db"
  shows "sorted (map ap_collection_peer_id (active_collection_peers_for db local)) \<and>
    distinct (map ap_collection_peer_id (active_collection_peers_for db local)) \<and>
    (\<forall>p. p \<in> set (active_collection_peers_for db local) \<longleftrightarrow>
      (\<exists>cp \<in> set (collection_peers db). \<exists>np \<in> set (node_peers db).
         cp_local_collection cp = local \<and> cp_enabled cp \<and> np_enabled np \<and> cp_node_peer_id cp = np_id np \<and>
         p = active_of cp np))"
proof (intro conjI allI)
  let ?cps = "sort_key cp_id
    (filter (\<lambda>cp. cp_local_collection cp = local \<and> cp_enabled cp) (collection_peers db))"
  have id: "ap_collection_peer_id p = cp_id cp" if "active_peer db cp = Some p" for cp p
    using that by (auto simp: active_peer_def active_of_def split: option.splits if_splits)
  have ids: "map ap_collection_peer_id (List.map_filter (active_peer db) cps) =
      map cp_id (filter (\<lambda>cp. active_peer db cp \<noteq> None) cps)" for cps
    by (induction cps) (auto simp: id List.map_filter_simps split: option.splits)
  have "sorted (map cp_id ?cps)" by simp
  then show "sorted (map ap_collection_peer_id (active_collection_peers_for db local))"
    unfolding active_collection_peers_for_def ids by (rule sorted_filter)
  have "distinct (map cp_id (collection_peers db))" using assms by (simp add: fed_wf_def)
  then have "distinct (map cp_id ?cps)"
    by (simp add: distinct_map distinct_map_filter inj_on_def)
  then show "distinct (map ap_collection_peer_id (active_collection_peers_for db local))"
    unfolding active_collection_peers_for_def ids by (simp add: distinct_map_filter)
  have np: "get_node_peer i db = Some np \<longleftrightarrow> np \<in> set (node_peers db) \<and> np_id np = i" for i np
    using assms by (simp add: get_node_peer_def find_by_Some_iff fed_wf_def)
  fix p
  have active: "active_peer db cp = Some p \<longleftrightarrow>
      (\<exists>np \<in> set (node_peers db). np_enabled np \<and> cp_node_peer_id cp = np_id np \<and>
         p = active_of cp np)" for cp
  proof -
    have "active_peer db cp = Some p \<longleftrightarrow>
        (\<exists>np. get_node_peer (cp_node_peer_id cp) db = Some np \<and> np_enabled np \<and> p = active_of cp np)"
      by (auto simp: active_peer_def split: option.splits)
    then show ?thesis unfolding np by auto
  qed
  show "p \<in> set (active_collection_peers_for db local) \<longleftrightarrow>
      (\<exists>cp \<in> set (collection_peers db). \<exists>np \<in> set (node_peers db).
         cp_local_collection cp = local \<and> cp_enabled cp \<and> np_enabled np \<and> cp_node_peer_id cp = np_id np \<and>
         p = active_of cp np)"
    unfolding active_collection_peers_for_def set_map_filter active by auto
qed

definition sample_flt_fed :: "flt fed_db" where
  "sample_flt_fed =
     \<lparr>node_peers = node_peers (sample_fed True),
      collection_peers = [\<lparr>cp_id = 1, cp_local_collection = ''rust'', cp_node_peer_id = 1,
        cp_remote_collection = ''rs'', cp_source_weight = Fin 1, cp_enabled = True, cp_created_at = 0\<rparr>],
      notifications = []\<rparr>"

lemma sample_flt_fed_wf: "fed_wf sample_flt_fed"
  by (simp add: fed_wf_def sample_flt_fed_def sample_fed_def)

theorem active_peers_exact_witness:
  "\<exists>p. p \<in> set (active_collection_peers_for sample_flt_fed ''rust'') \<and>
     ap_source_label p = ''peer:http://p/rs''"
proof -
  let ?cp = "hd (collection_peers sample_flt_fed)" and ?np = "hd (node_peers sample_flt_fed)"
  have "active_of ?cp ?np \<in> set (active_collection_peers_for sample_flt_fed ''rust'')"
    using active_peers_exact [OF sample_flt_fed_wf, of "''rust''"]
    by (force simp: sample_flt_fed_def sample_fed_def)
  moreover have "ap_source_label (active_of ?cp ?np) = ''peer:http://p/rs''"
    by (simp add: active_of_def sample_flt_fed_def sample_fed_def)
  ultimately show ?thesis by blast
qed

lemma sample_peers_nonempty: "\<exists>p. p \<in> set (active_collection_peers_for sample_flt_fed ''rust'')"
  by (simp add: active_collection_peers_for_def set_map_filter active_peer_def get_node_peer_def
      sample_flt_fed_def sample_fed_def)

lemma dispatch_outcome:
  assumes "out \<in> set (dispatch client elapsed arrival peers request d)"
  obtains p where "p \<in> set (arrival peers)" "out = ask_peer client elapsed request d p"
  using assms by (auto simp: dispatch_def)

lemma length_dispatch [simp]:
  "length (dispatch client elapsed arrival peers request d) = length (arrival peers)"
  by (simp add: dispatch_def)

end
