(* ===== verification/Public.thy ===== *)
theory Public
  imports Fanout Tables
begin

text \<open>
  \<open>api/public.rs\<close>: the public search endpoints (JSON and event stream) and the list of collections.
\<close>

definition SEARCH_LIMIT :: nat where "SEARCH_LIMIT = 25"

definition MAX_FANOUT_DEPTH :: nat where "MAX_FANOUT_DEPTH = 2"

text \<open>
  What the handlers use of the application state: the tables, whether the database mutex is poisoned (an earlier
  thread panicked while holding it), and the outside: the index, the standard library, the client of the peers, how
  long each peer takes, in which order the answers come in and how many of them within the budget.
\<close>

record ('x, 'j) search_state =
  ss_content :: "'x content_db"
  ss_ranking :: "(flt, 'j) ranking_row list"
  ss_fed :: "flt fed_db"
  ss_poisoned :: bool

record ('q, 'd, 'j) search_env =
  en_index :: "('q, 'd) tantivy"
  en_std :: rust_std
  en_json :: "(flt, 'j) ranking_json"
  en_client :: "string \<Rightarrow> search_request \<Rightarrow> peer_error + search_result list"
  en_elapsed :: "active_collection_peer \<Rightarrow> int"
  en_arrival :: "active_collection_peer list \<Rightarrow> active_collection_peer list"
  en_in_time :: nat

section \<open>Collections\<close>

record collection_list_item =
  cl_name :: string
  cl_description :: string
  cl_documents :: nat

definition list_public_collections ::
  "('q, 'd, 'j) search_env \<Rightarrow> ('x, 'j) search_state \<Rightarrow> collection_list_item list option" where
  "list_public_collections E st =
     (if ss_poisoned st then None
      else Some (map (\<lambda>r. \<lparr>cl_name = c_name r, cl_description = c_description r,
                    cl_documents = option_or 0 (count_in_collection (en_index E) (c_name r))\<rparr>)
                (sort_key c_name (collections (ss_content st)))))"

section \<open>Collecting search\<close>

text \<open>
  \<open>row.get::<_, i64>(0)\<close> of a column that holds a text.
\<close>

definition i64_of_text_column :: "string \<Rightarrow> int db_result" where
  "i64_of_text_column s = Inl InvalidColumnType"

text \<open>The result is \<open>None\<close> when the lookup panics on a poisoned mutex.\<close>

definition lookup_collection_id ::
  "('x, 'j) search_state \<Rightarrow> string option \<Rightarrow> int option option" where
  "lookup_collection_id st collection =
     (case collection of
        None \<Rightarrow> Some None
      | Some name \<Rightarrow>
          if ss_poisoned st then None
          else Some (case find_by c_name name (collections (ss_content st)) of
                       None \<Rightarrow> None | Some r \<Rightarrow> result_ok (i64_of_text_column (c_id r))))"

text \<open>The items of the local search; an error or a panic of the blocking task leaves none.\<close>

definition local_items ::
  "('q, 'd, 'j) search_env \<Rightarrow> ('x, 'j) search_state \<Rightarrow> string \<Rightarrow> string option \<Rightarrow> int option \<Rightarrow> int \<Rightarrow> search_result list" where
  "local_items E st query collection cid now =
     (case local_search (en_index E) (en_std E) (en_json E) (ss_poisoned st) (ss_ranking st)
             query collection cid SEARCH_LIMIT now of
        Some (Inr items) \<Rightarrow> items | _ \<Rightarrow> [])"

definition outgoing_depth :: "nat \<Rightarrow> nat" where
  "outgoing_depth depth = min (depth - 1) 255"

text \<open>Every outcome is recorded in the health table when it comes in.\<close>

definition record_outcome :: "int \<Rightarrow> peer_outcome \<Rightarrow> flt fed_db \<Rightarrow> flt fed_db" where
  "record_outcome now out db =
     fst (record_result now (po_node_peer_id out)
            (case po_result out of Inl _ \<Rightarrow> False | Inr _ \<Rightarrow> True) (Some (po_elapsed_ms out)) db)"

definition record_outcomes :: "int \<Rightarrow> peer_outcome list \<Rightarrow> flt fed_db \<Rightarrow> flt fed_db" where
  "record_outcomes now outs db = fold (record_outcome now) outs db"

fun outcome_results :: "peer_outcome list \<Rightarrow> search_result list" where
  "outcome_results [] = []"
| "outcome_results (out # outs) =
     (case po_result out of Inl _ \<Rightarrow> [] | Inr rs \<Rightarrow> rs) @ outcome_results outs"

definition peers_asked :: "('x, 'j) search_state \<Rightarrow> string option \<Rightarrow> nat \<Rightarrow> active_collection_peer list" where
  "peers_asked st collection depth =
     (if 0 < depth then active_collection_peers_for (ss_fed st) (option_or [] collection) else [])"

text \<open>The answers that count: in the order of arrival, those within the budget.\<close>

definition timely_outcomes ::
  "('q, 'd, 'j) search_env \<Rightarrow> ('x, 'j) search_state \<Rightarrow> string \<Rightarrow> string option \<Rightarrow> nat \<Rightarrow> peer_outcome list" where
  "timely_outcomes E st query collection depth =
     (let peers = peers_asked st collection depth in
      if peers = [] then []
      else take (en_in_time E)
             (dispatch (en_client E) (en_elapsed E) (en_arrival E) peers
               \<lparr>req_query = query, req_collection = collection, req_depth = depth\<rparr> (outgoing_depth depth)))"

definition collect_search ::
  "('q, 'd, 'j) search_env \<Rightarrow> int \<Rightarrow> string \<Rightarrow> string option \<Rightarrow> nat \<Rightarrow> ('x, 'j) search_state \<Rightarrow>
   (('x, 'j) search_state \<times> search_result list) option" where
  "collect_search E now query collection depth st =
     (case lookup_collection_id st collection of
        None \<Rightarrow> None
      | Some cid \<Rightarrow>
          if 0 < depth \<and> ss_poisoned st then None
          else
            (let local = local_items E st query collection cid now;
                 outs = timely_outcomes E st query collection depth in
             case sort_by_score (unordered (en_std E)) (local @ outcome_results outs) of
               None \<Rightarrow> None
             | Some results \<Rightarrow>
                 Some (st\<lparr>ss_fed := record_outcomes now outs (ss_fed st)\<rparr>, results)))"

definition run_json_search ::
  "('q, 'd, 'j) search_env \<Rightarrow> int \<Rightarrow> string \<Rightarrow> string option \<Rightarrow> nat \<Rightarrow> ('x, 'j) search_state \<Rightarrow>
   (('x, 'j) search_state \<times> search_result list) option" where
  "run_json_search E now query collection depth st =
     collect_search E now query collection (min depth MAX_FANOUT_DEPTH) st"

section \<open>The handlers\<close>

text \<open>\<open>accept\<close> is the value of the Accept header when there is one and it is visible ASCII.\<close>

definition wants_json :: "string option \<Rightarrow> bool" where
  "wants_json accept =
     (case accept of
        Some a \<Rightarrow> str_contains a ''application/json'' \<and> \<not> str_contains a ''text/event-stream''
      | None \<Rightarrow> False)"

definition search_get ::
  "('q, 'd, 'j) search_env \<Rightarrow> int \<Rightarrow> string \<Rightarrow> string option \<Rightarrow> nat \<Rightarrow> ('x, 'j) search_state \<Rightarrow>
   (('x, 'j) search_state \<times> search_result list http_result) option" where
  "search_get E now q collection depth st =
     (let query = str_trim q in
      if query = [] then Some (st, Inl (400, Msg ''query parameter `q` is required''))
      else map_option (\<lambda>(st', rs). (st', Inr rs)) (run_json_search E now query collection depth st))"

datatype search_answer = JsonAnswer "search_result list" | EventStream "sse_event list"

fun outcome_events :: "peer_outcome list \<Rightarrow> sse_event list" where
  "outcome_events [] = []"
| "outcome_events (out # outs) =
     (case po_result out of
        Inl _ \<Rightarrow> []
      | Inr rs \<Rightarrow> map ResultEvent rs @ [SourceComplete (po_source_label out)]) @ outcome_events outs"

text \<open>
  The task behind the stream. It dies on a poisoned mutex when it is about to look for peers: the stream then ends
  without \<open>done\<close>.
\<close>

definition stream_outcomes ::
  "('q, 'd, 'j) search_env \<Rightarrow> ('x, 'j) search_state \<Rightarrow> search_request \<Rightarrow> peer_outcome list" where
  "stream_outcomes E st req =
     (if 0 < req_depth req then
        dispatch (en_client E) (en_elapsed E) (en_arrival E)
          (peers_asked st (req_collection req) (req_depth req)) req (outgoing_depth (req_depth req))
      else [])"

definition search_stream ::
  "('q, 'd, 'j) search_env \<Rightarrow> int \<Rightarrow> int option \<Rightarrow> search_request \<Rightarrow> ('x, 'j) search_state \<Rightarrow>
   ('x, 'j) search_state \<times> sse_event list" where
  "search_stream E now cid req st =
     (let local = map ResultEvent (local_items E st (req_query req) (req_collection req) cid now) @
                  [SourceComplete ''local''] in
      if 0 < req_depth req \<and> ss_poisoned st then (st, local)
      else
        (let outs = stream_outcomes E st req in
         (st\<lparr>ss_fed := record_outcomes now outs (ss_fed st)\<rparr>, local @ outcome_events outs @ [DoneEvent])))"

definition search_handler ::
  "('q, 'd, 'j) search_env \<Rightarrow> int \<Rightarrow> string option \<Rightarrow> search_request \<Rightarrow> ('x, 'j) search_state \<Rightarrow>
   (('x, 'j) search_state \<times> search_answer http_result) option" where
  "search_handler E now accept req st =
     (if str_trim (req_query req) = [] then Some (st, Inl (400, Msg ''query is required''))
      else if wants_json accept then
        map_option (\<lambda>(st', rs). (st', Inr (JsonAnswer rs)))
          (run_json_search E now (str_trim (req_query req)) (req_collection req) (req_depth req) st)
      else
        (case lookup_collection_id st (req_collection req) of
           None \<Rightarrow> None
         | Some cid \<Rightarrow>
             (let (st', events) = search_stream E now cid req st in
              Some (st', Inr (EventStream events)))))"

section \<open>Ranking configurations never reach a search\<close>

lemma lookup_collection_id_None: "lookup_collection_id st collection = Some cid \<Longrightarrow> cid = None"
  by (auto simp: lookup_collection_id_def i64_of_text_column_def split: option.splits if_splits)

lemma local_search_default:
  "local_search T R J poisoned rows q c None limit now = local_search T R J poisoned [] q c None limit now"
  by (simp add: local_search_def Let_def split: option.split sum.split)

lemma local_items_ranking [simp]:
  "local_items E (st\<lparr>ss_ranking := rows\<rparr>) query collection None now = local_items E st query collection None now"
  by (simp add: local_items_def)
    (metis local_search_default [of _ _ _ _ rows] local_search_default [of _ _ _ _ "ss_ranking st"])

lemma asked_ranking [simp]:
  "lookup_collection_id (st\<lparr>ss_ranking := rows\<rparr>) collection = lookup_collection_id st collection"
  "peers_asked (st\<lparr>ss_ranking := rows\<rparr>) collection depth = peers_asked st collection depth"
  "timely_outcomes E (st\<lparr>ss_ranking := rows\<rparr>) query collection depth = timely_outcomes E st query collection depth"
  "stream_outcomes E (st\<lparr>ss_ranking := rows\<rparr>) req = stream_outcomes E st req"
  by (cases collection; simp add: lookup_collection_id_def)
    (simp_all add: peers_asked_def timely_outcomes_def stream_outcomes_def)

text \<open>C39: what an administrator saves as ranking configuration has no effect on any search. Whatever rows the ranking
  table holds, the JSON search and the event stream return the same results: the id of the collection, a text, is
  read as an integer, the read fails, and the default configuration is used.\<close>

theorem ranking_config_has_no_effect:
  "map_option snd (collect_search E now query collection depth (st\<lparr>ss_ranking := rows\<rparr>)) =
     map_option snd (collect_search E now query collection depth st) \<and>
   map_option snd (search_handler E now accept req (st\<lparr>ss_ranking := rows\<rparr>)) =
     map_option snd (search_handler E now accept req st)"
proof -
  have collect: "map_option snd (collect_search E now q c d (st\<lparr>ss_ranking := rows\<rparr>)) =
      map_option snd (collect_search E now q c d st)" for q c d
  proof (cases "lookup_collection_id st c")
    case (Some cid)
    then have "cid = None" by (rule lookup_collection_id_None)
    with Some show ?thesis by (simp add: collect_search_def Let_def split: option.split)
  qed (simp add: collect_search_def)
  have json: "map_option snd (map_option (\<lambda>(s, rs). (s, Inr (JsonAnswer rs)))
        (run_json_search E now q c d (st\<lparr>ss_ranking := rows\<rparr>))) =
      map_option snd (map_option (\<lambda>(s, rs). (s, Inr (JsonAnswer rs) :: search_answer http_result))
        (run_json_search E now q c d st))" for q c d
    using arg_cong [OF collect [of q c "min d MAX_FANOUT_DEPTH"], of "map_option (\<lambda>rs. Inr (JsonAnswer rs))"]
    by (simp add: run_json_search_def option.map_comp comp_def case_prod_unfold)
  have stream: "snd (search_stream E now None req (st\<lparr>ss_ranking := rows\<rparr>)) =
      snd (search_stream E now None req st)"
    by (simp add: search_stream_def Let_def)
  have "map_option snd (search_handler E now accept req (st\<lparr>ss_ranking := rows\<rparr>)) =
     map_option snd (search_handler E now accept req st)"
  proof (cases "str_trim (req_query req) = [] \<or> wants_json accept")
    case True
    then show ?thesis using json by (auto simp: search_handler_def)
  next
    case False
    then show ?thesis
      using stream
      by (cases "lookup_collection_id st (req_collection req)")
        (auto simp: search_handler_def Let_def case_prod_unfold dest: lookup_collection_id_None)
  qed
  with collect show ?thesis by blast
qed

section \<open>How far a search travels\<close>

text \<open>An engine that receives \<open>r\<close> sends \<open>r'\<close> to some peer.\<close>

inductive relay :: "search_request \<Rightarrow> search_request \<Rightarrow> bool" where
  forward: "0 < req_depth r \<Longrightarrow>
    (url, r') \<in> set (requests_sent peers r (outgoing_depth (req_depth r))) \<Longrightarrow> relay r r'"

inductive_cases relayE: "relay r r'"

lemma relay_depth: "relay r r' \<Longrightarrow> req_depth r' = outgoing_depth (req_depth r) \<and> 0 < req_depth r \<and> req_query r' = req_query r"
  by (erule relayE) (auto simp: requests_sent_def outgoing_request_def)

lemma outgoing_depth_less: "0 < d \<Longrightarrow> outgoing_depth d < d"
  by (simp add: outgoing_depth_def)

lemma relay_pow_depth: "(relay ^^ n) r r' \<Longrightarrow> n + req_depth r' \<le> req_depth r \<and> (0 < n \<longrightarrow> n + req_depth r' \<le> 256)"
proof (induction n arbitrary: r')
  case (Suc n)
  then obtain q where q: "(relay ^^ n) r q" "relay q r'" by auto
  from relay_depth [OF q(2)] have d: "0 < req_depth q" "req_depth r' = outgoing_depth (req_depth q)" by auto
  then have "req_depth r' < req_depth q" "req_depth r' \<le> 255"
    by (simp_all add: outgoing_depth_less) (simp add: outgoing_depth_def)
  with Suc.IH [OF q(1)] show ?case by (cases n) auto
qed simp


definition sample_request :: "nat \<Rightarrow> search_request" where
  "sample_request d = \<lparr>req_query = ''q'', req_collection = Some ''rust'', req_depth = d\<rparr>"


section \<open>The event stream\<close>

definition arrival_ok :: "('q, 'd, 'j) search_env \<Rightarrow> bool" where
  "arrival_ok E \<longleftrightarrow> (\<forall>ps. mset (en_arrival E ps) = mset ps)"

definition event_results :: "sse_event list \<Rightarrow> search_result list" where
  "event_results evs = List.map_filter (\<lambda>ev. case ev of ResultEvent r \<Rightarrow> Some r | _ \<Rightarrow> None) evs"

lemma event_results_simps [simp]:
  "event_results [] = []"
  "event_results (ResultEvent r # evs) = r # event_results evs"
  "event_results (SourceComplete s # evs) = event_results evs"
  "event_results (DoneEvent # evs) = event_results evs"
  by (simp_all add: event_results_def List.map_filter_simps)

lemma event_results_append [simp]: "event_results (a @ b) = event_results a @ event_results b"
  by (simp add: event_results_def List.map_filter_def)

lemma event_results_map [simp]: "event_results (map ResultEvent rs) = rs"
  by (induction rs) simp_all

lemma set_event_results: "r \<in> set (event_results evs) \<longleftrightarrow> ResultEvent r \<in> set evs"
proof (induction evs)
  case (Cons ev evs)
  then show ?case by (cases ev) auto
qed simp

lemma event_results_outcomes [simp]: "event_results (outcome_events outs) = outcome_results outs"
  by (induction outs) (auto split: sum.splits)

lemma done_not_in_outcomes [simp]: "DoneEvent \<notin> set (outcome_events outs)"
  by (induction outs) (auto split: sum.splits)

lemma length_local_search:
  "local_search T R J p rows q c cid limit now = Some (Inr items) \<Longrightarrow> length items \<le> limit"
  by (auto simp: local_search_def Let_def split: option.splits sum.splits if_splits)

lemma length_local_items: "length (local_items E st q c cid now) \<le> SEARCH_LIMIT"
proof (cases "local_search (en_index E) (en_std E) (en_json E) (ss_poisoned st) (ss_ranking st) q c cid SEARCH_LIMIT now")
  case (Some res)
  then show ?thesis
    by (cases res) (auto simp: local_items_def dest: length_local_search)
qed (simp add: local_items_def)

lemma handler_stream:
  assumes "search_handler E now accept req st = Some (st', Inr (EventStream evs))" and "\<not> ss_poisoned st"
  shows "lookup_collection_id st (req_collection req) = Some None"
    and "evs = map ResultEvent (local_items E st (req_query req) (req_collection req) None now) @
      SourceComplete ''local'' # outcome_events (stream_outcomes E st req) @ [DoneEvent]"
    and "st' = st\<lparr>ss_fed := record_outcomes now (stream_outcomes E st req) (ss_fed st)\<rparr>"
  using assms lookup_collection_id_None [of st "req_collection req"]
  by (auto simp: search_handler_def search_stream_def Let_def split: if_splits option.splits)

text \<open>The event stream has the shape the protocol promises. Up to 25 results of the engine itself come first,
  closed by \<open>source_complete\<close> of \<open>local\<close>; then, for each peer that answered and in the order of arrival, its
  results and its \<open>source_complete\<close>, peers that failed leaving no trace; \<open>done\<close> is the last event and occurs once. A
  request of depth 0 asks nobody; otherwise exactly the active peers of the collection are asked. Only the health
  records of the peers change.\<close>

theorem search_stream_shape:
  assumes "search_handler E now accept req st = Some (st', Inr (EventStream evs))"
    and "\<not> ss_poisoned st" and "arrival_ok E"
  shows "\<exists>items outs. length items \<le> 25 \<and>
    evs = map ResultEvent items @ SourceComplete ''local'' # outcome_events outs @ [DoneEvent] \<and>
    DoneEvent \<notin> set (butlast evs) \<and> (req_depth req = 0 \<longrightarrow> outs = []) \<and>
    mset outs = mset (map (ask_peer (en_client E) (en_elapsed E) req (outgoing_depth (req_depth req)))
      (peers_asked st (req_collection req) (req_depth req))) \<and>
    st' = st\<lparr>ss_fed := record_outcomes now outs (ss_fed st)\<rparr>"
proof -
  let ?items = "local_items E st (req_query req) (req_collection req) None now"
  let ?outs = "stream_outcomes E st req"
  note H = handler_stream [OF assms(1,2)]
  have "mset ?outs = mset (map (ask_peer (en_client E) (en_elapsed E) req (outgoing_depth (req_depth req)))
      (peers_asked st (req_collection req) (req_depth req)))"
    using assms(3) by (simp add: stream_outcomes_def dispatch_def arrival_ok_def peers_asked_def)
  moreover have "DoneEvent \<notin> set (butlast evs)" by (auto simp: H(2) butlast_append)
  moreover have "length ?items \<le> 25" using length_local_items [of E st] by (simp add: SEARCH_LIMIT_def)
  ultimately show ?thesis
    using H by (intro exI [where x = ?items] exI [where x = ?outs]) (auto simp: stream_outcomes_def)
qed

section \<open>Reading the stream of another engine\<close>

text \<open>
  An event as it is sent: \<open>event(name)\<close> and \<open>data(json)\<close>; \<open>text\<close> is the JSON writer.
\<close>

definition to_wire :: "(sse_event \<Rightarrow> string) \<Rightarrow> sse_event \<Rightarrow> stream_item" where
  "to_wire data_json ev = StreamEvent (event_name ev) (data_json ev)"

lemma read_events_wire:
  assumes "\<And>r. ResultEvent r \<in> set evs \<Longrightarrow> parse (data_json (ResultEvent r)) = Some r"
  shows "read_events parse (map (to_wire data_json) evs) out = Inr (out @ event_results evs)"
  using assms
proof (induction evs arbitrary: out)
  case (Cons ev evs)
  then show ?case by (cases ev) (auto simp: to_wire_def)
qed simp

text \<open>C27: engines of this version understand each other. What the client of one engine makes of the event stream another
  one answers with is exactly the list of results that were streamed, the local ones first and then those of its
  peers, in order; the events that are no results are skipped. (The JSON reader must read back the results that
  were written.)\<close>

theorem peer_client_reads_search_stream:
  assumes "search_handler E now accept req st = Some (st', Inr (EventStream evs))"
    and "\<not> ss_poisoned st"
    and "\<forall>r. ResultEvent r \<in> set evs \<longrightarrow> parse (data_json (ResultEvent r)) = Some r"
    and "\<forall>target. post target req = Answer 200 (map (to_wire data_json) evs)"
  shows "peer_search parse post url req =
    Inr (local_items E st (req_query req) (req_collection req) None now @ outcome_results (stream_outcomes E st req))"
proof -
  have "read_events parse (map (to_wire data_json) evs) [] = Inr (event_results evs)"
    using read_events_wire [of evs parse data_json "[]"] assms(3) by simp
  then show ?thesis
    using assms(4) handler_stream(2) [OF assms(1,2)] by (simp add: peer_search_def is_success_def)
qed

section \<open>The collected search\<close>

lemma sort_by_score_ok:
  assumes "\<forall>r \<in> set rs. sr_score r \<noteq> NaN"
  obtains ss where "sort_by_score f rs = Some ss" "mset ss = mset rs" "ranked ss"
proof -
  obtain ss where ss: "sort_by_score f rs = Some ss"
    using assms by (auto simp: sort_by_score_def list_ex_iff)
  with sort_by_score_ranked(1,2) [of rs f ss] assms show thesis by (intro that) blast+
qed

text \<open>C21: the JSON search merges without losing anything. Unless a score is NaN, the answer holds exactly the local
  results and the weighed results of the peers that answered in time, in one list ordered by descending score; slow
  or failing peers take nothing away, and with a budget that lets everyone answer every active peer is heard. The state
  changes only in the health records.\<close>

theorem collect_search_merges:
  assumes "\<not> ss_poisoned st" and "arrival_ok E"
    and "\<forall>r \<in> set (local_items E st query collection None now @
      outcome_results (timely_outcomes E st query collection depth)). sr_score r \<noteq> NaN"
  shows "\<exists>rs. collect_search E now query collection depth st =
      Some (st\<lparr>ss_fed := record_outcomes now (timely_outcomes E st query collection depth) (ss_fed st)\<rparr>, rs) \<and>
    ranked rs \<and>
    mset rs = mset (local_items E st query collection None now) +
      mset (outcome_results (timely_outcomes E st query collection depth)) \<and>
    (length (peers_asked st collection depth) \<le> en_in_time E \<longrightarrow>
      mset (timely_outcomes E st query collection depth) =
      mset (map (ask_peer (en_client E) (en_elapsed E)
          \<lparr>req_query = query, req_collection = collection, req_depth = depth\<rparr> (outgoing_depth depth))
        (peers_asked st collection depth)))"
proof -
  obtain cid where cid: "lookup_collection_id st collection = Some cid"
    using assms(1) by (cases collection) (auto simp: lookup_collection_id_def)
  then have "cid = None" by (rule lookup_collection_id_None)
  obtain rs where rs:
    "sort_by_score (unordered (en_std E)) (local_items E st query collection None now @
       outcome_results (timely_outcomes E st query collection depth)) = Some rs"
    "mset rs = mset (local_items E st query collection None now @
       outcome_results (timely_outcomes E st query collection depth))" "ranked rs"
    by (rule sort_by_score_ok [OF assms(3)])
  have len: "length (en_arrival E ps) = length ps" for ps
    using assms(2) unfolding arrival_ok_def by (metis size_mset)
  show ?thesis
    using cid \<open>cid = None\<close> rs assms(1,2) len
    by (intro exI [where x = rs])
      (auto simp: collect_search_def timely_outcomes_def Let_def dispatch_def arrival_ok_def)
qed

section \<open>A small engine\<close>

text \<open>A writer and a reader for finitely many values.\<close>

lemma finite_codec: "\<exists>(enc :: 'a \<Rightarrow> string) dec. \<forall>x \<in> set xs. dec (enc x) = Some x"
proof -
  let ?enc = "\<lambda>x. replicate (LEAST i. i < length xs \<and> xs ! i = x) CHR ''x''"
  have "length (?enc x) < length xs \<and> xs ! length (?enc x) = x" if "x \<in> set xs" for x
    using that LeastI_ex [of "\<lambda>i. i < length xs \<and> xs ! i = x"] by (auto simp: in_set_conv_nth)
  then show ?thesis
    by (intro exI [where x = ?enc] exI [where x = "\<lambda>t. Some (xs ! length t)"]) auto
qed

definition sample_result :: search_result where
  "sample_result =
     \<lparr>sr_title = ''t'', sr_url = ''https://c.example/'', sr_snippet_html = [], sr_source = ''local'',
      sr_timestamp = 0, sr_score = Fin 1\<rparr>"

definition sample_env :: "(string \<times> string option, bool, nat) search_env" where
  "sample_env =
     \<lparr>en_index = sample_index, en_std = sample_std, en_json = sample_search_json,
      en_client = (\<lambda>_ _. Inr [sample_result]), en_elapsed = (\<lambda>_. 5), en_arrival = (\<lambda>ps. ps), en_in_time = 9\<rparr>"

definition sample_state :: "(nat, nat) search_state" where
  "sample_state =
     \<lparr>ss_content = \<lparr>collections = [], targets = [], pages = [], outlinks = []\<rparr>, ss_ranking = [],
      ss_fed = sample_flt_fed, ss_poisoned = False\<rparr>"

lemma sample_state_simps [simp]: "\<not> ss_poisoned sample_state" "ss_fed sample_state = sample_flt_fed"
  by (simp_all add: sample_state_def)

lemma sample_arrival [simp]: "arrival_ok sample_env"
  by (simp add: arrival_ok_def sample_env_def)

lemma sample_handler:
  "\<exists>st' evs. search_handler sample_env 0 None (sample_request d) sample_state = Some (st', Inr (EventStream evs))"
proof -
  have "str_trim ''q'' = ''q''" by (rule str_trim_graphic) (simp_all add: ascii_graphic_def)
  then show ?thesis
    by (simp add: search_handler_def sample_request_def wants_json_def lookup_collection_id_def sample_state_def
        case_prod_unfold Let_def)
qed

theorem search_stream_shape_witness:
  "\<exists>st' evs. search_handler sample_env 0 None (sample_request 1) sample_state = Some (st', Inr (EventStream evs)) \<and>
    DoneEvent \<notin> set (butlast evs) \<and> SourceComplete ''local'' \<in> set evs"
proof -
  obtain st' evs where h:
    "search_handler sample_env 0 None (sample_request 1) sample_state = Some (st', Inr (EventStream evs))"
    using sample_handler by blast
  from search_stream_shape [OF h] show ?thesis using h by fastforce
qed

theorem peer_client_reads_search_stream_witness:
  "\<exists>st' evs parse data_json. search_handler sample_env 0 None (sample_request 1) sample_state =
      Some (st', Inr (EventStream evs)) \<and>
    peer_search parse (\<lambda>_ _. Answer 200 (map (to_wire data_json) evs)) ''http://p'' (sample_request 1) =
      Inr (local_items sample_env sample_state ''q'' (Some ''rust'') None 0 @
        outcome_results (stream_outcomes sample_env sample_state (sample_request 1)))"
proof -
  obtain st' evs where h:
    "search_handler sample_env 0 None (sample_request 1) sample_state = Some (st', Inr (EventStream evs))"
    using sample_handler by blast
  obtain enc :: "search_result \<Rightarrow> string" and dec where cod: "\<And>r. r \<in> set (event_results evs) \<Longrightarrow> dec (enc r) = Some r"
    using finite_codec [of "event_results evs"] by blast
  let ?data = "\<lambda>ev. case ev of ResultEvent r \<Rightarrow> enc r | _ \<Rightarrow> []"
  have "\<forall>r. ResultEvent r \<in> set evs \<longrightarrow> dec (?data (ResultEvent r)) = Some r"
    using cod by (simp add: set_event_results)
  from peer_client_reads_search_stream [OF h _ this, of "\<lambda>_ _. Answer 200 (map (to_wire ?data) evs)" "''http://p''"] h
  show ?thesis by (auto simp: sample_request_def)
qed

theorem collect_search_merges_witness:
  "\<exists>rs. map_option snd (collect_search (sample_env\<lparr>en_index := sample_index\<lparr>top_docs := \<lambda>_ _. Some []\<rparr>\<rparr>) 0 ''q''
      (Some ''rust'') 1 sample_state) = Some rs \<and> ranked rs \<and> size (mset rs) = 1"
proof -
  let ?E = "sample_env\<lparr>en_index := sample_index\<lparr>top_docs := \<lambda>_ _. Some []\<rparr>\<rparr>"
  have loc: "local_items ?E sample_state ''q'' (Some ''rust'') None 0 = []"
    by (simp add: local_items_def local_search_def search_with_snippets_def sample_env_def sample_index_def
        sort_by_score_def Let_def SEARCH_LIMIT_def)
  have peers: "outcome_results (timely_outcomes ?E sample_state ''q'' (Some ''rust'') 1) =
      [sample_result\<lparr>sr_source := ''peer:http://p/rs'', sr_score := Fin 1\<rparr>]"
    by (simp add: timely_outcomes_def peers_asked_def dispatch_def ask_peer_def weigh_def sample_env_def
        active_collection_peers_for_def active_peer_def active_of_def get_node_peer_def List.map_filter_simps
        sample_flt_fed_def sample_fed_def sample_result_def Let_def)
  have "arrival_ok ?E" by (simp add: arrival_ok_def sample_env_def)
  from collect_search_merges [OF _ this, of sample_state "''q''" "Some ''rust''" 0 1] show ?thesis
    unfolding loc peers by auto
qed

end
