(* ===== verification/Mcp.thy ===== *)
theory Mcp
  imports Public
begin

text \<open>
  \<open>api/mcp.rs\<close>: the JSON-RPC endpoint that offers the search as a tool. JSON values are the datatype below (an object
  is the list of its members, keys once each); \<open>pretty\<close> is the JSON writer of \<open>serde_json\<close> and \<open>version\<close> the version of
  the package.
\<close>

datatype json =
    JNull | JBool bool | JInt int | JFloat flt | JStr string | JArr "json list"
  | JObj "(string \<times> json) list"

fun json_get :: "string \<Rightarrow> json \<Rightarrow> json option" where
  "json_get k (JObj ms) = map_of ms k"
| "json_get k _ = None"

fun as_str :: "json \<Rightarrow> string option" where
  "as_str (JStr s) = Some s"
| "as_str _ = None"

fun as_u64 :: "json \<Rightarrow> nat option" where
  "as_u64 (JInt i) = (if 0 \<le> i \<and> i < 2 ^ 64 then Some (nat i) else None)"
| "as_u64 _ = None"

fun is_array :: "json \<Rightarrow> bool" where
  "is_array (JArr _) = True"
| "is_array _ = False"

definition MCP_PROTOCOL_VERSION :: string where "MCP_PROTOCOL_VERSION = ''2025-06-18''"

definition rpc_result :: "json \<Rightarrow> json \<Rightarrow> json" where
  "rpc_result i res = JObj [(''jsonrpc'', JStr ''2.0''), (''id'', i), (''result'', res)]"

definition rpc_error :: "json \<Rightarrow> int \<Rightarrow> string \<Rightarrow> json" where
  "rpc_error i code msg =
     JObj [(''jsonrpc'', JStr ''2.0''), (''id'', i),
       (''error'', JObj [(''code'', JInt code), (''message'', JStr msg)])]"

definition initialize_result :: "string \<Rightarrow> json" where
  "initialize_result version = JObj
     [(''protocolVersion'', JStr MCP_PROTOCOL_VERSION),
      (''capabilities'', JObj [(''tools'', JObj [(''listChanged'', JBool False)])]),
      (''serverInfo'', JObj [(''name'', JStr ''community-search''), (''version'', JStr version)]),
      (''instructions'', JStr (''Use the `search` tool to query this Community Search engine'' @ [char_of (39::nat)] @
         ''s curated, federated index.''))]"

definition tools_list :: json where
  "tools_list = JObj
     [(''tools'', JArr [JObj
        [(''name'', JStr ''search''),
         (''title'', JStr ''Search''),
         (''description'', JStr (''Full-text search over this Community Search engine'' @ [char_of (39::nat)] @
            ''s curated index. Returns ranked results, each with title, url, snippet (HTML with <mark> highlights), source, and score.'')),
         (''inputSchema'', JObj
            [(''type'', JStr ''object''),
             (''properties'', JObj
                [(''query'', JObj [(''type'', JStr ''string''), (''description'', JStr ''The search query.'')]),
                 (''collection'', JObj [(''type'', JStr ''string''),
                    (''description'', JStr ''Optional collection name to scope the search.'')]),
                 (''depth'', JObj [(''type'', JStr ''integer''), (''minimum'', JInt 0),
                    (''maximum'', JInt (int MAX_FANOUT_DEPTH)), (''default'', JInt 0),
                    (''description'', JStr ''Federation fan-out depth. 0 = this engine only; 1-2 = also query federated peers (slower).'')])]),
             (''required'', JArr [JStr ''query''])])]])]"

text \<open>The JSON of a result; a score that is no number is written as null.\<close>

definition result_json :: "search_result \<Rightarrow> json" where
  "result_json r = JObj
     [(''title'', JStr (sr_title r)), (''url'', JStr (sr_url r)), (''snippet_html'', JStr (sr_snippet_html r)),
      (''source'', JStr (sr_source r)), (''timestamp'', JInt (sr_timestamp r)),
      (''score'', case sr_score r of Fin x \<Rightarrow> JFloat (Fin x) | _ \<Rightarrow> JNull)]"

datatype mcp_response = Accepted | JsonBody json

definition tools_call ::
  "(json \<Rightarrow> string) \<Rightarrow> ('q, 'd, 'j) search_env \<Rightarrow> int \<Rightarrow> json \<Rightarrow> json option \<Rightarrow> ('x, 'j) search_state \<Rightarrow>
   (('x, 'j) search_state \<times> mcp_response) option" where
  "tools_call pretty E now i params st =
     (let name = Option.bind (Option.bind params (json_get ''name'')) as_str in
      if name \<noteq> Some ''search''
      then Some (st, JsonBody (rpc_error i (- 32602) (''unknown tool: '' @ option_or ''<none>'' name)))
      else
        (let args = Option.bind params (json_get ''arguments'');
             query = str_trim (option_or [] (Option.bind (Option.bind args (json_get ''query'')) as_str)) in
         if query = [] then Some (st, JsonBody (rpc_error i (- 32602) ''missing required argument: `query`''))
         else
           (let collection =
                  (case Option.bind (Option.bind args (json_get ''collection'')) as_str of
                     Some s \<Rightarrow> if s = [] then None else Some s | None \<Rightarrow> None);
                depth = min (option_or 0 (Option.bind (Option.bind args (json_get ''depth'')) as_u64)) MAX_FANOUT_DEPTH in
            map_option
              (\<lambda>(st', results).
                 (let structured = JObj [(''results'', JArr (map result_json results)),
                        (''count'', JInt (int (length results)))] in
                  (st', JsonBody (rpc_result i (JObj
                     [(''content'', JArr [JObj [(''type'', JStr ''text''), (''text'', JStr (pretty structured))]]),
                      (''structuredContent'', structured),
                      (''isError'', JBool False)])))))
              (collect_search E now query collection depth st))))"

definition mcp_handler ::
  "string \<Rightarrow> (json \<Rightarrow> string) \<Rightarrow> ('q, 'd, 'j) search_env \<Rightarrow> int \<Rightarrow> json \<Rightarrow> ('x, 'j) search_state \<Rightarrow>
   (('x, 'j) search_state \<times> mcp_response) option" where
  "mcp_handler version pretty E now req st =
     (if is_array req
      then Some (st, JsonBody (rpc_error JNull (- 32600) ''batch requests are not supported''))
      else
        (let i = option_or JNull (json_get ''id'' req);
             m = option_or [] (Option.bind (json_get ''method'' req) as_str) in
         if m = ''initialize'' then Some (st, JsonBody (rpc_result i (initialize_result version)))
         else if starts_with ''notifications/'' m then Some (st, Accepted)
         else if m = ''ping'' then Some (st, JsonBody (rpc_result i (JObj [])))
         else if m = ''tools/list'' then Some (st, JsonBody (rpc_result i tools_list))
         else if m = ''tools/call'' then tools_call pretty E now i (json_get ''params'' req) st
         else if m = [] then Some (st, JsonBody (rpc_error i (- 32600) ''missing `method`''))
         else Some (st, JsonBody (rpc_error i (- 32601) (''method not found: '' @ m)))))"

section \<open>Facts\<close>

lemma json_get_rpc [simp]:
  "json_get ''id'' (rpc_result i res) = Some i"
  "json_get ''result'' (rpc_result i res) = Some res"
  "json_get ''error'' (rpc_result i res) = None"
  "json_get ''id'' (rpc_error i code msg) = Some i"
  "json_get ''result'' (rpc_error i code msg) = None"
  "json_get ''error'' (rpc_error i code msg) = Some (JObj [(''code'', JInt code), (''message'', JStr msg)])"
  by (simp_all add: rpc_result_def rpc_error_def)

text \<open>What an answer has to look like for a request with id \<open>i\<close>: its id, and a result or an error but not both.\<close>

definition well_formed_answer :: "json \<Rightarrow> json \<Rightarrow> bool" where
  "well_formed_answer i body \<longleftrightarrow>
     json_get ''id'' body = Some i \<and> (json_get ''result'' body = None) \<noteq> (json_get ''error'' body = None)"

lemma well_formed_rpc [simp]:
  "well_formed_answer i (rpc_result i res)" "well_formed_answer i (rpc_error i code msg)"
  by (simp_all add: well_formed_answer_def)

lemma tools_call_answer:
  assumes "tools_call pretty E now i params st = Some (st', resp)"
  obtains body where "resp = JsonBody body" "well_formed_answer i body"
  using assms by (fastforce simp: tools_call_def Let_def split: if_splits)

text \<open>The endpoint speaks JSON-RPC. Whatever JSON value is posted, an answer with a body carries the id of the
  request (null when there is none, and for a batch) and either a result or an error, never both; only
  notifications are answered without a body, and they change nothing.\<close>

theorem mcp_answers_well_formed:
  assumes "mcp_handler version pretty E now req st = Some (st', resp)"
  shows "case resp of
      Accepted \<Rightarrow> st' = st \<and> (\<exists>m. json_get ''method'' req = Some (JStr m) \<and> starts_with ''notifications/'' m)
    | JsonBody body \<Rightarrow> well_formed_answer (if is_array req then JNull else option_or JNull (json_get ''id'' req)) body"
proof (cases "is_array req")
  case True
  then show ?thesis using assms by (auto simp: mcp_handler_def)
next
  case False
  define m where "m = option_or [] (Option.bind (json_get ''method'' req) as_str)"
  show ?thesis
  proof (cases "m = ''tools/call''")
    case True
    then have "tools_call pretty E now (option_or JNull (json_get ''id'' req)) (json_get ''params'' req) st =
        Some (st', resp)"
      using assms False by (simp add: mcp_handler_def m_def [symmetric])
    then obtain body where "resp = JsonBody body"
        "well_formed_answer (option_or JNull (json_get ''id'' req)) body"
      by (rule tools_call_answer)
    with False show ?thesis by simp
  next
    case nocall: False
    have "json_get ''method'' req = Some (JStr m)" if "starts_with ''notifications/'' m"
    proof -
      from that have "m \<noteq> []" by auto
      then obtain v where v: "json_get ''method'' req = Some v" "as_str v = Some m"
        by (cases "json_get ''method'' req"; cases "Option.bind (json_get ''method'' req) as_str")
          (auto simp: m_def)
      then show ?thesis by (cases v) auto
    qed
    then show ?thesis
      using assms False nocall by (auto simp: mcp_handler_def m_def [symmetric] Let_def split: if_splits)
  qed
qed

text \<open>Calling the tool is searching. A call of \<open>search\<close> with a query that is not blank answers with exactly the
  results of the collected search for the trimmed query, counted right, at a depth of at most two whatever number the
  client asked for (0 when it gave none or something that is not one); an empty collection name means no
  restriction.\<close>

theorem mcp_search_call:
  assumes "json_get ''method'' req = Some (JStr ''tools/call'')"
    and "json_get ''params'' req = Some params"
    and "json_get ''name'' params = Some (JStr ''search'')"
    and "json_get ''arguments'' params = Some args"
    and "json_get ''query'' args = Some (JStr q)" and "str_trim q \<noteq> []"
    and "mcp_handler version pretty E now req st = Some (st', resp)"
  shows "\<exists>depth collection results body res structured.
    depth \<le> MAX_FANOUT_DEPTH \<and>
    (\<forall>d. json_get ''depth'' args = Some (JInt d) \<and> 0 \<le> d \<and> d \<le> 2 \<longrightarrow> depth = nat d) \<and>
    (json_get ''depth'' args = None \<longrightarrow> depth = 0) \<and>
    (\<forall>c. json_get ''collection'' args = Some (JStr c) \<longrightarrow> collection = (if c = [] then None else Some c)) \<and>
    collect_search E now (str_trim q) collection depth st = Some (st', results) \<and>
    resp = JsonBody body \<and> json_get ''result'' body = Some res \<and>
    json_get ''structuredContent'' res = Some structured \<and>
    json_get ''results'' structured = Some (JArr (map result_json results)) \<and>
    json_get ''count'' structured = Some (JInt (int (length results)))"
proof -
  let ?i = "option_or JNull (json_get ''id'' req)"
  let ?depth = "min (option_or 0 (Option.bind (json_get ''depth'' args) as_u64)) MAX_FANOUT_DEPTH"
  let ?coll = "case Option.bind (json_get ''collection'' args) as_str of
      Some s \<Rightarrow> if s = [] then None else Some s | None \<Rightarrow> None"
  have "\<not> is_array req" using assms(1) by (cases req) auto
  then have "tools_call pretty E now ?i (Some params) st = Some (st', resp)"
    using assms(1,2,7) by (simp add: mcp_handler_def starts_with_def)
  then obtain results where r:
    "collect_search E now (str_trim q) ?coll ?depth st = Some (st', results)"
    "resp = JsonBody (rpc_result ?i (JObj
       [(''content'', JArr [JObj [(''type'', JStr ''text''), (''text'', JStr (pretty (JObj
           [(''results'', JArr (map result_json results)), (''count'', JInt (int (length results)))])))]]),
        (''structuredContent'', JObj
           [(''results'', JArr (map result_json results)), (''count'', JInt (int (length results)))]),
        (''isError'', JBool False)]))"
    using assms(3-6) by (auto simp: tools_call_def Let_def)
  have "\<forall>d. json_get ''depth'' args = Some (JInt d) \<and> 0 \<le> d \<and> d \<le> 2 \<longrightarrow> ?depth = nat d"
    by (auto simp: MAX_FANOUT_DEPTH_def)
  with r show ?thesis
    by (intro exI [where x = ?depth] exI [where x = ?coll] exI [where x = results]) auto
qed

definition sample_rpc :: "string \<Rightarrow> json" where
  "sample_rpc m = JObj
     [(''id'', JInt 7), (''method'', JStr m),
      (''params'', JObj [(''name'', JStr ''search''),
         (''arguments'', JObj [(''query'', JStr ''q''), (''depth'', JInt 9)])])]"

theorem mcp_answers_well_formed_witness:
  "mcp_handler ''1'' (\<lambda>_. []) sample_env 0 (sample_rpc ''ping'') sample_state =
     Some (sample_state, JsonBody (rpc_result (JInt 7) (JObj []))) \<and>
   well_formed_answer (JInt 7) (rpc_result (JInt 7) (JObj []))"
proof -
  have h: "mcp_handler ''1'' (\<lambda>_. []) sample_env 0 (sample_rpc ''ping'') sample_state =
     Some (sample_state, JsonBody (rpc_result (JInt 7) (JObj [])))"
    by (simp add: mcp_handler_def sample_rpc_def starts_with_def)
  from mcp_answers_well_formed [OF h] h show ?thesis by (simp add: sample_rpc_def)
qed

theorem mcp_search_call_witness:
  "\<exists>st' resp results. mcp_handler ''1'' (\<lambda>_. []) (sample_env\<lparr>en_in_time := 0, en_index := sample_index\<lparr>top_docs := \<lambda>_ _. Some []\<rparr>\<rparr>) 0
      (sample_rpc ''tools/call'') sample_state = Some (st', JsonBody resp) \<and>
    json_get ''error'' resp = None \<and> results = ([] :: search_result list)"
proof -
  let ?E = "sample_env\<lparr>en_in_time := 0, en_index := sample_index\<lparr>top_docs := \<lambda>_ _. Some []\<rparr>\<rparr>"
  have trim: "str_trim ''q'' = ''q''" by (rule str_trim_graphic) (simp_all add: ascii_graphic_def)
  have loc: "local_items ?E sample_state ''q'' None None 0 = []"
    by (simp add: local_items_def local_search_def search_with_snippets_def sample_env_def sample_index_def
        sort_by_score_def Let_def SEARCH_LIMIT_def)
  have "\<exists>st' rs. collect_search ?E 0 ''q'' None d sample_state = Some (st', rs)" for d
  proof -
    have "timely_outcomes ?E sample_state ''q'' None d = []" by (simp add: timely_outcomes_def Let_def)
    then show ?thesis
      by (simp add: collect_search_def lookup_collection_id_def loc sort_by_score_def Let_def)
  qed
  then obtain st' resp where h:
    "mcp_handler ''1'' (\<lambda>_. []) ?E 0 (sample_rpc ''tools/call'') sample_state = Some (st', resp)"
    using trim by (fastforce simp: mcp_handler_def sample_rpc_def starts_with_def tools_call_def Let_def)
  obtain depth collection results body res structured where
    "resp = JsonBody body" "json_get ''result'' body = Some res"
    using mcp_search_call [OF _ _ _ _ _ _ h, of _ _ "''q''"] trim by (fastforce simp: sample_rpc_def)
  moreover have "json_get ''error'' body = None"
    using h calculation trim by (fastforce simp: mcp_handler_def sample_rpc_def starts_with_def tools_call_def Let_def)
  ultimately show ?thesis using h by blast
qed

end
