(* ===== verification/Fetch.thy ===== *)
theory Fetch
  imports Url_Class Floats Interfaces
begin

text \<open>
  \<open>crawler/error.rs\<close>, \<open>crawler/fetcher.rs\<close> and \<open>crawler/robots.rs\<close>. The web is a function: what a GET is answered with
  depends on the requests sent before (the log), the URL and the headers. The \<open>texting_robots\<close> library is the
  record \<open>robots_lib\<close> ('r is its parsed file).
\<close>

section \<open>Errors and requests\<close>

datatype crawl_error =
    HttpError
  | UrlParseError
  | RobotsDisallowed string
  | NotHtml string
  | IndexFull nat nat
  | RateLimitedError "nat option"
  | DbFailure db_error
  | TantivyError
  | IoError
  | OtherError message

type_synonym 'a crawl_result = "crawl_error + 'a"

text \<open>
  A response after redirects: status, headers (those whose value is text), final URL, and the body when it can be
  read.
\<close>

record http_response =
  rsp_status :: nat
  rsp_headers :: "(string \<times> string) list"
  rsp_url :: string
  rsp_body :: "string option"

type_synonym http_request = "string \<times> (string \<times> string) list"

type_synonym web = "http_request list \<Rightarrow> http_request \<Rightarrow> http_response option"

record web_lib =
  wl_header_ok :: "string \<Rightarrow> bool"
  wl_lowercase :: "string \<Rightarrow> string"
  wl_utf8_lossy :: "string \<Rightarrow> string"

definition http_send :: "web \<Rightarrow> http_request \<Rightarrow> http_request list \<Rightarrow> http_request list \<times> http_response option" where
  "http_send net rq sent = (sent @ [rq], net sent rq)"

definition success_status :: "nat \<Rightarrow> bool" where
  "success_status s \<longleftrightarrow> 200 \<le> s \<and> s < 300"

section \<open>The fetcher\<close>

record fetch_request =
  fr_url :: string
  fr_etag :: "string option"
  fr_last_modified :: "string option"

datatype fetch_outcome =
    Fresh nat string "string option" "string option" string
  | NotModified
  | RateLimited "nat option"
  | OtherStatus nat

text \<open>Seconds.\<close>

definition parse_retry_after :: "string \<Rightarrow> nat option" where
  "parse_retry_after v = parse_uint (2 ^ 64) (str_trim v)"

definition request_headers :: "web_lib \<Rightarrow> string \<Rightarrow> fetch_request \<Rightarrow> (string \<times> string) list crawl_result" where
  "request_headers W user_agent req =
     (if \<not> wl_header_ok W user_agent then Inl (OtherError (LibText ''header''))
      else
        (case fr_etag req of
           Some e \<Rightarrow> if \<not> wl_header_ok W e then Inl (OtherError (LibText ''header'')) else
             (case fr_last_modified req of
                Some l \<Rightarrow> if \<not> wl_header_ok W l then Inl (OtherError (LibText ''header''))
                  else Inr [(''user-agent'', user_agent), (''if-none-match'', e), (''if-modified-since'', l)]
              | None \<Rightarrow> Inr [(''user-agent'', user_agent), (''if-none-match'', e)])
         | None \<Rightarrow>
             (case fr_last_modified req of
                Some l \<Rightarrow> if \<not> wl_header_ok W l then Inl (OtherError (LibText ''header''))
                  else Inr [(''user-agent'', user_agent), (''if-modified-since'', l)]
              | None \<Rightarrow> Inr [(''user-agent'', user_agent)])))"

definition classify_response :: "web_lib \<Rightarrow> http_response \<Rightarrow> fetch_outcome crawl_result" where
  "classify_response W r =
     (if rsp_status r = 304 then Inr NotModified
      else if rsp_status r = 429 then
        Inr (RateLimited (Option.bind (map_of (rsp_headers r) ''retry-after'') parse_retry_after))
      else if \<not> success_status (rsp_status r) then Inr (OtherStatus (rsp_status r))
      else
        (let ctype = option_or [] (map_of (rsp_headers r) ''content-type'') in
         if \<not> str_contains (wl_lowercase W ctype) ''html'' then Inl (NotHtml ctype)
         else
           (case rsp_body r of
              None \<Rightarrow> Inl HttpError
            | Some body \<Rightarrow>
                Inr (Fresh (rsp_status r) body (map_of (rsp_headers r) ''etag'')
                      (map_of (rsp_headers r) ''last-modified'') (rsp_url r)))))"

definition fetch ::
  "web_lib \<Rightarrow> web \<Rightarrow> string \<Rightarrow> fetch_request \<Rightarrow> http_request list \<Rightarrow> http_request list \<times> fetch_outcome crawl_result" where
  "fetch W net user_agent req sent =
     (case request_headers W user_agent req of
        Inl e \<Rightarrow> (sent, Inl e)
      | Inr hs \<Rightarrow>
          (case http_send net (fr_url req, hs) sent of
             (sent', None) \<Rightarrow> (sent', Inl HttpError)
           | (sent', Some r) \<Rightarrow> (sent', classify_response W r)))"

definition fetch_text_raw ::
  "web_lib \<Rightarrow> web \<Rightarrow> string \<Rightarrow> string \<Rightarrow> nat \<Rightarrow> http_request list \<Rightarrow> http_request list \<times> string option crawl_result" where
  "fetch_text_raw W net user_agent u max_bytes sent =
     (if \<not> wl_header_ok W user_agent then (sent, Inl HttpError)
      else
        (case http_send net (u, [(''user-agent'', user_agent)]) sent of
           (sent', None) \<Rightarrow> (sent', Inl HttpError)
         | (sent', Some r) \<Rightarrow>
             (sent', if \<not> success_status (rsp_status r) then Inr None
                    else (case rsp_body r of
                            None \<Rightarrow> Inl HttpError
                          | Some b \<Rightarrow> Inr (Some (wl_utf8_lossy W (take max_bytes b)))))))"

section \<open>robots.txt\<close>

record 'r robots_lib =
  rb_parse :: "string \<Rightarrow> string \<Rightarrow> 'r option"
  rb_allowed :: "'r \<Rightarrow> string \<Rightarrow> bool"
  rb_delay :: "'r \<Rightarrow> flt option"
  rb_sitemaps :: "'r \<Rightarrow> string list"

text \<open>
  The cache maps an origin to its rules, \<open>None\<close> when the file was missing or unreadable.
\<close>

record 'r robots_state =
  rs_cache :: "string \<Rightarrow> 'r option option"
  rs_sent :: "http_request list"

definition origin_of :: "url_lib \<Rightarrow> string \<Rightarrow> string crawl_result" where
  "origin_of L u =
     (case parse_url L u of
        None \<Rightarrow> Inl UrlParseError
      | Some p \<Rightarrow>
          (case host p of
             None \<Rightarrow> Inl (OtherError (Msg ''URL has no host''))
           | Some h \<Rightarrow>
               Inr (scheme p @ ''://'' @ h @
                 (case url_port p of None \<Rightarrow> [] | Some n \<Rightarrow> '':'' @ show_nat n))))"

definition robots_rules ::
  "'r robots_lib \<Rightarrow> web_lib \<Rightarrow> string \<Rightarrow> http_response option \<Rightarrow> 'r option" where
  "robots_rules B W user_agent response =
     (case response of
        Some r \<Rightarrow>
          if success_status (rsp_status r)
          then (case rsp_body r of Some b \<Rightarrow> rb_parse B user_agent b | None \<Rightarrow> None)
          else None
      | None \<Rightarrow> None)"

definition ensure_cached ::
  "url_lib \<Rightarrow> 'r robots_lib \<Rightarrow> web_lib \<Rightarrow> web \<Rightarrow> string \<Rightarrow> string \<Rightarrow> 'r robots_state \<Rightarrow>
   'r robots_state \<times> string crawl_result" where
  "ensure_cached L B W net user_agent u st =
     (case origin_of L u of
        Inl e \<Rightarrow> (st, Inl e)
      | Inr origin \<Rightarrow>
          if rs_cache st origin \<noteq> None then (st, Inr origin)
          else if \<not> wl_header_ok W user_agent then
            (st\<lparr>rs_cache := (rs_cache st)(origin \<mapsto> None)\<rparr>, Inr origin)
          else
            (let rq = (origin @ ''/robots.txt'', [(''user-agent'', user_agent)]);
                 (sent', response) = http_send net rq (rs_sent st) in
             (\<lparr>rs_cache = (rs_cache st)(origin \<mapsto> robots_rules B W user_agent response), rs_sent = sent'\<rparr>,
              Inr origin)))"

definition cached_rules :: "'r robots_state \<Rightarrow> string \<Rightarrow> 'r option" where
  "cached_rules st origin = (case rs_cache st origin of Some (Some r) \<Rightarrow> Some r | _ \<Rightarrow> None)"

definition is_allowed ::
  "url_lib \<Rightarrow> 'r robots_lib \<Rightarrow> web_lib \<Rightarrow> web \<Rightarrow> string \<Rightarrow> string \<Rightarrow> 'r robots_state \<Rightarrow> 'r robots_state \<times> bool crawl_result" where
  "is_allowed L B W net user_agent u st =
     (let (st', r) = ensure_cached L B W net user_agent u st in
      (st', case r of
              Inl e \<Rightarrow> Inl e
            | Inr origin \<Rightarrow>
                Inr (case cached_rules st' origin of Some rules \<Rightarrow> rb_allowed B rules u | None \<Rightarrow> True)))"

text \<open>\<open>secs.round() as u64\<close>: half away from zero, then a saturating cast.\<close>

fun round_as_u64 :: "flt \<Rightarrow> nat" where
  "round_as_u64 (Fin x) = (if x \<le> 0 then 0 else min (nat \<lfloor>x + 1 / 2\<rfloor>) (2 ^ 64 - 1))"
| "round_as_u64 PosInf = 2 ^ 64 - 1"
| "round_as_u64 NegInf = 0"
| "round_as_u64 NaN = 0"

definition crawl_delay_for ::
  "url_lib \<Rightarrow> 'r robots_lib \<Rightarrow> web_lib \<Rightarrow> web \<Rightarrow> string \<Rightarrow> string \<Rightarrow> 'r robots_state \<Rightarrow>
   'r robots_state \<times> nat option crawl_result" where
  "crawl_delay_for L B W net user_agent u st =
     (let (st', r) = ensure_cached L B W net user_agent u st in
      (st', case r of
              Inl e \<Rightarrow> Inl e
            | Inr origin \<Rightarrow>
                Inr (case cached_rules st' origin of
                       Some rules \<Rightarrow> map_option round_as_u64 (rb_delay B rules) | None \<Rightarrow> None)))"

definition sitemaps_for ::
  "url_lib \<Rightarrow> 'r robots_lib \<Rightarrow> web_lib \<Rightarrow> web \<Rightarrow> string \<Rightarrow> string \<Rightarrow> 'r robots_state \<Rightarrow>
   'r robots_state \<times> string list crawl_result" where
  "sitemaps_for L B W net user_agent u st =
     (let (st', r) = ensure_cached L B W net user_agent u st in
      (st', case r of
              Inl e \<Rightarrow> Inl e
            | Inr origin \<Rightarrow>
                Inr (case cached_rules st' origin of Some rules \<Rightarrow> rb_sitemaps B rules | None \<Rightarrow> [])))"

section \<open>Facts\<close>

lemma http_send_simps [simp]:
  "fst (http_send net rq sent) = sent @ [rq]"
  "snd (http_send net rq sent) = net sent rq"
  by (simp_all add: http_send_def)

lemma ensure_cached_result: "snd (ensure_cached L B W net ua u st) = origin_of L u"
  by (simp add: ensure_cached_def http_send_def Let_def split: sum.splits)

text \<open>
  One call of the three queries, as an event of a machine: it may send one request, for the robots.txt of an origin
  that is not cached.
\<close>

datatype robots_query = AskAllowed string | AskDelay string | AskSitemaps string

fun query_url :: "robots_query \<Rightarrow> string" where
  "query_url (AskAllowed u) = u"
| "query_url (AskDelay u) = u"
| "query_url (AskSitemaps u) = u"

datatype robots_answer =
    AllowedAnswer "bool crawl_result" | DelayAnswer "nat option crawl_result"
  | SitemapsAnswer "string list crawl_result"

fun robots_step ::
  "url_lib \<Rightarrow> 'r robots_lib \<Rightarrow> web_lib \<Rightarrow> web \<Rightarrow> string \<Rightarrow> 'r robots_state \<Rightarrow> robots_query \<Rightarrow>
   ('r robots_state \<times> robots_answer) option" where
  "robots_step L B W net ua st (AskAllowed u) =
     (let (st', r) = is_allowed L B W net ua u st in Some (st', AllowedAnswer r))"
| "robots_step L B W net ua st (AskDelay u) =
     (let (st', r) = crawl_delay_for L B W net ua u st in Some (st', DelayAnswer r))"
| "robots_step L B W net ua st (AskSitemaps u) =
     (let (st', r) = sitemaps_for L B W net ua u st in Some (st', SitemapsAnswer r))"

lemma robots_step_state:
  "robots_step L B W net ua st e = Some (st', out) \<Longrightarrow> st' = fst (ensure_cached L B W net ua (query_url e) st)"
  by (cases e) (auto simp: is_allowed_def crawl_delay_for_def sitemaps_for_def Let_def case_prod_unfold)

text \<open>The requests sent so far are the robots.txt files of distinct cached origins.\<close>

definition robots_inv :: "'r robots_state \<Rightarrow> bool" where
  "robots_inv st \<longleftrightarrow>
     distinct (map fst (rs_sent st)) \<and>
     fst ` set (rs_sent st) \<subseteq> (\<lambda>origin. origin @ ''/robots.txt'') ` dom (rs_cache st)"

lemma ensure_cached_inv: "robots_inv st \<Longrightarrow> robots_inv (fst (ensure_cached L B W net ua u st))"
proof -
  assume inv: "robots_inv st"
  show ?thesis
  proof (cases "origin_of L u")
    case (Inr origin)
    show ?thesis
    proof (cases "rs_cache st origin \<noteq> None \<or> \<not> wl_header_ok W ua")
      case True
      then show ?thesis using inv Inr
        by (auto simp: ensure_cached_def robots_inv_def)
    next
      case False
      then have "origin @ ''/robots.txt'' \<notin> fst ` set (rs_sent st)"
        using inv by (auto simp: robots_inv_def)
      then show ?thesis using inv Inr False
        by (auto simp: ensure_cached_def robots_inv_def http_send_def Let_def)
    qed
  qed (simp add: ensure_cached_def inv)
qed

text \<open>What is cached stays, with the rules it has.\<close>

lemma ensure_cached_keeps:
  "rs_cache st origin = Some rules \<Longrightarrow> rs_cache (fst (ensure_cached L B W net ua u st)) origin = Some rules"
  by (auto simp: ensure_cached_def http_send_def Let_def split: sum.splits)

lemma ensure_cached_caches:
  "origin_of L u = Inr origin \<Longrightarrow> rs_cache (fst (ensure_cached L B W net ua u st)) origin \<noteq> None"
  by (auto simp: ensure_cached_def http_send_def Let_def)

interpretation robots: state_machine "robots_step L B W net ua" robots_inv "\<lambda>_. True"
proof
  show "robots_step L B W net ua st e \<noteq> None" for st :: "'a robots_state" and e
    by (cases e) (simp_all add: case_prod_unfold Let_def)
  show "robots_inv st'" if "robots_inv st" "robots_step L B W net ua st e = Some (st', out)"
    for st :: "'a robots_state" and e st' out
    using ensure_cached_inv [OF that(1)] robots_step_state [OF that(2)] by simp
qed

lemma run_keeps_rules:
  assumes "run_steps (robots_step L B W net ua) st qs = Some (st', outs)" and "rs_cache st origin = Some rules"
  shows "rs_cache st' origin = Some rules"
  using assms
proof (induction qs arbitrary: st outs)
  case (Cons q qs)
  from Cons.prems(1) obtain s1 out outs1 where
    1: "robots_step L B W net ua st q = Some (s1, out)"
      "run_steps (robots_step L B W net ua) s1 qs = Some (st', outs1)"
    by (auto split: option.splits prod.splits)
  have "rs_cache s1 origin = Some rules"
    using robots_step_state [OF 1(1)] ensure_cached_keeps [OF Cons.prems(2)] by simp
  with Cons.IH [OF 1(2)] show ?case by simp
qed simp

lemma allowed_answer_final:
  assumes "robots_step L B W net ua st (AskAllowed u) = Some (s1, out)"
    and "run_steps (robots_step L B W net ua) s1 qs = Some (st', outs)"
    and "origin_of L u = Inr origin"
  shows "out = AllowedAnswer (Inr (case cached_rules st' origin of
    Some rules \<Rightarrow> rb_allowed B rules u | None \<Rightarrow> True))"
proof -
  have s1: "s1 = fst (ensure_cached L B W net ua u st)" using robots_step_state [OF assms(1)] by simp
  then obtain rules where "rs_cache s1 origin = Some rules"
    using ensure_cached_caches [OF assms(3)] by blast
  with run_keeps_rules [OF assms(2)] have "cached_rules st' origin = cached_rules s1 origin"
    by (simp add: cached_rules_def)
  moreover have "out = AllowedAnswer (Inr (case cached_rules s1 origin of
      Some rules \<Rightarrow> rb_allowed B rules u | None \<Rightarrow> True))"
    using assms(1) ensure_cached_result [of L B W net ua u st] assms(3)
    by (auto simp: is_allowed_def Let_def case_prod_unfold)
  ultimately show ?thesis by simp
qed

lemma run_answers:
  assumes "run_steps (robots_step L B W net ua) st qs = Some (st', outs)"
    and "i < length qs" and "qs ! i = AskAllowed u" and "origin_of L u = Inr origin"
  shows "outs ! i = AllowedAnswer (Inr (case cached_rules st' origin of
    Some rules \<Rightarrow> rb_allowed B rules u | None \<Rightarrow> True))"
  using assms
proof (induction qs arbitrary: st outs i)
  case (Cons q qs)
  from Cons.prems(1) obtain s1 out outs1 where
    1: "robots_step L B W net ua st q = Some (s1, out)"
      "run_steps (robots_step L B W net ua) s1 qs = Some (st', outs1)" "outs = out # outs1"
    by (auto split: option.splits prod.splits)
  show ?case
  proof (cases i)
    case 0
    with Cons.prems(3) have "q = AskAllowed u" by simp
    with 1 0 allowed_answer_final [of L B W net ua st u s1 out qs st' outs1 origin] Cons.prems(4)
    show ?thesis by simp
  next
    case (Suc j)
    with Cons.IH [OF 1(2), of j] Cons.prems 1(3) show ?thesis by simp
  qed
qed simp

definition no_robots :: "'r robots_state" where
  "no_robots = \<lparr>rs_cache = (\<lambda>_. None), rs_sent = []\<rparr>"


text \<open>A robots.txt library that forbids everything, and a web that has one file.\<close>

definition closed_robots :: "unit robots_lib" where
  "closed_robots =
     \<lparr>rb_parse = (\<lambda>_ _. Some ()), rb_allowed = (\<lambda>_ _. False), rb_delay = (\<lambda>_. None), rb_sitemaps = (\<lambda>_. [])\<rparr>"

definition plain_web :: web_lib where
  "plain_web = \<lparr>wl_header_ok = (\<lambda>_. True), wl_lowercase = to_ascii_lowercase, wl_utf8_lossy = (\<lambda>b. b)\<rparr>"

definition one_file :: web where
  "one_file = (\<lambda>_ rq. Some \<lparr>rsp_status = 200, rsp_headers = [], rsp_url = fst rq, rsp_body = Some ''x''\<rparr>)"


section \<open>Conditional requests\<close>

text \<open>The fetcher reports what the server said. A request carries the cache validators it was given and is sent once
  (not at all when a header value is not valid); a 304 is \<open>NotModified\<close>, a 429 carries the seconds of an integer
  Retry-After and nothing otherwise, another status outside 200 to 299 is reported as it is, and a body is returned only
  for a success whose content type names HTML.\<close>

theorem fetch_reports_response:
  assumes "fetch W net ua req sent = (sent', r)"
  shows "(sent' = sent \<or> (\<exists>hs. sent' = sent @ [(fr_url req, hs)] \<and> map_of hs ''if-none-match'' = fr_etag req \<and>
      map_of hs ''if-modified-since'' = fr_last_modified req \<and>
      (case net sent (fr_url req, hs) of
         None \<Rightarrow> r = Inl HttpError
       | Some rsp \<Rightarrow>
           (rsp_status rsp = 304 \<longrightarrow> r = Inr NotModified) \<and>
           (rsp_status rsp = 429 \<longrightarrow> (\<exists>after. r = Inr (RateLimited after) \<and>
              (\<forall>secs. after = Some secs \<longrightarrow> secs < 2 ^ 64 \<and> (\<exists>v. map_of (rsp_headers rsp) ''retry-after'' = Some v \<and>
                 parse_retry_after v = Some secs)))) \<and>
           (\<not> success_status (rsp_status rsp) \<and> rsp_status rsp \<noteq> 304 \<and> rsp_status rsp \<noteq> 429 \<longrightarrow>
              r = Inr (OtherStatus (rsp_status rsp))) \<and>
           (\<forall>s b e l u. r = Inr (Fresh s b e l u) \<longrightarrow> success_status s \<and> s = rsp_status rsp \<and>
              rsp_body rsp = Some b \<and> u = rsp_url rsp \<and>
              str_contains (wl_lowercase W (option_or [] (map_of (rsp_headers rsp) ''content-type''))) ''html''))))"
proof (cases "request_headers W ua req")
  case (Inl e)
  then show ?thesis using assms by (simp add: fetch_def)
next
  case (Inr hs)
  have hs: "map_of hs ''if-none-match'' = fr_etag req" "map_of hs ''if-modified-since'' = fr_last_modified req"
    using Inr by (auto simp: request_headers_def split: if_splits option.splits)
  show ?thesis
  proof (cases "net sent (fr_url req, hs)")
    case None
    with Inr assms hs show ?thesis by (auto simp: fetch_def http_send_def)
  next
    case (Some rsp)
    with Inr assms have r: "sent' = sent @ [(fr_url req, hs)]" "r = classify_response W rsp"
      by (simp_all add: fetch_def http_send_def)
    have after: "secs < 2 ^ 64" if "parse_retry_after v = Some secs" for v secs
      using that parse_uint_less [of "2 ^ 64" "str_trim v" secs] by (simp add: parse_retry_after_def)
    show ?thesis
      by (rule disjI2, rule exI [where x = hs])
        (use Some r hs after in \<open>auto simp: classify_response_def success_status_def Let_def bind_eq_Some_conv
          split: if_splits option.splits\<close>)
  qed
qed

theorem fetch_reports_response_witness:
  "\<exists>sent' r. fetch \<lparr>wl_header_ok = (\<lambda>_. True), wl_lowercase = to_ascii_lowercase, wl_utf8_lossy = (\<lambda>b. b)\<rparr>
      (\<lambda>_ _. Some \<lparr>rsp_status = 304, rsp_headers = [], rsp_url = ''u'', rsp_body = None\<rparr>) ''ua''
      \<lparr>fr_url = ''u'', fr_etag = Some ''e'', fr_last_modified = None\<rparr> [] = (sent', r) \<and> r = Inr NotModified"
proof -
  let ?net = "\<lambda>_ _. Some \<lparr>rsp_status = 304, rsp_headers = [], rsp_url = ''u'', rsp_body = None\<rparr>"
  let ?W = "\<lparr>wl_header_ok = (\<lambda>_. True), wl_lowercase = to_ascii_lowercase, wl_utf8_lossy = (\<lambda>b. b)\<rparr>"
  let ?req = "\<lparr>fr_url = ''u'', fr_etag = Some ''e'', fr_last_modified = None\<rparr>"
  obtain sent' r where f: "fetch ?W ?net ''ua'' ?req [] = (sent', r)" by fastforce
  have "sent' \<noteq> []" using f by (auto simp: fetch_def request_headers_def http_send_def)
  with fetch_reports_response [OF f] have "r = Inr NotModified" by auto
  with f show ?thesis by blast
qed

end
