(* ===== verification/Parser.thy ===== *)
theory Parser
  imports Url_Class
begin

text \<open>
  \<open>crawler/parser.rs\<close>: links, canonical link and text of an HTML page. The tree is the one the \<open>scraper\<close> library
  parses (\<open>html_tree\<close>, a parameter of the functions, element names in lower case); its selectors by name and
  attribute, and the order of its traversals, are those of the document.
\<close>

datatype dom =
    DText string
  | DElem string "(string \<times> string) list" "dom list"
  | DOther

text \<open>A node and its descendants in document order, each with the names of its ancestors, innermost first.\<close>

fun walk :: "string list \<Rightarrow> dom \<Rightarrow> (string list \<times> dom) list" where
  "walk anc (DText t) = [(anc, DText t)]"
| "walk anc (DElem n as cs) = (anc, DElem n as cs) # concat (map (walk (n # anc)) cs)"
| "walk anc DOther = [(anc, DOther)]"

definition has_attr :: "string \<Rightarrow> (string \<times> string) list \<Rightarrow> bool" where
  "has_attr a as \<longleftrightarrow> map_of as a \<noteq> None"

fun matches :: "string \<Rightarrow> string list \<Rightarrow> dom \<Rightarrow> bool" where
  "matches name attrs (DElem n as cs) \<longleftrightarrow> n = name \<and> list_all (\<lambda>a. has_attr a as) attrs"
| "matches name attrs _ \<longleftrightarrow> False"

definition select :: "string \<Rightarrow> string list \<Rightarrow> dom \<Rightarrow> (string list \<times> dom) list" where
  "select name attrs doc = filter (\<lambda>(_, d). matches name attrs d) (walk [] doc)"

fun attr_of :: "dom \<Rightarrow> string \<Rightarrow> string option" where
  "attr_of (DElem n as cs) a = map_of as a"
| "attr_of _ a = None"

fun text_node :: "string list \<times> dom \<Rightarrow> (string list \<times> string) option" where
  "text_node (anc, DText t) = Some (anc, t)"
| "text_node _ = None"

text \<open>All text below a node.\<close>

definition inner_text :: "dom \<Rightarrow> string" where
  "inner_text d = concat (map snd (List.map_filter text_node (walk [] d)))"

section \<open>Links\<close>

record extracted_link =
  el_url :: string
  el_text :: string

definition http_scheme :: "url \<Rightarrow> bool" where
  "http_scheme u \<longleftrightarrow> scheme u = ''http'' \<or> scheme u = ''https''"

definition skipped_href :: "(string \<Rightarrow> string) \<Rightarrow> string \<Rightarrow> bool" where
  "skipped_href lower href \<longleftrightarrow>
     href = [] \<or> starts_with ''#'' href \<or> starts_with ''mailto:'' (lower href) \<or>
     starts_with ''javascript:'' (lower href) \<or> starts_with ''tel:'' (lower href)"

definition link_of ::
  "url_lib \<Rightarrow> (string \<Rightarrow> string) \<Rightarrow> url \<Rightarrow> dom \<Rightarrow> extracted_link option" where
  "link_of L lower base el =
     (case attr_of el ''href'' of
        None \<Rightarrow> None
      | Some h \<Rightarrow>
          (let href = str_trim h in
           if skipped_href lower href then None
           else
             (case join_url L base href of
                None \<Rightarrow> None
              | Some resolved \<Rightarrow>
                  if \<not> http_scheme resolved then None
                  else Some \<lparr>el_url = url_text L resolved, el_text = str_trim (inner_text el)\<rparr>)))"

definition extract_links ::
  "url_lib \<Rightarrow> (string \<Rightarrow> string) \<Rightarrow> (string \<Rightarrow> dom) \<Rightarrow> string \<Rightarrow> string \<Rightarrow> extracted_link list" where
  "extract_links L lower html_tree html base_url =
     (case parse_url L base_url of
        None \<Rightarrow> []
      | Some base \<Rightarrow>
          List.map_filter (\<lambda>(_, el). link_of L lower base el) (select ''a'' [''href''] (html_tree html)))"

section \<open>The canonical link\<close>

definition ascii_space :: "char \<Rightarrow> bool" where
  "ascii_space c \<longleftrightarrow> (of_char c :: nat) \<in> {9, 10, 12, 13, 32}"

fun split_ascii_whitespace :: "string \<Rightarrow> string \<Rightarrow> string list" where
  "split_ascii_whitespace cur [] = (if cur = [] then [] else [cur])"
| "split_ascii_whitespace cur (c # cs) =
     (if ascii_space c then (if cur = [] then [] else [cur]) @ split_ascii_whitespace [] cs
      else split_ascii_whitespace (cur @ [c]) cs)"

fun canonical_loop :: "url_lib \<Rightarrow> url \<Rightarrow> dom list \<Rightarrow> string option" where
  "canonical_loop L base [] = None"
| "canonical_loop L base (el # els) =
     (case attr_of el ''rel'' of
        None \<Rightarrow> None
      | Some rel \<Rightarrow>
          if \<not> list_ex (\<lambda>tok. eq_ignore_ascii_case tok ''canonical'') (split_ascii_whitespace [] rel)
          then canonical_loop L base els
          else
            (case attr_of el ''href'' of
               None \<Rightarrow> None
             | Some h \<Rightarrow>
                 if str_trim h = [] then canonical_loop L base els
                 else
                   (case join_url L base (str_trim h) of
                      None \<Rightarrow> None
                    | Some resolved \<Rightarrow>
                        if \<not> http_scheme resolved then canonical_loop L base els
                        else Some (url_text L resolved))))"

definition extract_canonical :: "url_lib \<Rightarrow> (string \<Rightarrow> dom) \<Rightarrow> string \<Rightarrow> string \<Rightarrow> string option" where
  "extract_canonical L html_tree html base_url =
     (case parse_url L base_url of
        None \<Rightarrow> None
      | Some base \<Rightarrow> canonical_loop L base (map snd (select ''link'' [''rel'', ''href''] (html_tree html))))"

section \<open>The text of a page\<close>

record parsed_page =
  pp_title :: string
  pp_text :: string

definition dropped :: "string \<Rightarrow> bool" where
  "dropped n \<longleftrightarrow> n = ''script'' \<or> n = ''style'' \<or> n = ''noscript''"

definition visible_part :: "string list \<times> string \<Rightarrow> string option" where
  "visible_part at =
     (if list_ex dropped (fst at) \<or> str_trim (snd at) = [] then None else Some (str_trim (snd at)))"

text \<open>The parts of the text below a node that has the given ancestors.\<close>

definition text_parts :: "string list \<Rightarrow> dom \<Rightarrow> string list" where
  "text_parts anc d = List.map_filter visible_part (List.map_filter text_node (walk anc d))"

fun join_spaces :: "string list \<Rightarrow> string" where
  "join_spaces [] = []"
| "join_spaces [p] = p"
| "join_spaces (p # ps) = p @ '' '' @ join_spaces ps"

definition parse_text :: "(string \<Rightarrow> dom) \<Rightarrow> string \<Rightarrow> parsed_page" where
  "parse_text html_tree html =
     (let doc = html_tree html in
      \<lparr>pp_title = (case select ''title'' [] doc of [] \<Rightarrow> [] | (_, el) # _ \<Rightarrow> str_trim (inner_text el)),
       pp_text = (case select ''body'' [] doc of
          [] \<Rightarrow> [] | (anc, body) # _ \<Rightarrow> join_spaces (text_parts anc body))\<rparr>)"

section \<open>Facts\<close>

lemma in_map_filter: "y \<in> set (List.map_filter f xs) \<longleftrightarrow> (\<exists>x \<in> set xs. f x = Some y)"
  by (force simp: List.map_filter_def)

lemma map_filter_append [simp]: "List.map_filter f (xs @ ys) = List.map_filter f xs @ List.map_filter f ys"
  by (simp add: List.map_filter_def)

lemma map_filter_concat: "List.map_filter f (concat xss) = concat (map (List.map_filter f) xss)"
  by (induction xss) simp_all

text \<open>Only web links are followed. Every extracted link is the text of a URL with scheme http or https that the
  reference of some anchor of the page resolves to, taken in the order of the document; empty references, fragments and
  \<open>mailto:\<close>, \<open>javascript:\<close> and \<open>tel:\<close> in any case are never among them.\<close>

theorem extracted_links_are_web_links:
  "\<forall>l \<in> set (extract_links L lower html_tree html base_url).
     \<exists>base el href resolved. parse_url L base_url = Some base \<and>
       el \<in> set (map snd (select ''a'' [''href''] (html_tree html))) \<and> attr_of el ''href'' = Some href \<and>
       join_url L base (str_trim href) = Some resolved \<and> http_scheme resolved \<and>
       \<not> skipped_href lower (str_trim href) \<and>
       l = \<lparr>el_url = url_text L resolved, el_text = str_trim (inner_text el)\<rparr>"
proof
  fix l assume "l \<in> set (extract_links L lower html_tree html base_url)"
  then obtain base anc el where b: "parse_url L base_url = Some base"
      "(anc, el) \<in> set (select ''a'' [''href''] (html_tree html))" "link_of L lower base el = Some l"
    by (cases "parse_url L base_url") (auto simp: extract_links_def in_map_filter)
  then have "el \<in> set (map snd (select ''a'' [''href''] (html_tree html)))" by force
  with b show "\<exists>base el href resolved. parse_url L base_url = Some base \<and>
       el \<in> set (map snd (select ''a'' [''href''] (html_tree html))) \<and> attr_of el ''href'' = Some href \<and>
       join_url L base (str_trim href) = Some resolved \<and> http_scheme resolved \<and>
       \<not> skipped_href lower (str_trim href) \<and>
       l = \<lparr>el_url = url_text L resolved, el_text = str_trim (inner_text el)\<rparr>"
    by (auto simp: link_of_def Let_def split: option.splits if_splits)
qed

text \<open>A page without its scripts, styles and noscripts.\<close>

fun kept_child :: "dom \<Rightarrow> bool" where
  "kept_child (DElem m as cs) \<longleftrightarrow> \<not> dropped m"
| "kept_child d \<longleftrightarrow> True"

fun without_dropped :: "dom \<Rightarrow> dom" where
  "without_dropped (DElem n as cs) =
     DElem n as (map without_dropped (filter kept_child cs))"
| "without_dropped d = d"

lemma text_parts_elem: "text_parts anc (DElem n as cs) = concat (map (text_parts (n # anc)) cs)"
  by (simp add: text_parts_def [abs_def] map_filter_concat comp_def List.map_filter_simps)

lemma text_parts_dropped: "list_ex dropped anc \<Longrightarrow> text_parts anc d = []"
proof (induction d arbitrary: anc)
  case (DElem n as cs)
  then show ?case by (simp add: text_parts_elem)
qed (simp_all add: text_parts_def visible_part_def List.map_filter_simps)

lemma text_parts_without_dropped: "text_parts anc (without_dropped d) = text_parts anc d"
proof (induction d arbitrary: anc)
  case (DElem n as cs)
  have gone: "text_parts (n # anc) c = []" if "\<not> kept_child c" for c
    using that by (cases c) (simp_all add: text_parts_elem text_parts_dropped)
  have keep: "concat (map (text_parts (n # anc)) (filter kept_child ds)) = concat (map (text_parts (n # anc)) ds)" for ds
    by (induction ds) (simp_all add: gone)
  have "map (\<lambda>c. text_parts (n # anc) (without_dropped c)) (filter kept_child cs) =
      map (text_parts (n # anc)) (filter kept_child cs)"
    using DElem.IH by (intro map_cong) simp_all
  then have "concat (map (\<lambda>c. text_parts (n # anc) (without_dropped c)) (filter kept_child cs)) =
      concat (map (text_parts (n # anc)) cs)"
    using keep [of cs] by argo
  then show ?case by (simp add: text_parts_elem comp_def)
qed simp_all

lemma text_parts_visible:
  "p \<in> set (text_parts anc d) \<Longrightarrow>
   \<exists>anc' t. (anc', DText t) \<in> set (walk anc d) \<and> \<not> list_ex dropped anc' \<and> p = str_trim t \<and> p \<noteq> []"
proof -
  assume "p \<in> set (text_parts anc d)"
  then obtain at x where x: "x \<in> set (walk anc d)" "text_node x = Some at" "visible_part at = Some p"
    by (auto simp: text_parts_def in_map_filter)
  then obtain anc' t where "x = (anc', DText t)" "at = (anc', t)"
    by (cases x rule: text_node.cases) auto
  with x show ?thesis
    by (intro exI [where x = anc'] exI [where x = t]) (auto simp: visible_part_def split: if_splits)
qed

text \<open>Scripts are not indexed. The text of a page is that of its body joined by single spaces; every piece is a
  non-blank text node outside all script, style and noscript elements, and deleting those elements, wherever they are
  nested, changes nothing.\<close>

theorem page_text_ignores_scripts:
  assumes "select ''body'' [] (html_tree html) = (anc, body) # others"
  shows "pp_text (parse_text html_tree html) = join_spaces (text_parts anc body) \<and>
    text_parts anc (without_dropped body) = text_parts anc body \<and>
    (\<forall>p \<in> set (text_parts anc body). \<exists>anc' t. (anc', DText t) \<in> set (walk anc body) \<and>
       \<not> list_ex dropped anc' \<and> p = str_trim t \<and> p \<noteq> [])"
  using assms text_parts_visible by (auto simp: parse_text_def Let_def text_parts_without_dropped)

definition sample_page :: dom where
  "sample_page = DElem ''html'' []
     [DElem ''head'' [] [DElem ''title'' [] [DText ''T'']],
      DElem ''body'' [] [DElem ''script'' [] [DText ''x''], DElem ''a'' [(''href'', ''/b'')] [DText ''B'']]]"

theorem page_text_ignores_scripts_witness:
  "pp_text (parse_text (\<lambda>_. sample_page) []) = ''B''"
proof -
  have body: "select ''body'' [] sample_page =
      [([''html''], DElem ''body'' [] [DElem ''script'' [] [DText ''x''], DElem ''a'' [(''href'', ''/b'')] [DText ''B'']])]"
    by (simp add: select_def sample_page_def)
  have trim: "str_trim ''B'' = ''B''" by (rule str_trim_graphic) (simp_all add: ascii_graphic_def)
  from page_text_ignores_scripts [where html_tree = "\<lambda>_. sample_page" and html = "[]", OF body]
  show ?thesis
    by (simp add: text_parts_def visible_part_def dropped_def List.map_filter_simps trim)
qed

end
