(* ===== verification/Indexer.thy ===== *)
theory Indexer
  imports Fetch Tables
begin

text \<open>
  \<open>index/writer.rs\<close>, \<open>index/indexer.rs\<close> and \<open>index/size.rs\<close>: the task that owns the writer of the search index, the journal
  that ties the index to \<open>crawled_pages.indexed_content_hash\<close>, and the counter of jobs in flight. Tantivy is seen
  through the operations sent to it, and \<open>ok\<close> says which of them succeed.
\<close>

section \<open>The writer\<close>

record index_job =
  ij_collection_name :: string
  ij_url :: string
  ij_title :: string
  ij_body :: string
  ij_indexed_at :: int
  ij_collection_id :: string
  ij_content_hash :: string

record index_doc =
  id_collection :: string
  id_url :: string
  id_host :: string
  id_title :: string
  id_body :: string
  id_indexed_at :: int

datatype index_op = DeleteTerm string | AddDocument index_doc | CommitOp

text \<open>
  Which operations succeed: one of the index after those before it, and the update of the journal after a commit, by
  the operations up to then. The update can fail although the commit did not: the tables have a second connection.
\<close>

record op_result =
  or_op :: "index_op list \<Rightarrow> index_op \<Rightarrow> bool"
  or_journal :: "index_op list \<Rightarrow> bool"

record index_writer =
  iw_ops :: "index_op list"
  iw_journal :: "indexed_entry list"

definition document_of :: "url_lib \<Rightarrow> index_job \<Rightarrow> index_doc" where
  "document_of L job =
     \<lparr>id_collection = ij_collection_name job, id_url = ij_url job,
      id_host = (case Option.bind (parse_url L (ij_url job)) host of
                   None \<Rightarrow> [] | Some h \<Rightarrow> to_ascii_lowercase h),
      id_title = ij_title job, id_body = ij_body job, id_indexed_at = ij_indexed_at job\<rparr>"

definition journal_entry :: "index_job \<Rightarrow> indexed_entry" where
  "journal_entry job =
     \<lparr>ie_collection_id = ij_collection_id job, ie_url = ij_url job, ie_content_hash = ij_content_hash job\<rparr>"

definition writer_upsert ::
  "op_result \<Rightarrow> url_lib \<Rightarrow> index_job \<Rightarrow> index_writer \<Rightarrow> index_writer \<times> unit crawl_result" where
  "writer_upsert ok L job w =
     (let ops = iw_ops w @ [DeleteTerm (ij_url job)]; add = AddDocument (document_of L job) in
      if \<not> or_op ok ops add then (w\<lparr>iw_ops := ops\<rparr>, Inl TantivyError)
      else (\<lparr>iw_ops = ops @ [add], iw_journal = iw_journal w @ [journal_entry job]\<rparr>, Inr ()))"

definition writer_delete_url :: "string \<Rightarrow> index_writer \<Rightarrow> index_writer" where
  "writer_delete_url u w = w\<lparr>iw_ops := iw_ops w @ [DeleteTerm u]\<rparr>"

definition writer_commit ::
  "op_result \<Rightarrow> index_writer \<Rightarrow> index_writer \<times> indexed_entry list crawl_result" where
  "writer_commit ok w =
     (if \<not> or_op ok (iw_ops w) CommitOp then (w, Inl TantivyError)
      else (\<lparr>iw_ops = iw_ops w @ [CommitOp], iw_journal = []\<rparr>, Inr (iw_journal w)))"

section \<open>The indexer task\<close>

definition BATCH_SIZE :: nat where "BATCH_SIZE = 50"

definition CHANNEL_CAPACITY :: nat where "CHANNEL_CAPACITY = 256"

record 'j indexer_state =
  ix_writer :: index_writer
  ix_pending :: nat
  ix_delete_open :: bool
  ix_db :: "'j content_db"
  ix_inflight :: int

text \<open>
  The count in flight goes down once the commit is done, and an update of the journal that fails is an error of the
  whole \<open>flush\<close>, which ends the task.
\<close>

definition flush :: "op_result \<Rightarrow> 'j indexer_state \<Rightarrow> 'j indexer_state \<times> unit crawl_result" where
  "flush ok st =
     (case writer_commit ok (ix_writer st) of
        (w, Inl e) \<Rightarrow> (st\<lparr>ix_writer := w\<rparr>, Inl e)
      | (w, Inr journal) \<Rightarrow>
          if journal = [] then (st\<lparr>ix_writer := w\<rparr>, Inr ())
          else
            (let st1 = st\<lparr>ix_writer := w, ix_inflight := ix_inflight st - int (length journal)\<rparr> in
             if \<not> or_journal ok (iw_ops w) then (st1, Inl (OtherError (LibText ''mark_indexed_batch'')))
             else (st1\<lparr>ix_db := mark_indexed_batch journal (ix_db st1)\<rparr>, Inr ())))"

datatype indexer_event = UpsertMsg index_job | UpsertsClosed | DeleteMsg "string list" | DeletesClosed | Deadline

datatype loop_outcome = Continue | Return "unit crawl_result"

text \<open>One turn of the \<open>select!\<close> loop of \<open>run\<close>.\<close>

fun indexer_turn ::
  "op_result \<Rightarrow> url_lib \<Rightarrow> 'j indexer_state \<Rightarrow> indexer_event \<Rightarrow> 'j indexer_state \<times> loop_outcome" where
  "indexer_turn ok L st (UpsertMsg job) =
     (case writer_upsert ok L job (ix_writer st) of
        (w, Inl e) \<Rightarrow> (st\<lparr>ix_writer := w\<rparr>, Return (Inl e))
      | (w, Inr _) \<Rightarrow>
          (let st1 = st\<lparr>ix_writer := w, ix_pending := ix_pending st + 1\<rparr> in
           if ix_pending st1 \<ge> BATCH_SIZE then
             (case flush ok st1 of
                (st2, Inl e) \<Rightarrow> (st2, Return (Inl e))
              | (st2, Inr _) \<Rightarrow> (st2\<lparr>ix_pending := 0\<rparr>, Continue))
           else (st1, Continue)))"
| "indexer_turn ok L st UpsertsClosed = (case flush ok st of (st1, r) \<Rightarrow> (st1, Return r))"
| "indexer_turn ok L st (DeleteMsg urls) =
     (let st1 = st\<lparr>ix_writer := fold writer_delete_url urls (ix_writer st)\<rparr> in
      case flush ok st1 of
        (st2, Inl e) \<Rightarrow> (st2, Return (Inl e))
      | (st2, Inr _) \<Rightarrow> (st2\<lparr>ix_pending := 0\<rparr>, Continue))"
| "indexer_turn ok L st DeletesClosed = (st\<lparr>ix_delete_open := False\<rparr>, Continue)"
| "indexer_turn ok L st Deadline =
     (if 0 < ix_pending st then
        (case flush ok st of
           (st2, Inl e) \<Rightarrow> (st2, Return (Inl e))
         | (st2, Inr _) \<Rightarrow> (st2\<lparr>ix_pending := 0\<rparr>, Continue))
      else (st, Continue))"

section \<open>The size limit\<close>

definition U64_MAX :: nat where "U64_MAX = 2 ^ 64 - 1"

text \<open>\<open>index_dir_size_bytes\<close> over the lengths of the files of the tree, in the order they are met.\<close>

definition saturating_add_u64 :: "nat \<Rightarrow> nat \<Rightarrow> nat" where
  "saturating_add_u64 a b = min (a + b) U64_MAX"

datatype fs_entry = File nat | Dir "fs_entry list"

function dir_size_loop :: "fs_entry list list \<Rightarrow> nat \<Rightarrow> nat" where
  "dir_size_loop [] acc = acc"
| "dir_size_loop (current # stack) acc =
     (let dirs = List.map_filter (\<lambda>e. case e of Dir es \<Rightarrow> Some es | File _ \<Rightarrow> None) current;
          files = List.map_filter (\<lambda>e. case e of File n \<Rightarrow> Some n | Dir _ \<Rightarrow> None) current in
      dir_size_loop (rev dirs @ stack) (fold (\<lambda>n t. saturating_add_u64 t n) files acc))"
  by pat_completeness auto

text \<open>Entries of a tree, counting the directories themselves.\<close>

fun fs_weight :: "fs_entry \<Rightarrow> nat" where
  "fs_weight (File n) = 1"
| "fs_weight (Dir es) = 2 + sum_list (map fs_weight es)"

definition stack_weight :: "fs_entry list list \<Rightarrow> nat" where
  "stack_weight stack = sum_list (map (\<lambda>es. 1 + sum_list (map fs_weight es)) stack)"

lemma dirs_weight:
  "sum_list (map (\<lambda>es. 1 + sum_list (map fs_weight es))
     (List.map_filter (\<lambda>e. case e of Dir es \<Rightarrow> Some es | File _ \<Rightarrow> None) current)) \<le> sum_list (map fs_weight current)"
proof (induction current)
  case (Cons e es)
  then show ?case by (cases e) (simp_all add: List.map_filter_simps)
qed (simp add: List.map_filter_simps)

termination dir_size_loop
proof (relation "measure (\<lambda>(stack, _). stack_weight stack)")
  fix current :: "fs_entry list" and stack acc dirs files
  assume "dirs = List.map_filter (\<lambda>e. case e of Dir es \<Rightarrow> Some es | File _ \<Rightarrow> None) current"
  then show "((rev dirs @ stack, fold (\<lambda>n t. saturating_add_u64 t n) files acc), current # stack, acc)
      \<in> measure (\<lambda>(stack, _). stack_weight stack)"
    using dirs_weight [of current] by (simp add: stack_weight_def rev_map [symmetric] sum_list_rev)
qed simp

definition index_dir_size_bytes :: "fs_entry list option \<Rightarrow> nat" where
  "index_dir_size_bytes tree = (case tree of None \<Rightarrow> 0 | Some es \<Rightarrow> dir_size_loop [es] 0)"

definition check_capacity :: "nat \<Rightarrow> nat \<Rightarrow> unit crawl_result" where
  "check_capacity used max_bytes = (if max_bytes \<le> used then Inl (IndexFull used max_bytes) else Inr ())"

section \<open>Size of the index\<close>

fun file_bytes :: "fs_entry \<Rightarrow> nat" where
  "file_bytes (File n) = n"
| "file_bytes (Dir es) = sum_list (map file_bytes es)"

lemma fold_saturating:
  "fold (\<lambda>n t. saturating_add_u64 t n) ns (min acc U64_MAX) = min (acc + sum_list ns) U64_MAX"
proof (induction ns arbitrary: acc)
  case (Cons n ns)
  have "saturating_add_u64 (min acc U64_MAX) n = min (acc + n) U64_MAX"
    by (simp add: saturating_add_u64_def)
  with Cons.IH [of "acc + n"] show ?case by (simp add: add.assoc)
qed simp

lemma split_bytes:
  "sum_list (List.map_filter (\<lambda>e. case e of File n \<Rightarrow> Some n | Dir _ \<Rightarrow> None) current) +
   sum_list (map (\<lambda>es. sum_list (map file_bytes es))
     (List.map_filter (\<lambda>e. case e of Dir es \<Rightarrow> Some es | File _ \<Rightarrow> None) current)) =
   sum_list (map file_bytes current)"
proof (induction current)
  case (Cons e es)
  then show ?case by (cases e) (simp_all add: List.map_filter_simps)
qed (simp add: List.map_filter_simps)

lemma dir_size_loop_sum:
  "dir_size_loop stack (min acc U64_MAX) =
     min (acc + sum_list (map (\<lambda>es. sum_list (map file_bytes es)) stack)) U64_MAX"
proof (induction stack "min acc U64_MAX" arbitrary: acc rule: dir_size_loop.induct)
  case (2 current stack)
  let ?dirs = "List.map_filter (\<lambda>e. case e of Dir es \<Rightarrow> Some es | File _ \<Rightarrow> None) current"
  let ?files = "List.map_filter (\<lambda>e. case e of File n \<Rightarrow> Some n | Dir _ \<Rightarrow> None) current"
  have "dir_size_loop (rev ?dirs @ stack) (min (acc + sum_list ?files) U64_MAX) =
      min (acc + sum_list ?files + sum_list (map (\<lambda>es. sum_list (map file_bytes es)) (rev ?dirs @ stack))) U64_MAX"
    by (rule 2) (simp_all add: fold_saturating)
  then show ?case
    using split_bytes [of current] by (simp add: fold_saturating rev_map [symmetric] sum_list_rev add.assoc [symmetric] Let_def)
qed simp

text \<open>The size that decides whether crawling goes on is the sum of the lengths of all files of the index directory at
  any depth (at most the largest u64), 0 when there is no directory; the walk ends on every tree, and crawling is
  refused exactly when the sum reaches the limit.\<close>

theorem index_size_is_sum:
  "index_dir_size_bytes tree =
     min (case tree of None \<Rightarrow> 0 | Some es \<Rightarrow> sum_list (map file_bytes es)) U64_MAX \<and>
   (check_capacity (index_dir_size_bytes tree) limit = Inr () \<longleftrightarrow> index_dir_size_bytes tree < limit)"
  using dir_size_loop_sum [of "[the tree]" 0]
  by (cases tree) (auto simp: index_dir_size_bytes_def check_capacity_def)

section \<open>Senders and indexer together\<close>

text \<open>
  The channel of jobs with the senders that wait for room in it, the channel of deletions, and the indexer until it
  returns. A sender counts its job in flight before it sends; when the channel is closed it takes the count back. The
  indexer prefers jobs to deletions, and the timer may fire when both are empty.
\<close>

record 'j pipeline =
  pl_queue :: "index_job list"
  pl_deletes :: "string list list"
  pl_indexer :: "'j indexer_state"
  pl_running :: bool

datatype pipeline_event = SendJob index_job | SendDeletes "string list" | IndexerTurn

definition next_event :: "'j pipeline \<Rightarrow> indexer_event \<times> 'j pipeline" where
  "next_event st =
     (case pl_queue st of
        job # jobs \<Rightarrow> (UpsertMsg job, st\<lparr>pl_queue := jobs\<rparr>)
      | [] \<Rightarrow>
          (case pl_deletes st of
             urls # rest \<Rightarrow> (DeleteMsg urls, st\<lparr>pl_deletes := rest\<rparr>)
           | [] \<Rightarrow> (Deadline, st)))"

definition count_job :: "index_job \<Rightarrow> 'j pipeline \<Rightarrow> 'j pipeline" where
  "count_job job st =
     st\<lparr>pl_queue := pl_queue st @ [job],
        pl_indexer := (pl_indexer st)\<lparr>ix_inflight := ix_inflight (pl_indexer st) + 1\<rparr>\<rparr>"

fun pipeline_step ::
  "op_result \<Rightarrow> url_lib \<Rightarrow> 'j pipeline \<Rightarrow> pipeline_event \<Rightarrow> ('j pipeline \<times> bool) option" where
  "pipeline_step ok L st (SendJob job) =
     Some (if pl_running st then (count_job job st, True) else (st, False))"
| "pipeline_step ok L st (SendDeletes urls) =
     Some (if pl_running st then (st\<lparr>pl_deletes := pl_deletes st @ [urls]\<rparr>, True) else (st, False))"
| "pipeline_step ok L st IndexerTurn =
     Some (if pl_running st then
             (let (ev, st1) = next_event st in
              case indexer_turn ok L (pl_indexer st1) ev of
                (ix, Continue) \<Rightarrow> (st1\<lparr>pl_indexer := ix\<rparr>, True)
              | (ix, Return _) \<Rightarrow> (st1\<lparr>pl_indexer := ix, pl_running := False\<rparr>, True))
           else (st, False))"

text \<open>When every operation of the index succeeds.\<close>

definition index_never_fails :: "op_result \<Rightarrow> bool" where
  "index_never_fails ok \<longleftrightarrow> (\<forall>ops op. or_op ok ops op) \<and> (\<forall>ops. or_journal ok ops)"

definition pipeline_inv :: "'j pipeline \<Rightarrow> bool" where
  "pipeline_inv st \<longleftrightarrow>
     pl_running st \<and>
     ix_inflight (pl_indexer st) =
       int (length (pl_queue st)) + int (length (iw_journal (ix_writer (pl_indexer st)))) \<and>
     ix_pending (pl_indexer st) = length (iw_journal (ix_writer (pl_indexer st))) \<and>
     ix_pending (pl_indexer st) < BATCH_SIZE \<and>
     (iw_journal (ix_writer (pl_indexer st)) = [] \<longrightarrow>
        iw_ops (ix_writer (pl_indexer st)) = [] \<or> last (iw_ops (ix_writer (pl_indexer st))) = CommitOp)"

lemma flush_ok:
  assumes "index_never_fails ok"
  shows "flush ok st =
    (st\<lparr>ix_writer := \<lparr>iw_ops = iw_ops (ix_writer st) @ [CommitOp], iw_journal = []\<rparr>,
        ix_inflight := ix_inflight st - int (length (iw_journal (ix_writer st))),
        ix_db := mark_indexed_batch (iw_journal (ix_writer st)) (ix_db st)\<rparr>, Inr ())"
  using assms by (simp add: flush_def writer_commit_def index_never_fails_def mark_indexed_batch_def Let_def)

lemma writer_upsert_ok:
  assumes "index_never_fails ok"
  shows "writer_upsert ok L job w =
    (\<lparr>iw_ops = iw_ops w @ [DeleteTerm (ij_url job), AddDocument (document_of L job)],
      iw_journal = iw_journal w @ [journal_entry job]\<rparr>, Inr ())"
  using assms by (simp add: writer_upsert_def index_never_fails_def Let_def)

lemma fold_delete_url:
  "fold writer_delete_url urls w = w\<lparr>iw_ops := iw_ops w @ map DeleteTerm urls\<rparr>"
  by (induction urls arbitrary: w) (simp_all add: writer_delete_url_def)

lemma pipeline_turn_inv:
  assumes ok: "index_never_fails ok" and inv: "pipeline_inv st"
    and step: "pipeline_step ok L st IndexerTurn = Some (st', out)"
  shows "pipeline_inv st'"
proof (cases "pl_queue st")
  case (Cons job jobs)
  with inv step show ?thesis
    by (auto simp: next_event_def pipeline_inv_def writer_upsert_ok [OF ok] flush_ok [OF ok] Let_def BATCH_SIZE_def
        split: if_splits)
next
  case Nil
  show ?thesis
  proof (cases "pl_deletes st")
    case (Cons urls rest)
    with Nil inv step show ?thesis
      by (auto simp: next_event_def pipeline_inv_def flush_ok [OF ok] fold_delete_url Let_def BATCH_SIZE_def)
  next
    case no: Nil
    with Nil inv step show ?thesis
      by (auto simp: next_event_def pipeline_inv_def flush_ok [OF ok] Let_def BATCH_SIZE_def split: if_splits)
  qed
qed

lemma pipeline_step_inv:
  assumes "index_never_fails ok" and "pipeline_inv st" and "pipeline_step ok L st e = Some (st', out)"
  shows "pipeline_inv st'"
proof (cases e)
  case (SendJob job)
  with assms(2,3) show ?thesis by (auto simp: pipeline_inv_def count_job_def)
next
  case (SendDeletes urls)
  with assms(2,3) show ?thesis by (auto simp: pipeline_inv_def)
next
  case IndexerTurn
  with assms pipeline_turn_inv show ?thesis by blast
qed

definition always_ok :: op_result where
  "always_ok = \<lparr>or_op = \<lambda>_ _. True, or_journal = \<lambda>_. True\<rparr>"

lemma always_ok [simp]: "index_never_fails always_ok"
  by (simp add: index_never_fails_def always_ok_def)

lemma never_fails_iff: "index_never_fails ok \<longleftrightarrow> ok = always_ok"
  by (cases ok) (auto simp: index_never_fails_def always_ok_def fun_eq_iff)

interpretation pipeline: state_machine "pipeline_step always_ok L" pipeline_inv "\<lambda>_. True"
proof
  show "pipeline_step always_ok L st e \<noteq> None" for st :: "'a pipeline" and e by (cases e) simp_all
  show "pipeline_inv st'" if "pipeline_inv st" "pipeline_step always_ok L st e = Some (st', out)"
    for st :: "'a pipeline" and e st' out
    using pipeline_step_inv [OF always_ok that] .
qed

text \<open>The start: an open writer, nothing sent.\<close>

definition fresh_pipeline :: "'j content_db \<Rightarrow> 'j pipeline" where
  "fresh_pipeline db =
     \<lparr>pl_queue = [], pl_deletes = [],
      pl_indexer = \<lparr>ix_writer = \<lparr>iw_ops = [], iw_journal = []\<rparr>, ix_pending = 0, ix_delete_open = True,
        ix_db = db, ix_inflight = 0\<rparr>, pl_running = True\<rparr>"

lemma fresh_pipeline_inv [simp]: "pipeline_inv (fresh_pipeline db)"
  by (simp add: pipeline_inv_def fresh_pipeline_def BATCH_SIZE_def)

section \<open>What a search can see\<close>

fun apply_op :: "index_op \<Rightarrow> index_doc multiset \<Rightarrow> index_doc multiset" where
  "apply_op (DeleteTerm u) docs = filter_mset (\<lambda>d. id_url d \<noteq> u) docs"
| "apply_op (AddDocument d) docs = docs + {#d#}"
| "apply_op CommitOp docs = docs"

definition applied :: "index_op list \<Rightarrow> index_doc multiset" where
  "applied ops = fold apply_op ops {#}"

text \<open>
  What the code relies on of Tantivy: nothing is visible in a new index, and after a commit the effect of all
  operations so far is, each deletion taking the documents with the term that were added before it.
\<close>

definition tantivy_reads :: "(index_op list \<Rightarrow> index_doc multiset) \<Rightarrow> bool" where
  "tantivy_reads visible \<longleftrightarrow>
     visible [] = {#} \<and> (\<forall>ops. visible (ops @ [CommitOp]) = applied (ops @ [CommitOp]))"

lemma tantivy_reads_commit: "tantivy_reads visible \<Longrightarrow> visible (ops @ [CommitOp]) = applied ops"
  by (simp add: tantivy_reads_def applied_def)

lemma tantivy_reads_applied: "tantivy_reads applied"
  by (simp add: tantivy_reads_def applied_def)

definition added :: "index_op list \<Rightarrow> index_doc list" where
  "added ops = List.map_filter (\<lambda>op. case op of AddDocument d \<Rightarrow> Some d | _ \<Rightarrow> None) ops"

lemma added_simps [simp]:
  "added [] = []"
  "added (a @ b) = added a @ added b"
  "added (DeleteTerm u # ops) = added ops"
  "added (AddDocument d # ops) = d # added ops"
  "added (CommitOp # ops) = added ops"
  "added (map DeleteTerm urls) = []"
  by (induction urls) (simp_all add: added_def List.map_filter_simps List.map_filter_def)

definition jobs_sent :: "pipeline_event list \<Rightarrow> index_job list" where
  "jobs_sent es = List.map_filter (\<lambda>e. case e of SendJob j \<Rightarrow> Some j | _ \<Rightarrow> None) es"

lemma jobs_sent_simps [simp]:
  "jobs_sent [] = []"
  "jobs_sent (SendJob j # es) = j # jobs_sent es"
  "jobs_sent (SendDeletes us # es) = jobs_sent es"
  "jobs_sent (IndexerTurn # es) = jobs_sent es"
  by (simp_all add: jobs_sent_def List.map_filter_simps)

abbreviation ops_of :: "'j pipeline \<Rightarrow> index_op list" where
  "ops_of st \<equiv> iw_ops (ix_writer (pl_indexer st))"

text \<open>The documents given to the index and those still queued are the jobs in the order in which they were sent.\<close>

definition delivered :: "url_lib \<Rightarrow> 'j pipeline \<Rightarrow> index_doc list" where
  "delivered L st = added (ops_of st) @ map (document_of L) (pl_queue st)"

lemma step_delivered:
  assumes "pipeline_inv st" and "pipeline_step always_ok L st e = Some (st', out)"
  shows "delivered L st' = delivered L st @ map (document_of L) (jobs_sent [e])"
proof (cases e)
  case (SendJob j)
  with assms show ?thesis by (auto simp: delivered_def pipeline_inv_def count_job_def)
next
  case (SendDeletes us)
  with assms show ?thesis by (auto simp: delivered_def pipeline_inv_def)
next
  case IndexerTurn
  show ?thesis
  proof (cases "pl_queue st")
    case (Cons job jobs)
    with IndexerTurn assms show ?thesis
      by (auto simp: next_event_def delivered_def pipeline_inv_def writer_upsert_ok flush_ok Let_def
          split: if_splits)
  next
    case Nil
    with IndexerTurn assms show ?thesis
      by (cases "pl_deletes st")
        (auto simp: next_event_def delivered_def pipeline_inv_def flush_ok fold_delete_url Let_def split: if_splits)
  qed
qed

lemma run_delivered:
  assumes "pipeline_inv st" and "run_steps (pipeline_step always_ok L) st es = Some (st', outs)"
  shows "delivered L st' = delivered L st @ map (document_of L) (jobs_sent es)"
  using assms
proof (induction es arbitrary: st outs)
  case (Cons e es)
  from Cons.prems(2) obtain s1 out outs1 where
    1: "pipeline_step always_ok L st e = Some (s1, out)"
      "run_steps (pipeline_step always_ok L) s1 es = Some (st', outs1)"
    by (auto split: option.splits prod.splits)
  have inv: "pipeline_inv s1" by (rule pipeline_step_inv [OF always_ok Cons.prems(1) 1(1)])
  have split: "jobs_sent (e # es) = jobs_sent [e] @ jobs_sent es"
    by (cases e) simp_all
  show ?case
    using Cons.IH [OF inv 1(2)] step_delivered [OF Cons.prems(1) 1(1)] by (simp add: split)
qed simp

lemma quiescent_pipeline:
  assumes "run_steps (pipeline_step always_ok L) (fresh_pipeline db) es = Some (st', outs)"
    and "tantivy_reads visible" and "ix_inflight (pl_indexer st') = 0"
  shows "added (ops_of st') = map (document_of L) (jobs_sent es)" "visible (ops_of st') = applied (ops_of st')"
proof -
  have inv: "pipeline_inv st'"
    using pipeline.run_inv [OF fresh_pipeline_inv _ assms(1)] by simp
  then have "ix_inflight (pl_indexer st') =
      int (length (pl_queue st')) + int (length (iw_journal (ix_writer (pl_indexer st'))))"
    by (simp add: pipeline_inv_def)
  then have "length (pl_queue st') = 0" "length (iw_journal (ix_writer (pl_indexer st'))) = 0"
    using assms(3) by linarith+
  then have empty: "pl_queue st' = []" "iw_journal (ix_writer (pl_indexer st')) = []" by simp_all
  show "added (ops_of st') = map (document_of L) (jobs_sent es)"
    using run_delivered [OF fresh_pipeline_inv assms(1)] empty by (simp add: delivered_def fresh_pipeline_def)
  show "visible (ops_of st') = applied (ops_of st')"
  proof (cases "ops_of st' = []")
    case True
    with assms(2) show ?thesis by (simp add: tantivy_reads_def applied_def)
  next
    case False
    with inv empty have "ops_of st' = butlast (ops_of st') @ [CommitOp]"
      by (metis append_butlast_last_id pipeline_inv_def)
    with assms(2) show ?thesis unfolding tantivy_reads_def by metis
  qed
qed

text \<open>The counter of jobs in flight is exact. In any interleaving of senders, deletions and turns of the indexer, as
  long as the index accepts what it is given, the counter is the number of jobs queued plus the number of documents
  written but not yet committed, never negative; when it is zero every job ever sent has been written, in the order of
  sending, and committed, so that all of it is visible to searches.\<close>

theorem inflight_counter_exact:
  assumes "run_steps (pipeline_step always_ok L) (fresh_pipeline db) es = Some (st', outs)"
    and "tantivy_reads visible"
  shows "ix_inflight (pl_indexer st') =
      int (length (pl_queue st')) + int (length (iw_journal (ix_writer (pl_indexer st')))) \<and>
    (ix_inflight (pl_indexer st') = 0 \<longrightarrow>
      added (ops_of st') = map (document_of L) (jobs_sent es) \<and> visible (ops_of st') = applied (ops_of st'))"
proof -
  have "pipeline_inv st'"
    using pipeline.run_inv [OF fresh_pipeline_inv _ assms(1)] by simp
  then show ?thesis using quiescent_pipeline [OF assms] by (auto simp: pipeline_inv_def)
qed

section \<open>The latest version of every page\<close>

definition replace_doc :: "index_doc \<Rightarrow> index_doc multiset \<Rightarrow> index_doc multiset" where
  "replace_doc d docs = filter_mset (\<lambda>x. id_url x \<noteq> id_url d) docs + {#d#}"

definition only_upserts :: "'j pipeline \<Rightarrow> bool" where
  "only_upserts st \<longleftrightarrow>
     pl_deletes st = [] \<and> applied (ops_of st) = fold replace_doc (added (ops_of st)) {#}"

lemma applied_append: "applied (a @ b) = fold apply_op b (applied a)"
  by (simp add: applied_def)

lemma id_url_document [simp]: "id_url (document_of L job) = ij_url job"
  by (simp add: document_of_def)

lemma step_only_upserts:
  assumes "pipeline_inv st" and "only_upserts st" and "pipeline_step always_ok L st e = Some (st', out)"
    and "\<And>us. e \<noteq> SendDeletes us"
  shows "only_upserts st'"
proof (cases e)
  case (SendJob j)
  with assms show ?thesis by (auto simp: only_upserts_def count_job_def split: if_splits)
next
  case IndexerTurn
  have run: "pl_running st" using assms(1) by (simp add: pipeline_inv_def)
  show ?thesis
  proof (cases "pl_queue st")
    case (Cons job jobs)
    with IndexerTurn run assms(2,3) show ?thesis
      by (auto simp: next_event_def only_upserts_def writer_upsert_ok flush_ok Let_def applied_append
          replace_doc_def split: if_splits)
  next
    case Nil
    with IndexerTurn run assms(2,3) show ?thesis
      by (auto simp: next_event_def only_upserts_def flush_ok Let_def applied_append split: if_splits)
  qed
qed (use assms in blast)

lemma run_only_upserts:
  assumes "pipeline_inv st" and "only_upserts st"
    and "run_steps (pipeline_step always_ok L) st es = Some (st', outs)" and "\<And>us. SendDeletes us \<notin> set es"
  shows "only_upserts st'"
  using assms
proof (induction es arbitrary: st outs)
  case (Cons e es)
  from Cons.prems(3) obtain s1 out outs1 where
    1: "pipeline_step always_ok L st e = Some (s1, out)"
      "run_steps (pipeline_step always_ok L) s1 es = Some (st', outs1)"
    by (auto split: option.splits prod.splits)
  have "pipeline_inv s1" by (rule pipeline_step_inv [OF always_ok Cons.prems(1) 1(1)])
  moreover have "only_upserts s1"
    using step_only_upserts [OF Cons.prems(1,2) 1(1)] Cons.prems(4) by auto
  ultimately show ?case using Cons.IH [OF _ _ 1(2)] Cons.prems(4) by auto
qed simp

lemma filter_replaced:
  "filter_mset (\<lambda>d. id_url d = u) (fold replace_doc ds {#}) =
     (case filter (\<lambda>d. id_url d = u) ds of [] \<Rightarrow> {#} | xs \<Rightarrow> {#last xs#})"
proof (induction ds rule: rev_induct)
  case (snoc d ds)
  show ?case
  proof (cases "id_url d = u")
    case True
    have "filter_mset (\<lambda>x. id_url x = u \<and> id_url x \<noteq> u) M = {#}" for M :: "index_doc multiset"
      by (simp add: filter_mset_eq_conv)
    with True show ?thesis
      by (cases "filter (\<lambda>d. id_url d = u) ds") (auto simp: replace_doc_def filter_filter_mset conj_commute)
  next
    case False
    then have "filter_mset (\<lambda>x. id_url x = u \<and> id_url x \<noteq> id_url d) M = filter_mset (\<lambda>x. id_url x = u) M"
      for M :: "index_doc multiset"
      by (intro filter_mset_cong) auto
    with False snoc.IH show ?thesis
      by (auto simp: replace_doc_def filter_filter_mset conj_commute)
  qed
qed simp


section \<open>Where the index and its journal part\<close>

lemma mark_indexed_other:
  "page_get_by_url c u (mark_indexed_batch es db) = page_get_by_url c u db"
  if "\<And>e. e \<in> set es \<Longrightarrow> ie_collection_id e \<noteq> c \<or> ie_url e \<noteq> u"
  using that
proof (induction es arbitrary: db)
  case (Cons e es)
  have "find_by page_key (c, u) (mark_indexed e (pages db)) = find_by page_key (c, u) (pages db)"
  proof -
    have "find_by page_key (c, u) (mark_indexed e (pages db)) =
        map_option (\<lambda>p. if p_collection_id p = ie_collection_id e \<and> p_url p = ie_url e
          then p\<lparr>p_indexed_content_hash := Some (ie_content_hash e)\<rparr> else p) (find_by page_key (c, u) (pages db))"
      unfolding mark_indexed_def by (rule find_by_update_where) (simp add: page_key_def)
    moreover have "\<not> (p_collection_id p = ie_collection_id e \<and> p_url p = ie_url e)"
      if "find_by page_key (c, u) (pages db) = Some p" for p
      using find_by_SomeD [OF that] Cons.prems [of e] by (auto simp: page_key_def)
    ultimately show ?thesis by (cases "find_by page_key (c, u) (pages db)") auto
  qed
  with Cons.IH [of "db\<lparr>pages := mark_indexed e (pages db)\<rparr>"] Cons.prems
  show ?case by (simp add: mark_indexed_batch_def page_get_by_url_def)
qed (simp add: mark_indexed_batch_def)

lemma mark_indexed_last:
  assumes "page_get_by_url (ie_collection_id e) (ie_url e) db = Some r"
    and "\<And>x. x \<in> set es \<Longrightarrow> ie_collection_id x \<noteq> ie_collection_id e \<or> ie_url x \<noteq> ie_url e"
  shows "page_get_by_url (ie_collection_id e) (ie_url e) (mark_indexed_batch (e # es) db) =
    Some (r\<lparr>p_indexed_content_hash := Some (ie_content_hash e)\<rparr>)"
proof -
  let ?db = "db\<lparr>pages := mark_indexed e (pages db)\<rparr>"
  have "mark_indexed_batch (e # es) db = mark_indexed_batch es ?db" by (simp add: mark_indexed_batch_def)
  moreover have "page_get_by_url (ie_collection_id e) (ie_url e) ?db =
      Some (r\<lparr>p_indexed_content_hash := Some (ie_content_hash e)\<rparr>)"
  proof -
    have "find_by page_key (ie_collection_id e, ie_url e) (mark_indexed e (pages db)) =
        map_option (\<lambda>p. if p_collection_id p = ie_collection_id e \<and> p_url p = ie_url e
          then p\<lparr>p_indexed_content_hash := Some (ie_content_hash e)\<rparr> else p)
          (find_by page_key (ie_collection_id e, ie_url e) (pages db))"
      unfolding mark_indexed_def by (rule find_by_update_where) (simp add: page_key_def)
    moreover have r: "find_by page_key (ie_collection_id e, ie_url e) (pages db) = Some r"
      using assms(1) by (simp add: page_get_by_url_def)
    ultimately show ?thesis
      using find_by_SomeD [OF r] by (auto simp: page_get_by_url_def page_key_def)
  qed
  moreover have "page_get_by_url (ie_collection_id e) (ie_url e) (mark_indexed_batch es ?db) =
      page_get_by_url (ie_collection_id e) (ie_url e) ?db"
    by (rule mark_indexed_other) (use assms(2) in blast)
  ultimately show ?thesis by argo
qed

text \<open>One page in two collections is searchable in one of them only. The index replaces documents by URL while the
  crawl state is kept per collection and URL. When the same URL is crawled for two collections, after everything has
  been committed no document of the URL belongs to the first collection, yet its row records the page as indexed with
  its current content, so that an unchanged page is not sent again.\<close>

theorem shared_url_leaves_first_collection:
  assumes "ij_url j1 = ij_url j2" and "ij_collection_id j1 \<noteq> ij_collection_id j2"
    and "ij_collection_name j1 \<noteq> ij_collection_name j2"
    and "page_get_by_url (ij_collection_id j1) (ij_url j1) db = Some r"
    and "tantivy_reads visible"
  shows "\<exists>st' outs.
    run_steps (pipeline_step always_ok L) (fresh_pipeline db)
      [SendJob j1, SendJob j2, IndexerTurn, IndexerTurn, IndexerTurn] = Some (st', outs) \<and>
    ix_inflight (pl_indexer st') = 0 \<and>
    (\<forall>d \<in># visible (ops_of st'). id_url d = ij_url j1 \<longrightarrow> id_collection d \<noteq> ij_collection_name j1) \<and>
    page_get_by_url (ij_collection_id j1) (ij_url j1) (ix_db (pl_indexer st')) =
      Some (r\<lparr>p_indexed_content_hash := Some (ij_content_hash j1)\<rparr>)"
proof -
  let ?ops = "[DeleteTerm (ij_url j2), AddDocument (document_of L j1), DeleteTerm (ij_url j2),
      AddDocument (document_of L j2)]"
  let ?st = "\<lparr>pl_queue = [], pl_deletes = [],
      pl_indexer = \<lparr>ix_writer = \<lparr>iw_ops = ?ops @ [CommitOp], iw_journal = []\<rparr>, ix_pending = 0, ix_delete_open = True,
        ix_db = mark_indexed_batch [journal_entry j1, journal_entry j2] db, ix_inflight = 0\<rparr>, pl_running = True\<rparr>"
  have run: "run_steps (pipeline_step always_ok L) (fresh_pipeline db)
      [SendJob j1, SendJob j2, IndexerTurn, IndexerTurn, IndexerTurn] = Some (?st, [True, True, True, True, True])"
    using assms(1)
    by (simp add: fresh_pipeline_def count_job_def next_event_def writer_upsert_ok flush_ok Let_def BATCH_SIZE_def)
  have "visible (?ops @ [CommitOp]) = {#document_of L j2#}"
    unfolding tantivy_reads_commit [OF assms(5)] using assms(1) by (simp add: applied_def)
  moreover have "id_collection (document_of L j2) = ij_collection_name j2" by (simp add: document_of_def)
  moreover have "page_get_by_url (ij_collection_id j1) (ij_url j1)
      (mark_indexed_batch [journal_entry j1, journal_entry j2] db) =
      Some (r\<lparr>p_indexed_content_hash := Some (ij_content_hash j1)\<rparr>)"
    using mark_indexed_last [of "journal_entry j1" db r "[journal_entry j2]"] assms(2,4)
    by (simp add: journal_entry_def)
  ultimately show ?thesis using run assms(3) by (intro exI [where x = ?st]) simp
qed

text \<open>A deletion overtaken by a newer version of the page deletes that version. The indexer serves jobs before
  deletions: when a deletion of a URL is requested and afterwards a job for the same URL is sent, before the indexer
  turns to either, the document of the job is written first and then deleted in the same commit, while the journal
  records it as indexed.\<close>

theorem overtaken_deletion_loses_page:
  assumes "page_get_by_url (ij_collection_id j) (ij_url j) db = Some r" and "tantivy_reads visible"
  shows "\<exists>st' outs.
    run_steps (pipeline_step always_ok L) (fresh_pipeline db)
      [SendDeletes [ij_url j], SendJob j, IndexerTurn, IndexerTurn] = Some (st', outs) \<and>
    ix_inflight (pl_indexer st') = 0 \<and> visible (ops_of st') = {#} \<and>
    page_get_by_url (ij_collection_id j) (ij_url j) (ix_db (pl_indexer st')) =
      Some (r\<lparr>p_indexed_content_hash := Some (ij_content_hash j)\<rparr>)"
proof -
  let ?ops = "[DeleteTerm (ij_url j), AddDocument (document_of L j), DeleteTerm (ij_url j)]"
  let ?st = "\<lparr>pl_queue = [], pl_deletes = [],
      pl_indexer = \<lparr>ix_writer = \<lparr>iw_ops = ?ops @ [CommitOp], iw_journal = []\<rparr>, ix_pending = 0, ix_delete_open = True,
        ix_db = mark_indexed_batch [journal_entry j] db, ix_inflight = 0\<rparr>, pl_running = True\<rparr>"
  have run: "run_steps (pipeline_step always_ok L) (fresh_pipeline db)
      [SendDeletes [ij_url j], SendJob j, IndexerTurn, IndexerTurn] = Some (?st, [True, True, True, True])"
    by (simp add: fresh_pipeline_def count_job_def next_event_def writer_upsert_ok flush_ok Let_def BATCH_SIZE_def
        writer_delete_url_def)
  have "visible (?ops @ [CommitOp]) = {#}"
    unfolding tantivy_reads_commit [OF assms(2)] by (simp add: applied_def)
  moreover have "page_get_by_url (ij_collection_id j) (ij_url j) (mark_indexed_batch [journal_entry j] db) =
      Some (r\<lparr>p_indexed_content_hash := Some (ij_content_hash j)\<rparr>)"
    using mark_indexed_last [of "journal_entry j" db r "[]"] assms(1) by (simp add: journal_entry_def)
  ultimately show ?thesis using run by (intro exI [where x = ?st]) simp
qed

section \<open>A small run\<close>

definition sample_job :: "string \<Rightarrow> string \<Rightarrow> index_job" where
  "sample_job c h =
     \<lparr>ij_collection_name = c, ij_url = ''https://a.example/'', ij_title = ''t'', ij_body = ''b'', ij_indexed_at = 0,
      ij_collection_id = c, ij_content_hash = h\<rparr>"

definition sample_page_row :: page_row where
  "sample_page_row =
     \<lparr>p_id = 1, p_collection_id = ''c1'', p_crawl_target_id = ''t'', p_url = ''https://a.example/'', p_etag = None,
      p_last_modified = None, p_content_hash = Some ''h1'', p_last_status = Some 200, p_last_crawled_at = 0,
      p_indexed_content_hash = None\<rparr>"

definition sample_pages :: "nat content_db" where
  "sample_pages = \<lparr>collections = [], targets = [], pages = [sample_page_row], outlinks = []\<rparr>"

lemma sample_page_found: "page_get_by_url ''c1'' ''https://a.example/'' sample_pages = Some sample_page_row"
  by (simp add: page_get_by_url_def sample_pages_def sample_page_row_def page_key_def)

theorem shared_url_leaves_first_collection_witness:
  "\<exists>st' outs. run_steps (pipeline_step always_ok sample_lib) (fresh_pipeline sample_pages)
      [SendJob (sample_job ''c1'' ''h1''), SendJob (sample_job ''c2'' ''h1''), IndexerTurn, IndexerTurn, IndexerTurn] =
      Some (st', outs) \<and> ix_inflight (pl_indexer st') = 0 \<and>
    (\<forall>d \<in># applied (ops_of st'). id_url d = ''https://a.example/'' \<longrightarrow> id_collection d \<noteq> ''c1'')"
proof -
  have f: "page_get_by_url (ij_collection_id (sample_job ''c1'' ''h1'')) (ij_url (sample_job ''c1'' ''h1'')) sample_pages =
      Some sample_page_row"
    by (simp add: sample_job_def sample_page_found)
  from shared_url_leaves_first_collection [OF _ _ _ f tantivy_reads_applied,
      of "sample_job ''c2'' ''h1''" sample_lib]
  show ?thesis by (force simp: sample_job_def)
qed

theorem overtaken_deletion_loses_page_witness:
  "\<exists>st' outs. run_steps (pipeline_step always_ok sample_lib) (fresh_pipeline sample_pages)
      [SendDeletes [''https://a.example/''], SendJob (sample_job ''c1'' ''h1''), IndexerTurn, IndexerTurn] =
      Some (st', outs) \<and> applied (ops_of st') = {#}"
proof -
  have f: "page_get_by_url (ij_collection_id (sample_job ''c1'' ''h1'')) (ij_url (sample_job ''c1'' ''h1'')) sample_pages =
      Some sample_page_row"
    by (simp add: sample_job_def sample_page_found)
  from overtaken_deletion_loses_page [OF f tantivy_reads_applied, of sample_lib]
  show ?thesis by (force simp: sample_job_def)
qed

lemma sample_run:
  "\<exists>st' outs. run_steps (pipeline_step always_ok sample_lib) (fresh_pipeline sample_pages)
     [SendJob (sample_job ''c1'' ''h1''), IndexerTurn, IndexerTurn] = Some (st', outs) \<and>
     ix_inflight (pl_indexer st') = 0"
  by (simp add: fresh_pipeline_def count_job_def next_event_def writer_upsert_ok flush_ok Let_def BATCH_SIZE_def)

theorem inflight_counter_exact_witness:
  "\<exists>st' outs. run_steps (pipeline_step always_ok sample_lib) (fresh_pipeline sample_pages)
     [SendJob (sample_job ''c1'' ''h1''), IndexerTurn, IndexerTurn] = Some (st', outs) \<and>
     added (ops_of st') = [document_of sample_lib (sample_job ''c1'' ''h1'')]"
proof -
  obtain st' outs where r: "run_steps (pipeline_step always_ok sample_lib) (fresh_pipeline sample_pages)
     [SendJob (sample_job ''c1'' ''h1''), IndexerTurn, IndexerTurn] = Some (st', outs)"
    "ix_inflight (pl_indexer st') = 0"
    using sample_run by blast
  from inflight_counter_exact [OF r(1) tantivy_reads_applied] r show ?thesis by auto
qed


end
