(* ===== verification/Sitemap.thy ===== *)
theory Sitemap
  imports Fetch Parser
begin

text \<open>
  \<open>crawler/sitemap.rs\<close>: seeding a crawl from the sitemaps of a site. The XML reader is \<open>ce_xml\<close>, the list of the events
  of a document up to its end or (\<open>None\<close>) an error; a \<open>HashSet\<close> is the list of its elements in the order of insertion,
  and \<open>ce_order\<close> the order in which it is iterated.
\<close>

datatype xml_event = XStart string | XText "string option" | XEnd string | XOther

text \<open>Everything outside the program that a crawl talks to.\<close>

record 'r crawl_env =
  ce_url :: url_lib
  ce_web :: web_lib
  ce_robots :: "'r robots_lib"
  ce_net :: web
  ce_agent :: string
  ce_xml :: "string \<Rightarrow> xml_event option list"
  ce_html :: "string \<Rightarrow> dom"
  ce_sha256 :: "string \<Rightarrow> string"
  ce_order :: "string list \<Rightarrow> string list"

definition allowed :: "'r crawl_env \<Rightarrow> string \<Rightarrow> 'r robots_state \<Rightarrow> 'r robots_state \<times> bool crawl_result" where
  "allowed E u st = is_allowed (ce_url E) (ce_robots E) (ce_web E) (ce_net E) (ce_agent E) u st"

section \<open>Parsing a sitemap\<close>

definition local_name :: "string \<Rightarrow> string" where
  "local_name qname = (case splitn2 CHR '':'' qname of (_, Some rest) \<Rightarrow> rest | (whole, None) \<Rightarrow> whole)"

datatype parsed_sitemap = Urls "string list" | Index "string list"

fun sitemap_loop :: "xml_event option list \<Rightarrow> bool \<Rightarrow> bool \<Rightarrow> bool \<Rightarrow> string list \<Rightarrow> parsed_sitemap option" where
  "sitemap_loop [] is_index root_seen in_loc locs = Some (if is_index then Index locs else Urls locs)"
| "sitemap_loop (None # evs) is_index root_seen in_loc locs = None"
| "sitemap_loop (Some (XStart qname) # evs) is_index root_seen in_loc locs =
     sitemap_loop evs (is_index \<or> (\<not> root_seen \<and> local_name qname = ''sitemapindex'')) True
       (in_loc \<or> local_name qname = ''loc'') locs"
| "sitemap_loop (Some (XText t) # evs) is_index root_seen in_loc locs =
     (case t of
        Some s \<Rightarrow>
          sitemap_loop evs is_index root_seen in_loc
            (if in_loc \<and> str_trim s \<noteq> [] then locs @ [str_trim s] else locs)
      | None \<Rightarrow> sitemap_loop evs is_index root_seen in_loc locs)"
| "sitemap_loop (Some (XEnd qname) # evs) is_index root_seen in_loc locs =
     sitemap_loop evs is_index root_seen (in_loc \<and> local_name qname \<noteq> ''loc'') locs"
| "sitemap_loop (Some XOther # evs) is_index root_seen in_loc locs =
     sitemap_loop evs is_index root_seen in_loc locs"

definition parse_sitemap :: "'r crawl_env \<Rightarrow> string \<Rightarrow> parsed_sitemap option" where
  "parse_sitemap E body = sitemap_loop (ce_xml E body) False False False []"

section \<open>Discovery\<close>

definition MAX_SITEMAP_BYTES :: nat where "MAX_SITEMAP_BYTES = 10 * 1024 * 1024"

definition MAX_SITEMAPS_PER_TARGET :: nat where "MAX_SITEMAPS_PER_TARGET = 20"

definition default_sitemap_url :: "url_lib \<Rightarrow> string \<Rightarrow> string option" where
  "default_sitemap_url L seed_url =
     (case parse_url L seed_url of
        None \<Rightarrow> None
      | Some parsed \<Rightarrow>
          (case host parsed of
             None \<Rightarrow> None
           | Some h \<Rightarrow>
               Some (scheme parsed @ ''://'' @ h @
                 (case url_port parsed of None \<Rightarrow> [] | Some p \<Rightarrow> '':'' @ show_nat p) @ ''/sitemap.xml'')))"

definition collect_sitemap_candidates ::
  "'r crawl_env \<Rightarrow> string \<Rightarrow> 'r robots_state \<Rightarrow> 'r robots_state \<times> string list" where
  "collect_sitemap_candidates E seed_url st =
     (let (st', r) = sitemaps_for (ce_url E) (ce_robots E) (ce_web E) (ce_net E) (ce_agent E) seed_url st;
          out = unwrap_or [] r in
      (st', case default_sitemap_url (ce_url E) seed_url of
              None \<Rightarrow> out
            | Some d \<Rightarrow> if d \<in> set out then out else out @ [d]))"

text \<open>The page URLs of one sitemap; the flag says that the limit is reached.\<close>

fun add_urls ::
  "'r crawl_env \<Rightarrow> string \<Rightarrow> nat \<Rightarrow> string list \<Rightarrow> 'r robots_state \<Rightarrow> string list \<Rightarrow>
   'r robots_state \<times> string list \<times> bool" where
  "add_urls E pfx max_urls [] st found = (st, found, False)"
| "add_urls E pfx max_urls (u # us) st found =
     (case normalize_url (ce_url E) u of
        None \<Rightarrow> add_urls E pfx max_urls us st found
      | Some nurl \<Rightarrow>
          if \<not> is_in_prefix (ce_url E) nurl pfx then add_urls E pfx max_urls us st found
          else
            (let (st', r) = allowed E nurl st in
             if \<not> unwrap_or True r then add_urls E pfx max_urls us st' found
             else
               (let found' = List.insert nurl found in
                if max_urls \<le> length found' then (st', found', True)
                else add_urls E pfx max_urls us st' found')))"

text \<open>The children of an index that are followed: bounded by what has been visited and queued so far.\<close>

fun push_children :: "string list \<Rightarrow> string list \<Rightarrow> string list \<Rightarrow> string list" where
  "push_children visited next_round [] = next_round"
| "push_children visited next_round (c # cs) =
     (if c \<notin> set visited \<and> length next_round + length visited < MAX_SITEMAPS_PER_TARGET
      then push_children visited (next_round @ [c]) cs
      else push_children visited next_round cs)"

record 'r discovery =
  dv_robots :: "'r robots_state"
  dv_found :: "string list"
  dv_visited :: "string list"
  dv_next :: "string list"

fun visit_sitemaps ::
  "'r crawl_env \<Rightarrow> string \<Rightarrow> nat \<Rightarrow> string list \<Rightarrow> 'r discovery \<Rightarrow> 'r discovery \<times> bool" where
  "visit_sitemaps E pfx max_urls [] d = (d, False)"
| "visit_sitemaps E pfx max_urls (sm_url # rest) d =
     (if sm_url \<in> set (dv_visited d) then visit_sitemaps E pfx max_urls rest d
      else
        (let d1 = d\<lparr>dv_visited := dv_visited d @ [sm_url]\<rparr>;
             (st, r) = allowed E sm_url (dv_robots d1);
             d2 = d1\<lparr>dv_robots := st\<rparr> in
         if \<not> unwrap_or True r then visit_sitemaps E pfx max_urls rest d2
         else
           (case fetch_text_raw (ce_web E) (ce_net E) (ce_agent E) sm_url MAX_SITEMAP_BYTES (rs_sent st) of
              (sent', Inr (Some body)) \<Rightarrow>
                (let d3 = d2\<lparr>dv_robots := st\<lparr>rs_sent := sent'\<rparr>\<rparr> in
                 case parse_sitemap E body of
                   None \<Rightarrow> visit_sitemaps E pfx max_urls rest d3
                 | Some (Urls us) \<Rightarrow>
                     (let (st4, found, full) = add_urls E pfx max_urls us (dv_robots d3) (dv_found d3);
                          d4 = d3\<lparr>dv_robots := st4, dv_found := found\<rparr> in
                      if full then (d4, True) else visit_sitemaps E pfx max_urls rest d4)
                 | Some (Index children) \<Rightarrow>
                     visit_sitemaps E pfx max_urls rest
                       (d3\<lparr>dv_next := push_children (dv_visited d3) (dv_next d3) children\<rparr>))
            | (sent', _) \<Rightarrow>
                visit_sitemaps E pfx max_urls rest (d2\<lparr>dv_robots := st\<lparr>rs_sent := sent'\<rparr>\<rparr>))))"

fun sitemap_rounds ::
  "'r crawl_env \<Rightarrow> string \<Rightarrow> nat \<Rightarrow> nat \<Rightarrow> string list \<Rightarrow> 'r discovery \<Rightarrow> 'r discovery" where
  "sitemap_rounds E pfx max_urls depth_remaining to_visit d =
     (let (d', full) = visit_sitemaps E pfx max_urls to_visit (d\<lparr>dv_next := []\<rparr>) in
      if full \<or> dv_next d' = [] then d'
      else (case depth_remaining of
              0 \<Rightarrow> d' | Suc n \<Rightarrow> sitemap_rounds E pfx max_urls n (dv_next d') d'))"

declare sitemap_rounds.simps [simp del]

definition discover ::
  "'r crawl_env \<Rightarrow> string \<Rightarrow> string \<Rightarrow> nat \<Rightarrow> 'r robots_state \<Rightarrow> 'r discovery" where
  "discover E seed_url pfx max_urls st =
     (if max_urls = 0 then \<lparr>dv_robots = st, dv_found = [], dv_visited = [], dv_next = []\<rparr>
      else
        (let (st', candidates) = collect_sitemap_candidates E seed_url st;
             d = \<lparr>dv_robots = st', dv_found = [], dv_visited = [], dv_next = []\<rparr> in
         if candidates = [] then d
         else sitemap_rounds E pfx max_urls 1 (take MAX_SITEMAPS_PER_TARGET candidates) d))"

definition discover_urls ::
  "'r crawl_env \<Rightarrow> string \<Rightarrow> string \<Rightarrow> nat \<Rightarrow> 'r robots_state \<Rightarrow> 'r robots_state \<times> string list" where
  "discover_urls E seed_url pfx max_urls st =
     (let d = discover E seed_url pfx max_urls st in (dv_robots d, ce_order E (dv_found d)))"

section \<open>Facts\<close>

text \<open>What the rules known in a state say about a URL.\<close>

definition permitted :: "'r crawl_env \<Rightarrow> 'r robots_state \<Rightarrow> string \<Rightarrow> bool" where
  "permitted E st u =
     (case origin_of (ce_url E) u of
        Inl _ \<Rightarrow> True
      | Inr origin \<Rightarrow>
          (case cached_rules st origin of Some rules \<Rightarrow> rb_allowed (ce_robots E) rules u | None \<Rightarrow> True))"

text \<open>Later states know at least the rules of earlier ones.\<close>

definition knows :: "'r robots_state \<Rightarrow> 'r robots_state \<Rightarrow> bool" where
  "knows st st' \<longleftrightarrow> (\<forall>origin rules. rs_cache st origin = Some rules \<longrightarrow> rs_cache st' origin = Some rules)"

definition asked :: "'r crawl_env \<Rightarrow> 'r robots_state \<Rightarrow> string \<Rightarrow> bool" where
  "asked E st u \<longleftrightarrow> (\<forall>origin. origin_of (ce_url E) u = Inr origin \<longrightarrow> rs_cache st origin \<noteq> None)"

lemma knows_refl [simp]: "knows st st" and knows_trans: "knows a b \<Longrightarrow> knows b c \<Longrightarrow> knows a c"
  by (simp_all add: knows_def)

lemma knows_sent [simp]: "knows st (st'\<lparr>rs_sent := x\<rparr>) = knows st st'"
  by (simp add: knows_def)

lemma allowed_state: "fst (allowed E u st) = fst (ensure_cached (ce_url E) (ce_robots E) (ce_web E) (ce_net E) (ce_agent E) u st)"
  by (simp add: allowed_def is_allowed_def Let_def case_prod_unfold)

lemma allowed_knows: "allowed E u st = (st', r) \<Longrightarrow> knows st st'"
  using allowed_state [of E u st] ensure_cached_keeps by (fastforce simp: knows_def)

lemma allowed_asked: "allowed E u st = (st', r) \<Longrightarrow> asked E st' u"
  using allowed_state [of E u st] ensure_cached_caches by (fastforce simp: asked_def)

lemma allowed_permitted: "allowed E u st = (st', r) \<Longrightarrow> unwrap_or True r = permitted E st' u"
proof -
  assume a: "allowed E u st = (st', r)"
  have "snd (ensure_cached (ce_url E) (ce_robots E) (ce_web E) (ce_net E) (ce_agent E) u st) = origin_of (ce_url E) u"
    by (rule ensure_cached_result)
  with a show ?thesis
    by (cases "origin_of (ce_url E) u")
      (auto simp: allowed_def is_allowed_def permitted_def Let_def case_prod_unfold)
qed

lemma permitted_knows:
  assumes "asked E st u" and "knows st st'"
  shows "permitted E st' u = permitted E st u" "asked E st' u"
proof -
  have "permitted E st' u = permitted E st u \<and> asked E st' u"
  proof (cases "origin_of (ce_url E) u")
    case (Inr origin)
    with assms(1) obtain rules where "rs_cache st origin = Some rules" by (auto simp: asked_def)
    moreover from this assms(2) have "rs_cache st' origin = Some rules" by (simp add: knows_def)
    ultimately show ?thesis using Inr by (simp add: permitted_def asked_def cached_rules_def)
  qed (simp add: permitted_def asked_def)
  then show "permitted E st' u = permitted E st u" "asked E st' u" by simp_all
qed

text \<open>What holds of a URL that was taken.\<close>

definition good_seed :: "'r crawl_env \<Rightarrow> string \<Rightarrow> 'r robots_state \<Rightarrow> string \<Rightarrow> bool" where
  "good_seed E pfx st u \<longleftrightarrow>
     (\<exists>v. normalize_url (ce_url E) v = Some u) \<and> is_in_prefix (ce_url E) u pfx \<and> permitted E st u \<and> asked E st u"

lemma good_seed_knows: "good_seed E pfx st u \<Longrightarrow> knows st st' \<Longrightarrow> good_seed E pfx st' u"
  using permitted_knows [of E st u st'] by (auto simp: good_seed_def)

definition found_ok :: "'r crawl_env \<Rightarrow> string \<Rightarrow> 'r robots_state \<Rightarrow> string list \<Rightarrow> bool" where
  "found_ok E pfx st found \<longleftrightarrow> distinct found \<and> (\<forall>u \<in> set found. good_seed E pfx st u)"

lemma found_ok_knows: "found_ok E pfx st found \<Longrightarrow> knows st st' \<Longrightarrow> found_ok E pfx st' found"
  using good_seed_knows [of E pfx st _ st'] by (auto simp: found_ok_def)

lemma found_ok_insert: "found_ok E pfx st found \<Longrightarrow> good_seed E pfx st u \<Longrightarrow> found_ok E pfx st (List.insert u found)"
  by (auto simp: found_ok_def List.insert_def)

lemma add_urls_good:
  assumes "add_urls E pfx max_urls us st found = (st', found', full)"
    and "found_ok E pfx st found" and "length found < max_urls"
  shows "knows st st' \<and> found_ok E pfx st' found' \<and> length found' \<le> max_urls \<and>
    (\<not> full \<longrightarrow> length found' < max_urls)"
  using assms
proof (induction us arbitrary: st found)
  case (Cons u us)
  show ?case
  proof (cases "normalize_url (ce_url E) u")
    case None
    with Cons.prems(1) have "add_urls E pfx max_urls us st found = (st', found', full)" by simp
    then show ?thesis by (rule Cons.IH [OF _ Cons.prems(2,3)])
  next
    case (Some nurl)
    show ?thesis
    proof (cases "is_in_prefix (ce_url E) nurl pfx")
      case False
      with Some Cons.prems(1) have "add_urls E pfx max_urls us st found = (st', found', full)" by simp
      then show ?thesis by (rule Cons.IH [OF _ Cons.prems(2,3)])
    next
      case True
      obtain s1 r where a: "allowed E nurl st = (s1, r)" by fastforce
      note k = allowed_knows [OF a]
      note f1 = found_ok_knows [OF Cons.prems(2) k]
      let ?f = "List.insert nurl found"
      show ?thesis
      proof (cases "unwrap_or True r")
        case no: False
        with Some True a Cons.prems(1) have "add_urls E pfx max_urls us s1 found = (st', found', full)" by simp
        from Cons.IH [OF this f1 Cons.prems(3)] k show ?thesis by (blast intro: knows_trans)
      next
        case yes: True
        have "good_seed E pfx s1 nurl"
          using Some True yes allowed_permitted [OF a] allowed_asked [OF a] by (auto simp: good_seed_def)
        note f = found_ok_insert [OF f1 this]
        have len: "length ?f \<le> max_urls" using Cons.prems(3) by (simp add: List.insert_def)
        show ?thesis
        proof (cases "max_urls \<le> length ?f")
          case full: True
          with Some True a yes Cons.prems(1) have "st' = s1" "found' = ?f" "full" by simp_all
          with f k len show ?thesis by blast
        next
          case False
          with Some True a yes Cons.prems(1)
          have "add_urls E pfx max_urls us s1 ?f = (st', found', full)" by simp
          from Cons.IH [OF this f] False k show ?thesis by (auto intro: knows_trans)
        qed
      qed
    qed
  qed
qed simp

lemma push_children_bound:
  "length next_round \<le> 19 \<Longrightarrow> visited \<noteq> [] \<Longrightarrow> length (push_children visited next_round cs) \<le> 19"
proof (induction cs arbitrary: next_round)
  case (Cons c cs)
  have "1 \<le> length visited" using Cons.prems(2) by (cases visited) simp_all
  then have "length next_round + length visited < 20 \<Longrightarrow> length (next_round @ [c]) \<le> 19" by simp
  with Cons show ?case by (auto simp: MAX_SITEMAPS_PER_TARGET_def)
qed simp

definition visits_ok :: "'r crawl_env \<Rightarrow> string \<Rightarrow> nat \<Rightarrow> nat \<Rightarrow> 'r discovery \<Rightarrow> 'r discovery \<Rightarrow> bool" where
  "visits_ok E pfx max_urls n d d' \<longleftrightarrow>
     knows (dv_robots d) (dv_robots d') \<and> found_ok E pfx (dv_robots d') (dv_found d') \<and>
     length (dv_found d') \<le> max_urls \<and> length (dv_visited d') \<le> length (dv_visited d) + n \<and>
     (length (dv_next d) \<le> 19 \<longrightarrow> length (dv_next d') \<le> 19)"

lemma visits_ok_trans:
  assumes "visits_ok E pfx max_urls n d1 d'" and "knows (dv_robots d) (dv_robots d1)"
    and "length (dv_visited d1) \<le> length (dv_visited d) + 1"
    and "length (dv_next d) \<le> 19 \<longrightarrow> length (dv_next d1) \<le> 19"
  shows "visits_ok E pfx max_urls (Suc n) d d'"
  using assms knows_trans by (auto simp: visits_ok_def)

lemma visit_good:
  assumes "visit_sitemaps E pfx max_urls to_visit d = (d', full)"
    and "found_ok E pfx (dv_robots d) (dv_found d)" and "length (dv_found d) < max_urls"
  shows "visits_ok E pfx max_urls (length to_visit) d d' \<and> (\<not> full \<longrightarrow> length (dv_found d') < max_urls)"
  using assms
proof (induction to_visit arbitrary: d)
  case Nil
  then show ?case by (simp add: visits_ok_def)
next
  case (Cons u us)
  show ?case
  proof (cases "u \<in> set (dv_visited d)")
    case True
    with Cons.prems(1) have "visit_sitemaps E pfx max_urls us d = (d', full)" by simp
    from Cons.IH [OF this Cons.prems(2,3)] show ?thesis by (auto intro: visits_ok_trans)
  next
    case False
    let ?d1 = "d\<lparr>dv_visited := dv_visited d @ [u]\<rparr>"
    obtain st r where a: "allowed E u (dv_robots d) = (st, r)" by fastforce
    note k = allowed_knows [OF a]
    let ?d2 = "?d1\<lparr>dv_robots := st\<rparr>"
    have rec: "visits_ok E pfx max_urls (Suc (length us)) d d' \<and> (\<not> full \<longrightarrow> length (dv_found d') < max_urls)"
      if "visit_sitemaps E pfx max_urls us d3 = (d', full)" "knows st (dv_robots d3)"
        "dv_visited d3 = dv_visited d @ [u]" "found_ok E pfx (dv_robots d3) (dv_found d3)"
        "length (dv_found d3) < max_urls" "length (dv_next d) \<le> 19 \<longrightarrow> length (dv_next d3) \<le> 19" for d3
      using Cons.IH [OF that(1,4,5)] visits_ok_trans [of E pfx max_urls "length us" d3 d' d]
        knows_trans [OF k that(2)] that(3,6) by simp
    have f2: "found_ok E pfx st (dv_found d)" by (rule found_ok_knows [OF Cons.prems(2) k])
    show ?thesis
    proof (cases "unwrap_or True r")
      case no: False
      with False a Cons.prems(1) have "visit_sitemaps E pfx max_urls us ?d2 = (d', full)" by simp
      from rec [OF this] f2 Cons.prems(3) show ?thesis by simp
    next
      case yes: True
      obtain sent' body where ft: "fetch_text_raw (ce_web E) (ce_net E) (ce_agent E) u MAX_SITEMAP_BYTES (rs_sent st) =
          (sent', body)" by fastforce
      let ?s3 = "st\<lparr>rs_sent := sent'\<rparr>"
      let ?d3 = "?d2\<lparr>dv_robots := ?s3\<rparr>"
      have k3: "knows st ?s3" by simp
      have f3: "found_ok E pfx ?s3 (dv_found d)" by (rule found_ok_knows [OF f2 k3])
      show ?thesis
      proof (cases "\<exists>b. body = Inr (Some b)")
        case nobody: False
        then have "(\<exists>e. body = Inl e) \<or> body = Inr None" by (cases body) auto
        with False a yes ft Cons.prems(1) have "visit_sitemaps E pfx max_urls us ?d3 = (d', full)"
          by (elim disjE exE) (simp_all add: Let_def)
        from rec [OF this] f3 Cons.prems(3) show ?thesis by simp
      next
        case True
        then obtain b where b: "body = Inr (Some b)" by blast
        show ?thesis
        proof (cases "parse_sitemap E b")
          case None
          with False a yes ft b Cons.prems(1) have "visit_sitemaps E pfx max_urls us ?d3 = (d', full)" by simp
          from rec [OF this] f3 Cons.prems(3) show ?thesis by simp
        next
          case (Some p)
          show ?thesis
          proof (cases p)
            case (Index children)
            let ?d4 = "?d3\<lparr>dv_next := push_children (dv_visited ?d3) (dv_next ?d3) children\<rparr>"
            from Index Some False a yes ft b Cons.prems(1)
            have "visit_sitemaps E pfx max_urls us ?d4 = (d', full)" by simp
            from rec [OF this] f3 Cons.prems(3) push_children_bound show ?thesis by simp
          next
            case (Urls locs)
            obtain s4 found full4 where ad:
              "add_urls E pfx max_urls locs ?s3 (dv_found d) = (s4, found, full4)" by (metis prod_cases3)
            note g = add_urls_good [OF ad f3 Cons.prems(3)]
            let ?d4 = "?d3\<lparr>dv_robots := s4, dv_found := found\<rparr>"
            have k4: "knows st s4" using g knows_trans [OF k3] by blast
            show ?thesis
            proof (cases full4)
              case full4: True
              with Urls Some False a yes ft b ad Cons.prems(1) have "d' = ?d4" "full" by simp_all
              with g knows_trans [OF k k4] show ?thesis by (simp add: visits_ok_def)
            next
              case nf: False
              with Urls Some False a yes ft b ad Cons.prems(1)
              have "visit_sitemaps E pfx max_urls us ?d4 = (d', full)" by simp
              from rec [OF this] g k4 nf show ?thesis by simp
            qed
          qed
        qed
      qed
    qed
  qed
qed

lemma rounds_good:
  assumes "found_ok E pfx (dv_robots d) (dv_found d)" and "length (dv_found d) < max_urls"
    and "d' = sitemap_rounds E pfx max_urls n to_visit d"
  shows "knows (dv_robots d) (dv_robots d') \<and> found_ok E pfx (dv_robots d') (dv_found d') \<and>
    length (dv_found d') \<le> max_urls \<and> length (dv_visited d') \<le> length (dv_visited d) + length to_visit + 19 * n"
  using assms
proof (induction n arbitrary: to_visit d)
  case 0
  obtain d1 full where v: "visit_sitemaps E pfx max_urls to_visit (d\<lparr>dv_next := []\<rparr>) = (d1, full)" by fastforce
  have "d' = d1" using 0(3) by (simp add: sitemap_rounds.simps v)
  with visit_good [OF v] 0(1,2) show ?case by (simp add: visits_ok_def)
next
  case (Suc n)
  obtain d1 full where v: "visit_sitemaps E pfx max_urls to_visit (d\<lparr>dv_next := []\<rparr>) = (d1, full)" by fastforce
  have g: "knows (dv_robots d) (dv_robots d1)" "found_ok E pfx (dv_robots d1) (dv_found d1)"
    "length (dv_found d1) \<le> max_urls" "length (dv_visited d1) \<le> length (dv_visited d) + length to_visit"
    "length (dv_next d1) \<le> 19" "\<not> full \<Longrightarrow> length (dv_found d1) < max_urls"
    using visit_good [OF v] Suc.prems(1,2) by (simp_all add: visits_ok_def)
  show ?case
  proof (cases "full \<or> dv_next d1 = []")
    case True
    then have "d' = d1" using Suc.prems(3) by (simp add: sitemap_rounds.simps [of E pfx max_urls "Suc n"] v)
    with g show ?thesis by simp
  next
    case False
    then have "d' = sitemap_rounds E pfx max_urls n (dv_next d1) d1"
      using Suc.prems(3) by (simp add: sitemap_rounds.simps [of E pfx max_urls "Suc n"] v)
    from Suc.IH [OF g(2) g(6) this] False g show ?thesis by (auto intro: knows_trans)
  qed
qed

lemma discover_good:
  "found_ok E pfx (dv_robots (discover E seed_url pfx max_urls st)) (dv_found (discover E seed_url pfx max_urls st)) \<and>
   length (dv_found (discover E seed_url pfx max_urls st)) \<le> max_urls \<and>
   length (dv_visited (discover E seed_url pfx max_urls st)) \<le> 39"
proof -
  obtain st' cands where c: "collect_sitemap_candidates E seed_url st = (st', cands)" by fastforce
  let ?d = "\<lparr>dv_robots = st', dv_found = [], dv_visited = [], dv_next = []\<rparr>"
  have f: "found_ok E pfx st' []" by (simp add: found_ok_def)
  show ?thesis
  proof (cases "max_urls = 0 \<or> cands = []")
    case True
    then show ?thesis by (auto simp: discover_def c found_ok_def)
  next
    case False
    from rounds_good [of E pfx ?d max_urls, OF _ _ refl, of 1 "take MAX_SITEMAPS_PER_TARGET cands"] f False
    have "found_ok E pfx (dv_robots (sitemap_rounds E pfx max_urls 1 (take MAX_SITEMAPS_PER_TARGET cands) ?d))
        (dv_found (sitemap_rounds E pfx max_urls 1 (take MAX_SITEMAPS_PER_TARGET cands) ?d)) \<and>
      length (dv_found (sitemap_rounds E pfx max_urls 1 (take MAX_SITEMAPS_PER_TARGET cands) ?d)) \<le> max_urls \<and>
      length (dv_visited (sitemap_rounds E pfx max_urls 1 (take MAX_SITEMAPS_PER_TARGET cands) ?d)) \<le>
        length (take MAX_SITEMAPS_PER_TARGET cands) + 19"
      by simp
    with False show ?thesis by (simp add: discover_def c MAX_SITEMAPS_PER_TARGET_def) linarith
  qed
qed

text \<open>The set of found URLs is iterated in some order.\<close>

definition order_ok :: "'r crawl_env \<Rightarrow> bool" where
  "order_ok E \<longleftrightarrow> (\<forall>xs. mset (ce_order E xs) = mset xs)"

text \<open>C38: sitemap seeding stays within its bounds whatever the sitemaps say. The URLs it returns are normalised, pairwise
  different, at most as many as asked for, all under the prefix of the target and none forbidden by the robots.txt of
  its origin; on the way at most 39 sitemap documents are looked at (index files are followed one level deep, so
  indexes that point to each other end too).\<close>

theorem sitemap_seeds_bounded:
  assumes "discover_urls E seed_url pfx max_urls st = (st', urls)" and "order_ok E"
  shows "distinct urls \<and> length urls \<le> max_urls \<and>
    (\<forall>u \<in> set urls. (\<exists>v. normalize_url (ce_url E) v = Some u) \<and> is_in_prefix (ce_url E) u pfx \<and>
       permitted E st' u) \<and>
    length (dv_visited (discover E seed_url pfx max_urls st)) \<le> 39"
proof -
  let ?d = "discover E seed_url pfx max_urls st"
  have m: "mset urls = mset (dv_found ?d)" and st: "st' = dv_robots ?d"
    using assms by (auto simp: discover_urls_def Let_def order_ok_def)
  have "set urls = set (dv_found ?d)" "length urls = length (dv_found ?d)"
    using m by (metis mset_eq_setD, metis size_mset)
  moreover have "distinct urls" using m discover_good [of E pfx seed_url max_urls st]
    by (metis found_ok_def mset_eq_imp_distinct_iff)
  ultimately show ?thesis
    using discover_good [of E pfx seed_url max_urls st] by (auto simp: found_ok_def good_seed_def st)
qed

text \<open>A web whose only document is a sitemap.\<close>

definition sample_env_crawl :: "unit crawl_env" where
  "sample_env_crawl =
     \<lparr>ce_url = sample_lib,
      ce_web = \<lparr>wl_header_ok = (\<lambda>_. True), wl_lowercase = to_ascii_lowercase, wl_utf8_lossy = (\<lambda>b. b)\<rparr>,
      ce_robots = \<lparr>rb_parse = (\<lambda>_ _. None), rb_allowed = (\<lambda>_ _. True), rb_delay = (\<lambda>_. None), rb_sitemaps = (\<lambda>_. [])\<rparr>,
      ce_net = (\<lambda>_ rq. Some \<lparr>rsp_status = 200, rsp_headers = [(''content-type'', ''text/html'')], rsp_url = fst rq,
         rsp_body = Some ''x''\<rparr>),
      ce_agent = ''bot'', ce_xml = (\<lambda>_. []), ce_html = (\<lambda>_. sample_page), ce_sha256 = (\<lambda>s. s), ce_order = (\<lambda>xs. xs)\<rparr>"

theorem sitemap_seeds_bounded_witness:
  "\<exists>st' urls. discover_urls sample_env_crawl ''https://a.example/'' ''https://a.example/'' 5 no_robots = (st', urls) \<and>
     length urls \<le> 5"
proof -
  obtain st' urls where d:
    "discover_urls sample_env_crawl ''https://a.example/'' ''https://a.example/'' 5 no_robots = (st', urls)"
    by fastforce
  have "order_ok sample_env_crawl" by (simp add: order_ok_def sample_env_crawl_def)
  from sitemap_seeds_bounded [OF d this] d show ?thesis by blast
qed

end
