(* ===== verification/Page.thy ===== *)
theory Page
  imports Sitemap Indexer Outlinks
begin

text \<open>
  \<open>crawler/page.rs\<close>: the crawl of one page, as a call that nothing interrupts. \<open>Page_Steps\<close> has the segments between
  its awaits.
\<close>

section \<open>Context, state and result\<close>

record page_context =
  pc_collection_id :: string
  pc_crawl_target_id :: string
  pc_url_prefix :: string
  pc_collection_name :: string

record page_result =
  pr_in_prefix_links :: "string list"
  pr_indexed :: bool
  pr_not_modified :: bool

text \<open>The JSON codec of the outlink examples and the sources of new row ids.\<close>

record ('r, 'j) page_env = "'r crawl_env" +
  pe_enc :: "outlink_example list \<Rightarrow> 'j"
  pe_dec :: "'j \<Rightarrow> outlink_example list option"
  pe_uuid :: "nat \<Rightarrow> string"
  pe_gap :: "nat \<Rightarrow> nat"

text \<open>
  The robots cache with the requests sent so far, the database, the counter of jobs in flight, the jobs sent to the
  indexer, whether its channel is open, and the number of new ids used.
\<close>

record ('r, 'j) crawl_state =
  cs_robots :: "'r robots_state"
  cs_db :: "'j content_db"
  cs_inflight :: int
  cs_jobs :: "index_job list"
  cs_channel_open :: bool
  cs_fresh :: nat

definition cs_sent :: "('r, 'j) crawl_state \<Rightarrow> http_request list" where
  "cs_sent st = rs_sent (cs_robots st)"

section \<open>The steps\<close>

definition crawled_row ::
  "page_context \<Rightarrow> string \<Rightarrow> page_row option \<Rightarrow> string option \<Rightarrow> string option \<Rightarrow> string option \<Rightarrow> int \<Rightarrow> int \<Rightarrow> page_row" where
  "crawled_row ctx u prior etag last_modified hash status now =
     \<lparr>p_id = 0, p_collection_id = pc_collection_id ctx, p_crawl_target_id = pc_crawl_target_id ctx, p_url = u,
      p_etag = etag, p_last_modified = last_modified, p_content_hash = hash, p_last_status = Some status,
      p_last_crawled_at = now, p_indexed_content_hash = Option.bind prior p_indexed_content_hash\<rparr>"

definition save_row ::
  "('r, 'j, 'z) page_env_scheme \<Rightarrow> page_row \<Rightarrow> ('r, 'j) crawl_state \<Rightarrow> ('r, 'j) crawl_state \<times> unit crawl_result" where
  "save_row E row st =
     (let db = cs_db st;
          (db', r) = page_upsert (next_rowid (map p_id (pages db)) + int (pe_gap E (cs_fresh st))) row db in
      (st\<lparr>cs_db := db', cs_fresh := cs_fresh st + 1\<rparr>, map_err (\<lambda>e. OtherError (DbText e)) (map_sum id (\<lambda>_. ()) r)))"

definition redirect_target :: "url_lib \<Rightarrow> page_context \<Rightarrow> string \<Rightarrow> string \<Rightarrow> string option" where
  "redirect_target L ctx u final_url =
     (case normalize_url L final_url of
        Some c \<Rightarrow> if Some c \<noteq> normalize_url L u \<and> is_in_prefix L c (pc_url_prefix ctx) then Some c else None
      | None \<Rightarrow> None)"

definition canonical_target ::
  "('r, 'j, 'z) page_env_scheme \<Rightarrow> page_context \<Rightarrow> string \<Rightarrow> string \<Rightarrow> string \<Rightarrow> string option" where
  "canonical_target E ctx u body final_url =
     (case Option.bind (extract_canonical (ce_url E) (ce_html E) body final_url) (normalize_url (ce_url E)) of
        Some c \<Rightarrow>
          if Some c \<noteq> normalize_url (ce_url E) u \<and>
             redirect_target (ce_url E) ctx u final_url \<noteq> Some c \<and>
             is_in_prefix (ce_url E) c (pc_url_prefix ctx)
          then Some c else None
      | None \<Rightarrow> None)"

definition content_hash :: "(string \<Rightarrow> string) \<Rightarrow> parsed_page \<Rightarrow> string" where
  "content_hash sha256 p = sha256 (pp_title p @ [char_of (0::nat)] @ pp_text p)"

fun classify_links ::
  "('r, 'j, 'z) page_env_scheme \<Rightarrow> page_context \<Rightarrow> string \<Rightarrow> int \<Rightarrow> extracted_link list \<Rightarrow> string list \<Rightarrow>
   ('r, 'j) crawl_state \<Rightarrow> ('r, 'j) crawl_state \<times> string list crawl_result" where
  "classify_links E ctx u now [] in_prefix st = (st, Inr in_prefix)"
| "classify_links E ctx u now (link # links) in_prefix st =
     (case normalize_url (ce_url E) (el_url link) of
        None \<Rightarrow> classify_links E ctx u now links in_prefix st
      | Some normalized \<Rightarrow>
          if is_in_prefix (ce_url E) normalized (pc_url_prefix ctx)
          then classify_links E ctx u now links (in_prefix @ [normalized]) st
          else if is_blacklisted_outlink_host (ce_url E) normalized
          then classify_links E ctx u now links in_prefix st
          else
            (case host_of (ce_url E) normalized of
               None \<Rightarrow> classify_links E ctx u now links in_prefix st
             | Some h \<Rightarrow>
                 (case record_hit (pe_enc E) (pe_dec E) (pe_uuid E (cs_fresh st)) (pc_collection_id ctx) h
                         \<lparr>ex_source_url = u, ex_target_url = normalized, ex_link_text = el_text link\<rparr> now (cs_db st) of
                    (db, Inl e) \<Rightarrow>
                      (st\<lparr>cs_db := db, cs_fresh := cs_fresh st + 1\<rparr>, Inl (OtherError (DbText e)))
                  | (db, Inr _) \<Rightarrow>
                      classify_links E ctx u now links in_prefix (st\<lparr>cs_db := db, cs_fresh := cs_fresh st + 1\<rparr>))))"

definition send_job ::
  "index_job \<Rightarrow> ('r, 'j) crawl_state \<Rightarrow> ('r, 'j) crawl_state \<times> unit crawl_result" where
  "send_job job st =
     (let st1 = st\<lparr>cs_inflight := cs_inflight st + 1\<rparr> in
      if cs_channel_open st1 then (st1\<lparr>cs_jobs := cs_jobs st1 @ [job]\<rparr>, Inr ())
      else (st1\<lparr>cs_inflight := cs_inflight st1 - 1\<rparr>, Inl (OtherError (LibText ''indexer channel closed''))))"

definition index_target ::
  "('r, 'j, 'z) page_env_scheme \<Rightarrow> page_context \<Rightarrow> string \<Rightarrow> string \<Rightarrow> string \<Rightarrow> string" where
  "index_target E ctx u body final_url =
     option_or (option_or u (canonical_target E ctx u body final_url))
       (redirect_target (ce_url E) ctx u final_url)"

definition page_job ::
  "('r, 'j, 'z) page_env_scheme \<Rightarrow> page_context \<Rightarrow> string \<Rightarrow> int \<Rightarrow> string \<Rightarrow> string \<Rightarrow> index_job" where
  "page_job E ctx u now body final_url =
     (let parsed = parse_text (ce_html E) body in
      \<lparr>ij_collection_name = pc_collection_name ctx, ij_url = index_target E ctx u body final_url,
       ij_title = pp_title parsed, ij_body = pp_text parsed, ij_indexed_at = now,
       ij_collection_id = pc_collection_id ctx, ij_content_hash = content_hash (ce_sha256 E) parsed\<rparr>)"

definition fresh_page ::
  "('r, 'j, 'z) page_env_scheme \<Rightarrow> page_context \<Rightarrow> string \<Rightarrow> int \<Rightarrow> page_row option \<Rightarrow> nat \<Rightarrow> string \<Rightarrow> string option \<Rightarrow>
   string option \<Rightarrow> string \<Rightarrow> ('r, 'j) crawl_state \<Rightarrow> ('r, 'j) crawl_state \<times> page_result crawl_result" where
  "fresh_page E ctx u now prior status body etag last_modified final_url st =
     (let extracted = extract_links (ce_url E) (wl_lowercase (ce_web E)) (ce_html E) body final_url;
          job = page_job E ctx u now body final_url;
          already_indexed = (Option.bind prior p_indexed_content_hash = Some (ij_content_hash job));
          (st1, sent) = (if already_indexed then (st, Inr ()) else send_job job st) in
      case sent of
        Inl e \<Rightarrow> (st1, Inl e)
      | Inr _ \<Rightarrow>
          (let row = crawled_row ctx u prior etag last_modified (Some (ij_content_hash job)) (int status) now;
               found = (case redirect_target (ce_url E) ctx u final_url of None \<Rightarrow> [] | Some c \<Rightarrow> [c]) @
                       (case canonical_target E ctx u body final_url of None \<Rightarrow> [] | Some c \<Rightarrow> [c]);
               (st2, saved) = save_row E row st1 in
           case saved of
             Inl e \<Rightarrow> (st2, Inl e)
           | Inr _ \<Rightarrow>
               (case classify_links E ctx u now extracted found st2 of
                  (st3, Inl e) \<Rightarrow> (st3, Inl e)
                | (st3, Inr links) \<Rightarrow>
                    (st3, Inr \<lparr>pr_in_prefix_links = links, pr_indexed = \<not> already_indexed,
                               pr_not_modified = False\<rparr>))))"

definition unchanged_page ::
  "('r, 'j, 'z) page_env_scheme \<Rightarrow> page_context \<Rightarrow> string \<Rightarrow> int \<Rightarrow> page_row option \<Rightarrow> nat \<Rightarrow> bool \<Rightarrow>
   ('r, 'j) crawl_state \<Rightarrow> ('r, 'j) crawl_state \<times> page_result crawl_result" where
  "unchanged_page E ctx u now prior status not_modified st =
     (let row = crawled_row ctx u prior (Option.bind prior p_etag) (Option.bind prior p_last_modified)
            (Option.bind prior p_content_hash) (int status) now in
      case save_row E row st of
        (st1, Inl e) \<Rightarrow> (st1, Inl e)
      | (st1, Inr _) \<Rightarrow>
          (st1, Inr \<lparr>pr_in_prefix_links = [], pr_indexed = False, pr_not_modified = not_modified\<rparr>))"

definition conditional_request :: "string \<Rightarrow> page_row option \<Rightarrow> fetch_request" where
  "conditional_request u prior =
     \<lparr>fr_url = u, fr_etag = Option.bind prior p_etag, fr_last_modified = Option.bind prior p_last_modified\<rparr>"

definition fetch_page ::
  "('r, 'j, 'z) page_env_scheme \<Rightarrow> string \<Rightarrow> page_row option \<Rightarrow> ('r, 'j) crawl_state \<Rightarrow>
   ('r, 'j) crawl_state \<times> fetch_outcome crawl_result" where
  "fetch_page E u prior st =
     (let (sent', outcome) = fetch (ce_web E) (ce_net E) (ce_agent E) (conditional_request u prior) (cs_sent st) in
      (st\<lparr>cs_robots := (cs_robots st)\<lparr>rs_sent := sent'\<rparr>\<rparr>, outcome))"

definition crawl_page ::
  "('r, 'j, 'z) page_env_scheme \<Rightarrow> string \<Rightarrow> page_context \<Rightarrow> int \<Rightarrow> ('r, 'j) crawl_state \<Rightarrow>
   ('r, 'j) crawl_state \<times> page_result crawl_result" where
  "crawl_page E u ctx now st =
     (let (rs, ok) = allowed (crawl_env.truncate E) u (cs_robots st); st1 = st\<lparr>cs_robots := rs\<rparr> in
      case ok of
        Inl e \<Rightarrow> (st1, Inl e)
      | Inr False \<Rightarrow> (st1, Inl (RobotsDisallowed u))
      | Inr True \<Rightarrow>
          (let prior = page_get_by_url (pc_collection_id ctx) u (cs_db st1);
               (st2, outcome) = fetch_page E u prior st1 in
           case outcome of
             Inl e \<Rightarrow> (st2, Inl e)
           | Inr (RateLimited retry_after) \<Rightarrow> (st2, Inl (RateLimitedError retry_after))
           | Inr NotModified \<Rightarrow> unchanged_page E ctx u now prior 304 True st2
           | Inr (OtherStatus status) \<Rightarrow> unchanged_page E ctx u now prior status False st2
           | Inr (Fresh status body etag last_modified final_url) \<Rightarrow>
               fresh_page E ctx u now prior status body etag last_modified final_url st2))"

section \<open>Facts about the steps\<close>

lemma page_upsert_row:
  assumes "page_upsert nid row db = (db', r)"
  shows "targets db' = targets db \<and> collections db' = collections db \<and> outlinks db' = outlinks db \<and>
    (isl r \<longrightarrow> db' = db) \<and>
    p_last_status ` set (pages db') \<subseteq> insert (p_last_status row) (p_last_status ` set (pages db)) \<and>
    (\<forall>c u. (c, u) \<noteq> page_key row \<longrightarrow> page_get_by_url c u db' = page_get_by_url c u db) \<and>
    (\<not> isl r \<longrightarrow> (\<exists>i. page_get_by_url (p_collection_id row) (p_url row) db' =
       Some (row\<lparr>p_id := i, p_indexed_content_hash :=
         Option.bind (page_get_by_url (p_collection_id row) (p_url row) db) p_indexed_content_hash\<rparr>)))"
proof -
  let ?new = "row\<lparr>p_id := nid, p_indexed_content_hash := None\<rparr>"
  let ?ps = "upsert_row page_key ?new (page_overwrite row) (pages db)"
  have k: "page_key ?new = page_key row" by (simp add: page_key_def)
  have f: "find_by page_key key ?ps = (if key = page_key row
      then Some (case find_by page_key key (pages db) of None \<Rightarrow> ?new | Some old \<Rightarrow> page_overwrite row old)
      else find_by page_key key (pages db))" for key
    unfolding k [symmetric] by (rule find_by_upsert_row) (simp add: k page_overwrite_def page_key_def)
  have g: "\<exists>i. find_by page_key (page_key row) ?ps = Some (row\<lparr>p_id := i, p_indexed_content_hash :=
      Option.bind (find_by page_key (page_key row) (pages db)) p_indexed_content_hash\<rparr>)"
  proof (cases "find_by page_key (page_key row) (pages db)")
    case None
    then show ?thesis by (auto simp: f)
  next
    case (Some old)
    from find_by_SomeD [OF this] Some show ?thesis
      by (intro exI [where x = "p_id old"]) (auto simp: f page_overwrite_def page_key_def)
  qed
  have status: "p_last_status ` set ?ps \<subseteq> insert (p_last_status row) (p_last_status ` set (pages db))"
    by (auto simp: upsert_row_def set_update_where page_overwrite_def split: if_splits)
  show ?thesis
  proof (cases "db' = db \<and> isl r")
    case False
    with assms have "db' = db\<lparr>pages := ?ps\<rparr>"
      by (auto simp: page_upsert_def Let_def split: if_splits)
    moreover have "\<not> isl r"
      using False assms g by (auto simp: page_upsert_def Let_def page_get_by_url_def page_key_def split: if_splits)
    ultimately show ?thesis using g status by (auto simp: page_get_by_url_def f page_key_def)
  qed auto
qed

lemma record_hit_frame:
  assumes "record_hit enc dec uuid c h ex now db = (db', r)"
  shows "pages db' = pages db \<and> targets db' = targets db \<and> collections db' = collections db"
  using assms by (auto simp: record_hit_def Let_def split: option.splits if_splits)

text \<open>A link the crawl may follow: a normal form under the prefix of the target.\<close>

definition own_link :: "url_lib \<Rightarrow> page_context \<Rightarrow> string \<Rightarrow> bool" where
  "own_link L ctx l \<longleftrightarrow> (\<exists>v. normalize_url L v = Some l) \<and> is_in_prefix L l (pc_url_prefix ctx)"

text \<open>What the steps after the fetch leave alone.\<close>

definition same_base :: "('r, 'j) crawl_state \<Rightarrow> ('r, 'j) crawl_state \<Rightarrow> bool" where
  "same_base st st' \<longleftrightarrow>
     cs_robots st' = cs_robots st \<and> cs_channel_open st' = cs_channel_open st \<and>
     targets (cs_db st') = targets (cs_db st) \<and> collections (cs_db st') = collections (cs_db st)"

definition same_jobs :: "('r, 'j) crawl_state \<Rightarrow> ('r, 'j) crawl_state \<Rightarrow> bool" where
  "same_jobs st st' \<longleftrightarrow> cs_jobs st' = cs_jobs st \<and> cs_inflight st' = cs_inflight st"

lemma same_base_refl [simp]: "same_base st st" and same_jobs_refl [simp]: "same_jobs st st"
  by (simp_all add: same_base_def same_jobs_def)

lemma same_base_trans: "same_base a b \<Longrightarrow> same_base b c \<Longrightarrow> same_base a c"
  and same_jobs_trans: "same_jobs a b \<Longrightarrow> same_jobs b c \<Longrightarrow> same_jobs a c"
  by (simp_all add: same_base_def same_jobs_def)

lemma classify_links_frame:
  assumes "classify_links E ctx u now links acc st = (st', r)"
    and "\<forall>l \<in> set acc. own_link (ce_url E) ctx l"
  shows "same_base st st' \<and> same_jobs st st' \<and> pages (cs_db st') = pages (cs_db st) \<and>
    (\<forall>ls. r = Inr ls \<longrightarrow> (\<forall>l \<in> set ls. own_link (ce_url E) ctx l))"
  using assms
proof (induction E ctx u now links acc st rule: classify_links.induct)
  case (1 E ctx u now in_prefix st)
  then show ?case by auto
next
  case (2 E ctx u now link links in_prefix st)
  show ?case
  proof (cases "normalize_url (ce_url E) (el_url link)")
    case None
    with 2 show ?thesis by simp
  next
    case (Some n)
    show ?thesis
    proof (cases "is_in_prefix (ce_url E) n (pc_url_prefix ctx)")
      case True
      then have "own_link (ce_url E) ctx n" using Some by (auto simp: own_link_def)
      with Some True 2 show ?thesis by simp
    next
      case out: False
      show ?thesis
      proof (cases "is_blacklisted_outlink_host (ce_url E) n \<or> host_of (ce_url E) n = None")
        case True
        then have "classify_links E ctx u now links in_prefix st = (st', r)"
          using Some out 2(6) by (cases "is_blacklisted_outlink_host (ce_url E) n") simp_all
        with True Some out 2(3,4,7) show ?thesis
          by (cases "is_blacklisted_outlink_host (ce_url E) n") blast+
      next
        case False
        then obtain h where h: "\<not> is_blacklisted_outlink_host (ce_url E) n" "host_of (ce_url E) n = Some h" by auto
        obtain db rr where hit: "record_hit (pe_enc E) (pe_dec E) (pe_uuid E (cs_fresh st)) (pc_collection_id ctx) h
            \<lparr>ex_source_url = u, ex_target_url = n, ex_link_text = el_text link\<rparr> now (cs_db st) = (db, rr)"
          by fastforce
        note fr = record_hit_frame [OF hit]
        let ?s1 = "st\<lparr>cs_db := db, cs_fresh := cs_fresh st + 1\<rparr>"
        have b: "same_base st ?s1" "same_jobs st ?s1" using fr by (simp_all add: same_base_def same_jobs_def)
        show ?thesis
        proof (cases rr)
          case (Inl e)
          with Some out h hit 2(6) have "st' = ?s1" "\<exists>e. r = Inl e" by auto
          with b fr show ?thesis by auto
        next
          case (Inr x)
          with Some out h hit 2(6) have "classify_links E ctx u now links in_prefix ?s1 = (st', r)" by simp
          from 2(5) [OF Some out h hit [symmetric] Inr this 2(7)] b fr
          show ?thesis using same_base_trans [OF b(1)] same_jobs_trans [OF b(2)] by auto
        qed
      qed
    qed
  qed
qed

text \<open>
  What a call does to everything but the robots cache: \<open>new\<close> are the jobs it sends. The specification of
  \<open>crawl_page\<close>, proved step by step below.
\<close>

definition page_effect ::
  "url_lib \<Rightarrow> page_context \<Rightarrow> string \<Rightarrow> int \<Rightarrow> ('r, 'j) crawl_state \<Rightarrow> ('r, 'j) crawl_state \<Rightarrow> index_job list \<Rightarrow> bool" where
  "page_effect L ctx u now st st' new \<longleftrightarrow>
     (let cid = pc_collection_id ctx; prior = page_get_by_url cid u (cs_db st);
          cur = page_get_by_url cid u (cs_db st') in
      targets (cs_db st') = targets (cs_db st) \<and> collections (cs_db st') = collections (cs_db st) \<and>
      cs_channel_open st' = cs_channel_open st \<and>
      (\<forall>c v. (c, v) \<noteq> (cid, u) \<longrightarrow> page_get_by_url c v (cs_db st') = page_get_by_url c v (cs_db st)) \<and>
      length new \<le> 1 \<and> cs_jobs st' = cs_jobs st @ new \<and> cs_inflight st' = cs_inflight st + int (length new) \<and>
      (\<forall>j \<in> set new. ij_collection_id j = cid \<and> ij_collection_name j = pc_collection_name ctx \<and>
         (ij_url j = u \<or> own_link L ctx (ij_url j)) \<and>
         Option.bind prior p_indexed_content_hash \<noteq> Some (ij_content_hash j)) \<and>
      Option.bind cur p_indexed_content_hash = Option.bind prior p_indexed_content_hash \<and>
      (cur = prior \<or> (\<exists>row. cur = Some row \<and> p_last_crawled_at row = now \<and>
         p_crawl_target_id row = pc_crawl_target_id ctx)) \<and>
      (Some 429 \<in> p_last_status ` set (pages (cs_db st')) \<longrightarrow>
         Some 429 \<in> p_last_status ` set (pages (cs_db st))))"

text \<open>What it reports when it succeeds.\<close>

definition page_report ::
  "url_lib \<Rightarrow> page_context \<Rightarrow> string \<Rightarrow> int \<Rightarrow> ('r, 'j) crawl_state \<Rightarrow> ('r, 'j) crawl_state \<Rightarrow> index_job list \<Rightarrow>
   page_result \<Rightarrow> bool" where
  "page_report L ctx u now st st' new pr \<longleftrightarrow>
     (let cid = pc_collection_id ctx; prior = page_get_by_url cid u (cs_db st) in
      (\<forall>l \<in> set (pr_in_prefix_links pr). own_link L ctx l) \<and> pr_indexed pr = (new \<noteq> []) \<and>
      (pr_not_modified pr \<longrightarrow> \<not> pr_indexed pr) \<and>
      (\<exists>row. page_get_by_url cid u (cs_db st') = Some row \<and> p_last_crawled_at row = now \<and>
         p_crawl_target_id row = pc_crawl_target_id ctx \<and>
         (pr_not_modified pr \<longrightarrow> p_last_status row = Some 304 \<and> p_etag row = Option.bind prior p_etag \<and>
            p_last_modified row = Option.bind prior p_last_modified \<and>
            p_content_hash row = Option.bind prior p_content_hash) \<and>
         (\<forall>j \<in> set new. p_content_hash row = Some (ij_content_hash j))))"

lemma save_row_effect:
  assumes "save_row E row st = (st', r)" and "page_key row = (pc_collection_id ctx, u)"
    and "p_last_crawled_at row = now" "p_crawl_target_id row = pc_crawl_target_id ctx"
    and "p_last_status row \<noteq> Some 429"
  shows "page_effect L ctx u now st st' [] \<and> same_base st st' \<and>
    (\<not> isl r \<longrightarrow> (\<exists>i h. page_get_by_url (pc_collection_id ctx) u (cs_db st') =
       Some (row\<lparr>p_id := i, p_indexed_content_hash := h\<rparr>)))"
proof -
  obtain db' rr where up: "page_upsert (next_rowid (map p_id (pages (cs_db st))) + int (pe_gap E (cs_fresh st))) row
      (cs_db st) = (db', rr)" by fastforce
  with assms(1) have st: "st' = st\<lparr>cs_db := db', cs_fresh := cs_fresh st + 1\<rparr>" "isl r = isl rr"
    by (cases rr; auto simp: save_row_def map_err_def)+
  note fr = page_upsert_row [OF up]
  have key: "p_collection_id row = pc_collection_id ctx" "p_url row = u" using assms(2) by (auto simp: page_key_def)
  have b: "same_base st st'" using fr by (simp add: st same_base_def)
  have "page_effect L ctx u now st st' []"
  proof (cases "isl rr")
    case True
    with fr have "db' = cs_db st" by blast
    then show ?thesis by (simp add: page_effect_def st Let_def)
  next
    case False
    with fr [unfolded key] obtain i where "page_get_by_url (pc_collection_id ctx) u db' =
       Some (row\<lparr>p_id := i, p_indexed_content_hash :=
         Option.bind (page_get_by_url (pc_collection_id ctx) u (cs_db st)) p_indexed_content_hash\<rparr>)" by blast
    with fr assms show ?thesis by (auto simp: page_effect_def st Let_def)
  qed
  with b fr key st show ?thesis by fastforce
qed

lemma redirect_own: "redirect_target L ctx u final = Some c \<Longrightarrow> own_link L ctx c"
  by (auto simp: redirect_target_def own_link_def split: option.splits if_splits)

lemma canonical_own: "canonical_target E ctx u body final = Some c \<Longrightarrow> own_link (ce_url E) ctx c"
  by (auto simp: canonical_target_def own_link_def bind_eq_Some_conv split: option.splits if_splits)

lemma index_target_own:
  "index_target E ctx u body final = u \<or> own_link (ce_url E) ctx (index_target E ctx u body final)"
  using redirect_own canonical_own [of E ctx u body final]
  by (auto simp: index_target_def option_or_def split: option.splits)

lemma page_effect_refl [simp]: "page_effect L ctx u now st st []"
  by (simp add: page_effect_def Let_def)

lemma page_effect_pages:
  assumes "page_effect L ctx u now st st1 new" and "same_base st1 st'" "same_jobs st1 st'"
    and "pages (cs_db st') = pages (cs_db st1)"
  shows "page_effect L ctx u now st st' new"
  using assms by (simp add: page_effect_def same_base_def same_jobs_def page_get_by_url_def Let_def)

lemma send_job_effect:
  assumes "send_job job st = (st', r)"
  shows "same_base st st' \<and> cs_db st' = cs_db st \<and>
    (if isl r then same_jobs st st'
     else cs_jobs st' = cs_jobs st @ [job] \<and> cs_inflight st' = cs_inflight st + 1)"
  using assms by (auto simp: send_job_def same_base_def same_jobs_def Let_def split: if_splits)

lemma unchanged_page_effect:
  assumes "unchanged_page E ctx u now prior status nm st = (st', r)"
    and "prior = page_get_by_url (pc_collection_id ctx) u (cs_db st)"
    and "status \<noteq> 429" and "nm \<longrightarrow> status = 304"
  shows "page_effect (ce_url E) ctx u now st st' [] \<and> same_base st st' \<and>
    (\<forall>pr. r = Inr pr \<longrightarrow> page_report (ce_url E) ctx u now st st' [] pr)"
proof -
  let ?row = "crawled_row ctx u prior (Option.bind prior p_etag) (Option.bind prior p_last_modified)
    (Option.bind prior p_content_hash) (int status) now"
  obtain s1 rr where sv: "save_row E ?row st = (s1, rr)" by fastforce
  have "page_effect (ce_url E) ctx u now st s1 [] \<and> same_base st s1 \<and>
    (\<not> isl rr \<longrightarrow> (\<exists>i h. page_get_by_url (pc_collection_id ctx) u (cs_db s1) =
       Some (?row\<lparr>p_id := i, p_indexed_content_hash := h\<rparr>)))"
    by (rule save_row_effect [OF sv]) (use assms(3) in \<open>auto simp: crawled_row_def page_key_def\<close>)
  with sv assms show ?thesis
    by (cases rr) (auto simp: unchanged_page_def page_report_def crawled_row_def Let_def)
qed

lemma page_effect_trans:
  assumes "page_effect L ctx u now st s1 new" and "page_effect L ctx u now s1 st' []" and "cs_db s1 = cs_db st"
  shows "page_effect L ctx u now st st' new"
  using assms by (simp add: page_effect_def Let_def)

lemma fresh_page_effect:
  assumes "fresh_page E ctx u now prior status body etag lm final st = (st', r)"
    and "prior = page_get_by_url (pc_collection_id ctx) u (cs_db st)" and "status \<noteq> 429"
  shows "\<exists>new. page_effect (ce_url E) ctx u now st st' new \<and> same_base st st' \<and>
    (cs_channel_open st \<and> Option.bind prior p_indexed_content_hash \<noteq>
       Some (ij_content_hash (page_job E ctx u now body final)) \<longrightarrow> new = [page_job E ctx u now body final]) \<and>
    (\<forall>pr. r = Inr pr \<longrightarrow> page_report (ce_url E) ctx u now st st' new pr)"
proof -
  let ?job = "page_job E ctx u now body final"
  let ?known = "Option.bind prior p_indexed_content_hash = Some (ij_content_hash ?job)"
  obtain s1 sent where send: "(if ?known then (st, Inr ()) else send_job ?job st) = (s1, sent)" by fastforce
  let ?new = "if ?known \<or> isl sent then [] else [?job]"
  have b1: "same_base st s1" and db1: "cs_db s1 = cs_db st"
    using send send_job_effect [of ?job st s1 sent] by (auto split: if_splits)
  have "cs_jobs s1 = cs_jobs st @ ?new \<and> cs_inflight s1 = cs_inflight st + int (length ?new)"
    using send send_job_effect [of ?job st s1 sent] by (auto simp: same_jobs_def split: if_splits)
  moreover have op: "cs_channel_open st \<Longrightarrow> \<not> isl sent"
    using send by (auto simp: send_job_def Let_def split: if_splits)
  ultimately have e1: "page_effect (ce_url E) ctx u now st s1 ?new"
    using b1 db1 assms(2) index_target_own [of E ctx u body final]
    by (auto simp: page_effect_def same_base_def page_job_def Let_def)
  show ?thesis
  proof (cases sent)
    case (Inl e)
    with assms(1) send have "st' = s1 \<and> r = Inl e" by (simp add: fresh_page_def Let_def)
    with e1 b1 op show ?thesis by (intro exI [where x = ?new]) auto
  next
    case (Inr x)
    let ?row = "crawled_row ctx u prior etag lm (Some (ij_content_hash ?job)) (int status) now"
    let ?found = "(case redirect_target (ce_url E) ctx u final of None \<Rightarrow> [] | Some c \<Rightarrow> [c]) @
      (case canonical_target E ctx u body final of None \<Rightarrow> [] | Some c \<Rightarrow> [c])"
    have own: "\<forall>l \<in> set ?found. own_link (ce_url E) ctx l"
      using redirect_own canonical_own [of E ctx u body final] by (auto split: option.splits)
    obtain s2 saved where sv: "save_row E ?row s1 = (s2, saved)" by fastforce
    have e2: "page_effect (ce_url E) ctx u now s1 s2 [] \<and> same_base s1 s2 \<and>
      (\<not> isl saved \<longrightarrow> (\<exists>i h. page_get_by_url (pc_collection_id ctx) u (cs_db s2) =
         Some (?row\<lparr>p_id := i, p_indexed_content_hash := h\<rparr>)))"
      by (rule save_row_effect [OF sv]) (use assms(3) in \<open>auto simp: crawled_row_def page_key_def\<close>)
    then have e12: "page_effect (ce_url E) ctx u now st s2 ?new" and b2: "same_base st s2"
      using page_effect_trans [OF e1 _ db1] same_base_trans [OF b1] by blast+
    show ?thesis
    proof (cases saved)
      case e: (Inl e)
      with assms(1) send Inr sv have "st' = s2 \<and> r = Inl e" by (simp add: fresh_page_def Let_def)
      with e12 b2 op show ?thesis by (intro exI [where x = ?new]) auto
    next
      case y: (Inr y)
      obtain s3 links where cl: "classify_links E ctx u now
          (extract_links (ce_url E) (wl_lowercase (ce_web E)) (ce_html E) body final) ?found s2 = (s3, links)"
        by fastforce
      note fr = classify_links_frame [OF cl own]
      have st3: "st' = s3" and r3: "r = (case links of Inl e \<Rightarrow> Inl e | Inr ls \<Rightarrow>
          Inr \<lparr>pr_in_prefix_links = ls, pr_indexed = (\<not> ?known), pr_not_modified = False\<rparr>)"
        using assms(1) send Inr sv y cl by (auto simp: fresh_page_def Let_def split: sum.splits)
      have e3: "page_effect (ce_url E) ctx u now st s3 ?new"
        using page_effect_pages [OF e12] fr by blast
      have b3: "same_base st s3" using same_base_trans [OF b2] fr by blast
      from e2 y obtain i h where "page_get_by_url (pc_collection_id ctx) u (cs_db s3) =
          Some (?row\<lparr>p_id := i, p_indexed_content_hash := h\<rparr>)"
        using fr by (auto simp: page_get_by_url_def)
      then have "\<forall>pr. r = Inr pr \<longrightarrow> page_report (ce_url E) ctx u now st s3 ?new pr"
        using r3 fr Inr by (auto simp: page_report_def crawled_row_def Let_def split: sum.splits)
      with e3 b3 op show ?thesis unfolding st3 by (intro exI [where x = ?new]) auto
    qed
  qed
qed

section \<open>Facts about a whole call\<close>

lemma fetch_status:
  assumes "fetch W net ua rq sent = (sent', r)"
  shows "(\<forall>s. r = Inr (OtherStatus s) \<longrightarrow> s \<noteq> 429) \<and>
    (\<forall>s b e l v. r = Inr (Fresh s b e l v) \<longrightarrow> s \<noteq> 429) \<and>
    (sent' = sent \<or> (\<exists>hs. sent' = sent @ [(fr_url rq, hs)] \<and> map_of hs ''if-none-match'' = fr_etag rq \<and>
       map_of hs ''if-modified-since'' = fr_last_modified rq))"
  using assms
  by (auto simp: fetch_def request_headers_def classify_response_def http_send_def success_status_def Let_def
      split: sum.splits option.splits if_splits)

lemma allowed_sent:
  assumes "allowed E u st = (st', r)"
  shows "rs_sent st' = rs_sent st \<or>
    (\<exists>origin hs. origin_of (ce_url E) u = Inr origin \<and> rs_sent st' = rs_sent st @ [(origin @ ''/robots.txt'', hs)])"
  using assms
  by (auto simp: allowed_def is_allowed_def ensure_cached_def http_send_def Let_def split: sum.splits if_splits)

lemma cached_rules_sent [simp]: "cached_rules (st\<lparr>rs_sent := s\<rparr>) = cached_rules st"
  by (simp add: cached_rules_def fun_eq_iff)

lemma permitted_sent [simp]: "permitted E (st\<lparr>rs_sent := s\<rparr>) u = permitted E st u"
  by (simp add: permitted_def split: sum.split)

text \<open>The four ways a call goes on after the check of robots.txt and the request.\<close>

lemma crawl_page_cases:
  assumes "crawl_page E u ctx now st = (st', r)"
  obtains (robots_error) rs e where "allowed (crawl_env.truncate E) u (cs_robots st) = (rs, Inl e)"
      "st' = st\<lparr>cs_robots := rs\<rparr>" "r = Inl e"
  | (disallowed) rs where "allowed (crawl_env.truncate E) u (cs_robots st) = (rs, Inr False)"
      "st' = st\<lparr>cs_robots := rs\<rparr>" "r = Inl (RobotsDisallowed u)"
  | (no_page) rs sent' f e where "allowed (crawl_env.truncate E) u (cs_robots st) = (rs, Inr True)"
      "fetch (ce_web E) (ce_net E) (ce_agent E)
         (conditional_request u (page_get_by_url (pc_collection_id ctx) u (cs_db st))) (rs_sent rs) = (sent', f)"
      "st' = st\<lparr>cs_robots := rs\<lparr>rs_sent := sent'\<rparr>\<rparr>" "r = Inl e"
  | (unchanged) rs sent' s nm where "allowed (crawl_env.truncate E) u (cs_robots st) = (rs, Inr True)"
      "fetch (ce_web E) (ce_net E) (ce_agent E)
         (conditional_request u (page_get_by_url (pc_collection_id ctx) u (cs_db st))) (rs_sent rs) =
         (sent', Inr (if nm then NotModified else OtherStatus s))" "nm \<longrightarrow> s = 304"
      "unchanged_page E ctx u now (page_get_by_url (pc_collection_id ctx) u (cs_db st)) s nm
         (st\<lparr>cs_robots := rs\<lparr>rs_sent := sent'\<rparr>\<rparr>) = (st', r)"
  | (fresh) rs sent' s b et lm final where "allowed (crawl_env.truncate E) u (cs_robots st) = (rs, Inr True)"
      "fetch (ce_web E) (ce_net E) (ce_agent E)
         (conditional_request u (page_get_by_url (pc_collection_id ctx) u (cs_db st))) (rs_sent rs) =
         (sent', Inr (Fresh s b et lm final))"
      "fresh_page E ctx u now (page_get_by_url (pc_collection_id ctx) u (cs_db st)) s b et lm final
         (st\<lparr>cs_robots := rs\<lparr>rs_sent := sent'\<rparr>\<rparr>) = (st', r)"
proof -
  obtain rs ok where al: "allowed (crawl_env.truncate E) u (cs_robots st) = (rs, ok)" by fastforce
  let ?prior = "page_get_by_url (pc_collection_id ctx) u (cs_db st)"
  obtain sent' f where ft: "fetch (ce_web E) (ce_net E) (ce_agent E) (conditional_request u ?prior) (rs_sent rs) =
      (sent', f)" by fastforce
  note d = assms [unfolded crawl_page_def al fetch_page_def Let_def cs_sent_def, simplified]
  show thesis
  proof (cases ok)
    case (Inl e)
    with d robots_error [of rs e] al show ?thesis by simp
  next
    case (Inr b)
    show ?thesis
    proof (cases b)
      case False
      with d Inr disallowed [of rs] al show ?thesis by simp
    next
      case True
      have al2: "allowed (crawl_env.truncate E) u (cs_robots st) = (rs, Inr True)" using al Inr True by simp
      note d2 = d [unfolded Inr, simplified True, simplified, unfolded ft, simplified]
      show ?thesis
      proof (cases f)
        case (Inl e)
        with d2 no_page [OF al2 ft] show ?thesis by auto
      next
        case f: (Inr out)
        show ?thesis
        proof (cases out)
          case (Fresh s b et lm final)
          with d2 f fresh [OF al2 ft [unfolded f Fresh]] show ?thesis by simp
        next
          case NotModified
          with d2 f unchanged [of rs sent' True 304] al2 ft show ?thesis by simp
        next
          case (RateLimited ra)
          with d2 f no_page [OF al2 ft] show ?thesis by auto
        next
          case (OtherStatus s)
          with d2 f unchanged [of rs sent' False s] al2 ft show ?thesis by simp
        qed
      qed
    qed
  qed
qed

lemma page_effect_robots [simp]:
  "page_effect L ctx u now (st\<lparr>cs_robots := rs\<rparr>) st' new = page_effect L ctx u now st st' new"
  "page_effect L ctx u now st (st'\<lparr>cs_robots := rs\<rparr>) new = page_effect L ctx u now st st' new"
  "page_report L ctx u now (st\<lparr>cs_robots := rs\<rparr>) st' new pr = page_report L ctx u now st st' new pr"
  by (simp_all add: page_effect_def page_report_def)

lemma crawl_page_does:
  assumes "crawl_page E u ctx now st = (st', r)"
  shows "\<exists>new. page_effect (ce_url E) ctx u now st st' new \<and>
    (\<forall>pr. r = Inr pr \<longrightarrow> page_report (ce_url E) ctx u now st st' new pr)"
  using assms
proof (cases rule: crawl_page_cases)
  case (unchanged rs sent' s nm)
  have "s \<noteq> 429" using unchanged(3) fetch_status [OF unchanged(2)] by (cases nm) simp_all
  with unchanged_page_effect [OF unchanged(4)] unchanged(3) show ?thesis by fastforce
next
  case (fresh rs sent' s b et lm final)
  have "s \<noteq> 429" using fetch_status [OF fresh(2)] by blast
  with fresh_page_effect [OF fresh(3)] show ?thesis by fastforce
qed (auto intro!: exI [where x = "[]"])

lemma crawl_page_robots:
  assumes "crawl_page E u ctx now st = (st', r)"
  obtains rs ok page where "allowed (crawl_env.truncate E) u (cs_robots st) = (rs, ok)"
    "cs_robots st' = rs\<lparr>rs_sent := rs_sent rs @ page\<rparr>" "length page \<le> 1"
    "\<forall>rq \<in> set page. fst rq = u \<and> ok = Inr True \<and>
       map_of (snd rq) ''if-none-match'' = Option.bind (page_get_by_url (pc_collection_id ctx) u (cs_db st)) p_etag \<and>
       map_of (snd rq) ''if-modified-since'' =
         Option.bind (page_get_by_url (pc_collection_id ctx) u (cs_db st)) p_last_modified"
    "ok = Inr False \<longrightarrow> st' = st\<lparr>cs_robots := rs\<rparr> \<and> r = Inl (RobotsDisallowed u)"
  using assms
proof (cases rule: crawl_page_cases)
  case (robots_error rs e)
  then show ?thesis using that [of rs "Inl e" "[]"] by simp
next
  case (disallowed rs)
  then show ?thesis using that [of rs "Inr False" "[]"] by simp
next
  case (no_page rs sent' f e)
  then show ?thesis
    using fetch_status [OF no_page(2)] that [OF no_page(1), of "drop (length (rs_sent rs)) sent'"]
    by (auto simp: conditional_request_def)
next
  case (unchanged rs sent' s nm)
  have "cs_robots st' = rs\<lparr>rs_sent := sent'\<rparr>"
    using unchanged_page_effect [OF unchanged(4)] fetch_status [OF unchanged(2)] unchanged(3)
    by (cases nm) (simp_all add: same_base_def)
  then show ?thesis
    using fetch_status [OF unchanged(2)] that [OF unchanged(1), of "drop (length (rs_sent rs)) sent'"]
    by (auto simp: conditional_request_def)
next
  case (fresh rs sent' s b et lm final)
  have "cs_robots st' = rs\<lparr>rs_sent := sent'\<rparr>"
    using fresh_page_effect [OF fresh(3)] fetch_status [OF fresh(2)] by (auto simp: same_base_def)
  then show ?thesis
    using fetch_status [OF fresh(2)] that [OF fresh(1), of "drop (length (rs_sent rs)) sent'"]
    by (auto simp: conditional_request_def)
qed

section \<open>Properties\<close>


text \<open>C24: what a crawled page leaves behind. A call sends at most one document to the indexer, raises the counter of
  documents in flight by as many as it sends, and sends one only if the hash last committed to the index for this URL
  and collection is another one; the document goes to the URL itself or to an alias under the prefix of the target,
  in the collection of the target. No
  row but that of the URL changes and the committed hash is kept. A successful call has stored the row with the time of
  the crawl, with the hash of what it sent, or after a 304 with the old validators and hash, and reports links only that
  are normalised and under the prefix.\<close>

theorem crawl_page_records:
  assumes "crawl_page E u ctx now st = (st', r)"
  shows "\<exists>new. page_effect (ce_url E) ctx u now st st' new \<and>
    (\<forall>pr. r = Inr pr \<longrightarrow> page_report (ce_url E) ctx u now st st' new pr)"
  using assms by (rule crawl_page_does)

text \<open>An alias is sent to the indexer on every crawl. When the content of a page belongs to another URL (a redirect or
  a canonical link), the commit marks only the row of that other URL: if the same content is served again, crawling the
  alias again sends the same document again, although it has been committed.\<close>

theorem alias_page_resent:
  assumes "index_target E ctx u body final \<noteq> u" and "status \<noteq> 429"
    and "Option.bind (page_get_by_url (pc_collection_id ctx) u (cs_db st)) p_indexed_content_hash \<noteq>
      Some (ij_content_hash (page_job E ctx u now body final))"
    and "fresh_page E ctx u now (page_get_by_url (pc_collection_id ctx) u (cs_db st)) status body et lm final st = (st1, r1)"
    and "cs_channel_open st"
    and "cs_db st2 = mark_indexed_batch [journal_entry (page_job E ctx u now body final)] (cs_db st1)"
    and "cs_channel_open st2"
    and "fresh_page E ctx u now' (page_get_by_url (pc_collection_id ctx) u (cs_db st2)) status body et lm final st2 =
      (st3, r)"
  shows "cs_jobs st1 = cs_jobs st @ [page_job E ctx u now body final] \<and>
    cs_jobs st3 = cs_jobs st2 @ [page_job E ctx u now' body final]"
proof -
  let ?key = "page_get_by_url (pc_collection_id ctx) u"
  let ?hash = "ij_content_hash (page_job E ctx u now body final)"
  have hash: "ij_content_hash (page_job E ctx u now' body final) = ?hash" by (simp add: page_job_def Let_def)
  from fresh_page_effect [OF assms(4) refl assms(2)] assms(3,5)
  have e: "page_effect (ce_url E) ctx u now st st1 [page_job E ctx u now body final]" by auto
  have "?key (cs_db st2) = ?key (cs_db st1)"
    unfolding assms(6) by (rule mark_indexed_other) (use assms(1) in \<open>auto simp: journal_entry_def page_job_def Let_def\<close>)
  then have "Option.bind (?key (cs_db st2)) p_indexed_content_hash \<noteq> Some ?hash"
    using e assms(3) by (auto simp: page_effect_def Let_def)
  with fresh_page_effect [OF assms(8) refl assms(2)] assms(7) hash e show ?thesis
    by (auto simp: page_effect_def Let_def)
qed

section \<open>A small run\<close>

text \<open>URLs that are their own path, all of one host.\<close>

definition plain_lib :: url_lib where
  "plain_lib =
     \<lparr>parse_url = (\<lambda>s. Some \<lparr>scheme = ''https'', username = [], password = None, host = Some ''a.com'',
        url_port = None, path = s, query = None, fragment = None\<rparr>),
      url_text = path, join_url = (\<lambda>u s. Some (u\<lparr>path := s\<rparr>)), form_parse = (\<lambda>_. []), form_text = (\<lambda>_. [])\<rparr>"

definition plain_env :: "(unit, outlink_example list) page_env" where
  "plain_env = crawl_env.extend (sample_env_crawl\<lparr>ce_url := plain_lib\<rparr>)
     (page_env.fields (\<lambda>l. l) Some (\<lambda>n. replicate n CHR ''i'') (\<lambda>_. 0))"

definition plain_context :: page_context where
  "plain_context = \<lparr>pc_collection_id = ''c'', pc_crawl_target_id = ''t'', pc_url_prefix = ''/'', pc_collection_name = ''n''\<rparr>"

definition plain_target :: target_row where
  "plain_target = \<lparr>t_rowid = 1, t_id = ''t'', t_collection_id = ''c'', t_url_prefix = ''/'', t_recrawl_interval_s = 60,
     t_recrawl_interval_secs = 60, t_last_crawled_at = None, t_enabled = 1, t_created_at = ''x'',
     t_crawl_delay_secs = None\<rparr>"

definition plain_state :: "(unit, outlink_example list) crawl_state" where
  "plain_state = \<lparr>cs_robots = no_robots,
     cs_db = \<lparr>collections = [\<lparr>c_rowid = 1, c_id = ''c'', c_name = ''n'', c_description = [], c_created_at = [],
       c_updated_at = []\<rparr>], targets = [plain_target], pages = [], outlinks = []\<rparr>,
     cs_inflight = 0, cs_jobs = [], cs_channel_open = True, cs_fresh = 0\<rparr>"

lemma plain_env_simps [simp]:
  "ce_url plain_env = plain_lib" "ce_html plain_env = (\<lambda>_. sample_page)" "ce_sha256 plain_env = (\<lambda>s. s)"
  "ce_web plain_env = ce_web sample_env_crawl" "ce_net plain_env = ce_net sample_env_crawl"
  "ce_agent plain_env = ''bot''" "crawl_env.truncate plain_env = sample_env_crawl\<lparr>ce_url := plain_lib\<rparr>"
  by (simp_all add: plain_env_def sample_env_crawl_def crawl_env.defs)

lemma normalize_plain [simp]: "normalize_url plain_lib s = Some s"
  by (simp add: normalize_url_def plain_lib_def canonical_url_def drop_default_port_def rewrite_query_def)


theorem crawl_page_records_witness:
  "\<exists>st' r. crawl_page plain_env ''/a'' plain_context 5 plain_state = (st', r) \<and> length (cs_jobs st') \<le> 1"
proof -
  obtain st' r where c: "crawl_page plain_env ''/a'' plain_context 5 plain_state = (st', r)" by fastforce
  from crawl_page_records [OF c] c show ?thesis
    by (auto simp: page_effect_def plain_state_def Let_def)
qed

theorem alias_page_resent_witness:
  "\<exists>st1 r1 st2 st3 r. fresh_page plain_env plain_context ''/a'' 5 None 200 ''x'' None None ''/b'' plain_state = (st1, r1) \<and>
     st2 = st1\<lparr>cs_db := mark_indexed_batch [journal_entry (page_job plain_env plain_context ''/a'' 5 ''x'' ''/b'')]
       (cs_db st1)\<rparr> \<and>
     fresh_page plain_env plain_context ''/a'' 7 (page_get_by_url ''c'' ''/a'' (cs_db st2)) 200 ''x'' None None ''/b'' st2 =
       (st3, r) \<and> length (cs_jobs st3) = 2"
proof -
  let ?j = "page_job plain_env plain_context ''/a'' 5 ''x'' ''/b''"
  obtain st1 r1 where f1: "fresh_page plain_env plain_context ''/a'' 5 None 200 ''x'' None None ''/b'' plain_state =
    (st1, r1)" by fastforce
  let ?st2 = "st1\<lparr>cs_db := mark_indexed_batch [journal_entry ?j] (cs_db st1)\<rparr>"
  obtain st3 r where f3: "fresh_page plain_env plain_context ''/a'' 7 (page_get_by_url ''c'' ''/a'' (cs_db ?st2)) 200 ''x''
    None None ''/b'' ?st2 = (st3, r)" by fastforce
  have cid: "pc_collection_id plain_context = ''c''" by (simp add: plain_context_def)
  have none: "page_get_by_url ''c'' ''/a'' (cs_db plain_state) = None"
    by (simp add: plain_state_def page_get_by_url_def)
  have op: "cs_channel_open plain_state" by (simp add: plain_state_def)
  have op1: "cs_channel_open st1"
    using fresh_page_effect [OF f1] none op cid by (auto simp: same_base_def)
  have pre: "is_in_prefix plain_lib ''/b'' ''/''"
    by (simp add: is_in_prefix_def strip_leading_www_def replacen1_none starts_with_def)
  have tgt: "index_target plain_env plain_context ''/a'' ''x'' ''/b'' = ''/b''"
    by (simp add: index_target_def redirect_target_def pre) (simp add: plain_context_def pre)
  from alias_page_resent [OF _ _ _ f1 [folded none, folded cid] op, of ?st2 7 st3 r] tgt none op1 f3 cid
  have "cs_jobs st1 = cs_jobs plain_state @ [?j]"
    "cs_jobs st3 = cs_jobs ?st2 @ [page_job plain_env plain_context ''/a'' 7 ''x'' ''/b'']"
    by simp_all
  moreover have "cs_jobs plain_state = []" by (simp add: plain_state_def)
  ultimately have "length (cs_jobs st3) = 2" by simp
  with f1 f3 show ?thesis by blast
qed

end
