(* ===== verification/Driver.thy ===== *)
theory Driver
  imports Page
begin

text \<open>
  \<open>crawler/driver.rs\<close>: one crawl of a target, breadth first. A queue and a set of visited URLs (here the list of its
  elements in the order of insertion) are state of the loop; what it does is written to a log, newest event first.
  Other tasks run while this one waits: what they do to the shared state before the next page is the argument \<open>others\<close>,
  a function of the log so far. Durations are in milliseconds.
\<close>

section \<open>Configuration, statistics and state\<close>

record driver_config =
  dc_politeness_delay :: nat
  dc_max_pages_per_run :: nat

record driver_stats =
  ds_pages_fetched :: nat
  ds_pages_indexed :: nat
  ds_pages_not_modified :: nat
  ds_pages_errored :: nat

definition no_pages :: driver_stats where
  "no_pages = \<lparr>ds_pages_fetched = 0, ds_pages_indexed = 0, ds_pages_not_modified = 0, ds_pages_errored = 0\<rparr>"

datatype crawl_event =
    is_fetched: Fetched (event_url: string)
  | is_failed: Failed (event_url: string)
  | is_limited: Limited (event_url: string) (retry_after: "nat option")
  | is_slept: Slept nat

record ('r, 'j) drive =
  dr_stats :: driver_stats
  dr_visited :: "string list"
  dr_queue :: "string list"
  dr_consecutive_429s :: nat
  dr_log :: "crawl_event list"
  dr_crawl :: "('r, 'j) crawl_state"

type_synonym ('r, 'j) interference = "crawl_event list \<Rightarrow> ('r, 'j) crawl_state \<Rightarrow> ('r, 'j) crawl_state"

section \<open>Delays\<close>

definition effective_delay_for_run :: "nat \<Rightarrow> nat option \<Rightarrow> nat" where
  "effective_delay_for_run configured robots_crawl_delay =
     (case robots_crawl_delay of Some d \<Rightarrow> max d configured | None \<Rightarrow> configured)"

text \<open>The back-off in seconds; called with a count of at least one.\<close>

definition rate_limit_backoff :: "nat \<Rightarrow> nat option" where
  "rate_limit_backoff consecutive = (if 5 \<le> consecutive then None else Some (2 ^ (consecutive - 1)))"

definition sleep_after_429 :: "nat option \<Rightarrow> nat \<Rightarrow> nat" where
  "sleep_after_429 retry consecutive =
     1000 * (case retry of
               Some d \<Rightarrow> min d 120
             | None \<Rightarrow> min (option_or 32 (rate_limit_backoff consecutive)) 120)"

section \<open>The loop\<close>

fun enqueue :: "string list \<Rightarrow> string list \<Rightarrow> string list \<Rightarrow> string list \<times> string list" where
  "enqueue visited queue [] = (visited, queue)"
| "enqueue visited queue (link # links) =
     (if link \<in> set visited then enqueue visited queue links
      else enqueue (visited @ [link]) (queue @ [link]) links)"

definition going :: "nat \<Rightarrow> ('r, 'j) drive \<Rightarrow> bool" where
  "going max_pages d \<longleftrightarrow> dr_queue d \<noteq> [] \<and> ds_pages_fetched (dr_stats d) < max_pages"

definition pace :: "nat \<Rightarrow> nat \<Rightarrow> ('r, 'j) drive \<Rightarrow> ('r, 'j) drive" where
  "pace max_pages delay d = (if going max_pages d then d\<lparr>dr_log := Slept delay # dr_log d\<rparr> else d)"

definition count_page :: "page_result \<Rightarrow> driver_stats \<Rightarrow> driver_stats" where
  "count_page result s =
     s\<lparr>ds_pages_fetched := ds_pages_fetched s + 1,
       ds_pages_indexed := (if pr_indexed result then ds_pages_indexed s + 1 else ds_pages_indexed s),
       ds_pages_not_modified :=
         (if pr_not_modified result then ds_pages_not_modified s + 1 else ds_pages_not_modified s)\<rparr>"

text \<open>One turn of the loop on the front of the queue; the flag is \<open>False\<close> for \<open>break\<close>.\<close>

definition drive_step ::
  "('r, 'j, 'z) page_env_scheme \<Rightarrow> page_context \<Rightarrow> nat \<Rightarrow> nat \<Rightarrow> ('r, 'j) interference \<Rightarrow> int \<Rightarrow> ('r, 'j) drive \<Rightarrow>
   ('r, 'j) drive \<times> bool" where
  "drive_step E ctx max_pages delay others now d =
     (let url = hd (dr_queue d); rest = tl (dr_queue d);
          (st, outcome) = crawl_page E url ctx now (others (dr_log d) (dr_crawl d));
          d1 = d\<lparr>dr_queue := rest, dr_crawl := st\<rparr> in
      case outcome of
        Inr result \<Rightarrow>
          (let (visited, queue) = enqueue (dr_visited d) rest (pr_in_prefix_links result) in
           (pace max_pages delay
              (d1\<lparr>dr_consecutive_429s := 0, dr_stats := count_page result (dr_stats d), dr_visited := visited,
                  dr_queue := queue, dr_log := Fetched url # dr_log d\<rparr>), True))
      | Inl (RateLimitedError retry) \<Rightarrow>
          (let n = dr_consecutive_429s d + 1;
               d2 = d1\<lparr>dr_consecutive_429s := n, dr_log := Limited url retry # dr_log d\<rparr> in
           if 5 \<le> n then (d2, False)
           else (d2\<lparr>dr_queue := url # rest, dr_log := Slept (sleep_after_429 retry n) # dr_log d2\<rparr>, True))
      | Inl _ \<Rightarrow>
          (pace max_pages delay
             (d1\<lparr>dr_stats := (dr_stats d)\<lparr>ds_pages_errored := ds_pages_errored (dr_stats d) + 1\<rparr>,
                 dr_log := Failed url # dr_log d\<rparr>), True))"

lemma pace_simps [simp]:
  "dr_stats (pace m t d) = dr_stats d" "dr_visited (pace m t d) = dr_visited d" "dr_queue (pace m t d) = dr_queue d"
  "dr_consecutive_429s (pace m t d) = dr_consecutive_429s d" "dr_crawl (pace m t d) = dr_crawl d"
  by (simp_all add: pace_def)

text \<open>The three ways a turn goes.\<close>

lemma drive_step_cases:
  assumes "drive_step E ctx m t others now d = (d', go)" and "dr_queue d = url # rest"
  obtains (page) st result visited queue where
      "crawl_page E url ctx now (others (dr_log d) (dr_crawl d)) = (st, Inr result)"
      "enqueue (dr_visited d) rest (pr_in_prefix_links result) = (visited, queue)" "go"
      "d' = pace m t (d\<lparr>dr_crawl := st, dr_consecutive_429s := 0, dr_stats := count_page result (dr_stats d),
         dr_visited := visited, dr_queue := queue, dr_log := Fetched url # dr_log d\<rparr>)"
  | (retry) st after where
      "crawl_page E url ctx now (others (dr_log d) (dr_crawl d)) = (st, Inl (RateLimitedError after))"
      "dr_consecutive_429s d < 4" "go"
      "d' = d\<lparr>dr_crawl := st, dr_consecutive_429s := dr_consecutive_429s d + 1,
         dr_log := Slept (sleep_after_429 after (dr_consecutive_429s d + 1)) # Limited url after # dr_log d\<rparr>"
  | (abort) st after where
      "crawl_page E url ctx now (others (dr_log d) (dr_crawl d)) = (st, Inl (RateLimitedError after))"
      "4 \<le> dr_consecutive_429s d" "\<not> go"
      "d' = d\<lparr>dr_queue := rest, dr_crawl := st, dr_consecutive_429s := dr_consecutive_429s d + 1,
         dr_log := Limited url after # dr_log d\<rparr>"
  | (error) st e where
      "crawl_page E url ctx now (others (dr_log d) (dr_crawl d)) = (st, Inl e)" "go"
      "d' = pace m t (d\<lparr>dr_queue := rest, dr_crawl := st,
         dr_stats := (dr_stats d)\<lparr>ds_pages_errored := ds_pages_errored (dr_stats d) + 1\<rparr>,
         dr_log := Failed url # dr_log d\<rparr>)"
proof -
  obtain st outcome where c: "crawl_page E url ctx now (others (dr_log d) (dr_crawl d)) = (st, outcome)" by fastforce
  note d = assms(1) [unfolded drive_step_def assms(2) list.sel c Let_def prod.case]
  show thesis
  proof (cases outcome)
    case (Inr result)
    obtain v q where e: "enqueue (dr_visited d) rest (pr_in_prefix_links result) = (v, q)" by fastforce
    from d Inr e page [OF c [unfolded Inr] e] show ?thesis by simp
  next
    case (Inl e)
    show ?thesis
    proof (cases "\<exists>after. e = RateLimitedError after")
      case True
      then obtain after where "e = RateLimitedError after" by blast
      with d Inl c retry [of st after] abort [of st after] assms(2) show ?thesis
        by (auto split: if_splits)
    next
      case False
      with d Inl c error [of st e] show ?thesis by (cases e) auto
    qed
  qed
qed

text \<open>
  Every turn that goes on fetches a page (of at most \<open>max_pages\<close>), or takes an URL off the queue, or adds to the
  answers 429 in a row, of which five end the loop.
\<close>

lemma drive_step_decreases:
  assumes "going m d" and "drive_step E ctx m t others now d = (d', True)"
  shows "m - ds_pages_fetched (dr_stats d') < m - ds_pages_fetched (dr_stats d) \<or>
    ds_pages_fetched (dr_stats d') = ds_pages_fetched (dr_stats d) \<and>
    (length (dr_queue d') < length (dr_queue d) \<or>
     length (dr_queue d') = length (dr_queue d) \<and> 5 - dr_consecutive_429s d' < 5 - dr_consecutive_429s d)"
proof -
  from assms(1) obtain url rest where q: "dr_queue d = url # rest" by (auto simp: going_def neq_Nil_conv)
  from assms(2) q show ?thesis
    by (rule drive_step_cases) (use assms(1) q in \<open>simp_all add: going_def count_page_def diff_less_mono2\<close>)
qed

function drive_loop ::
  "('r, 'j, 'z) page_env_scheme \<Rightarrow> page_context \<Rightarrow> nat \<Rightarrow> nat \<Rightarrow> ('r, 'j) interference \<Rightarrow> int \<Rightarrow> ('r, 'j) drive \<Rightarrow>
   ('r, 'j) drive" where
  "drive_loop E ctx max_pages delay others now d =
     (if \<not> going max_pages d then d
      else (case drive_step E ctx max_pages delay others now d of
              (d', go) \<Rightarrow> if go then drive_loop E ctx max_pages delay others now d' else d'))"
  by pat_completeness auto

termination
proof (relation "measures [\<lambda>(E, ctx, m, t, others, now, d). m - ds_pages_fetched (dr_stats d),
    \<lambda>(E, ctx, m, t, others, now, d). length (dr_queue d),
    \<lambda>(E, ctx, m, t, others, now, d). 5 - dr_consecutive_429s d]", goal_cases)
  case (2 E ctx m t others now d d' go)
  then have "drive_step E ctx m t others now d = (d', True)" "going m d" by simp_all
  from drive_step_decreases [OF this(2,1)] show ?case
    by auto
qed simp

declare drive_loop.simps [simp del]

section \<open>The whole run\<close>

definition crawl_run ::
  "('r, 'j, 'z) page_env_scheme \<Rightarrow> string \<Rightarrow> page_context \<Rightarrow> driver_config \<Rightarrow> ('r, 'j) interference \<Rightarrow> int \<Rightarrow>
   ('r, 'j) crawl_state \<Rightarrow> ('r, 'j) drive option" where
  "crawl_run E seed ctx cfg others now st =
     (case normalize_url (ce_url E) seed of
        None \<Rightarrow> None
      | Some s \<Rightarrow>
          (let (rs, delay) = crawl_delay_for (ce_url E) (ce_robots E) (ce_web E) (ce_net E) (ce_agent E) s (cs_robots st);
               effective = effective_delay_for_run (dc_politeness_delay cfg)
                 (map_option (\<lambda>secs. 1000 * secs) (unwrap_or None delay));
               (rs', seeds) = discover_urls (crawl_env.truncate E) s (pc_url_prefix ctx) 10000 rs;
               (visited, queue) = enqueue [s] [s] seeds in
           Some (drive_loop E ctx (dc_max_pages_per_run cfg) effective others now
             \<lparr>dr_stats = no_pages, dr_visited = visited, dr_queue = queue, dr_consecutive_429s = 0, dr_log = [],
              dr_crawl = st\<lparr>cs_robots := rs'\<rparr>\<rparr>)))"

definition crawl_target ::
  "('r, 'j, 'z) page_env_scheme \<Rightarrow> string \<Rightarrow> page_context \<Rightarrow> driver_config \<Rightarrow> ('r, 'j) interference \<Rightarrow> int \<Rightarrow>
   ('r, 'j) crawl_state \<Rightarrow> ('r, 'j) crawl_state \<times> driver_stats crawl_result" where
  "crawl_target E seed ctx cfg others now st =
     (case crawl_run E seed ctx cfg others now st of
        None \<Rightarrow> (st, Inl (OtherError (LibText (''seed URL is unparseable: '' @ seed))))
      | Some d \<Rightarrow> (dr_crawl d, Inr (dr_stats d)))"

section \<open>What the loop keeps\<close>

text \<open>The URLs that are done with, and whether two events may follow each other (newest first).\<close>

definition finished :: "crawl_event list \<Rightarrow> string list" where
  "finished evs = map event_url (filter (\<lambda>e. is_fetched e \<or> is_failed e) evs)"

fun follows :: "nat \<Rightarrow> crawl_event \<Rightarrow> crawl_event \<Rightarrow> bool" where
  "follows delay (Slept t) (Slept t') = False"
| "follows delay (Slept t) (Limited u retry) =
     (case retry of Some secs \<Rightarrow> t = 1000 * min secs 120 | None \<Rightarrow> t \<in> {1000, 2000, 4000, 8000})"
| "follows delay (Slept t) e = (t = delay)"
| "follows delay e e' = is_slept e'"

fun paced :: "nat \<Rightarrow> crawl_event list \<Rightarrow> bool" where
  "paced delay [] = True"
| "paced delay [e] = (\<not> is_slept e)"
| "paced delay (e # e' # evs) = (follows delay e e' \<and> paced delay (e' # evs))"

text \<open>The bookkeeping of the log, at every moment.\<close>

definition counts_ok :: "nat \<Rightarrow> nat \<Rightarrow> ('r, 'j) drive \<Rightarrow> bool" where
  "counts_ok max_pages delay d \<longleftrightarrow>
     (let s = dr_stats d; evs = dr_log d in
      ds_pages_fetched s = length (filter is_fetched evs) \<and> ds_pages_fetched s \<le> max_pages \<and>
      ds_pages_errored s = length (filter is_failed evs) \<and>
      ds_pages_indexed s + ds_pages_not_modified s \<le> ds_pages_fetched s \<and>
      length (filter is_limited evs) \<le> 4 * ds_pages_fetched s + dr_consecutive_429s d \<and> paced delay evs)"

definition urls_ok :: "(string \<Rightarrow> bool) \<Rightarrow> ('r, 'j) drive \<Rightarrow> bool" where
  "urls_ok P d \<longleftrightarrow>
     distinct (finished (dr_log d) @ dr_queue d) \<and>
     set (finished (dr_log d)) \<union> set (dr_queue d) \<subseteq> set (dr_visited d) \<and>
     event_url ` set (filter is_limited (dr_log d)) \<subseteq> set (dr_visited d) \<and> (\<forall>u \<in> set (dr_visited d). P u)"

text \<open>Before a turn, nothing visited is lost, and the last thing done was to wait.\<close>

definition ready :: "nat \<Rightarrow> ('r, 'j) drive \<Rightarrow> bool" where
  "ready max_pages d \<longleftrightarrow>
     set (dr_visited d) = set (finished (dr_log d)) \<union> set (dr_queue d) \<and> dr_consecutive_429s d \<le> 4 \<and>
     (going max_pages d \<longrightarrow> dr_log d = [] \<or> is_slept (hd (dr_log d)))"

text \<open>The loop was left by \<open>break\<close>.\<close>

definition aborted :: "('r, 'j) drive \<Rightarrow> bool" where
  "aborted d \<longleftrightarrow> dr_consecutive_429s d = 5 \<and> dr_log d \<noteq> [] \<and> is_limited (hd (dr_log d))"

lemma enqueue_spec:
  assumes "enqueue visited queue links = (visited', queue')"
  shows "\<exists>new. visited' = visited @ new \<and> queue' = queue @ new \<and> distinct new \<and> set new \<subseteq> set links \<and>
    set new \<inter> set visited = {} \<and> set visited' = set visited \<union> set links"
  using assms
proof (induction visited queue links rule: enqueue.induct)
  case (2 visited queue link links)
  show ?case
  proof (cases "link \<in> set visited")
    case True
    with 2 show ?thesis by fastforce
  next
    case False
    with 2(2,3) obtain new where "visited' = (visited @ [link]) @ new \<and> queue' = (queue @ [link]) @ new \<and>
        distinct new \<and> set new \<subseteq> set links \<and> set new \<inter> set (visited @ [link]) = {} \<and>
        set visited' = set (visited @ [link]) \<union> set links"
      by fastforce
    with False show ?thesis by (intro exI [where x = "link # new"]) auto
  qed
qed simp

lemma finished_simps [simp]:
  "finished [] = []"
  "finished (Fetched u # evs) = u # finished evs"
  "finished (Failed u # evs) = u # finished evs"
  "finished (Limited u r # evs) = finished evs"
  "finished (Slept t # evs) = finished evs"
  by (simp_all add: finished_def)

lemma paced_Cons:
  "paced delay (e # evs) \<longleftrightarrow> (if evs = [] then \<not> is_slept e else follows delay e (hd evs) \<and> paced delay evs)"
  by (cases evs) simp_all

lemma follows_page: "\<not> is_slept e \<Longrightarrow> follows delay e e' = is_slept e'"
  by (cases e; cases e') simp_all

lemma sleep_after_429_follows:
  "n < 4 \<Longrightarrow> follows delay (Slept (sleep_after_429 retry (Suc n))) (Limited u retry)"
proof -
  assume "n < 4"
  then have "n = 0 \<or> n = 1 \<or> n = 2 \<or> n = 3" by arith
  then show ?thesis
    by (elim disjE) (simp_all add: sleep_after_429_def rate_limit_backoff_def split: option.split)
qed

lemma paced_page:
  assumes "paced delay evs" and "evs = [] \<or> is_slept (hd evs)" and "\<not> is_slept e"
  shows "paced delay (e # evs)"
  using assms by (auto simp: paced_Cons follows_page)

lemma pace_keeps:
  assumes "dr_log d = e # evs" and "is_fetched e \<or> is_failed e" and "counts_ok m delay d"
  shows "counts_ok m delay (pace m delay d) \<and> finished (dr_log (pace m delay d)) = finished (dr_log d) \<and>
    filter is_limited (dr_log (pace m delay d)) = filter is_limited (dr_log d) \<and>
    (going m (pace m delay d) \<longrightarrow> is_slept (hd (dr_log (pace m delay d))))"
proof (cases "going m d")
  case True
  moreover have "follows delay (Slept delay) e" using assms(2) by (cases e) auto
  ultimately show ?thesis using assms by (auto simp: pace_def counts_ok_def Let_def paced_Cons)
next
  case False
  then show ?thesis using assms by (simp add: pace_def)
qed

lemma drive_step_keeps:
  assumes inv: "counts_ok m delay d" "urls_ok P d" "ready m d" and go: "going m d"
    and own: "\<And>l. own_link (ce_url E) ctx l \<Longrightarrow> P l"
    and step: "drive_step E ctx m delay others now d = (d', go)"
  shows "counts_ok m delay d' \<and> urls_ok P d' \<and> set (dr_visited d) \<subseteq> set (dr_visited d') \<and>
    (if go then ready m d' else aborted d')"
proof -
  from go obtain url rest where q: "dr_queue d = url # rest" by (auto simp: going_def neq_Nil_conv)
  have waited: "dr_log d = [] \<or> is_slept (hd (dr_log d))" using inv(3) go by (simp add: ready_def)
  have below: "ds_pages_fetched (dr_stats d) < m" "dr_consecutive_429s d \<le> 4"
    using go inv(3) by (simp_all add: going_def ready_def)
  from step q show ?thesis
  proof (rule drive_step_cases)
    fix st result visited queue
    assume c: "crawl_page E url ctx now (others (dr_log d) (dr_crawl d)) = (st, Inr result)"
      and e: "enqueue (dr_visited d) rest (pr_in_prefix_links result) = (visited, queue)" and "go"
      and d': "d' = pace m delay (d\<lparr>dr_crawl := st, dr_consecutive_429s := 0,
        dr_stats := count_page result (dr_stats d), dr_visited := visited, dr_queue := queue,
        dr_log := Fetched url # dr_log d\<rparr>)" (is "_ = pace m delay ?d1")
    have rep: "\<forall>l \<in> set (pr_in_prefix_links result). P l" "pr_not_modified result \<longrightarrow> \<not> pr_indexed result"
      using crawl_page_does [OF c] own by (auto simp: page_report_def Let_def)
    have cnt: "counts_ok m delay ?d1"
      using inv(1) below waited rep(2) by (auto simp: counts_ok_def Let_def count_page_def paced_page)
    have kept: "counts_ok m delay d' \<and> finished (dr_log d') = url # finished (dr_log d) \<and>
        filter is_limited (dr_log d') = filter is_limited (dr_log d) \<and> (going m d' \<longrightarrow> is_slept (hd (dr_log d')))"
      using pace_keeps [OF _ _ cnt, of "Fetched url" "dr_log d"] unfolding d' by simp
    obtain new where new: "visited = dr_visited d @ new" "queue = rest @ new" "distinct new"
        "set new \<subseteq> set (pr_in_prefix_links result)" "set new \<inter> set (dr_visited d) = {}"
      using enqueue_spec [OF e] by blast
    have urls: "distinct (finished (dr_log d) @ url # rest)"
      "set (finished (dr_log d)) \<union> set (url # rest) \<subseteq> set (dr_visited d)"
      "event_url ` set (filter is_limited (dr_log d)) \<subseteq> set (dr_visited d)" "\<forall>u \<in> set (dr_visited d). P u"
      using inv(2) q by (auto simp: urls_ok_def)
    have "distinct (finished (dr_log d') @ queue)" using urls(1,2) new kept by auto
    moreover have "\<forall>u \<in> set visited. P u" using urls(4) rep(1) new by auto
    moreover have "set (finished (dr_log d')) \<union> set queue \<subseteq> set visited"
      using urls(2) new kept by auto
    ultimately have "urls_ok P d'" using urls(3) kept new by (auto simp: urls_ok_def d')
    moreover have "ready m d'" using inv(3) kept new q by (auto simp: ready_def d')
    ultimately show ?thesis using kept new \<open>go\<close> by (simp add: d')
  next
    fix st after
    assume "dr_consecutive_429s d < 4" "go" and d': "d' = d\<lparr>dr_crawl := st,
        dr_consecutive_429s := dr_consecutive_429s d + 1,
        dr_log := Slept (sleep_after_429 after (dr_consecutive_429s d + 1)) # Limited url after # dr_log d\<rparr>"
    then show ?thesis
      using inv waited q sleep_after_429_follows [of "dr_consecutive_429s d" delay after url]
        paced_page [of delay "dr_log d" "Limited url after"]
      by (auto simp: counts_ok_def urls_ok_def ready_def Let_def paced_Cons)
  next
    fix st after
    assume "4 \<le> dr_consecutive_429s d" "\<not> go" and d': "d' = d\<lparr>dr_queue := rest, dr_crawl := st,
        dr_consecutive_429s := dr_consecutive_429s d + 1, dr_log := Limited url after # dr_log d\<rparr>"
    then show ?thesis
      using inv waited q paced_page [of delay "dr_log d" "Limited url after"]
      by (auto simp: counts_ok_def urls_ok_def ready_def aborted_def Let_def)
  next
    fix st e
    assume "go" and d': "d' = pace m delay (d\<lparr>dr_queue := rest, dr_crawl := st,
        dr_stats := (dr_stats d)\<lparr>ds_pages_errored := ds_pages_errored (dr_stats d) + 1\<rparr>,
        dr_log := Failed url # dr_log d\<rparr>)" (is "_ = pace m delay ?d1")
    have cnt: "counts_ok m delay ?d1"
      using inv(1) waited by (auto simp: counts_ok_def Let_def paced_page)
    have kept: "counts_ok m delay d' \<and> finished (dr_log d') = url # finished (dr_log d) \<and>
        filter is_limited (dr_log d') = filter is_limited (dr_log d) \<and> (going m d' \<longrightarrow> is_slept (hd (dr_log d')))"
      using pace_keeps [OF _ _ cnt, of "Failed url" "dr_log d"] unfolding d' by simp
    have "urls_ok P d'" using inv(2) kept q by (auto simp: urls_ok_def d')
    moreover have "ready m d'" using inv(3) kept q by (auto simp: ready_def d')
    ultimately show ?thesis using kept \<open>go\<close> by (simp add: d')
  qed
qed

lemma drive_loop_keeps:
  assumes "counts_ok m delay d" "urls_ok P d" "ready m d" and "\<And>l. own_link (ce_url E) ctx l \<Longrightarrow> P l"
  shows "counts_ok m delay (drive_loop E ctx m delay others now d) \<and>
    urls_ok P (drive_loop E ctx m delay others now d) \<and>
    set (dr_visited d) \<subseteq> set (dr_visited (drive_loop E ctx m delay others now d)) \<and>
    (aborted (drive_loop E ctx m delay others now d) \<or>
     ready m (drive_loop E ctx m delay others now d) \<and> \<not> going m (drive_loop E ctx m delay others now d))"
  using assms
proof (induction E ctx m delay others now d rule: drive_loop.induct)
  case (1 E ctx m delay others now d)
  show ?case
  proof (cases "going m d")
    case False
    then have "drive_loop E ctx m delay others now d = d" by (simp add: drive_loop.simps)
    with 1(2-4) False show ?thesis by simp
  next
    case True
    obtain d' go where step: "drive_step E ctx m delay others now d = (d', go)" by fastforce
    note k = drive_step_keeps [OF 1(2-4) True 1(5) step]
    show ?thesis
    proof (cases go)
      case go: True
      then have l: "drive_loop E ctx m delay others now d = drive_loop E ctx m delay others now d'"
        using True step by (simp add: drive_loop.simps [of E ctx m delay others now d])
      from 1(1) [OF _ step [symmetric] go _ _ _ 1(5)] True k go show ?thesis unfolding l by auto
    next
      case False
      then have "drive_loop E ctx m delay others now d = d'"
        using True step by (simp add: drive_loop.simps [of E ctx m delay others now d])
      with k False show ?thesis by simp
    qed
  qed
qed

lemma events_visited:
  assumes "urls_ok P d" and "e \<in> set (dr_log d)" and "\<not> is_slept e"
  shows "event_url e \<in> set (dr_visited d)"
proof (cases "is_limited e")
  case True
  then have "event_url e \<in> event_url ` set (filter is_limited (dr_log d))" using assms(2) by simp
  then show ?thesis using assms(1) unfolding urls_ok_def by blast
next
  case False
  then have "is_fetched e \<or> is_failed e" using assms(3) by (cases e) simp_all
  then have "event_url e \<in> set (finished (dr_log d))" using assms(2) by (simp add: finished_def)
  then show ?thesis using assms(1) unfolding urls_ok_def by blast
qed

section \<open>The start of a run\<close>

lemma discover_urls_good:
  assumes "discover_urls E s pfx n st = (st', urls)" and "order_ok E"
  shows "\<forall>u \<in> set urls. (\<exists>v. normalize_url (ce_url E) v = Some u) \<and> is_in_prefix (ce_url E) u pfx"
proof -
  have m: "mset urls = mset (dv_found (discover E s pfx n st))"
    using assms by (auto simp: discover_urls_def Let_def order_ok_def)
  then have "set urls = set (dv_found (discover E s pfx n st))" by (metis mset_eq_setD)
  then show ?thesis using discover_good [of E pfx s n st] by (auto simp: found_ok_def good_seed_def)
qed

lemma truncate_url [simp]: "ce_url (crawl_env.truncate E) = ce_url E"
  by (simp add: crawl_env.truncate_def)

lemma crawl_run_inv:
  assumes "crawl_run E seed ctx cfg others now st = Some d" and "order_ok (crawl_env.truncate E)"
  shows "\<exists>s rs answer rs' seeds delay. normalize_url (ce_url E) seed = Some s \<and>
    crawl_delay_for (ce_url E) (ce_robots E) (ce_web E) (ce_net E) (ce_agent E) s (cs_robots st) = (rs, answer) \<and>
    delay = effective_delay_for_run (dc_politeness_delay cfg)
      (map_option (\<lambda>secs. 1000 * secs) (unwrap_or None answer)) \<and>
    discover_urls (crawl_env.truncate E) s (pc_url_prefix ctx) 10000 rs = (rs', seeds) \<and>
    counts_ok (dc_max_pages_per_run cfg) delay d \<and> urls_ok (\<lambda>u. u = s \<or> own_link (ce_url E) ctx u) d \<and>
    insert s (set seeds) \<subseteq> set (dr_visited d) \<and>
    (aborted d \<or> ready (dc_max_pages_per_run cfg) d \<and> \<not> going (dc_max_pages_per_run cfg) d)"
proof -
  from assms(1) obtain s where s: "normalize_url (ce_url E) seed = Some s"
    by (auto simp: crawl_run_def split: option.splits)
  obtain rs answer where dl:
    "crawl_delay_for (ce_url E) (ce_robots E) (ce_web E) (ce_net E) (ce_agent E) s (cs_robots st) = (rs, answer)"
    by fastforce
  obtain rs' seeds where sd: "discover_urls (crawl_env.truncate E) s (pc_url_prefix ctx) 10000 rs = (rs', seeds)"
    by fastforce
  obtain v q where e: "enqueue [s] [s] seeds = (v, q)" by fastforce
  let ?delay = "effective_delay_for_run (dc_politeness_delay cfg)
    (map_option (\<lambda>secs. 1000 * secs) (unwrap_or None answer))"
  let ?d = "\<lparr>dr_stats = no_pages, dr_visited = v, dr_queue = q, dr_consecutive_429s = 0, dr_log = [],
    dr_crawl = st\<lparr>cs_robots := rs'\<rparr>\<rparr>"
  let ?P = "\<lambda>u. u = s \<or> own_link (ce_url E) ctx u"
  have d: "d = drive_loop E ctx (dc_max_pages_per_run cfg) ?delay others now ?d"
    using assms(1) s dl sd e by (simp add: crawl_run_def Let_def)
  obtain new where new: "v = [s] @ new" "q = [s] @ new" "distinct new" "set new \<inter> set [s] = {}"
    "set v = set [s] \<union> set seeds" "set new \<subseteq> set seeds" using enqueue_spec [OF e] by blast
  have own: "\<forall>u \<in> set seeds. own_link (ce_url E) ctx u"
    using discover_urls_good [OF sd assms(2)] by (simp add: own_link_def)
  have "counts_ok (dc_max_pages_per_run cfg) ?delay ?d" by (simp add: counts_ok_def no_pages_def)
  moreover have "urls_ok ?P ?d" using new own by (auto simp: urls_ok_def)
  moreover have "ready (dc_max_pages_per_run cfg) ?d" using new by (simp add: ready_def)
  ultimately have "counts_ok (dc_max_pages_per_run cfg) ?delay d \<and> urls_ok ?P d \<and> set v \<subseteq> set (dr_visited d) \<and>
      (aborted d \<or> ready (dc_max_pages_per_run cfg) d \<and> \<not> going (dc_max_pages_per_run cfg) d)"
    using drive_loop_keeps [of "dc_max_pages_per_run cfg" ?delay ?d ?P E ctx others now] unfolding d by simp
  then show ?thesis using s dl sd new(5) by auto
qed

section \<open>Properties\<close>

text \<open>C15: a crawl ends, within its limits, whatever the web answers and whatever other tasks do. It crawls no more pages
  with success than its configuration allows and counts them and its errors right; only the seed and links under the
  prefix of the target are asked for; no URL is crawled again once it has been fetched or has failed; and the answers
  429 are at most four for each page fetched and five more.\<close>

theorem crawl_target_bounded:
  assumes "crawl_run E seed ctx cfg others now st = Some d" and "order_ok (crawl_env.truncate E)"
  shows "crawl_target E seed ctx cfg others now st = (dr_crawl d, Inr (dr_stats d)) \<and>
    ds_pages_fetched (dr_stats d) = length (filter is_fetched (dr_log d)) \<and>
    ds_pages_fetched (dr_stats d) \<le> dc_max_pages_per_run cfg \<and>
    ds_pages_errored (dr_stats d) = length (filter is_failed (dr_log d)) \<and>
    ds_pages_indexed (dr_stats d) + ds_pages_not_modified (dr_stats d) \<le> ds_pages_fetched (dr_stats d) \<and>
    distinct (map event_url (filter (\<lambda>e. is_fetched e \<or> is_failed e) (dr_log d))) \<and>
    (\<forall>e \<in> set (dr_log d). \<not> is_slept e \<longrightarrow>
       normalize_url (ce_url E) seed = Some (event_url e) \<or> own_link (ce_url E) ctx (event_url e)) \<and>
    length (filter is_limited (dr_log d)) \<le> 4 * ds_pages_fetched (dr_stats d) + 5"
proof -
  from crawl_run_inv [OF assms] obtain s delay where
    s: "normalize_url (ce_url E) seed = Some s"
    and c: "counts_ok (dc_max_pages_per_run cfg) delay d" and u: "urls_ok (\<lambda>u. u = s \<or> own_link (ce_url E) ctx u) d"
    and stop: "aborted d \<or> ready (dc_max_pages_per_run cfg) d" by blast
  have "event_url e = s \<or> own_link (ce_url E) ctx (event_url e)" if "e \<in> set (dr_log d)" "\<not> is_slept e" for e
    using events_visited [OF u that] u unfolding urls_ok_def by blast
  moreover have "dr_consecutive_429s d \<le> 5" using stop by (auto simp: aborted_def ready_def)
  ultimately show ?thesis
    using assms(1) s c u by (auto simp: crawl_target_def counts_ok_def urls_ok_def finished_def Let_def)
qed

text \<open>C23: a crawl waits between requests. Between two pages of a crawl there is exactly one wait: after a page or a
  failure it is the effective delay, which is at least the configured delay and at least the Crawl-Delay of the
  robots.txt of the seed when that is known; after a 429 it is the Retry-After of the answer, cut at 120 seconds, or one
  of the back-off times. (A Retry-After of zero is followed at once: then the crawl does not keep to the delay.)\<close>

theorem crawl_target_polite:
  assumes "crawl_run E seed ctx cfg others now st = Some d" and "order_ok (crawl_env.truncate E)"
  shows "\<exists>s delay. normalize_url (ce_url E) seed = Some s \<and> paced delay (dr_log d) \<and> dc_politeness_delay cfg \<le> delay \<and>
    (\<forall>secs. snd (crawl_delay_for (ce_url E) (ce_robots E) (ce_web E) (ce_net E) (ce_agent E) s (cs_robots st)) =
       Inr (Some secs) \<longrightarrow> 1000 * secs \<le> delay)"
proof -
  from crawl_run_inv [OF assms] obtain s rs answer delay where
    s: "normalize_url (ce_url E) seed = Some s"
      "crawl_delay_for (ce_url E) (ce_robots E) (ce_web E) (ce_net E) (ce_agent E) s (cs_robots st) = (rs, answer)"
    and delay: "delay = effective_delay_for_run (dc_politeness_delay cfg)
      (map_option (\<lambda>secs. 1000 * secs) (unwrap_or None answer))"
    and c: "counts_ok (dc_max_pages_per_run cfg) delay d" by blast
  have "dc_politeness_delay cfg \<le> delay" by (simp add: delay effective_delay_for_run_def split: option.split)
  moreover have "1000 * secs \<le> delay" if "answer = Inr (Some secs)" for secs
    using that by (simp add: delay effective_delay_for_run_def)
  ultimately show ?thesis using s c by (auto simp: counts_ok_def Let_def)
qed


section \<open>The flag of rate-limited targets\<close>

text \<open>No stored page has the status 429.\<close>

definition no_429 :: "('r, 'j) crawl_state \<Rightarrow> bool" where
  "no_429 st \<longleftrightarrow> Some 429 \<notin> p_last_status ` set (pages (cs_db st))"

lemma crawl_page_no_429: "crawl_page E u ctx now st = (st', r) \<Longrightarrow> no_429 st \<Longrightarrow> no_429 st'"
  using crawl_page_does [of E u ctx now st st' r] by (auto simp: page_effect_def no_429_def Let_def)

lemma drive_loop_no_429:
  assumes "no_429 (dr_crawl d)" and "\<And>evs st. no_429 st \<Longrightarrow> no_429 (others evs st)"
  shows "no_429 (dr_crawl (drive_loop E ctx m delay others now d))"
  using assms
proof (induction E ctx m delay others now d rule: drive_loop.induct)
  case (1 E ctx m delay others now d)
  show ?case
  proof (cases "going m d")
    case True
    obtain d' go where step: "drive_step E ctx m delay others now d = (d', go)" by fastforce
    from True obtain u rest where q: "dr_queue d = u # rest" by (auto simp: going_def neq_Nil_conv)
    obtain st r where c: "crawl_page E u ctx now (others (dr_log d) (dr_crawl d)) = (st, r)" by fastforce
    have "no_429 st" using crawl_page_no_429 [OF c] 1(2,3) by blast
    moreover have "dr_crawl d' = st" using step q by (rule drive_step_cases) (use c in simp_all)
    ultimately have "no_429 (dr_crawl d')" by simp
    with True step 1 show ?thesis by (simp add: drive_loop.simps [of E ctx m delay others now d])
  qed (use 1 in \<open>simp add: drive_loop.simps\<close>)
qed

text \<open>The list of targets never shows a target as rate limited. The flag looks for a stored page with status 429, but an
  answer 429 stores nothing: whatever a crawl meets, even when it gives up after five answers 429, the flag stays off
  (given that no row has that status before and that no other task stores one).\<close>

theorem rate_limited_flag_stays_off:
  assumes "crawl_target E seed ctx cfg others now st = (st', r)"
    and "Some 429 \<notin> p_last_status ` set (pages (cs_db st))"
    and "\<And>evs s. Some 429 \<notin> p_last_status ` set (pages (cs_db s)) \<Longrightarrow>
      Some 429 \<notin> p_last_status ` set (pages (cs_db (others evs s)))"
  shows "\<forall>item \<in> set (target_list (cs_db st')). \<not> tl_rate_limited item"
proof -
  have others: "no_429 s \<Longrightarrow> no_429 (others evs s)" for evs s using assms(3) by (simp add: no_429_def)
  have "no_429 (dr_crawl d)" if run: "crawl_run E seed ctx cfg others now st = Some d" for d
  proof -
    from run obtain delay v q rs where "d = drive_loop E ctx (dc_max_pages_per_run cfg) delay others now
        \<lparr>dr_stats = no_pages, dr_visited = v, dr_queue = q, dr_consecutive_429s = 0, dr_log = [],
         dr_crawl = st\<lparr>cs_robots := rs\<rparr>\<rparr>"
      by (auto simp: crawl_run_def Let_def case_prod_unfold split: option.splits)
    moreover have "no_429 (dr_crawl \<lparr>dr_stats = no_pages, dr_visited = v, dr_queue = q, dr_consecutive_429s = 0,
        dr_log = [], dr_crawl = st\<lparr>cs_robots := rs\<rparr>\<rparr>)"
      using assms(2) by (simp add: no_429_def)
    ultimately show ?thesis using drive_loop_no_429 [where others = others, OF _ others] by blast
  qed
  then have "no_429 st'"
    using assms(1,2) by (auto simp: crawl_target_def no_429_def split: option.splits)
  then show ?thesis
    by (force simp: target_list_def target_item_def no_429_def list_ex_iff Let_def)
qed

section \<open>A small run\<close>

definition plain_config :: driver_config where
  "plain_config = \<lparr>dc_politeness_delay = 250, dc_max_pages_per_run = 3\<rparr>"

lemma plain_order: "order_ok (crawl_env.truncate plain_env)"
  by (simp add: order_ok_def sample_env_crawl_def)

lemma plain_seed: "normalize_url (ce_url plain_env) ''/'' = Some ''/''"
  by simp

lemma plain_run: "\<exists>d. crawl_run plain_env ''/'' plain_context plain_config (\<lambda>_ s. s) 5 plain_state = Some d"
  by (simp add: crawl_run_def Let_def case_prod_unfold)

theorem crawl_target_bounded_witness:
  "\<exists>d. crawl_run plain_env ''/'' plain_context plain_config (\<lambda>_ s. s) 5 plain_state = Some d \<and>
     ds_pages_fetched (dr_stats d) \<le> 3"
proof -
  obtain d where d: "crawl_run plain_env ''/'' plain_context plain_config (\<lambda>_ s. s) 5 plain_state = Some d"
    using plain_run by blast
  from crawl_target_bounded [OF d plain_order] d show ?thesis by (simp add: plain_config_def)
qed

theorem crawl_target_polite_witness:
  "\<exists>d delay. crawl_run plain_env ''/'' plain_context plain_config (\<lambda>_ s. s) 5 plain_state = Some d \<and>
     250 \<le> delay \<and> paced delay (dr_log d)"
proof -
  obtain d where d: "crawl_run plain_env ''/'' plain_context plain_config (\<lambda>_ s. s) 5 plain_state = Some d"
    using plain_run by blast
  from crawl_target_polite [OF d plain_order] d show ?thesis by (auto simp: plain_config_def)
qed


theorem rate_limited_flag_stays_off_witness:
  "\<exists>st' r. crawl_target plain_env ''/'' plain_context plain_config (\<lambda>_ s. s) 5 plain_state = (st', r) \<and>
     (\<forall>item \<in> set (target_list (cs_db st')). \<not> tl_rate_limited item)"
proof -
  obtain st' r where c: "crawl_target plain_env ''/'' plain_context plain_config (\<lambda>_ s. s) 5 plain_state = (st', r)"
    by fastforce
  have "Some 429 \<notin> p_last_status ` set (pages (cs_db plain_state))" by (simp add: plain_state_def)
  from rate_limited_flag_stays_off [OF c this] c show ?thesis by blast
qed

end
