(* ===== verification/Scheduler.thy ===== *)
theory Scheduler
  imports Driver
begin

text \<open>
  \<open>crawler/scheduler.rs\<close>: which targets are due, the run of one target, and the ticker that spawns a task for every due
  target that has none. The tasks run on one thread and interleave with the ticks; the steps of the scheduler are an
  inductive relation.
\<close>

section \<open>Due targets\<close>

record due_target =
  dt_id :: string
  dt_collection_id :: string
  dt_collection_name :: string
  dt_url_prefix :: string
  dt_recrawl_interval_secs :: int
  dt_crawl_delay_secs :: "int option"

definition is_due :: "int \<Rightarrow> target_row \<Rightarrow> bool" where
  "is_due now t \<longleftrightarrow> t_enabled t = 1 \<and>
     (case t_last_crawled_at t of None \<Rightarrow> True | Some l \<Rightarrow> l + t_recrawl_interval_s t \<le> now)"

definition due_of :: "target_row \<Rightarrow> collection_row \<Rightarrow> due_target" where
  "due_of t c =
     \<lparr>dt_id = t_id t, dt_collection_id = t_collection_id t, dt_collection_name = c_name c,
      dt_url_prefix = t_url_prefix t, dt_recrawl_interval_secs = t_recrawl_interval_s t,
      dt_crawl_delay_secs = t_crawl_delay_secs t\<rparr>"

definition list_due_targets :: "int \<Rightarrow> 'j content_db \<Rightarrow> due_target list" where
  "list_due_targets now db =
     [due_of t c. t \<leftarrow> targets db, c \<leftarrow> collections db, c_id c = t_collection_id t \<and> is_due now t]"

section \<open>One target\<close>

definition driver_config_for :: "driver_config \<Rightarrow> due_target \<Rightarrow> driver_config" where
  "driver_config_for cfg target =
     (case dt_crawl_delay_secs target of
        Some secs \<Rightarrow> if 0 < secs then cfg\<lparr>dc_politeness_delay := 1000 * nat secs\<rparr> else cfg
      | None \<Rightarrow> cfg)"

definition page_context_of :: "due_target \<Rightarrow> page_context" where
  "page_context_of target =
     \<lparr>pc_collection_id = dt_collection_id target, pc_crawl_target_id = dt_id target,
      pc_url_prefix = dt_url_prefix target, pc_collection_name = dt_collection_name target\<rparr>"

definition set_last_crawled :: "int \<Rightarrow> string \<Rightarrow> 'j content_db \<Rightarrow> 'j content_db" where
  "set_last_crawled now tid db =
     db\<lparr>targets := update_where (\<lambda>t. t_id t = tid) (\<lambda>t. t\<lparr>t_last_crawled_at := Some now\<rparr>) (targets db)\<rparr>"

definition run_one_target ::
  "('r, 'j, 'z) page_env_scheme \<Rightarrow> driver_config \<Rightarrow> ('r, 'j) interference \<Rightarrow> due_target \<Rightarrow> int \<Rightarrow>
   ('r, 'j) crawl_state \<Rightarrow> ('r, 'j) crawl_state \<times> unit crawl_result" where
  "run_one_target E cfg others target now st =
     (case crawl_target E (dt_url_prefix target) (page_context_of target) (driver_config_for cfg target) others now st of
        (st', Inl e) \<Rightarrow> (st', Inl e)
      | (st', Inr _) \<Rightarrow> (st'\<lparr>cs_db := set_last_crawled now (dt_id target) (cs_db st')\<rparr>, Inr ()))"

section \<open>The ticker\<close>

text \<open>
  \<open>sd_running\<close> is the set of target ids in flight as the list of its elements; \<open>sd_tasks\<close> are the spawned tasks, each
  with the time of its tick.
\<close>

record ('r, 'j) sched =
  sd_paused :: bool
  sd_running :: "string list"
  sd_tasks :: "(due_target \<times> int) list"
  sd_crawl :: "('r, 'j) crawl_state"

definition dispatch_target :: "int \<Rightarrow> due_target \<Rightarrow> ('r, 'j) sched \<Rightarrow> ('r, 'j) sched" where
  "dispatch_target now target st =
     (if dt_id target \<in> set (sd_running st) then st
      else st\<lparr>sd_running := sd_running st @ [dt_id target], sd_tasks := sd_tasks st @ [(target, now)]\<rparr>)"

text \<open>\<open>tree\<close> is the directory of the index, when it can be read.\<close>

definition tick_once :: "nat \<Rightarrow> fs_entry list option \<Rightarrow> int \<Rightarrow> ('r, 'j) sched \<Rightarrow> ('r, 'j) sched" where
  "tick_once max_index_bytes tree now st =
     (if sd_paused st then st
      else
        (case check_capacity (index_dir_size_bytes tree) max_index_bytes of
           Inl _ \<Rightarrow> st
         | Inr _ \<Rightarrow> fold (dispatch_target now) (list_due_targets now (cs_db (sd_crawl st))) st))"

text \<open>A task ends: its id leaves the running set whether it succeeded, failed or panicked.\<close>

definition end_task :: "due_target \<times> int \<Rightarrow> ('r, 'j) crawl_state \<Rightarrow> ('r, 'j) sched \<Rightarrow> ('r, 'j) sched" where
  "end_task task crawl st =
     st\<lparr>sd_running := removeAll (dt_id (fst task)) (sd_running st), sd_tasks := remove1 task (sd_tasks st),
        sd_crawl := crawl\<rparr>"

text \<open>
  The steps: a tick; a task that runs to its end, with whatever the others do meanwhile; a task that panics, leaving some
  state behind; the switch of the pause; and any change of the shared state by a handler.
\<close>

inductive sched_step ::
  "('r, 'j) page_env \<Rightarrow> driver_config \<Rightarrow> nat \<Rightarrow> ('r, 'j) sched \<Rightarrow> ('r, 'j) sched \<Rightarrow> bool"
  for E cfg max_index_bytes where
  Tick: "sched_step E cfg max_index_bytes st (tick_once max_index_bytes tree now st)"
| TaskDone: "task \<in> set (sd_tasks st) \<Longrightarrow>
    run_one_target E cfg others (fst task) (snd task) (sd_crawl st) = (crawl, r) \<Longrightarrow>
    sched_step E cfg max_index_bytes st (end_task task crawl st)"
| TaskPanics: "task \<in> set (sd_tasks st) \<Longrightarrow> sched_step E cfg max_index_bytes st (end_task task crawl st)"
| Pause: "sched_step E cfg max_index_bytes st (st\<lparr>sd_paused := b\<rparr>)"
| Handler: "sched_step E cfg max_index_bytes st (st\<lparr>sd_crawl := crawl\<rparr>)"

inductive_cases sched_stepE: "sched_step E cfg max_index_bytes st st'"

definition sched_start :: "('r, 'j) crawl_state \<Rightarrow> ('r, 'j) sched" where
  "sched_start crawl = \<lparr>sd_paused = False, sd_running = [], sd_tasks = [], sd_crawl = crawl\<rparr>"

inductive sched_reachable ::
  "('r, 'j) page_env \<Rightarrow> driver_config \<Rightarrow> nat \<Rightarrow> ('r, 'j) sched \<Rightarrow> bool"
  for E cfg max_index_bytes where
  Start: "sched_reachable E cfg max_index_bytes (sched_start crawl)"
| Step: "sched_reachable E cfg max_index_bytes st \<Longrightarrow> sched_step E cfg max_index_bytes st st' \<Longrightarrow>
    sched_reachable E cfg max_index_bytes st'"

section \<open>Facts\<close>

definition sched_inv :: "('r, 'j) sched \<Rightarrow> bool" where
  "sched_inv st \<longleftrightarrow> distinct (sd_running st) \<and> distinct (map (dt_id \<circ> fst) (sd_tasks st)) \<and>
     set (sd_running st) = (dt_id \<circ> fst) ` set (sd_tasks st)"

lemma dispatch_target_inv: "sched_inv st \<Longrightarrow> sched_inv (dispatch_target now t st)"
  by (auto simp: dispatch_target_def sched_inv_def)

lemma fold_dispatch_inv: "sched_inv st \<Longrightarrow> sched_inv (fold (dispatch_target now) ts st)"
  by (induction ts arbitrary: st) (simp_all add: dispatch_target_inv)

lemma tick_once_inv: "sched_inv st \<Longrightarrow> sched_inv (tick_once m tree now st)"
  by (auto simp: tick_once_def fold_dispatch_inv split: sum.split)

lemma distinct_remove1_image:
  assumes "distinct (map f xs)" and "x \<in> set xs"
  shows "f ` set (remove1 x xs) = f ` set xs - {f x}"
proof -
  have "distinct xs" and "inj_on f (set xs)" using assms(1) by (simp_all add: distinct_map)
  then show ?thesis using assms(2) by (auto simp: inj_on_def)
qed

lemma end_task_inv:
  assumes "sched_inv st" and "task \<in> set (sd_tasks st)"
  shows "sched_inv (end_task task crawl st)"
proof -
  have "distinct (map (dt_id \<circ> fst) (remove1 task (sd_tasks st)))"
    using assms(1) by (auto simp: sched_inv_def distinct_map intro: inj_on_subset dest: notin_set_remove1)
  moreover have "distinct (removeAll (dt_id (fst task)) (sd_running st))"
    using assms(1) by (simp add: sched_inv_def distinct_removeAll)
  ultimately show ?thesis
    using assms distinct_remove1_image [of "dt_id \<circ> fst" "sd_tasks st" task]
    by (auto simp: sched_inv_def end_task_def)
qed

lemma sched_step_inv: "sched_step E cfg m st st' \<Longrightarrow> sched_inv st \<Longrightarrow> sched_inv st'"
  by (erule sched_stepE) (auto simp: tick_once_inv end_task_inv, auto simp: sched_inv_def)

lemma sched_reachable_inv: "sched_reachable E cfg m st \<Longrightarrow> sched_inv st"
  by (induction rule: sched_reachable.induct) (simp add: sched_inv_def sched_start_def, rule sched_step_inv)

lemma fold_dispatch_tasks:
  assumes "distinct (map dt_id ts)"
  shows "sd_tasks (fold (dispatch_target now) ts st) =
      sd_tasks st @ map (\<lambda>t. (t, now)) (filter (\<lambda>t. dt_id t \<notin> set (sd_running st)) ts) \<and>
    sd_paused (fold (dispatch_target now) ts st) = sd_paused st \<and>
    sd_crawl (fold (dispatch_target now) ts st) = sd_crawl st"
  using assms
proof (induction ts arbitrary: st)
  case (Cons t ts)
  have "filter (\<lambda>u. dt_id u \<notin> set (sd_running (dispatch_target now t st))) ts =
      filter (\<lambda>u. dt_id u \<notin> set (sd_running st)) ts"
    using Cons.prems by (intro filter_cong) (auto simp: dispatch_target_def image_iff)
  with Cons show ?case by (auto simp: dispatch_target_def)
qed simp

lemma distinct_concat_option:
  "distinct (map f xs) \<Longrightarrow> (\<And>x y. x \<in> set xs \<Longrightarrow> y \<in> set (g x) \<Longrightarrow> h y = f x) \<Longrightarrow>
   (\<And>x. x \<in> set xs \<Longrightarrow> length (g x) \<le> 1) \<Longrightarrow> distinct (map h (concat (map g xs)))"
proof (induction xs)
  case (Cons x xs)
  have "distinct (map h (g x))" using Cons.prems(3) [of x] by (cases "g x") auto
  moreover have "h y \<noteq> h z" if "y \<in> set (g x)" "w \<in> set xs" "z \<in> set (g w)" for y z w
    using Cons.prems(1,2) that by fastforce
  ultimately show ?case using Cons by auto
qed simp

lemma length_filter_key: "distinct (map f xs) \<Longrightarrow> length (filter (\<lambda>x. f x = k \<and> P) xs) \<le> 1"
proof (induction xs)
  case (Cons x xs)
  show ?case
  proof (cases "f x = k")
    case True
    with Cons.prems have "filter (\<lambda>y. f y = k \<and> P) xs = []" by (auto simp: filter_empty_conv image_iff)
    then show ?thesis by (cases P) simp_all
  qed (use Cons in simp)
qed simp

lemma concat_filter: "concat (map (\<lambda>c. if P c then [f c] else []) xs) = map f (filter P xs)"
  by (induction xs) simp_all

lemma distinct_due:
  assumes "distinct (map t_id (targets db))" and "distinct (map c_id (collections db))"
  shows "distinct (map dt_id (list_due_targets now db))"
  unfolding list_due_targets_def concat_filter
proof (rule distinct_concat_option [OF assms(1)])
  show "length (map (due_of t) (filter (\<lambda>c. c_id c = t_collection_id t \<and> is_due now t) (collections db))) \<le> 1"
    if "t \<in> set (targets db)" for t
    using length_filter_key [OF assms(2), of "t_collection_id t" "is_due now t"] by simp
qed (auto simp: due_of_def)

section \<open>Properties\<close>

text \<open>Never two crawls of one target at the same time. In every state the scheduler can reach, by ticks, ends and panics
  of tasks, pauses and changes made by handlers in any order, each target has at most one task, and the running set
  holds exactly the targets of the tasks: a target whose task has ended or panicked can be crawled again.\<close>

theorem one_task_per_target:
  assumes "sched_reachable E cfg max_index_bytes st"
  shows "distinct (map (\<lambda>(t, _). dt_id t) (sd_tasks st)) \<and>
    set (sd_running st) = (\<lambda>(t, _). dt_id t) ` set (sd_tasks st) \<and> distinct (sd_running st)"
  using sched_reachable_inv [OF assms] by (simp add: sched_inv_def comp_def case_prod_unfold)

text \<open>What a tick dispatches. A paused scheduler, and one whose index has reached its maximal size, dispatch nothing.
  Otherwise a tick spawns one task for each target that is enabled and due at that time and has no task, in the order of
  the list, and touches nothing else.\<close>

theorem tick_dispatches_due_targets:
  assumes "distinct (map t_id (targets (cs_db (sd_crawl st))))" and "distinct (map c_id (collections (cs_db (sd_crawl st))))"
  shows "(sd_paused st \<or> max_index_bytes \<le> index_dir_size_bytes tree \<longrightarrow> tick_once max_index_bytes tree now st = st) \<and>
    (\<not> sd_paused st \<and> index_dir_size_bytes tree < max_index_bytes \<longrightarrow>
       sd_tasks (tick_once max_index_bytes tree now st) = sd_tasks st @
         map (\<lambda>t. (t, now)) (filter (\<lambda>t. dt_id t \<notin> set (sd_running st)) (list_due_targets now (cs_db (sd_crawl st))))) \<and>
    sd_paused (tick_once max_index_bytes tree now st) = sd_paused st \<and>
    sd_crawl (tick_once max_index_bytes tree now st) = sd_crawl st \<and>
    (\<forall>d \<in> set (list_due_targets now (cs_db (sd_crawl st))). \<exists>t \<in> set (targets (cs_db (sd_crawl st))).
       t_id t = dt_id d \<and> t_enabled t = 1 \<and>
       (\<forall>l. t_last_crawled_at t = Some l \<longrightarrow> l + t_recrawl_interval_s t \<le> now))"
proof -
  note fd = fold_dispatch_tasks [OF distinct_due [OF assms], of now now st]
  have "\<exists>t \<in> set (targets (cs_db (sd_crawl st))). t_id t = dt_id d \<and> t_enabled t = 1 \<and>
       (\<forall>l. t_last_crawled_at t = Some l \<longrightarrow> l + t_recrawl_interval_s t \<le> now)"
    if "d \<in> set (list_due_targets now (cs_db (sd_crawl st)))" for d
  proof -
    from that obtain t c where "t \<in> set (targets (cs_db (sd_crawl st)))" "is_due now t" "d = due_of t c"
      by (auto simp: list_due_targets_def)
    then show ?thesis by (intro bexI [where x = t]) (auto simp: is_due_def due_of_def)
  qed
  then show ?thesis using fd by (auto simp: tick_once_def check_capacity_def)
qed

text \<open>C31: a crawled target rests for its interval. After a successful run of a target that was dispatched at a time, the
  target is not due again before its interval has passed since then, whatever happened in between. A run fails only for
  a prefix that does not parse; it then changes nothing, so such a target is due again at every tick.\<close>

theorem recrawl_interval_respected:
  assumes "run_one_target E cfg others target now st = (st', r)"
  shows "(r = Inr () \<longrightarrow> (\<forall>d \<in> set (list_due_targets now' (cs_db st')). dt_id d = dt_id target \<longrightarrow>
      now + dt_recrawl_interval_secs d \<le> now')) \<and>
    (isl r \<longleftrightarrow> normalize_url (ce_url E) (dt_url_prefix target) = None) \<and> (isl r \<longrightarrow> st' = st)"
proof -
  let ?run = "crawl_run E (dt_url_prefix target) (page_context_of target) (driver_config_for cfg target) others now st"
  have run: "?run = None \<longleftrightarrow> normalize_url (ce_url E) (dt_url_prefix target) = None"
    by (simp add: crawl_run_def Let_def case_prod_unfold split: option.split)
  show ?thesis
  proof (cases ?run)
    case None
    with assms have "isl r" "st' = st" by (auto simp: run_one_target_def crawl_target_def)
    then show ?thesis using None run by auto
  next
    case (Some d)
    with assms have r: "r = Inr ()" "cs_db st' = set_last_crawled now (dt_id target) (cs_db (dr_crawl d))"
      by (auto simp: run_one_target_def crawl_target_def)
    have "now + dt_recrawl_interval_secs x \<le> now'"
      if "x \<in> set (list_due_targets now' (cs_db st'))" "dt_id x = dt_id target" for x
      using that by (auto simp: r(2) list_due_targets_def set_last_crawled_def due_of_def is_due_def
          set_update_where split: option.splits)
    then show ?thesis using r(1) run Some by auto
  qed
qed

section \<open>A small run\<close>

lemma plain_reachable:
  "sched_reachable plain_env plain_config 100 (tick_once 100 None 1000 (sched_start plain_state))"
  by (rule Step [OF Start Tick])

theorem one_task_per_target_witness:
  "distinct (map (\<lambda>(t, _). dt_id t) (sd_tasks (tick_once 100 None 1000 (sched_start plain_state))))"
  using one_task_per_target [OF plain_reachable] by blast

theorem tick_dispatches_due_targets_witness:
  "map (\<lambda>(t, n). (dt_id t, n)) (sd_tasks (tick_once 100 None 1000 (sched_start plain_state))) = [(''t'', 1000)]"
proof -
  have "distinct (map t_id (targets (cs_db (sd_crawl (sched_start plain_state)))))"
    and "distinct (map c_id (collections (cs_db (sd_crawl (sched_start plain_state)))))"
    by (simp_all add: sched_start_def plain_state_def)
  from tick_dispatches_due_targets [OF this, of 100 None 1000] show ?thesis
    by (simp add: sched_start_def plain_state_def plain_target_def list_due_targets_def is_due_def due_of_def
        index_dir_size_bytes_def)
qed

definition plain_due :: due_target where
  "plain_due = due_of plain_target (hd (collections (cs_db plain_state)))"

theorem recrawl_interval_respected_witness:
  "\<exists>st'. run_one_target plain_env plain_config (\<lambda>_ s. s) plain_due 1000 plain_state = (st', Inr ()) \<and>
     (\<forall>d \<in> set (list_due_targets 1001 (cs_db st')). dt_id d = ''t'' \<longrightarrow> dt_recrawl_interval_secs d \<le> 1)"
proof -
  obtain st' r where r: "run_one_target plain_env plain_config (\<lambda>_ s. s) plain_due 1000 plain_state = (st', r)"
    by fastforce
  have "dt_id plain_due = ''t''" by (simp add: plain_due_def due_of_def plain_target_def)
  moreover from recrawl_interval_respected [OF r, of 1001] have "r = Inr ()" by (cases r) auto
  ultimately show ?thesis using recrawl_interval_respected [OF r, of 1001] r by auto
qed

end
