(* ===== verification/Export_Import.thy ===== *)
theory Export_Import
  imports "HOL-Library.Word" Ranking_Config Peers Indexer Search
begin

text \<open>
  \<open>api/admin/export_import.rs\<close>: the dump of an instance and its additive import. The dump is nested by the names of the
  collections. An import runs in one transaction with foreign keys off, so that only UNIQUE and PRIMARY KEY constraints
  can fail; a failure rolls everything back. The gzip and JSON codecs, new UUIDs, the gaps of the AUTOINCREMENT column,
  the time and SHA-256 are parameters. \<open>'w\<close> is the type of source weights, \<open>'f\<close> of the half life, \<open>'x\<close> of the JSON
  columns of a ranking configuration, \<open>'j\<close> of the examples of an outlink. The integer columns \<open>enabled\<close> of peers hold 0 or
  1 only.
\<close>

section \<open>The wire types\<close>

record exported_page =
  xp_url :: string
  xp_etag :: "string option"
  xp_last_modified :: "string option"
  xp_content_hash :: "string option"
  xp_last_status :: "int option"
  xp_last_crawled_at :: int
  xp_indexed_content_hash :: "string option"

record exported_target =
  xt_url_prefix :: string
  xt_recrawl_interval_s :: int
  xt_recrawl_interval_secs :: int
  xt_enabled :: int
  xt_crawl_delay_secs :: "int option"
  xt_created_at :: string
  xt_crawled_pages :: "exported_page list"

record ('f, 'x) exported_ranking =
  xr_half_life :: 'f
  xr_source_weights_json :: 'x
  xr_domain_boosts_json :: 'x
  xr_config_json :: "'x option"

record exported_document =
  xx_url :: string
  xx_title :: string
  xx_body :: string
  xx_indexed_at :: int

record 'j exported_outlink =
  xo_host :: string
  xo_link_count :: int
  xo_examples_json :: 'j
  xo_first_seen_at :: int
  xo_last_seen_at :: int
  xo_status :: string

record ('f, 'x, 'j) exported_collection =
  xc_name :: string
  xc_description :: string
  xc_created_at :: string
  xc_updated_at :: string
  xc_crawl_targets :: "exported_target list"
  xc_ranking_config :: "('f, 'x) exported_ranking option"
  xc_documents :: "exported_document list"
  xc_outlinks :: "'j exported_outlink list"

record exported_node_peer =
  xn_url :: string
  xn_name :: "string option"
  xn_enabled :: bool

record 'w exported_collection_peer =
  xq_local_collection :: string
  xq_node_peer_url :: string
  xq_remote_collection :: string
  xq_source_weight :: 'w
  xq_enabled :: bool

record ('w, 'f, 'x, 'j) envelope =
  ev_format_version :: "32 word"
  ev_exported_at :: string
  ev_self_url :: string
  ev_collections :: "('f, 'x, 'j) exported_collection list"
  ev_node_peers :: "exported_node_peer list"
  ev_collection_peers :: "'w exported_collection_peer list"

record import_report =
  ir_collections_imported :: nat
  ir_collections_skipped :: nat
  ir_crawl_targets_imported :: nat
  ir_crawled_pages_imported :: nat
  ir_documents_queued :: nat
  ir_outlinks_imported :: nat
  ir_node_peers_imported :: nat
  ir_node_peers_skipped :: nat
  ir_collection_peers_imported :: nat
  ir_collection_peers_skipped :: nat

definition empty_report :: import_report where
  "empty_report =
     \<lparr>ir_collections_imported = 0, ir_collections_skipped = 0, ir_crawl_targets_imported = 0,
      ir_crawled_pages_imported = 0, ir_documents_queued = 0, ir_outlinks_imported = 0, ir_node_peers_imported = 0,
      ir_node_peers_skipped = 0, ir_collection_peers_imported = 0, ir_collection_peers_skipped = 0\<rparr>"

definition FORMAT_VERSION :: "32 word" where "FORMAT_VERSION = 1"

text \<open>The tables an import touches.\<close>

record ('w, 'f, 'x, 'j) site_db =
  sb_content :: "'j content_db"
  sb_ranking :: "('f, 'x) ranking_row list"
  sb_fed :: "'w fed_db"

section \<open>Export\<close>

definition exported_page_of :: "page_row \<Rightarrow> exported_page" where
  "exported_page_of p =
     \<lparr>xp_url = p_url p, xp_etag = p_etag p, xp_last_modified = p_last_modified p, xp_content_hash = p_content_hash p,
      xp_last_status = p_last_status p, xp_last_crawled_at = p_last_crawled_at p,
      xp_indexed_content_hash = p_indexed_content_hash p\<rparr>"

definition export_crawled_pages :: "string \<Rightarrow> 'j content_db \<Rightarrow> exported_page list" where
  "export_crawled_pages target_uuid db =
     map exported_page_of (sort_key p_id (filter (\<lambda>p. p_crawl_target_id p = target_uuid) (pages db)))"

definition exported_target_of :: "'j content_db \<Rightarrow> target_row \<Rightarrow> exported_target" where
  "exported_target_of db t =
     \<lparr>xt_url_prefix = t_url_prefix t, xt_recrawl_interval_s = t_recrawl_interval_s t,
      xt_recrawl_interval_secs = t_recrawl_interval_secs t, xt_enabled = t_enabled t,
      xt_crawl_delay_secs = t_crawl_delay_secs t, xt_created_at = t_created_at t,
      xt_crawled_pages = export_crawled_pages (t_id t) db\<rparr>"

definition export_crawl_targets :: "string \<Rightarrow> 'j content_db \<Rightarrow> exported_target list" where
  "export_crawl_targets collection_uuid db =
     map (exported_target_of db)
       (sort_key t_url_prefix (filter (\<lambda>t. t_collection_id t = collection_uuid) (targets db)))"

definition export_ranking_config :: "int \<Rightarrow> ('f, 'x) ranking_row list \<Rightarrow> ('f, 'x) exported_ranking option" where
  "export_ranking_config rowid db =
     map_option (\<lambda>r. \<lparr>xr_half_life = rk_half_life r, xr_source_weights_json = rk_source_weights_json r,
         xr_domain_boosts_json = rk_domain_boosts_json r, xr_config_json = rk_config_json r\<rparr>)
       (find_by rk_collection_id rowid db)"

definition exported_outlink_of :: "'j outlink_row \<Rightarrow> 'j exported_outlink" where
  "exported_outlink_of r =
     \<lparr>xo_host = o_host r, xo_link_count = o_link_count r, xo_examples_json = o_examples_json r,
      xo_first_seen_at = o_first_seen_at r, xo_last_seen_at = o_last_seen_at r, xo_status = o_status r\<rparr>"

definition export_outlinks :: "string \<Rightarrow> 'j content_db \<Rightarrow> 'j exported_outlink list" where
  "export_outlinks collection_uuid db =
     map exported_outlink_of
       (sort_key o_host (filter (\<lambda>r. o_collection_id r = collection_uuid) (outlinks db)))"

definition export_node_peers :: "'w fed_db \<Rightarrow> exported_node_peer list" where
  "export_node_peers db =
     map (\<lambda>p. \<lparr>xn_url = np_url p, xn_name = np_name p, xn_enabled = np_enabled p\<rparr>) (sort_key np_url (node_peers db))"

definition export_collection_peers :: "'w fed_db \<Rightarrow> 'w exported_collection_peer list" where
  "export_collection_peers db =
     map (\<lambda>(cp, np). \<lparr>xq_local_collection = cp_local_collection cp, xq_node_peer_url = np_url np,
         xq_remote_collection = cp_remote_collection cp, xq_source_weight = cp_source_weight cp,
         xq_enabled = cp_enabled cp\<rparr>)
       (sort_key (\<lambda>(cp, np). (cp_local_collection cp, np_url np))
         [(cp, np). cp \<leftarrow> collection_peers db, np \<leftarrow> node_peers db, np_id np = cp_node_peer_id cp])"

definition documents_of :: "string \<Rightarrow> exported_doc list \<Rightarrow> exported_document list" where
  "documents_of name docs =
     map (\<lambda>d. \<lparr>xx_url = xd_url d, xx_title = xd_title d, xx_body = xd_body d, xx_indexed_at = xd_indexed_at d\<rparr>)
       (filter (\<lambda>d. xd_collection d = name) docs)"

definition export_collection ::
  "exported_doc list \<Rightarrow> ('w, 'f, 'x, 'j) site_db \<Rightarrow> collection_row \<Rightarrow> ('f, 'x, 'j) exported_collection" where
  "export_collection docs db c =
     \<lparr>xc_name = c_name c, xc_description = c_description c, xc_created_at = c_created_at c,
      xc_updated_at = c_updated_at c, xc_crawl_targets = export_crawl_targets (c_id c) (sb_content db),
      xc_ranking_config = export_ranking_config (c_rowid c) (sb_ranking db),
      xc_documents = documents_of (c_name c) docs, xc_outlinks = export_outlinks (c_id c) (sb_content db)\<rparr>"

definition build_envelope ::
  "string \<Rightarrow> string \<Rightarrow> ('q, 'd) tantivy \<Rightarrow> ('w, 'f, 'x, 'j) site_db \<Rightarrow> search_error + ('w, 'f, 'x, 'j) envelope" where
  "build_envelope now self_url T db =
     (case export_all_docs T of
        Inl e \<Rightarrow> Inl e
      | Inr docs \<Rightarrow> Inr
          \<lparr>ev_format_version = FORMAT_VERSION, ev_exported_at = now, ev_self_url = self_url,
           ev_collections = map (export_collection docs db) (sort_key c_name (collections (sb_content db))),
           ev_node_peers = export_node_peers (sb_fed db),
           ev_collection_peers = export_collection_peers (sb_fed db)\<rparr>)"

section \<open>Import: one row at a time\<close>

text \<open>
  The outside of an import: the UUIDs by their number, the gaps AUTOINCREMENT leaves and the clocks by the size of the
  table they are read for, SHA-256.
\<close>

record import_env =
  ie_uuid :: "nat \<Rightarrow> string"
  ie_gap :: "nat \<Rightarrow> nat"
  ie_now_text :: "nat \<Rightarrow> string"
  ie_now_unix :: "nat \<Rightarrow> int"
  ie_sha256 :: "string \<Rightarrow> string"

record ('w, 'f, 'x, 'j) import_state =
  is_db :: "('w, 'f, 'x, 'j) site_db"
  is_fresh :: nat
  is_names :: "string set"
  is_urls :: "string set"
  is_report :: import_report
  is_jobs :: "index_job list"

text \<open>A loop of statements, left at the first error.\<close>

fun try_fold :: "('a \<Rightarrow> 's \<Rightarrow> 'e + 's) \<Rightarrow> 'a list \<Rightarrow> 's \<Rightarrow> 'e + 's" where
  "try_fold f [] s = Inr s"
| "try_fold f (x # xs) s = (case f x s of Inl e \<Rightarrow> Inl e | Inr s' \<Rightarrow> try_fold f xs s')"

definition stamp :: "string \<Rightarrow> string \<Rightarrow> string" where
  "stamp now ts = (if ts = [] then now else ts)"

definition put_content ::
  "('j content_db \<Rightarrow> 'j content_db) \<Rightarrow> ('w, 'f, 'x, 'j) import_state \<Rightarrow> ('w, 'f, 'x, 'j) import_state" where
  "put_content f st = st\<lparr>is_db := (is_db st)\<lparr>sb_content := f (sb_content (is_db st))\<rparr>\<rparr>"

definition import_page ::
  "import_env \<Rightarrow> string \<Rightarrow> string \<Rightarrow> exported_page \<Rightarrow> ('w, 'f, 'x, 'j) import_state \<Rightarrow>
   db_error + ('w, 'f, 'x, 'j) import_state" where
  "import_page I cid tid p st =
     (let db = sb_content (is_db st) in
      if (cid, xp_url p) \<in> page_key ` set (pages db)
      then Inl (UniqueViolation ''crawled_pages.collection_id, crawled_pages.url'')
      else Inr (put_content (\<lambda>d. d\<lparr>pages := pages d @
          [\<lparr>p_id = next_rowid (map p_id (pages d)) + int (ie_gap I (length (pages d))), p_collection_id = cid,
            p_crawl_target_id = tid, p_url = xp_url p, p_etag = xp_etag p, p_last_modified = xp_last_modified p,
            p_content_hash = xp_content_hash p, p_last_status = xp_last_status p,
            p_last_crawled_at = xp_last_crawled_at p, p_indexed_content_hash = None\<rparr>]\<rparr>)
        (st\<lparr>is_report := (is_report st)\<lparr>ir_crawled_pages_imported := ir_crawled_pages_imported (is_report st) + 1\<rparr>\<rparr>)))"

definition import_target ::
  "import_env \<Rightarrow> string \<Rightarrow> string \<Rightarrow> exported_target \<Rightarrow> ('w, 'f, 'x, 'j) import_state \<Rightarrow>
   db_error + ('w, 'f, 'x, 'j) import_state" where
  "import_target I now cid t st =
     (let db = sb_content (is_db st); tid = ie_uuid I (is_fresh st) in
      if tid \<in> t_id ` set (targets db) then Inl (UniqueViolation ''crawl_targets.id'')
      else if (cid, xt_url_prefix t) \<in> target_key ` set (targets db)
      then Inl (UniqueViolation ''crawl_targets.collection_id, crawl_targets.url_prefix'')
      else try_fold (import_page I cid tid) (xt_crawled_pages t)
        (put_content (\<lambda>d. d\<lparr>targets := targets d @
            [\<lparr>t_rowid = next_rowid (map t_rowid (targets d)), t_id = tid, t_collection_id = cid,
              t_url_prefix = xt_url_prefix t, t_recrawl_interval_s = xt_recrawl_interval_s t,
              t_recrawl_interval_secs = xt_recrawl_interval_secs t, t_last_crawled_at = None,
              t_enabled = xt_enabled t, t_created_at = stamp now (xt_created_at t),
              t_crawl_delay_secs = xt_crawl_delay_secs t\<rparr>]\<rparr>)
          (st\<lparr>is_fresh := is_fresh st + 1,
              is_report := (is_report st)\<lparr>ir_crawl_targets_imported := ir_crawl_targets_imported (is_report st) + 1\<rparr>\<rparr>)))"

definition import_ranking ::
  "import_env \<Rightarrow> int \<Rightarrow> ('f, 'x) exported_ranking \<Rightarrow> ('w, 'f, 'x, 'j) import_state \<Rightarrow>
   db_error + ('w, 'f, 'x, 'j) import_state" where
  "import_ranking I rowid rc st =
     (let db = is_db st in
      if rowid \<in> rk_collection_id ` set (sb_ranking db) then Inl (UniqueViolation ''ranking_config.collection_id'')
      else Inr (st\<lparr>is_db := db\<lparr>sb_ranking := sb_ranking db @
          [\<lparr>rk_collection_id = rowid, rk_half_life = xr_half_life rc,
            rk_source_weights_json = xr_source_weights_json rc, rk_domain_boosts_json = xr_domain_boosts_json rc,
            rk_config_json = xr_config_json rc, rk_updated_at = ie_now_unix I (length (sb_ranking db))\<rparr>]\<rparr>\<rparr>))"

definition import_outlink ::
  "import_env \<Rightarrow> string \<Rightarrow> 'j exported_outlink \<Rightarrow> ('w, 'f, 'x, 'j) import_state \<Rightarrow>
   db_error + ('w, 'f, 'x, 'j) import_state" where
  "import_outlink I cid x st =
     (let db = sb_content (is_db st); oid = ie_uuid I (is_fresh st) in
      if oid \<in> o_id ` set (outlinks db) then Inl (UniqueViolation ''outlink_host_suggestions.id'')
      else if (cid, xo_host x) \<in> outlink_key ` set (outlinks db)
      then Inl (UniqueViolation ''outlink_host_suggestions.collection_id, outlink_host_suggestions.host'')
      else Inr (put_content (\<lambda>d. d\<lparr>outlinks := outlinks d @
          [\<lparr>o_rowid = next_rowid (map o_rowid (outlinks d)), o_id = oid, o_collection_id = cid, o_host = xo_host x,
            o_link_count = xo_link_count x, o_examples_json = xo_examples_json x,
            o_first_seen_at = xo_first_seen_at x, o_last_seen_at = xo_last_seen_at x, o_status = xo_status x,
            o_promoted_target_id = None\<rparr>]\<rparr>)
        (st\<lparr>is_fresh := is_fresh st + 1,
            is_report := (is_report st)\<lparr>ir_outlinks_imported := ir_outlinks_imported (is_report st) + 1\<rparr>\<rparr>)))"

definition doc_content_hash :: "import_env \<Rightarrow> exported_document \<Rightarrow> string" where
  "doc_content_hash I d = ie_sha256 I (xx_body d)"

definition document_job :: "import_env \<Rightarrow> string \<Rightarrow> string \<Rightarrow> exported_document \<Rightarrow> index_job" where
  "document_job I name cid d =
     \<lparr>ij_collection_name = name, ij_url = xx_url d, ij_title = xx_title d, ij_body = xx_body d,
      ij_indexed_at = xx_indexed_at d, ij_collection_id = cid, ij_content_hash = doc_content_hash I d\<rparr>"

definition queue_documents ::
  "import_env \<Rightarrow> string \<Rightarrow> string \<Rightarrow> exported_document list \<Rightarrow> ('w, 'f, 'x, 'j) import_state \<Rightarrow>
   ('w, 'f, 'x, 'j) import_state" where
  "queue_documents I name cid docs st =
     st\<lparr>is_jobs := is_jobs st @ map (document_job I name cid) docs,
        is_report := (is_report st)\<lparr>ir_documents_queued := ir_documents_queued (is_report st) + length docs\<rparr>\<rparr>"

section \<open>Import: a collection, a peer, the whole dump\<close>

definition import_row ::
  "import_env \<Rightarrow> ('f, 'x, 'j) exported_collection \<Rightarrow> ('w, 'f, 'x, 'j) import_state \<Rightarrow> collection_row" where
  "import_row I c st =
     \<lparr>c_rowid = next_rowid (map c_rowid (collections (sb_content (is_db st)))), c_id = ie_uuid I (is_fresh st),
      c_name = xc_name c, c_description = xc_description c,
      c_created_at = stamp (ie_now_text I (is_fresh st)) (xc_created_at c),
      c_updated_at = stamp (ie_now_text I (is_fresh st)) (xc_updated_at c)\<rparr>"

definition import_collection_row ::
  "import_env \<Rightarrow> ('f, 'x, 'j) exported_collection \<Rightarrow> ('w, 'f, 'x, 'j) import_state \<Rightarrow>
   db_error + ('w, 'f, 'x, 'j) import_state" where
  "import_collection_row I c st =
     (let cs = collections (sb_content (is_db st)) in
      if ie_uuid I (is_fresh st) \<in> c_id ` set cs then Inl (UniqueViolation ''collections.id'')
      else if xc_name c \<in> c_name ` set cs then Inl (UniqueViolation ''collections.name'')
      else Inr (put_content (\<lambda>d. d\<lparr>collections := collections d @ [import_row I c st]\<rparr>)
        (st\<lparr>is_fresh := is_fresh st + 1, is_names := insert (xc_name c) (is_names st),
            is_report := (is_report st)\<lparr>ir_collections_imported := ir_collections_imported (is_report st) + 1\<rparr>\<rparr>)))"

definition import_collection ::
  "import_env \<Rightarrow> ('f, 'x, 'j) exported_collection \<Rightarrow> ('w, 'f, 'x, 'j) import_state \<Rightarrow>
   db_error + ('w, 'f, 'x, 'j) import_state" where
  "import_collection I c st =
     (if xc_name c \<in> is_names st
      then Inr (st\<lparr>is_report := (is_report st)\<lparr>ir_collections_skipped := ir_collections_skipped (is_report st) + 1\<rparr>\<rparr>)
      else
        (let now = ie_now_text I (is_fresh st); cid = ie_uuid I (is_fresh st);
             rowid = c_rowid (import_row I c st) in
         case import_collection_row I c st of
           Inl e \<Rightarrow> Inl e
         | Inr s1 \<Rightarrow>
             (case try_fold (import_target I now cid) (xc_crawl_targets c) s1 of
                Inl e \<Rightarrow> Inl e
              | Inr s2 \<Rightarrow>
                  (case (case xc_ranking_config c of None \<Rightarrow> Inr s2 | Some rc \<Rightarrow> import_ranking I rowid rc s2) of
                     Inl e \<Rightarrow> Inl e
                   | Inr s3 \<Rightarrow>
                       (case try_fold (import_outlink I cid) (xc_outlinks c) s3 of
                          Inl e \<Rightarrow> Inl e
                        | Inr s4 \<Rightarrow> Inr (queue_documents I (xc_name c) cid (xc_documents c) s4))))))"

definition import_node_peer ::
  "import_env \<Rightarrow> exported_node_peer \<Rightarrow> ('w, 'f, 'x, 'j) import_state \<Rightarrow> db_error + ('w, 'f, 'x, 'j) import_state" where
  "import_node_peer I p st =
     (let db = is_db st; fed = sb_fed db in
      if xn_url p \<in> is_urls st
      then Inr (st\<lparr>is_report := (is_report st)\<lparr>ir_node_peers_skipped := ir_node_peers_skipped (is_report st) + 1\<rparr>\<rparr>)
      else if xn_url p \<in> np_url ` set (node_peers fed) then Inl (UniqueViolation ''node_peers.url'')
      else Inr (st\<lparr>is_db := db\<lparr>sb_fed := fed\<lparr>node_peers := node_peers fed @
          [\<lparr>np_id = next_rowid (map np_id (node_peers fed)), np_url = xn_url p, np_name = xn_name p,
            np_enabled = xn_enabled p, np_consecutive_failures = 0, np_last_response_ms = None,
            np_last_checked_at = None, np_disabled_at = None,
            np_created_at = ie_now_unix I (length (node_peers fed))\<rparr>]\<rparr>\<rparr>,
          is_urls := insert (xn_url p) (is_urls st),
          is_report := (is_report st)\<lparr>ir_node_peers_imported := ir_node_peers_imported (is_report st) + 1\<rparr>\<rparr>))"

definition import_collection_peer ::
  "import_env \<Rightarrow> 'w exported_collection_peer \<Rightarrow> ('w, 'f, 'x, 'j) import_state \<Rightarrow>
   db_error + ('w, 'f, 'x, 'j) import_state" where
  "import_collection_peer I q st =
     (let db = is_db st; fed = sb_fed db;
          skipped = st\<lparr>is_report := (is_report st)
            \<lparr>ir_collection_peers_skipped := ir_collection_peers_skipped (is_report st) + 1\<rparr>\<rparr> in
      if xq_local_collection q \<notin> is_names st \<or> xq_node_peer_url q \<notin> is_urls st then Inr skipped
      else
        (case find_by np_url (xq_node_peer_url q) (node_peers fed) of
           None \<Rightarrow> Inl QueryReturnedNoRows
         | Some np \<Rightarrow>
             if (xq_local_collection q, np_id np, xq_remote_collection q) \<in> cp_key ` set (collection_peers fed)
             then Inr skipped
             else Inr (st\<lparr>is_db := db\<lparr>sb_fed := fed\<lparr>collection_peers := collection_peers fed @
                 [\<lparr>cp_id = next_rowid (map cp_id (collection_peers fed)), cp_local_collection = xq_local_collection q,
                   cp_node_peer_id = np_id np, cp_remote_collection = xq_remote_collection q,
                   cp_source_weight = xq_source_weight q, cp_enabled = xq_enabled q,
                   cp_created_at = ie_now_unix I (length (collection_peers fed))\<rparr>]\<rparr>\<rparr>,
                 is_report := (is_report st)
                   \<lparr>ir_collection_peers_imported := ir_collection_peers_imported (is_report st) + 1\<rparr>\<rparr>)))"

definition existing_collection_names :: "('w, 'f, 'x, 'j) site_db \<Rightarrow> string set" where
  "existing_collection_names db = c_name ` set (collections (sb_content db))"

definition existing_node_peer_urls :: "('w, 'f, 'x, 'j) site_db \<Rightarrow> string set" where
  "existing_node_peer_urls db = np_url ` set (node_peers (sb_fed db))"

definition begin_import :: "('w, 'f, 'x, 'j) site_db \<Rightarrow> ('w, 'f, 'x, 'j) import_state" where
  "begin_import db =
     \<lparr>is_db = db, is_fresh = 0, is_names = existing_collection_names db, is_urls = {}, is_report = empty_report,
      is_jobs = []\<rparr>"

definition apply_envelope_inner ::
  "import_env \<Rightarrow> ('w, 'f, 'x, 'j) envelope \<Rightarrow> ('w, 'f, 'x, 'j) site_db \<Rightarrow>
   db_error + ('w, 'f, 'x, 'j) import_state" where
  "apply_envelope_inner I env db =
     (case try_fold (import_collection I) (ev_collections env) (begin_import db) of
        Inl e \<Rightarrow> Inl e
      | Inr s1 \<Rightarrow>
          (case try_fold (import_node_peer I) (ev_node_peers env)
                  (s1\<lparr>is_urls := existing_node_peer_urls (is_db s1)\<rparr>) of
             Inl e \<Rightarrow> Inl e
           | Inr s2 \<Rightarrow> try_fold (import_collection_peer I) (ev_collection_peers env) s2))"

definition apply_envelope ::
  "import_env \<Rightarrow> ('w, 'f, 'x, 'j) envelope \<Rightarrow> ('w, 'f, 'x, 'j) site_db \<Rightarrow>
   ('w, 'f, 'x, 'j) site_db \<times> (db_error + import_report \<times> index_job list)" where
  "apply_envelope I env db =
     (case apply_envelope_inner I env db of
        Inl e \<Rightarrow> (db, Inl e)
      | Inr st \<Rightarrow> (is_db st, Inr (is_report st, is_jobs st)))"

section \<open>The two handlers\<close>

type_synonym bytes = "8 word list"

definition GZIP_MAGIC :: bytes where "GZIP_MAGIC = [0x1f, 0x8b]"

text \<open>
  The instance as the handlers see it: whether the database mutex is poisoned, the tables, the counter of documents in
  flight, the jobs in the indexer's channel, and how many more jobs the indexer takes before it closes its channel.
\<close>

record ('w, 'f, 'x, 'j) site =
  si_poisoned :: bool
  si_db :: "('w, 'f, 'x, 'j) site_db"
  si_inflight :: int
  si_queue :: "index_job list"
  si_accepts :: "nat option"

record ('w, 'f, 'x, 'j) codec =
  gunzip :: "bytes \<Rightarrow> string + bytes"
  gzip :: "bytes \<Rightarrow> string + bytes"
  envelope_of_json :: "bytes \<Rightarrow> string + ('w, 'f, 'x, 'j) envelope"
  json_of_envelope :: "('w, 'f, 'x, 'j) envelope \<Rightarrow> string + bytes"

definition handle_export ::
  "('w, 'f, 'x, 'j) codec \<Rightarrow> string \<Rightarrow> string \<Rightarrow> ('q, 'd) tantivy \<Rightarrow> ('w, 'f, 'x, 'j) site \<Rightarrow> bytes http_result" where
  "handle_export K now self_url T s =
     (if si_poisoned s then Inl db_mutex_poisoned
      else
        (case build_envelope now self_url T (si_db s) of
           Inl e \<Rightarrow> Inl (500, LibText ''search index'')
         | Inr env \<Rightarrow>
             (case json_of_envelope K env of
                Inl e \<Rightarrow> Inl (500, LibText e)
              | Inr js \<Rightarrow> map_err (\<lambda>e. (500, LibText e)) (gzip K js))))"

definition decode_body :: "('w, 'f, 'x, 'j) codec \<Rightarrow> bytes \<Rightarrow> ('w, 'f, 'x, 'j) envelope http_result" where
  "decode_body K body =
     (if length body \<ge> 2 \<and> take 2 body = GZIP_MAGIC then
        (case gunzip K body of
           Inl e \<Rightarrow> Inl (400, Msg (''gzip decode failed: '' @ e))
         | Inr js \<Rightarrow> map_err (\<lambda>e. (400, Msg (''invalid JSON in gzip: '' @ e))) (envelope_of_json K js))
      else map_err (\<lambda>e. (400, Msg (''invalid JSON: '' @ e))) (envelope_of_json K body))"

fun send_jobs :: "index_job list \<Rightarrow> ('w, 'f, 'x, 'j) site \<Rightarrow> ('w, 'f, 'x, 'j) site \<times> unit http_result" where
  "send_jobs [] s = (s, Inr ())"
| "send_jobs (j # js) s =
     (let s1 = s\<lparr>si_inflight := si_inflight s + 1\<rparr> in
      case si_accepts s1 of
        None \<Rightarrow> send_jobs js (s1\<lparr>si_queue := si_queue s1 @ [j]\<rparr>)
      | Some 0 \<Rightarrow> (s1\<lparr>si_inflight := si_inflight s1 - 1\<rparr>,
          Inl (500, LibText ''indexer channel closed mid-import''))
      | Some (Suc n) \<Rightarrow> send_jobs js (s1\<lparr>si_queue := si_queue s1 @ [j], si_accepts := Some n\<rparr>))"

definition handle_import ::
  "('w, 'f, 'x, 'j) codec \<Rightarrow> import_env \<Rightarrow> bytes \<Rightarrow> ('w, 'f, 'x, 'j) site \<Rightarrow>
   ('w, 'f, 'x, 'j) site \<times> import_report http_result" where
  "handle_import K I body s =
     (case decode_body K body of
        Inl e \<Rightarrow> (s, Inl e)
      | Inr env \<Rightarrow>
          if ev_format_version env \<noteq> FORMAT_VERSION
          then (s, Inl (400, Msg (''unsupported format_version '' @ show_int (uint (ev_format_version env)) @
            '': this build understands 1'')))
          else if si_poisoned s then (s, Inl db_mutex_poisoned)
          else
            (case apply_envelope I env (si_db s) of
               (db, Inl e) \<Rightarrow> (s\<lparr>si_db := db\<rparr>, Inl (internal_db_error e))
             | (db, Inr (report, jobs)) \<Rightarrow>
                 (case send_jobs jobs (s\<lparr>si_db := db\<rparr>) of
                    (s', Inl e) \<Rightarrow> (s', Inl e)
                  | (s', Inr _) \<Rightarrow> (s', Inr report))))"

section \<open>Loops of statements\<close>

lemma try_fold_inv:
  assumes "try_fold f xs s = Inr s'" and "P s" and "\<And>x s s'. x \<in> set xs \<Longrightarrow> P s \<Longrightarrow> f x s = Inr s' \<Longrightarrow> P s'"
  shows "P s'"
  using assms
proof (induction xs arbitrary: s)
  case (Cons x xs)
  then obtain s1 where s1: "f x s = Inr s1" and rest: "try_fold f xs s1 = Inr s'" by (auto split: sum.splits)
  have "P s1" using Cons.prems s1 by (meson list.set_intros(1))
  then show ?case using Cons.IH [OF rest] Cons.prems(3) by (meson list.set_intros(2))
qed simp

lemma put_content_simps [simp]:
  "sb_content (is_db (put_content f st)) = f (sb_content (is_db st))"
  "sb_ranking (is_db (put_content f st)) = sb_ranking (is_db st)"
  "sb_fed (is_db (put_content f st)) = sb_fed (is_db st)"
  "is_fresh (put_content f st) = is_fresh st" "is_names (put_content f st) = is_names st"
  "is_urls (put_content f st) = is_urls st" "is_report (put_content f st) = is_report st"
  "is_jobs (put_content f st) = is_jobs st"
  by (simp_all add: put_content_def)

lemma queue_documents_simps [simp]:
  "is_db (queue_documents I nm cid docs st) = is_db st" "is_names (queue_documents I nm cid docs st) = is_names st"
  "is_urls (queue_documents I nm cid docs st) = is_urls st"
  "is_fresh (queue_documents I nm cid docs st) = is_fresh st"
  by (simp_all add: queue_documents_def)

text \<open>The successful runs of the operations, one equation per table.\<close>

lemma import_page_Inr:
  assumes "import_page I cid tid p st = Inr st'"
  obtains r where "p_collection_id r = cid" "p_crawl_target_id r = tid" "p_url r = xp_url p"
    "\<And>q. q \<in> set (pages (sb_content (is_db st))) \<Longrightarrow> p_id q < p_id r"
    "exported_page_of r = p\<lparr>xp_indexed_content_hash := None\<rparr>"
    "(cid, xp_url p) \<notin> page_key ` set (pages (sb_content (is_db st)))"
    "is_db st' = (is_db st)\<lparr>sb_content := (sb_content (is_db st))\<lparr>pages := pages (sb_content (is_db st)) @ [r]\<rparr>\<rparr>"
    "is_fresh st' = is_fresh st" "is_names st' = is_names st" "is_urls st' = is_urls st" "is_jobs st' = is_jobs st"
proof -
  let ?d = "sb_content (is_db st)"
  let ?r = "\<lparr>p_id = next_rowid (map p_id (pages ?d)) + int (ie_gap I (length (pages ?d))), p_collection_id = cid,
            p_crawl_target_id = tid, p_url = xp_url p, p_etag = xp_etag p, p_last_modified = xp_last_modified p,
            p_content_hash = xp_content_hash p, p_last_status = xp_last_status p,
            p_last_crawled_at = xp_last_crawled_at p, p_indexed_content_hash = None\<rparr>"
  have id: "p_id q < p_id ?r" if "q \<in> set (pages ?d)" for q
  proof -
    have "p_id q < next_rowid (map p_id (pages ?d))" by (rule next_rowid_gt) (simp add: that)
    then show ?thesis by simp
  qed
  show thesis
    using assms by (intro that [of ?r] id)
      (auto simp: import_page_def Let_def exported_page_of_def put_content_def split: if_splits)
qed

lemma import_target_Inr:
  assumes "import_target I now cid t st = Inr st'"
  obtains r s1 where "t_id r = ie_uuid I (is_fresh st)" "t_collection_id r = cid" "t_url_prefix r = xt_url_prefix t"
    "t_rowid r = next_rowid (map t_rowid (targets (sb_content (is_db st))))"
    "\<And>d. exported_target_of d r =
       t\<lparr>xt_created_at := stamp now (xt_created_at t), xt_crawled_pages := export_crawled_pages (t_id r) d\<rparr>"
    "t_id r \<notin> t_id ` set (targets (sb_content (is_db st)))"
    "(cid, xt_url_prefix t) \<notin> target_key ` set (targets (sb_content (is_db st)))"
    "is_db s1 = (is_db st)\<lparr>sb_content := (sb_content (is_db st))\<lparr>targets := targets (sb_content (is_db st)) @ [r]\<rparr>\<rparr>"
    "is_fresh s1 = is_fresh st + 1" "is_names s1 = is_names st" "is_urls s1 = is_urls st" "is_jobs s1 = is_jobs st"
    "try_fold (import_page I cid (ie_uuid I (is_fresh st))) (xt_crawled_pages t) s1 = Inr st'"
proof -
  let ?d = "sb_content (is_db st)"
  let ?r = "\<lparr>t_rowid = next_rowid (map t_rowid (targets ?d)), t_id = ie_uuid I (is_fresh st), t_collection_id = cid,
              t_url_prefix = xt_url_prefix t, t_recrawl_interval_s = xt_recrawl_interval_s t,
              t_recrawl_interval_secs = xt_recrawl_interval_secs t, t_last_crawled_at = None,
              t_enabled = xt_enabled t, t_created_at = stamp now (xt_created_at t),
              t_crawl_delay_secs = xt_crawl_delay_secs t\<rparr>"
  show thesis
    using assms
    by (intro that [of ?r "put_content (\<lambda>d. d\<lparr>targets := targets d @ [?r]\<rparr>)
          (st\<lparr>is_fresh := is_fresh st + 1,
              is_report := (is_report st)\<lparr>ir_crawl_targets_imported := ir_crawl_targets_imported (is_report st) + 1\<rparr>\<rparr>)"])
      (auto simp: import_target_def Let_def exported_target_of_def put_content_def split: if_splits)
qed

lemma import_ranking_Inr:
  assumes "import_ranking I rowid rc st = Inr st'"
  obtains r where "rk_collection_id r = rowid" "rk_half_life r = xr_half_life rc"
    "rk_source_weights_json r = xr_source_weights_json rc" "rk_domain_boosts_json r = xr_domain_boosts_json rc"
    "rk_config_json r = xr_config_json rc" "rowid \<notin> rk_collection_id ` set (sb_ranking (is_db st))"
    "is_db st' = (is_db st)\<lparr>sb_ranking := sb_ranking (is_db st) @ [r]\<rparr>"
    "is_fresh st' = is_fresh st" "is_names st' = is_names st" "is_urls st' = is_urls st" "is_jobs st' = is_jobs st"
proof -
  show thesis
  using assms
  by (intro that [of "\<lparr>rk_collection_id = rowid, rk_half_life = xr_half_life rc,
            rk_source_weights_json = xr_source_weights_json rc, rk_domain_boosts_json = xr_domain_boosts_json rc,
            rk_config_json = xr_config_json rc, rk_updated_at = ie_now_unix I (length (sb_ranking (is_db st)))\<rparr>"])
    (auto simp: import_ranking_def Let_def split: if_splits)
qed

lemma import_outlink_Inr:
  assumes "import_outlink I cid x st = Inr st'"
  obtains r where "o_id r = ie_uuid I (is_fresh st)" "o_collection_id r = cid" "o_host r = xo_host x"
    "o_rowid r = next_rowid (map o_rowid (outlinks (sb_content (is_db st))))" "exported_outlink_of r = x"
    "o_id r \<notin> o_id ` set (outlinks (sb_content (is_db st)))"
    "(cid, xo_host x) \<notin> outlink_key ` set (outlinks (sb_content (is_db st)))"
    "is_db st' =
       (is_db st)\<lparr>sb_content := (sb_content (is_db st))\<lparr>outlinks := outlinks (sb_content (is_db st)) @ [r]\<rparr>\<rparr>"
    "is_fresh st' = is_fresh st + 1" "is_names st' = is_names st" "is_urls st' = is_urls st" "is_jobs st' = is_jobs st"
proof -
  show thesis
  using assms
  by (intro that [of "\<lparr>o_rowid = next_rowid (map o_rowid (outlinks (sb_content (is_db st)))),
            o_id = ie_uuid I (is_fresh st), o_collection_id = cid, o_host = xo_host x,
            o_link_count = xo_link_count x, o_examples_json = xo_examples_json x,
            o_first_seen_at = xo_first_seen_at x, o_last_seen_at = xo_last_seen_at x, o_status = xo_status x,
            o_promoted_target_id = None\<rparr>"])
    (auto simp: import_outlink_def Let_def exported_outlink_of_def put_content_def split: if_splits)
qed

lemma import_collection_row_Inr:
  assumes "import_collection_row I c st = Inr st'"
  shows "ie_uuid I (is_fresh st) \<notin> c_id ` set (collections (sb_content (is_db st)))"
    "xc_name c \<notin> c_name ` set (collections (sb_content (is_db st)))"
    "is_db st' = (is_db st)\<lparr>sb_content :=
       (sb_content (is_db st))\<lparr>collections := collections (sb_content (is_db st)) @ [import_row I c st]\<rparr>\<rparr>"
    "is_fresh st' = is_fresh st + 1" "is_names st' = insert (xc_name c) (is_names st)" "is_urls st' = is_urls st"
    "is_jobs st' = is_jobs st"
  using assms by (auto simp: import_collection_row_def Let_def put_content_def split: if_splits)

lemma import_collection_Inr:
  assumes "import_collection I c st = Inr st'"
  obtains (skip) "xc_name c \<in> is_names st"
      "st' = st\<lparr>is_report := (is_report st)\<lparr>ir_collections_skipped := ir_collections_skipped (is_report st) + 1\<rparr>\<rparr>"
  | (new) s1 s2 s3 s4 where "xc_name c \<notin> is_names st" "import_collection_row I c st = Inr s1"
      "try_fold (import_target I (ie_now_text I (is_fresh st)) (ie_uuid I (is_fresh st))) (xc_crawl_targets c) s1 = Inr s2"
      "(case xc_ranking_config c of None \<Rightarrow> Inr s2
        | Some rc \<Rightarrow> import_ranking I (c_rowid (import_row I c st)) rc s2) = Inr s3"
      "try_fold (import_outlink I (ie_uuid I (is_fresh st))) (xc_outlinks c) s3 = Inr s4"
      "st' = queue_documents I (xc_name c) (ie_uuid I (is_fresh st)) (xc_documents c) s4"
proof (cases "xc_name c \<in> is_names st")
  case True
  then show thesis using assms by (intro skip) (auto simp: import_collection_def)
next
  case False
  obtain s1 where s1: "import_collection_row I c st = Inr s1"
    using assms False by (auto simp: import_collection_def Let_def split: sum.splits)
  obtain s2 where s2: "try_fold (import_target I (ie_now_text I (is_fresh st)) (ie_uuid I (is_fresh st)))
      (xc_crawl_targets c) s1 = Inr s2"
    using assms False s1 by (simp add: import_collection_def Let_def split: sum.splits)
  obtain s3 where s3: "(case xc_ranking_config c of None \<Rightarrow> Inr s2
        | Some rc \<Rightarrow> import_ranking I (c_rowid (import_row I c st)) rc s2) = Inr s3"
    using assms False s1 s2 by (simp add: import_collection_def Let_def split: sum.splits)
  obtain s4 where s4: "try_fold (import_outlink I (ie_uuid I (is_fresh st))) (xc_outlinks c) s3 = Inr s4"
    using assms False s1 s2 s3 by (simp add: import_collection_def Let_def split: sum.splits)
  show thesis
    using assms False s1 s2 s3 s4 by (intro new [OF False s1 s2 s3 s4]) (simp add: import_collection_def Let_def)
qed

section \<open>An import adds rows and nothing else\<close>

definition grown :: "('w, 'f, 'x, 'j) site_db \<Rightarrow> ('w, 'f, 'x, 'j) site_db \<Rightarrow> bool" where
  "grown db db' \<longleftrightarrow>
     prefix (collections (sb_content db)) (collections (sb_content db')) \<and>
     prefix (targets (sb_content db)) (targets (sb_content db')) \<and>
     prefix (pages (sb_content db)) (pages (sb_content db')) \<and>
     prefix (outlinks (sb_content db)) (outlinks (sb_content db')) \<and>
     prefix (sb_ranking db) (sb_ranking db') \<and>
     prefix (node_peers (sb_fed db)) (node_peers (sb_fed db')) \<and>
     prefix (collection_peers (sb_fed db)) (collection_peers (sb_fed db')) \<and>
     notifications (sb_fed db') = notifications (sb_fed db)"

lemma grown_refl [simp]: "grown db db"
  by (simp add: grown_def)

lemma grown_trans: "grown db db' \<Longrightarrow> grown db' db'' \<Longrightarrow> grown db db''"
  unfolding grown_def by (elim conjE) (intro conjI; (erule (1) prefix_order.trans | simp only:))

lemma grown_page: "import_page I cid tid p st = Inr st' \<Longrightarrow> grown (is_db st) (is_db st')"
  by (elim import_page_Inr) (simp add: grown_def)

lemma grown_target:
  assumes "import_target I now cid t st = Inr st'"
  shows "grown (is_db st) (is_db st')"
  using assms
proof (rule import_target_Inr)
  fix r s1
  assume s1: "is_db s1 = (is_db st)\<lparr>sb_content := (sb_content (is_db st))\<lparr>targets := targets (sb_content (is_db st)) @ [r]\<rparr>\<rparr>"
    and run: "try_fold (import_page I cid (ie_uuid I (is_fresh st))) (xt_crawled_pages t) s1 = Inr st'"
  have "grown (is_db st) (is_db s1)" using s1 by (simp add: grown_def)
  then show ?thesis
    by (rule try_fold_inv [OF run]) (blast intro: grown_trans grown_page)
qed

lemma grown_collection:
  assumes "import_collection I c st = Inr st'"
  shows "grown (is_db st) (is_db st')"
  using assms
proof (cases rule: import_collection_Inr)
  case (new s1 s2 s3 s4)
  have "grown (is_db st) (is_db s1)" using import_collection_row_Inr(3) [OF new(2)] by (simp add: grown_def)
  then have "grown (is_db st) (is_db s2)"
    by (rule try_fold_inv [OF new(3)]) (blast intro: grown_trans grown_target)
  then have "grown (is_db st) (is_db s3)"
    using new(4) by (cases "xc_ranking_config c") (auto elim!: import_ranking_Inr simp: grown_def)
  then have "grown (is_db st) (is_db s4)"
    by (rule try_fold_inv [OF new(5)]) (auto elim!: import_outlink_Inr simp: grown_def)
  then show ?thesis by (simp add: new(6))
qed simp

lemma grown_node_peer: "import_node_peer I p st = Inr st' \<Longrightarrow> grown (is_db st) (is_db st')"
  by (auto simp: import_node_peer_def Let_def grown_def split: if_splits)

lemma grown_collection_peer: "import_collection_peer I q st = Inr st' \<Longrightarrow> grown (is_db st) (is_db st')"
  by (auto simp: import_collection_peer_def Let_def grown_def split: if_splits option.splits)

lemma apply_envelope_inner_Inr:
  assumes "apply_envelope_inner I env db = Inr st"
  obtains s1 s2 where "try_fold (import_collection I) (ev_collections env) (begin_import db) = Inr s1"
    "try_fold (import_node_peer I) (ev_node_peers env) (s1\<lparr>is_urls := existing_node_peer_urls (is_db s1)\<rparr>) = Inr s2"
    "try_fold (import_collection_peer I) (ev_collection_peers env) s2 = Inr st"
proof -
  obtain s1 where s1: "try_fold (import_collection I) (ev_collections env) (begin_import db) = Inr s1"
    using assms by (auto simp: apply_envelope_inner_def split: sum.splits)
  obtain s2 where s2: "try_fold (import_node_peer I) (ev_node_peers env)
      (s1\<lparr>is_urls := existing_node_peer_urls (is_db s1)\<rparr>) = Inr s2"
    using assms s1 by (auto simp: apply_envelope_inner_def split: sum.splits)
  show thesis using assms s1 s2 by (intro that [OF s1 s2]) (simp add: apply_envelope_inner_def)
qed

lemma apply_envelope_inner_inv:
  assumes run: "apply_envelope_inner I env db = Inr st" and start: "P db"
    and "\<And>c s s'. P (is_db s) \<Longrightarrow> import_collection I c s = Inr s' \<Longrightarrow> P (is_db s')"
    and "\<And>c s s'. P (is_db s) \<Longrightarrow> import_node_peer I c s = Inr s' \<Longrightarrow> P (is_db s')"
    and "\<And>c s s'. P (is_db s) \<Longrightarrow> import_collection_peer I c s = Inr s' \<Longrightarrow> P (is_db s')"
  shows "P (is_db st)"
  using run
proof (rule apply_envelope_inner_Inr)
  fix s1 s2
  assume "try_fold (import_collection I) (ev_collections env) (begin_import db) = Inr s1"
  then have "P (is_db s1)"
    by (rule try_fold_inv [where P = "\<lambda>s. P (is_db s)"]) (auto simp: begin_import_def start intro: assms)
  assume "try_fold (import_node_peer I) (ev_node_peers env)
      (s1\<lparr>is_urls := existing_node_peer_urls (is_db s1)\<rparr>) = Inr s2"
  then have "P (is_db s2)"
    by (rule try_fold_inv [where P = "\<lambda>s. P (is_db s)"]) (auto simp: \<open>P (is_db s1)\<close> intro: assms)
  assume "try_fold (import_collection_peer I) (ev_collection_peers env) s2 = Inr st"
  then show ?thesis
    by (rule try_fold_inv [where P = "\<lambda>s. P (is_db s)"]) (auto simp: \<open>P (is_db s2)\<close> intro: assms)
qed

section \<open>An import keeps the constraints it is not checked against\<close>

definition site_wf :: "('w, 'f, 'x, 'j) site_db \<Rightarrow> bool" where
  "site_wf db \<longleftrightarrow>
     content_wf (sb_content db) \<and> fed_wf (sb_fed db) \<and> distinct (map rk_collection_id (sb_ranking db))"

lemma wf_page:
  assumes "import_page I cid tid p st = Inr st'" and "site_wf (is_db st)"
    and "cid \<in> c_id ` set (collections (sb_content (is_db st)))" and "tid \<in> t_id ` set (targets (sb_content (is_db st)))"
  shows "site_wf (is_db st')"
  using assms(1)
proof (rule import_page_Inr)
  fix r
  assume r: "p_collection_id r = cid" "p_crawl_target_id r = tid" "p_url r = xp_url p"
    "\<And>q. q \<in> set (pages (sb_content (is_db st))) \<Longrightarrow> p_id q < p_id r"
    "(cid, xp_url p) \<notin> page_key ` set (pages (sb_content (is_db st)))"
    "is_db st' = (is_db st)\<lparr>sb_content := (sb_content (is_db st))\<lparr>pages := pages (sb_content (is_db st)) @ [r]\<rparr>\<rparr>"
  have "p_id r \<notin> p_id ` set (pages (sb_content (is_db st)))" using r(4) by fastforce
  moreover have "page_key r \<notin> page_key ` set (pages (sb_content (is_db st)))"
    using r(1,3,5) by (simp add: page_key_def)
  ultimately show ?thesis using assms(2-4) r(1,2) by (simp add: r(6) site_wf_def content_wf_def)
qed

lemma pages_frame:
  assumes "try_fold (import_page I cid tid) ps st = Inr st'"
  shows "collections (sb_content (is_db st')) = collections (sb_content (is_db st)) \<and>
    targets (sb_content (is_db st')) = targets (sb_content (is_db st))"
  using assms by (rule try_fold_inv) (auto elim!: import_page_Inr)

lemma wf_target:
  assumes "import_target I now cid t st = Inr st'" and "site_wf (is_db st)"
    and cid: "cid \<in> c_id ` set (collections (sb_content (is_db st)))"
  shows "site_wf (is_db st') \<and> collections (sb_content (is_db st')) = collections (sb_content (is_db st))"
  using assms(1)
proof (rule import_target_Inr)
  fix r s1
  assume r: "t_id r = ie_uuid I (is_fresh st)" "t_collection_id r = cid" "t_url_prefix r = xt_url_prefix t"
    "t_rowid r = next_rowid (map t_rowid (targets (sb_content (is_db st))))"
    "t_id r \<notin> t_id ` set (targets (sb_content (is_db st)))"
    "(cid, xt_url_prefix t) \<notin> target_key ` set (targets (sb_content (is_db st)))"
    and s1: "is_db s1 = (is_db st)\<lparr>sb_content := (sb_content (is_db st))\<lparr>targets := targets (sb_content (is_db st)) @ [r]\<rparr>\<rparr>"
    and run: "try_fold (import_page I cid (ie_uuid I (is_fresh st))) (xt_crawled_pages t) s1 = Inr st'"
  have "target_key r \<notin> target_key ` set (targets (sb_content (is_db st)))"
    using r(2,3,6) by (simp add: target_key_def)
  then have wf1: "site_wf (is_db s1)"
    using assms(2) cid r(2,4,5) by (auto simp: s1 site_wf_def content_wf_def)
  let ?P = "\<lambda>s. site_wf (is_db s) \<and> collections (sb_content (is_db s)) = collections (sb_content (is_db s1)) \<and>
    targets (sb_content (is_db s)) = targets (sb_content (is_db s1))"
  have "?P st'"
  proof (rule try_fold_inv [where P = ?P, OF run])
    fix p s s'
    assume P: "?P s" and step: "import_page I cid (ie_uuid I (is_fresh st)) p s = Inr s'"
    have here: "cid \<in> c_id ` set (collections (sb_content (is_db s)))"
      "ie_uuid I (is_fresh st) \<in> t_id ` set (targets (sb_content (is_db s)))"
      using P cid r(1) unfolding s1 by simp_all
    have "site_wf (is_db s')" using wf_page [OF step _ here] P by simp
    moreover have "try_fold (import_page I cid (ie_uuid I (is_fresh st))) [p] s = Inr s'" using step by simp
    note pages_frame [OF this]
    ultimately show "?P s'" using P by simp
  qed (simp add: wf1)
  then show ?thesis by (simp add: s1)
qed

lemma wf_outlink:
  assumes "import_outlink I cid x st = Inr st'" and "site_wf (is_db st)"
    and cid: "cid \<in> c_id ` set (collections (sb_content (is_db st)))"
  shows "site_wf (is_db st') \<and> collections (sb_content (is_db st')) = collections (sb_content (is_db st))"
  using assms(1)
proof (rule import_outlink_Inr)
  fix r
  assume r: "o_id r = ie_uuid I (is_fresh st)" "o_collection_id r = cid" "o_host r = xo_host x"
    "o_rowid r = next_rowid (map o_rowid (outlinks (sb_content (is_db st))))"
    "o_id r \<notin> o_id ` set (outlinks (sb_content (is_db st)))"
    "(cid, xo_host x) \<notin> outlink_key ` set (outlinks (sb_content (is_db st)))"
    "is_db st' =
       (is_db st)\<lparr>sb_content := (sb_content (is_db st))\<lparr>outlinks := outlinks (sb_content (is_db st)) @ [r]\<rparr>\<rparr>"
  have "outlink_key r \<notin> outlink_key ` set (outlinks (sb_content (is_db st)))"
    using r(2,3,6) by (simp add: outlink_key_def)
  then show ?thesis using assms(2) cid r(2,4,5) by (auto simp: r(7) site_wf_def content_wf_def)
qed

lemma wf_collection:
  assumes "import_collection I c st = Inr st'" and wf: "site_wf (is_db st)"
  shows "site_wf (is_db st')"
  using assms(1)
proof (cases rule: import_collection_Inr)
  case (new s1 s2 s3 s4)
  let ?cid = "ie_uuid I (is_fresh st)"
  let ?P = "\<lambda>s. site_wf (is_db s) \<and> collections (sb_content (is_db s)) = collections (sb_content (is_db s1))"
  note row = import_collection_row_Inr [OF new(2)]
  have cid: "?cid \<in> c_id ` set (collections (sb_content (is_db s1)))"
    by (simp add: row(3) import_row_def)
  have P1: "?P s1"
    using wf row(1,2) by (auto simp: row(3) site_wf_def content_wf_def import_row_def)
  have P2: "?P s2"
    by (rule try_fold_inv [where P = ?P, OF new(3) P1]) (metis cid wf_target)
  have P3: "?P s3"
    using new(4) P2 by (cases "xc_ranking_config c") (auto elim!: import_ranking_Inr simp: site_wf_def)
  have "?P s4"
    by (rule try_fold_inv [where P = ?P, OF new(5) P3]) (metis cid wf_outlink)
  then show ?thesis by (simp add: new(6))
qed (simp add: wf)

lemma wf_node_peer: "import_node_peer I p st = Inr st' \<Longrightarrow> site_wf (is_db st) \<Longrightarrow> site_wf (is_db st')"
  by (auto simp: import_node_peer_def Let_def site_wf_def fed_wf_def image_subset_iff split: if_splits)

lemma wf_collection_peer:
  "import_collection_peer I q st = Inr st' \<Longrightarrow> site_wf (is_db st) \<Longrightarrow> site_wf (is_db st')"
  by (auto simp: import_collection_peer_def Let_def site_wf_def fed_wf_def cp_key_def image_subset_iff
      dest!: find_by_SomeD split: if_splits option.splits)

section \<open>A second import finds everything in place\<close>

text \<open>What the loop over the links of collections to peers leaves of a link: nothing more to do for it.\<close>

definition settled :: "('w, 'f, 'x, 'j) import_state \<Rightarrow> 'w exported_collection_peer \<Rightarrow> bool" where
  "settled st q \<longleftrightarrow>
     xq_local_collection q \<notin> is_names st \<or> xq_node_peer_url q \<notin> is_urls st \<or>
     (\<exists>np. find_by np_url (xq_node_peer_url q) (node_peers (sb_fed (is_db st))) = Some np \<and>
        (xq_local_collection q, np_id np, xq_remote_collection q) \<in> cp_key ` set (collection_peers (sb_fed (is_db st))))"

lemma skip_collections:
  assumes "xc_name ` set cs \<subseteq> is_names st"
  shows "try_fold (import_collection I) cs st =
    Inr (st\<lparr>is_report := (is_report st)\<lparr>ir_collections_skipped := ir_collections_skipped (is_report st) + length cs\<rparr>\<rparr>)"
  using assms by (induction cs arbitrary: st) (simp_all add: import_collection_def)

lemma skip_node_peers:
  assumes "xn_url ` set ps \<subseteq> is_urls st"
  shows "try_fold (import_node_peer I) ps st =
    Inr (st\<lparr>is_report := (is_report st)\<lparr>ir_node_peers_skipped := ir_node_peers_skipped (is_report st) + length ps\<rparr>\<rparr>)"
  using assms by (induction ps arbitrary: st) (simp_all add: import_node_peer_def)

lemma settled_report [simp]: "settled (st\<lparr>is_report := rep\<rparr>) q = settled st q"
  by (simp add: settled_def)

lemma skip_collection_peers:
  assumes "\<forall>q \<in> set qs. settled st q"
  shows "try_fold (import_collection_peer I) qs st =
    Inr (st\<lparr>is_report := (is_report st)
      \<lparr>ir_collection_peers_skipped := ir_collection_peers_skipped (is_report st) + length qs\<rparr>\<rparr>)"
  using assms
proof (induction qs arbitrary: st)
  case (Cons q qs)
  let ?s = "st\<lparr>is_report := (is_report st)\<lparr>ir_collection_peers_skipped := ir_collection_peers_skipped (is_report st) + 1\<rparr>\<rparr>"
  have "import_collection_peer I q st = Inr ?s"
    using Cons.prems by (auto simp: import_collection_peer_def settled_def Let_def)
  then show ?case using Cons.IH [of ?s] Cons.prems by simp
qed simp

lemma try_fold_all:
  assumes "try_fold f xs s = Inr s'" and "P s"
    and "\<And>x s s'. P s \<Longrightarrow> f x s = Inr s' \<Longrightarrow> P s' \<and> Q x s'"
    and "\<And>x y s s'. P s \<Longrightarrow> Q y s \<Longrightarrow> f x s = Inr s' \<Longrightarrow> Q y s'"
  shows "P s' \<and> (\<forall>x \<in> set xs. Q x s')"
  using assms(1,2)
proof (induction xs arbitrary: s)
  case (Cons x xs)
  then obtain s1 where s1: "f x s = Inr s1" and rest: "try_fold f xs s1 = Inr s'" by (auto split: sum.splits)
  have 1: "P s1" "Q x s1" using assms(3) Cons.prems(2) s1 by blast+
  have "P s' \<and> Q x s'"
    by (rule try_fold_inv [where P = "\<lambda>s. P s \<and> Q x s", OF rest]) (use 1 assms(3,4) in blast)+
  then show ?case using Cons.IH [OF rest 1(1)] by simp
qed simp

definition same_frame :: "('w, 'f, 'x, 'j) import_state \<Rightarrow> ('w, 'f, 'x, 'j) import_state \<Rightarrow> bool" where
  "same_frame s s' \<longleftrightarrow>
     is_names s' = is_names s \<and> is_urls s' = is_urls s \<and> is_jobs s' = is_jobs s \<and> sb_fed (is_db s') = sb_fed (is_db s) \<and>
     collections (sb_content (is_db s')) = collections (sb_content (is_db s))"

lemma same_frame_trans: "same_frame s s' \<Longrightarrow> same_frame s' s'' \<Longrightarrow> same_frame s s''"
  by (simp add: same_frame_def)

lemma frame_fold:
  assumes "try_fold f xs s = Inr s'" and "\<And>x s s'. f x s = Inr s' \<Longrightarrow> same_frame s s'"
  shows "same_frame s s'"
  by (rule try_fold_inv [where P = "same_frame s", OF assms(1)])
    (auto simp: same_frame_def dest!: assms(2))

lemma frame_page: "import_page I cid tid p st = Inr st' \<Longrightarrow> same_frame st st'"
  by (elim import_page_Inr) (simp add: same_frame_def)

lemma frame_target: "import_target I now cid t st = Inr st' \<Longrightarrow> same_frame st st'"
proof (elim import_target_Inr)
  fix r s1
  assume "is_db s1 = (is_db st)\<lparr>sb_content := (sb_content (is_db st))\<lparr>targets := targets (sb_content (is_db st)) @ [r]\<rparr>\<rparr>"
    "is_names s1 = is_names st" "is_urls s1 = is_urls st" "is_jobs s1 = is_jobs st"
    and run: "try_fold (import_page I cid (ie_uuid I (is_fresh st))) (xt_crawled_pages t) s1 = Inr st'"
  then have "same_frame st s1" by (simp add: same_frame_def)
  then show ?thesis by (rule same_frame_trans) (rule frame_fold [OF run frame_page])
qed

lemma frame_outlink: "import_outlink I cid x st = Inr st' \<Longrightarrow> same_frame st st'"
  by (elim import_outlink_Inr) (simp add: same_frame_def)

lemma ranking_fold:
  assumes "try_fold (import_target I now cid) ts st = Inr st'"
  shows "sb_ranking (is_db st') = sb_ranking (is_db st)"
proof -
  have page: "sb_ranking (is_db s') = sb_ranking (is_db s)" if "try_fold (import_page I c tid) ps s = Inr s'" for c tid ps s s'
    using that by (rule try_fold_inv) (auto elim!: import_page_Inr)
  show ?thesis
    using assms by (rule try_fold_inv) (auto elim!: import_target_Inr dest!: page)
qed

lemma frame_ranking:
  "(case rc of None \<Rightarrow> Inr st | Some rc \<Rightarrow> import_ranking I rowid rc st) = Inr st' \<Longrightarrow> same_frame st st'"
  by (cases rc) (auto elim!: import_ranking_Inr simp: same_frame_def)

text \<open>What a new collection changes outside its own rows.\<close>

lemma import_collection_new:
  assumes "import_collection I c st = Inr st'" and "xc_name c \<notin> is_names st"
  shows "is_names st' = insert (xc_name c) (is_names st)" "is_urls st' = is_urls st"
    "sb_fed (is_db st') = sb_fed (is_db st)"
    "collections (sb_content (is_db st')) = collections (sb_content (is_db st)) @ [import_row I c st]"
    "is_jobs st' = is_jobs st @ map (document_job I (xc_name c) (ie_uuid I (is_fresh st))) (xc_documents c)"
proof -
  from assms(1) have "is_names st' = insert (xc_name c) (is_names st) \<and> is_urls st' = is_urls st \<and>
    sb_fed (is_db st') = sb_fed (is_db st) \<and>
    collections (sb_content (is_db st')) = collections (sb_content (is_db st)) @ [import_row I c st] \<and>
    is_jobs st' = is_jobs st @ map (document_job I (xc_name c) (ie_uuid I (is_fresh st))) (xc_documents c)"
  proof (cases rule: import_collection_Inr)
    case (new s1 s2 s3 s4)
    note row = import_collection_row_Inr [OF new(2)]
    have "same_frame s1 s2" by (rule frame_fold [OF new(3)]) (rule frame_target)
    moreover have "same_frame s2 s3" by (rule frame_ranking [OF new(4)])
    moreover have "same_frame s3 s4" by (rule frame_fold [OF new(5)]) (rule frame_outlink)
    ultimately have "same_frame s1 s4" by (meson same_frame_trans)
    then show ?thesis using row by (simp add: same_frame_def new(6) queue_documents_def)
  qed (use assms(2) in simp)
  then show "is_names st' = insert (xc_name c) (is_names st)" "is_urls st' = is_urls st"
    "sb_fed (is_db st') = sb_fed (is_db st)"
    "collections (sb_content (is_db st')) = collections (sb_content (is_db st)) @ [import_row I c st]"
    "is_jobs st' = is_jobs st @ map (document_job I (xc_name c) (ie_uuid I (is_fresh st))) (xc_documents c)"
    by simp_all
qed

lemma import_collection_known:
  "xc_name c \<in> is_names st \<Longrightarrow> import_collection I c st =
     Inr (st\<lparr>is_report := (is_report st)\<lparr>ir_collections_skipped := ir_collections_skipped (is_report st) + 1\<rparr>\<rparr>)"
  by (simp add: import_collection_def)

definition names_known :: "('w, 'f, 'x, 'j) import_state \<Rightarrow> bool" where
  "names_known s \<longleftrightarrow> is_names s = existing_collection_names (is_db s)"

definition urls_known :: "('w, 'f, 'x, 'j) import_state \<Rightarrow> bool" where
  "urls_known s \<longleftrightarrow> is_urls s = existing_node_peer_urls (is_db s) \<and> names_known s"

lemma names_step:
  assumes "names_known s" and "import_collection I c s = Inr s'"
  shows "names_known s' \<and> is_names s' = insert (xc_name c) (is_names s)"
proof (cases "xc_name c \<in> is_names s")
  case True
  then show ?thesis using assms by (auto simp: import_collection_known names_known_def)
next
  case False
  show ?thesis using import_collection_new [OF assms(2) False] assms(1)
    by (simp add: names_known_def existing_collection_names_def import_row_def)
qed

lemma urls_step:
  assumes "urls_known s" and "import_node_peer I p s = Inr s'"
  shows "urls_known s' \<and> is_urls s' = insert (xn_url p) (is_urls s) \<and> is_names s' = is_names s"
  using assms
  by (auto simp: import_node_peer_def Let_def urls_known_def names_known_def existing_node_peer_urls_def
      existing_collection_names_def split: if_splits)

lemma settled_step:
  assumes "import_collection_peer I q s = Inr s'"
  shows "settled s' q" and "settled s y \<Longrightarrow> settled s' y" and "urls_known s \<Longrightarrow> urls_known s'"
    and "is_names s' = is_names s" and "is_urls s' = is_urls s"
  using assms
  by (auto simp: import_collection_peer_def Let_def settled_def urls_known_def names_known_def
      existing_node_peer_urls_def existing_collection_names_def cp_key_def split: if_splits option.splits)

lemma applied_inner:
  assumes "apply_envelope_inner I env db = Inr st"
  shows "urls_known st" "xc_name ` set (ev_collections env) \<subseteq> is_names st"
    "xn_url ` set (ev_node_peers env) \<subseteq> is_urls st" "\<forall>q \<in> set (ev_collection_peers env). settled st q"
proof -
  obtain s1 s2 where runs: "try_fold (import_collection I) (ev_collections env) (begin_import db) = Inr s1"
    "try_fold (import_node_peer I) (ev_node_peers env) (s1\<lparr>is_urls := existing_node_peer_urls (is_db s1)\<rparr>) = Inr s2"
    "try_fold (import_collection_peer I) (ev_collection_peers env) s2 = Inr st"
    using assms by (rule apply_envelope_inner_Inr)
  have 1: "names_known s1 \<and> (\<forall>c \<in> set (ev_collections env). xc_name c \<in> is_names s1)"
    by (rule try_fold_all [OF runs(1)]) (auto simp: begin_import_def names_known_def dest: names_step [unfolded names_known_def])
  have "urls_known (s1\<lparr>is_urls := existing_node_peer_urls (is_db s1)\<rparr>)"
    using 1 by (simp add: urls_known_def names_known_def)
  then have 2: "(urls_known s2 \<and> is_names s2 = is_names s1) \<and> (\<forall>p \<in> set (ev_node_peers env). xn_url p \<in> is_urls s2)"
    by (intro try_fold_all [OF runs(2)]) (auto dest: urls_step)
  have 3: "(urls_known st \<and> is_names st = is_names s1 \<and> is_urls st = is_urls s2) \<and>
      (\<forall>q \<in> set (ev_collection_peers env). settled st q)"
    by (rule try_fold_all [OF runs(3)]) (use 2 in \<open>auto dest: settled_step\<close>)
  show "urls_known st" "xc_name ` set (ev_collections env) \<subseteq> is_names st"
    "xn_url ` set (ev_node_peers env) \<subseteq> is_urls st" "\<forall>q \<in> set (ev_collection_peers env). settled st q"
    using 1 2 3 by auto
qed

section \<open>The sample of the witnesses\<close>

definition sample_import_env :: import_env where
  "sample_import_env =
     \<lparr>ie_uuid = (\<lambda>n. replicate (n + 1) CHR ''u''), ie_gap = (\<lambda>_. 0), ie_now_text = (\<lambda>_. ''now''), ie_now_unix = (\<lambda>_. 7),
      ie_sha256 = (\<lambda>x. x)\<rparr>"

definition sample_exported :: "string \<Rightarrow> (int, int, int) exported_collection" where
  "sample_exported nm =
     \<lparr>xc_name = nm, xc_description = [], xc_created_at = ''t'', xc_updated_at = ''t'',
      xc_crawl_targets =
        [\<lparr>xt_url_prefix = ''https://a/'', xt_recrawl_interval_s = 1, xt_recrawl_interval_secs = 1, xt_enabled = 1,
          xt_crawl_delay_secs = None, xt_created_at = [], xt_crawled_pages =
            [\<lparr>xp_url = ''https://a/b'', xp_etag = None, xp_last_modified = None, xp_content_hash = None,
              xp_last_status = Some 200, xp_last_crawled_at = 3, xp_indexed_content_hash = Some ''h''\<rparr>]\<rparr>],
      xc_ranking_config = Some \<lparr>xr_half_life = 90, xr_source_weights_json = 0, xr_domain_boosts_json = 0,
        xr_config_json = None\<rparr>,
      xc_documents = [\<lparr>xx_url = ''https://a/b'', xx_title = ''B'', xx_body = ''b'', xx_indexed_at = 3\<rparr>],
      xc_outlinks = []\<rparr>"

definition sample_envelope :: "(int, int, int, int) envelope" where
  "sample_envelope =
     \<lparr>ev_format_version = 1, ev_exported_at = ''t'', ev_self_url = ''https://old'',
      ev_collections = [sample_exported ''rust''],
      ev_node_peers = [\<lparr>xn_url = ''https://peer'', xn_name = None, xn_enabled = True\<rparr>],
      ev_collection_peers =
        [\<lparr>xq_local_collection = ''rust'', xq_node_peer_url = ''https://peer'', xq_remote_collection = ''r'',
          xq_source_weight = 1, xq_enabled = True\<rparr>]\<rparr>"

definition empty_site :: "('w, 'f, 'x, 'j) site_db" where
  "empty_site =
     \<lparr>sb_content = \<lparr>collections = [], targets = [], pages = [], outlinks = []\<rparr>, sb_ranking = [],
      sb_fed = \<lparr>node_peers = [], collection_peers = [], notifications = []\<rparr>\<rparr>"

lemma site_wf_empty: "site_wf empty_site"
  by (simp add: site_wf_def empty_site_def content_wf_def fed_wf_def)

lemmas import_evaluation = apply_envelope_def apply_envelope_inner_def begin_import_def import_collection_def
  import_collection_row_def import_target_def import_page_def import_ranking_def import_outlink_def
  queue_documents_def document_job_def doc_content_hash_def import_node_peer_def import_collection_peer_def put_content_def
  import_row_def stamp_def existing_collection_names_def existing_node_peer_urls_def next_rowid_def
  empty_report_def Let_def

lemma sample_import:
  "\<exists>db' rep job. apply_envelope sample_import_env sample_envelope empty_site = (db', Inr (rep, [job])) \<and>
     ir_documents_queued rep = 1 \<and> ij_url job = ''https://a/b''"
  by (simp add: import_evaluation sample_import_env_def sample_envelope_def sample_exported_def empty_site_def)

section \<open>What an import guarantees\<close>

lemma import_grows:
  assumes "apply_envelope I env db = (db', r)"
  shows "grown db db'" and "site_wf db \<Longrightarrow> site_wf db'" and "isl r \<Longrightarrow> db' = db"
proof -
  have "grown db (is_db st)" if "apply_envelope_inner I env db = Inr st" for st
    by (rule apply_envelope_inner_inv [where P = "grown db", OF that])
      (auto intro: grown_trans dest: grown_collection grown_node_peer grown_collection_peer)
  moreover have "site_wf (is_db st)" if "apply_envelope_inner I env db = Inr st" "site_wf db" for st
    by (rule apply_envelope_inner_inv [where P = site_wf, OF that])
      (auto dest: wf_collection wf_node_peer wf_collection_peer)
  ultimately show "grown db db'" and "site_wf db \<Longrightarrow> site_wf db'" and "isl r \<Longrightarrow> db' = db"
    using assms by (auto simp: apply_envelope_def split: sum.splits)
qed

lemma reimport:
  assumes "apply_envelope I env db = (db', Inr res)"
  shows "apply_envelope I' env db' =
    (db', Inr (empty_report\<lparr>ir_collections_skipped := length (ev_collections env),
         ir_node_peers_skipped := length (ev_node_peers env),
         ir_collection_peers_skipped := length (ev_collection_peers env)\<rparr>, []))"
proof -
  obtain st where st: "apply_envelope_inner I env db = Inr st" "db' = is_db st"
    using assms by (auto simp: apply_envelope_def split: sum.splits)
  note known = applied_inner [OF st(1)]
  have names: "is_names st = existing_collection_names db'" and urls: "is_urls st = existing_node_peer_urls db'"
    using known(1) by (simp_all add: urls_known_def names_known_def st(2))
  let ?s1 = "(begin_import db')\<lparr>is_report := empty_report\<lparr>ir_collections_skipped := length (ev_collections env)\<rparr>\<rparr>"
  let ?s2 = "?s1\<lparr>is_urls := existing_node_peer_urls db', is_report := empty_report
      \<lparr>ir_collections_skipped := length (ev_collections env), ir_node_peers_skipped := length (ev_node_peers env)\<rparr>\<rparr>"
  have 1: "try_fold (import_collection I') (ev_collections env) (begin_import db') = Inr ?s1"
    using known(2) skip_collections [of "ev_collections env" "begin_import db'" I']
    by (simp add: begin_import_def names empty_report_def)
  have 2: "try_fold (import_node_peer I') (ev_node_peers env) (?s1\<lparr>is_urls := existing_node_peer_urls (is_db ?s1)\<rparr>) =
      Inr ?s2"
    using known(3) skip_node_peers [of "ev_node_peers env" "?s1\<lparr>is_urls := existing_node_peer_urls (is_db ?s1)\<rparr>" I']
    by (simp add: begin_import_def urls empty_report_def)
  have "\<forall>q \<in> set (ev_collection_peers env). settled ?s2 q"
    using known(4) by (auto simp: settled_def begin_import_def names urls st(2))
  from skip_collection_peers [OF this, of I'] show ?thesis
    by (simp only: apply_envelope_def apply_envelope_inner_def 1 2 sum.case) (simp add: begin_import_def empty_report_def)
qed



text \<open>C32: Importing a dump a second time does nothing: the tables stay as they are, no document is queued, and the report
  counts every collection, peer and link of the dump as skipped. This holds from any state the first import left,
  whatever was there before it, also for links that the first import could not place.
\<close>

theorem import_idempotent:
  assumes "apply_envelope I env db = (db', Inr res)"
  shows "apply_envelope I' env db' =
    (db', Inr (empty_report\<lparr>ir_collections_skipped := length (ev_collections env),
         ir_node_peers_skipped := length (ev_node_peers env),
         ir_collection_peers_skipped := length (ev_collection_peers env)\<rparr>, []))"
  by (rule reimport [OF assms])

theorem import_idempotent_witness:
  "\<exists>db'. fst (apply_envelope sample_import_env sample_envelope empty_site) = db' \<and>
     apply_envelope sample_import_env sample_envelope db' =
       (db', Inr (empty_report\<lparr>ir_collections_skipped := 1, ir_node_peers_skipped := 1,
          ir_collection_peers_skipped := 1\<rparr>, []))"
proof -
  obtain db' rep job where run: "apply_envelope sample_import_env sample_envelope empty_site = (db', Inr (rep, [job]))"
    using sample_import by blast
  show ?thesis using import_idempotent [OF run, of sample_import_env] run by (simp add: sample_envelope_def)
qed

section \<open>The import handler\<close>

lemma send_jobs_all:
  assumes "si_accepts s = None"
  shows "send_jobs js s =
    (s\<lparr>si_inflight := si_inflight s + int (length js), si_queue := si_queue s @ js\<rparr>, Inr ())"
  using assms by (induction js arbitrary: s) (simp_all add: algebra_simps)

lemma send_jobs_some:
  assumes "si_accepts s = Some n"
  shows "send_jobs js s =
    (s\<lparr>si_inflight := si_inflight s + int (length (take n js)), si_queue := si_queue s @ take n js,
       si_accepts := Some (n - length js)\<rparr>,
     if length js \<le> n then Inr () else Inl (500, LibText ''indexer channel closed mid-import''))"
  using assms
proof (induction js arbitrary: s n)
  case (Cons j js)
  then show ?case by (cases n) (simp_all add: algebra_simps)
qed simp

lemma send_jobs_cases:
  assumes "send_jobs js s = (s', r)"
  obtains n a where "s' = s\<lparr>si_inflight := si_inflight s + int (length (take n js)),
      si_queue := si_queue s @ take n js, si_accepts := a\<rparr>" "r = Inr () \<Longrightarrow> take n js = js" "\<And>e. r = Inl e \<Longrightarrow> fst e = 500"
proof (cases "si_accepts s")
  case None
  then show thesis using assms send_jobs_all [OF None, of js] by (intro that [where n = "length js" and a = None]) auto
next
  case (Some n)
  then show thesis
    using assms send_jobs_some [OF Some, of js]
    by (intro that [where n = n and a = "Some (n - length js)"]) (auto split: if_splits)
qed

text \<open>The import handler keeps the count of documents in flight. Whatever the body and wherever the indexer closes its
  channel, the counter grows by exactly the number of jobs put in the channel; a request answered with 400 (a body that
  is neither a dump nor a gzipped dump, or one of another version) changes nothing; and after an answer with a report,
  the tables are those of the whole dump and every document of the new collections is in the channel.
\<close>

theorem import_handler_counts:
  assumes "handle_import K I body s = (s', r)"
  shows "\<exists>sent. si_queue s' = si_queue s @ sent \<and> si_inflight s' = si_inflight s + int (length sent) \<and>
    grown (si_db s) (si_db s') \<and>
    (case r of
       Inl e \<Rightarrow> fst e = 400 \<longrightarrow> s' = s
     | Inr rep \<Rightarrow> \<exists>env. decode_body K body = Inr env \<and> ev_format_version env = FORMAT_VERSION \<and>
         apply_envelope I env (si_db s) = (si_db s', Inr (rep, sent)))"
proof (cases "decode_body K body")
  case (Inl e)
  then show ?thesis using assms by (intro exI [where x = "[]"]) (auto simp: handle_import_def)
next
  case (Inr env)
  show ?thesis
  proof (cases "ev_format_version env \<noteq> FORMAT_VERSION \<or> si_poisoned s")
    case True
    then show ?thesis
      using assms Inr by (intro exI [where x = "[]"]) (auto simp: handle_import_def db_mutex_poisoned_def split: if_splits)
  next
    case False
    obtain db a where a: "apply_envelope I env (si_db s) = (db, a)" by fastforce
    note grows = import_grows [OF a]
    show ?thesis
    proof (cases a)
      case (Inl e)
      then show ?thesis
        using assms Inr False a grows
        by (intro exI [where x = "[]"]) (auto simp: handle_import_def internal_db_error_def)
    next
      case res: (Inr rj)
      obtain rep jobs where rj: "rj = (rep, jobs)" by fastforce
      obtain s1 b where send: "send_jobs jobs (s\<lparr>si_db := db\<rparr>) = (s1, b)" by fastforce
      obtain n acc where s1: "s1 = s\<lparr>si_db := db, si_inflight := si_inflight s + int (length (take n jobs)),
          si_queue := si_queue s @ take n jobs, si_accepts := acc\<rparr>"
        and b: "b = Inr () \<Longrightarrow> take n jobs = jobs" "\<And>e. b = Inl e \<Longrightarrow> fst e = 500"
        by (rule send_jobs_cases [OF send]) simp
      show ?thesis
        using assms Inr False a res rj send grows s1 b
        by (intro exI [where x = "take n jobs"]) (auto simp: handle_import_def split: sum.splits)
    qed
  qed
qed

definition plain_codec :: "('w, 'f, 'x, 'j) envelope \<Rightarrow> ('w, 'f, 'x, 'j) codec" where
  "plain_codec env =
     \<lparr>gunzip = Inr, gzip = Inr, envelope_of_json = (\<lambda>b. if b = [1] then Inr env else Inl ''eof''),
      json_of_envelope = (\<lambda>_. Inr [1])\<rparr>"

definition empty_instance :: "nat option \<Rightarrow> ('w, 'f, 'x, 'j) site" where
  "empty_instance acc =
     \<lparr>si_poisoned = False, si_db = empty_site, si_inflight = 0, si_queue = [], si_accepts = acc\<rparr>"

theorem import_handler_counts_witness:
  "\<exists>s' rep. handle_import (plain_codec sample_envelope) sample_import_env [1] (empty_instance (Some 3)) = (s', Inr rep) \<and>
     si_inflight s' = int (length (si_queue s'))"
proof -
  obtain db' rep job where run: "apply_envelope sample_import_env sample_envelope empty_site = (db', Inr (rep, [job]))"
    using sample_import by blast
  have "\<exists>s'. handle_import (plain_codec sample_envelope) sample_import_env [1] (empty_instance (Some 3)) = (s', Inr rep)"
    using run by (simp add: handle_import_def plain_codec_def decode_body_def empty_instance_def FORMAT_VERSION_def
        sample_envelope_def [THEN arg_cong, of ev_format_version] send_jobs_some)
  then obtain s' where
    "handle_import (plain_codec sample_envelope) sample_import_env [1] (empty_instance (Some 3)) = (s', Inr rep)" ..
  with import_handler_counts [OF this] show ?thesis by (auto simp: empty_instance_def)
qed

text \<open>C40: Documents that are not queued before the indexer closes its channel are lost. The tables are committed before
  the documents are sent: when the channel closes after \<open>n\<close> of the jobs, the handler answers 500, the first \<open>n\<close> are
  queued and the collections stay. Sending the same dump again to a restarted indexer succeeds and queues nothing.
\<close>

theorem import_interrupted_loses_documents:
  assumes body: "decode_body K body = Inr env" "ev_format_version env = FORMAT_VERSION" "\<not> si_poisoned s"
    and run: "apply_envelope I env (si_db s) = (db', Inr (rep, jobs))"
    and closes: "si_accepts s = Some n" "n < length jobs"
  shows "\<exists>s' rep2. handle_import K I body s = (s', Inl (500, LibText ''indexer channel closed mid-import'')) \<and>
    si_db s' = db' \<and> si_queue s' = si_queue s @ take n jobs \<and>
    handle_import K I' body (s'\<lparr>si_accepts := None\<rparr>) = (s'\<lparr>si_accepts := None\<rparr>, Inr rep2) \<and>
    ir_documents_queued rep2 = 0"
proof -
  let ?s = "s\<lparr>si_db := db', si_inflight := si_inflight s + int (length (take n jobs)),
      si_queue := si_queue s @ take n jobs, si_accepts := Some (n - length jobs)\<rparr>"
  have "send_jobs jobs (s\<lparr>si_db := db'\<rparr>) = (?s, Inl (500, LibText ''indexer channel closed mid-import''))"
    using send_jobs_some [of "s\<lparr>si_db := db'\<rparr>" n jobs] closes by simp
  then have "handle_import K I body s = (?s, Inl (500, LibText ''indexer channel closed mid-import''))"
    using body run by (simp add: handle_import_def)
  moreover have "handle_import K I' body (?s\<lparr>si_accepts := None\<rparr>) = (?s\<lparr>si_accepts := None\<rparr>,
      Inr (empty_report\<lparr>ir_collections_skipped := length (ev_collections env),
         ir_node_peers_skipped := length (ev_node_peers env),
         ir_collection_peers_skipped := length (ev_collection_peers env)\<rparr>))"
    using body reimport [OF run, of I'] by (simp add: handle_import_def)
  ultimately show ?thesis by (intro exI conjI) (assumption | simp add: empty_report_def)+
qed

theorem import_interrupted_loses_documents_witness:
  "\<exists>s' rep2. handle_import (plain_codec sample_envelope) sample_import_env [1] (empty_instance (Some 0)) =
      (s', Inl (500, LibText ''indexer channel closed mid-import'')) \<and>
    handle_import (plain_codec sample_envelope) sample_import_env [1] (s'\<lparr>si_accepts := None\<rparr>) =
      (s'\<lparr>si_accepts := None\<rparr>, Inr rep2) \<and> ir_documents_queued rep2 = 0"
proof -
  obtain db' rep job where run: "apply_envelope sample_import_env sample_envelope empty_site = (db', Inr (rep, [job]))"
    using sample_import by blast
  show ?thesis
    using import_interrupted_loses_documents [of "plain_codec sample_envelope" "[1]" sample_envelope
        "empty_instance (Some 0)" sample_import_env db' rep "[job]" 0 sample_import_env] run
    by (auto simp: plain_codec_def decode_body_def empty_instance_def FORMAT_VERSION_def sample_envelope_def)
qed

text \<open>A ranking row left behind by a deleted collection blocks an import. Deleting a collection keeps its ranking row, and
  the next collection takes the freed rowid. When the first new collection of a dump carries a ranking configuration
  and its rowid is still in the ranking table, the whole import is refused and nothing of it is kept.
\<close>

theorem stale_ranking_blocks_import:
  assumes "ev_collections env = known @ c # rest" and "xc_name ` set known \<subseteq> existing_collection_names db"
    and "xc_name c \<notin> existing_collection_names db" and "xc_ranking_config c = Some rc"
    and stale: "next_rowid (map c_rowid (collections (sb_content db))) \<in> rk_collection_id ` set (sb_ranking db)"
  shows "\<exists>e. apply_envelope I env db = (db, Inl e)"
proof -
  let ?s = "(begin_import db)\<lparr>is_report := (is_report (begin_import db))
      \<lparr>ir_collections_skipped := ir_collections_skipped (is_report (begin_import db)) + length known\<rparr>\<rparr>"
  have skip: "try_fold (import_collection I) known (begin_import db) = Inr ?s"
    by (rule skip_collections) (use assms(2) in \<open>simp add: begin_import_def\<close>)
  have app: "try_fold f (xs @ ys) s = (case try_fold f xs s of Inl e \<Rightarrow> Inl e | Inr s' \<Rightarrow> try_fold f ys s')"
    for f :: "'z \<Rightarrow> 'y \<Rightarrow> 'v + 'y" and xs ys s
    by (induction xs arbitrary: s) (auto split: sum.splits)
  have "\<not> (\<exists>st. import_collection I c ?s = Inr st)"
  proof
    assume "\<exists>st. import_collection I c ?s = Inr st"
    then obtain st where "import_collection I c ?s = Inr st" ..
    then show False
    proof (cases rule: import_collection_Inr)
      case (new s1 s2 s3 s4)
      note row = import_collection_row_Inr [OF new(2)]
      have rank: "sb_ranking (is_db s2) = sb_ranking (is_db s1)"
        by (rule ranking_fold [OF new(3)])
      have "import_ranking I (c_rowid (import_row I c ?s)) rc s2 = Inr s3"
        using new(4) assms(4) by simp
      then show False
        using stale rank row(3)
        by (elim import_ranking_Inr) (simp add: import_row_def begin_import_def)
    qed (use assms(3) in \<open>simp add: begin_import_def\<close>)
  qed
  then obtain e where "import_collection I c ?s = Inl e" by (cases "import_collection I c ?s") auto
  then have "try_fold (import_collection I) (ev_collections env) (begin_import db) = Inl e"
    by (simp add: assms(1) app skip)
  then show ?thesis by (simp add: apply_envelope_def apply_envelope_inner_def)
qed

definition stale_site :: "(int, int, int, int) site_db" where
  "stale_site = empty_site\<lparr>sb_ranking :=
     [\<lparr>rk_collection_id = 1, rk_half_life = 30, rk_source_weights_json = 0, rk_domain_boosts_json = 0,
       rk_config_json = None, rk_updated_at = 0\<rparr>]\<rparr>"

theorem stale_ranking_blocks_import_witness:
  "\<exists>e. apply_envelope sample_import_env sample_envelope stale_site = (stale_site, Inl e)"
  using stale_ranking_blocks_import [of sample_envelope "[]" "sample_exported ''rust''" "[]" stale_site]
  by (simp add: sample_envelope_def sample_exported_def stale_site_def empty_site_def existing_collection_names_def
      next_rowid_def)

end
