(* ===== verification/Export_Roundtrip.thy ===== *)
theory Export_Roundtrip
  imports Export_Import
begin

text \<open>
  The round trip of \<open>api/admin/export_import.rs\<close>: what an instance exports, imported into an empty instance and
  exported again from there.
\<close>

section \<open>What an import carries over\<close>

text \<open>
  The hash of the last indexing of a page is not imported, and a link of a collection that is not in the dump is left
  out. Everything else is kept.
\<close>

definition carried_page :: "exported_page \<Rightarrow> exported_page" where
  "carried_page p = p\<lparr>xp_indexed_content_hash := None\<rparr>"

definition carried_target :: "exported_target \<Rightarrow> exported_target" where
  "carried_target t = t\<lparr>xt_crawled_pages := map carried_page (xt_crawled_pages t)\<rparr>"

definition carried_collection :: "('f, 'x, 'j) exported_collection \<Rightarrow> ('f, 'x, 'j) exported_collection" where
  "carried_collection c = c\<lparr>xc_crawl_targets := map carried_target (xc_crawl_targets c)\<rparr>"

definition carried :: "('w, 'f, 'x, 'j) envelope \<Rightarrow> ('w, 'f, 'x, 'j) envelope" where
  "carried env = env\<lparr>ev_collections := map carried_collection (ev_collections env),
     ev_collection_peers := filter (\<lambda>q. xq_local_collection q \<in> xc_name ` set (ev_collections env))
       (ev_collection_peers env)\<rparr>"

text \<open>The document the index holds once a job is done.\<close>

definition doc_of_job :: "index_job \<Rightarrow> exported_doc" where
  "doc_of_job j =
     \<lparr>xd_collection = ij_collection_name j, xd_url = ij_url j, xd_title = ij_title j, xd_body = ij_body j,
      xd_indexed_at = ij_indexed_at j\<rparr>"

section \<open>The pages of a target\<close>

lemma pages_run:
  assumes "distinct (map xp_url ps)"
    and "\<forall>p \<in> set ps. (cid, xp_url p) \<notin> page_key ` set (pages (sb_content (is_db st)))"
  shows "\<exists>st' rows. try_fold (import_page I cid tid) ps st = Inr st' \<and>
    is_db st' = (is_db st)\<lparr>sb_content := (sb_content (is_db st))\<lparr>pages := pages (sb_content (is_db st)) @ rows\<rparr>\<rparr> \<and>
    is_fresh st' = is_fresh st \<and> map exported_page_of rows = map carried_page ps \<and>
    (\<forall>r \<in> set rows. p_collection_id r = cid \<and> p_crawl_target_id r = tid \<and>
       (\<forall>q \<in> set (pages (sb_content (is_db st))). p_id q < p_id r)) \<and>
    sorted (map p_id rows)"
  using assms
proof (induction ps arbitrary: st)
  case Nil
  show ?case by (rule exI [where x = st], rule exI [where x = "[]"]) simp
next
  case (Cons p ps)
  have "(cid, xp_url p) \<notin> page_key ` set (pages (sb_content (is_db st)))" using Cons.prems(2) by simp
  then obtain s1 where s1: "import_page I cid tid p st = Inr s1" by (simp add: import_page_def Let_def)
  then show ?case
  proof (rule import_page_Inr)
    fix r
    assume r: "p_collection_id r = cid" "p_crawl_target_id r = tid" "p_url r = xp_url p"
      "\<And>q. q \<in> set (pages (sb_content (is_db st))) \<Longrightarrow> p_id q < p_id r"
      "exported_page_of r = p\<lparr>xp_indexed_content_hash := None\<rparr>"
      "is_db s1 = (is_db st)\<lparr>sb_content := (sb_content (is_db st))\<lparr>pages := pages (sb_content (is_db st)) @ [r]\<rparr>\<rparr>"
      "is_fresh s1 = is_fresh st"
    have "\<forall>q \<in> set ps. (cid, xp_url q) \<notin> page_key ` set (pages (sb_content (is_db s1)))"
      using Cons.prems r(1,3) by (auto simp: r(6) page_key_def) (metis image_eqI)
    with Cons.IH [of s1] Cons.prems(1) obtain st' rows where IH: "try_fold (import_page I cid tid) ps s1 = Inr st'"
      "is_db st' = (is_db s1)\<lparr>sb_content := (sb_content (is_db s1))\<lparr>pages := pages (sb_content (is_db s1)) @ rows\<rparr>\<rparr>"
      "is_fresh st' = is_fresh s1" "map exported_page_of rows = map carried_page ps"
      "\<forall>r \<in> set rows. p_collection_id r = cid \<and> p_crawl_target_id r = tid \<and>
         (\<forall>q \<in> set (pages (sb_content (is_db s1))). p_id q < p_id r)" "sorted (map p_id rows)"
      by auto
    have "\<forall>x \<in> set rows. p_id r < p_id x" using IH(5) by (simp add: r(6))
    then show ?case using s1 IH r
      by - (rule exI [where x = st'], rule exI [where x = "r # rows"], auto simp: carried_page_def less_imp_le)
  qed
qed

section \<open>The targets of a collection\<close>

text \<open>The ids an import will still hand out are in no row.\<close>

definition unused :: "import_env \<Rightarrow> nat \<Rightarrow> 'j content_db \<Rightarrow> bool" where
  "unused I n d \<longleftrightarrow>
     (\<forall>k \<ge> n. ie_uuid I k \<notin> c_id ` set (collections d) \<and> ie_uuid I k \<notin> t_id ` set (targets d) \<and>
        ie_uuid I k \<notin> p_crawl_target_id ` set (pages d) \<and> ie_uuid I k \<notin> o_id ` set (outlinks d) \<and>
        ie_uuid I k \<notin> t_collection_id ` set (targets d) \<and> ie_uuid I k \<notin> p_collection_id ` set (pages d) \<and>
        ie_uuid I k \<notin> o_collection_id ` set (outlinks d))"

lemma fresh_image:
  assumes "\<And>k. n \<le> k \<Longrightarrow> f k \<notin> g ` S" and "x \<in> S"
  shows "g x \<notin> f ` {n..}"
proof
  assume "g x \<in> f ` {n..}"
  then obtain k where k: "n \<le> k" "g x = f k" by auto
  have "f k \<in> g ` S" using assms(2) unfolding k(2) [symmetric] by simp
  then show False using assms(1) [OF k(1)] by contradiction
qed

lemma filter_none: "f ` set xs \<subseteq> S \<Longrightarrow> a \<notin> S \<Longrightarrow> filter (\<lambda>x. f x = a) xs = []"
  by (induction xs) auto

lemma unused_ids:
  assumes "unused I n d"
  shows "c \<in> set (collections d) \<Longrightarrow> c_id c \<notin> ie_uuid I ` {n..}"
    and "t \<in> set (targets d) \<Longrightarrow> t_id t \<notin> ie_uuid I ` {n..}"
  by (rule fresh_image; use assms in \<open>simp add: unused_def\<close>)+

lemma export_crawled_pages_rows:
  assumes "pages d = old @ rows @ later" and "\<forall>q \<in> set old. p_crawl_target_id q \<noteq> tid"
    and "\<forall>r \<in> set rows. p_crawl_target_id r = tid" and "\<forall>q \<in> set later. p_crawl_target_id q \<noteq> tid"
    and "sorted (map p_id rows)"
  shows "export_crawled_pages tid d = map exported_page_of rows"
proof -
  have "filter (\<lambda>p. p_crawl_target_id p = tid) (pages d) = rows"
    using assms(1-4) by (simp add: filter_empty_conv)
  then show ?thesis by (simp add: export_crawled_pages_def sort_key_id_if_sorted assms(5))
qed

definition target_page_urls :: "exported_target list \<Rightarrow> string list" where
  "target_page_urls ts = concat (map (\<lambda>t. map xp_url (xt_crawled_pages t)) ts)"

lemma target_page_urls_Cons [simp]:
  "target_page_urls (t # ts) = map xp_url (xt_crawled_pages t) @ target_page_urls ts"
  by (simp add: target_page_urls_def)

text \<open>
  The rows \<open>trows\<close> and \<open>prows\<close> an import made for the targets \<open>ts\<close> of the collection \<open>cid\<close>, with ids from the \<open>n\<close>-th
  up to the \<open>n'\<close>-th.
\<close>

definition target_rows ::
  "import_env \<Rightarrow> nat \<Rightarrow> nat \<Rightarrow> string \<Rightarrow> exported_target list \<Rightarrow> 'j content_db \<Rightarrow> target_row list \<Rightarrow> page_row list \<Rightarrow> bool" where
  "target_rows I n n' cid ts d trows prows \<longleftrightarrow>
     n \<le> n' \<and> map t_url_prefix trows = map xt_url_prefix ts \<and>
     (\<forall>r \<in> set trows. t_collection_id r = cid \<and> (\<exists>k. n \<le> k \<and> k < n' \<and> t_id r = ie_uuid I k)) \<and>
     (\<forall>r \<in> set prows. p_collection_id r = cid \<and> p_crawl_target_id r \<in> t_id ` set trows) \<and>
     (\<forall>(d' :: 'j content_db) later. pages d' = pages d @ prows @ later \<longrightarrow> (\<forall>q \<in> set later. p_crawl_target_id q \<notin> t_id ` set trows) \<longrightarrow>
        map (exported_target_of d') trows = map carried_target ts)"

lemma target_run:
  fixes st :: "('w, 'f, 'x, 'j) import_state"
  assumes "ie_uuid I (is_fresh st) \<notin> t_id ` set (targets (sb_content (is_db st)))"
    and "(cid, xt_url_prefix t) \<notin> target_key ` set (targets (sb_content (is_db st)))"
    and "distinct (map xp_url (xt_crawled_pages t))"
    and "\<forall>u \<in> set (map xp_url (xt_crawled_pages t)). (cid, u) \<notin> page_key ` set (pages (sb_content (is_db st)))"
    and "xt_created_at t \<noteq> []"
  obtains st' r rows where "import_target I now cid t st = Inr st'"
    "is_db st' = (is_db st)\<lparr>sb_content := (sb_content (is_db st))\<lparr>targets := targets (sb_content (is_db st)) @ [r],
       pages := pages (sb_content (is_db st)) @ rows\<rparr>\<rparr>" "is_fresh st' = is_fresh st + 1"
    "t_id r = ie_uuid I (is_fresh st)" "target_key r = (cid, xt_url_prefix t)"
    "\<And>d :: 'j content_db. exported_target_of d r = t\<lparr>xt_crawled_pages := export_crawled_pages (t_id r) d\<rparr>"
    "map exported_page_of rows = map carried_page (xt_crawled_pages t)"
    "\<forall>x \<in> set rows. p_collection_id x = cid \<and> p_crawl_target_id x = t_id r" "sorted (map p_id rows)"
proof -
  let ?tid = "ie_uuid I (is_fresh st)"
  let ?d = "sb_content (is_db st)"
  note run = pages_run [where cid = cid and I = I and tid = ?tid, OF assms(3)]
  have "\<exists>st'. import_target I now cid t st = Inr st'"
  proof -
    have "\<exists>st'. try_fold (import_page I cid ?tid) (xt_crawled_pages t) s = Inr st'"
      if "pages (sb_content (is_db s)) = pages ?d" for s :: "('w, 'f, 'x, 'j) import_state"
    proof -
      have "\<forall>p \<in> set (xt_crawled_pages t). (cid, xp_url p) \<notin> page_key ` set (pages (sb_content (is_db s)))"
        unfolding that using assms(4) by simp
      then show ?thesis by (blast dest: run)
    qed
    note ok = this
    show ?thesis
      unfolding import_target_def Let_def if_not_P [OF assms(1)] if_not_P [OF assms(2)] by (rule ok) simp
  qed
  then obtain st' where st': "import_target I now cid t st = Inr st'" ..
  then show thesis
  proof (rule import_target_Inr)
    fix r s1
    assume r: "t_id r = ?tid" "t_collection_id r = cid" "t_url_prefix r = xt_url_prefix t"
      "\<And>d :: 'j content_db. exported_target_of d r =
         t\<lparr>xt_created_at := stamp now (xt_created_at t), xt_crawled_pages := export_crawled_pages (t_id r) d\<rparr>"
      and s1: "is_db s1 = (is_db st)\<lparr>sb_content := ?d\<lparr>targets := targets ?d @ [r]\<rparr>\<rparr>" "is_fresh s1 = is_fresh st + 1"
      and fold: "try_fold (import_page I cid ?tid) (xt_crawled_pages t) s1 = Inr st'"
    have "\<forall>p \<in> set (xt_crawled_pages t). (cid, xp_url p) \<notin> page_key ` set (pages (sb_content (is_db s1)))"
      using assms(4) by (simp add: s1)
    from run [OF this] fold obtain rows where
      rows: "is_db st' = (is_db s1)\<lparr>sb_content := (sb_content (is_db s1))\<lparr>pages := pages (sb_content (is_db s1)) @ rows\<rparr>\<rparr>"
      "is_fresh st' = is_fresh s1" "map exported_page_of rows = map carried_page (xt_crawled_pages t)"
      "\<forall>x \<in> set rows. p_collection_id x = cid \<and> p_crawl_target_id x = ?tid" "sorted (map p_id rows)"
      by auto
    show thesis
      by (rule that [OF st', where r = r and rows = rows])
        (use r rows s1 assms(5) in \<open>simp_all add: target_key_def stamp_def\<close>)
  qed
qed

lemma targets_run:
  fixes st :: "('w, 'f, 'x, 'j) import_state"
  assumes "inj (ie_uuid I)"
    and "distinct (map xt_url_prefix ts)" "distinct (target_page_urls ts)"
    and "\<forall>t \<in> set ts. (cid, xt_url_prefix t) \<notin> target_key ` set (targets (sb_content (is_db st)))"
    and "\<forall>u \<in> set (target_page_urls ts). (cid, u) \<notin> page_key ` set (pages (sb_content (is_db st)))"
    and "\<forall>k \<ge> is_fresh st. ie_uuid I k \<notin> t_id ` set (targets (sb_content (is_db st)))"
    and "\<forall>k \<ge> is_fresh st. ie_uuid I k \<notin> p_crawl_target_id ` set (pages (sb_content (is_db st)))"
    and "\<forall>t \<in> set ts. xt_created_at t \<noteq> []"
  shows "\<exists>st' trows prows. try_fold (import_target I now cid) ts st = Inr st' \<and>
    is_db st' = (is_db st)\<lparr>sb_content := (sb_content (is_db st))\<lparr>targets := targets (sb_content (is_db st)) @ trows,
      pages := pages (sb_content (is_db st)) @ prows\<rparr>\<rparr> \<and>
    target_rows I (is_fresh st) (is_fresh st') cid ts (sb_content (is_db st)) trows prows"
  using assms(2-)
proof (induction ts arbitrary: st)
  case Nil
  show ?case
    by (rule exI [where x = st], rule exI [where x = "[]"], rule exI [where x = "[]"]) (simp add: target_rows_def)
next
  case (Cons t ts)
  let ?d = "sb_content (is_db st)"
  let ?tid = "ie_uuid I (is_fresh st)"
  obtain s1 r rows where s1: "import_target I now cid t st = Inr s1"
    "is_db s1 = (is_db st)\<lparr>sb_content := ?d\<lparr>targets := targets ?d @ [r], pages := pages ?d @ rows\<rparr>\<rparr>"
    "is_fresh s1 = is_fresh st + 1"
    and r: "t_id r = ?tid" "target_key r = (cid, xt_url_prefix t)"
      "\<And>d :: 'j content_db. exported_target_of d r = t\<lparr>xt_crawled_pages := export_crawled_pages (t_id r) d\<rparr>"
    and rows: "map exported_page_of rows = map carried_page (xt_crawled_pages t)"
      "\<forall>x \<in> set rows. p_collection_id x = cid \<and> p_crawl_target_id x = t_id r" "sorted (map p_id rows)"
    by (rule target_run [of I st cid t now]) (use Cons.prems in auto)
  have urls: "map p_url rows = map xp_url (xt_crawled_pages t)"
  proof -
    have "map p_url rows = map xp_url (map exported_page_of rows)" by (simp add: exported_page_of_def)
    also have "\<dots> = map xp_url (xt_crawled_pages t)" by (simp add: rows(1) carried_page_def)
    finally show ?thesis .
  qed
  have other: "ie_uuid I k \<noteq> ?tid" if "k \<ge> is_fresh s1" for k
    using that inj_eq [OF assms(1), of k "is_fresh st"] by (simp add: s1(3))
  have "\<exists>st' trows prows. try_fold (import_target I now cid) ts s1 = Inr st' \<and>
    is_db st' = (is_db s1)\<lparr>sb_content := (sb_content (is_db s1))\<lparr>targets := targets (sb_content (is_db s1)) @ trows,
      pages := pages (sb_content (is_db s1)) @ prows\<rparr>\<rparr> \<and>
    target_rows I (is_fresh s1) (is_fresh st') cid ts (sb_content (is_db s1)) trows prows"
  proof (rule Cons.IH)
    show "\<forall>x \<in> set ts. (cid, xt_url_prefix x) \<notin> target_key ` set (targets (sb_content (is_db s1)))"
    proof
      fix x
      assume x: "x \<in> set ts"
      have "xt_url_prefix x \<noteq> xt_url_prefix t"
        using Cons.prems(1) x by (metis distinct.simps(2) image_eqI list.set_map list.simps(9))
      moreover have "(cid, xt_url_prefix x) \<notin> target_key ` set (targets ?d)" using Cons.prems(3) x by simp
      ultimately show "(cid, xt_url_prefix x) \<notin> target_key ` set (targets (sb_content (is_db s1)))"
        by (simp add: s1(2) r(2))
    qed
    have "set (map p_url rows) \<inter> set (target_page_urls ts) = {}"
      using Cons.prems(2) by (simp add: urls del: set_map)
    moreover have "page_key ` set rows = Pair cid ` set (map p_url rows)" using rows(2) by (force simp: page_key_def)
    ultimately show "\<forall>u \<in> set (target_page_urls ts). (cid, u) \<notin> page_key ` set (pages (sb_content (is_db s1)))"
      using Cons.prems(4) by (auto simp: s1(2) image_Un)
    show "\<forall>k \<ge> is_fresh s1. ie_uuid I k \<notin> t_id ` set (targets (sb_content (is_db s1)))"
      using Cons.prems(5) other by (simp add: s1(2,3) r(1))
    show "\<forall>k \<ge> is_fresh s1. ie_uuid I k \<notin> p_crawl_target_id ` set (pages (sb_content (is_db s1)))"
    proof (intro allI impI)
      fix k
      assume k: "k \<ge> is_fresh s1"
      have "ie_uuid I k \<notin> p_crawl_target_id ` set (pages ?d)" using Cons.prems(6) k by (simp add: s1(3))
      moreover have "ie_uuid I k \<notin> p_crawl_target_id ` set rows" using rows(2) other [OF k] r(1) by auto
      ultimately show "ie_uuid I k \<notin> p_crawl_target_id ` set (pages (sb_content (is_db s1)))"
        by (simp add: s1(2) image_Un)
    qed
  qed (use Cons.prems in auto)
  then obtain st' trows prows where IH: "try_fold (import_target I now cid) ts s1 = Inr st'"
    "is_db st' = (is_db s1)\<lparr>sb_content := (sb_content (is_db s1))\<lparr>targets := targets (sb_content (is_db s1)) @ trows,
      pages := pages (sb_content (is_db s1)) @ prows\<rparr>\<rparr>"
    and tr: "target_rows I (is_fresh s1) (is_fresh st') cid ts (sb_content (is_db s1)) trows prows" by blast
  have bound: "is_fresh s1 \<le> is_fresh st'" "map t_url_prefix trows = map xt_url_prefix ts"
    and tids: "\<forall>x \<in> set trows. t_collection_id x = cid \<and> (\<exists>k. is_fresh s1 \<le> k \<and> k < is_fresh st' \<and> t_id x = ie_uuid I k)"
    and pr: "\<forall>x \<in> set prows. p_collection_id x = cid \<and> p_crawl_target_id x \<in> t_id ` set trows"
    and tail: "\<And>(d' :: 'j content_db) later. pages d' = pages (sb_content (is_db s1)) @ prows @ later \<Longrightarrow>
      \<forall>q \<in> set later. p_crawl_target_id q \<notin> t_id ` set trows \<Longrightarrow> map (exported_target_of d') trows = map carried_target ts"
    using tr unfolding target_rows_def by blast+
  have notin: "t_id r \<notin> t_id ` set trows" using tids other r(1) by fastforce
  have head: "exported_target_of d' r = carried_target t"
    if d': "pages d' = pages ?d @ (rows @ prows) @ later" "\<forall>q \<in> set later. p_crawl_target_id q \<notin> t_id ` set (r # trows)"
    for d' :: "'j content_db" and later
  proof -
    have "export_crawled_pages (t_id r) d' = map exported_page_of rows"
    proof (rule export_crawled_pages_rows [where old = "pages ?d" and later = "prows @ later"])
      show "\<forall>q \<in> set (pages ?d). p_crawl_target_id q \<noteq> t_id r" using Cons.prems(6) r(1) by force
      show "\<forall>q \<in> set (prows @ later). p_crawl_target_id q \<noteq> t_id r" using pr notin d'(2) by (simp add: ball_Un) metis
    qed (use d'(1) rows in simp_all)
    then show ?thesis by (simp add: r(3) carried_target_def rows(1))
  qed
  have "target_rows I (is_fresh st) (is_fresh st') cid (t # ts) ?d (r # trows) (rows @ prows)"
    unfolding target_rows_def
  proof (intro conjI allI impI)
    show "\<forall>x \<in> set (r # trows). t_collection_id x = cid \<and> (\<exists>k. is_fresh st \<le> k \<and> k < is_fresh st' \<and> t_id x = ie_uuid I k)"
    proof
      fix x
      assume "x \<in> set (r # trows)"
      then consider "x = r" | "x \<in> set trows" by auto
      then show "t_collection_id x = cid \<and> (\<exists>k. is_fresh st \<le> k \<and> k < is_fresh st' \<and> t_id x = ie_uuid I k)"
      proof cases
        case 1
        then show ?thesis using r(1,2) bound(1) s1(3)
          by (auto simp: target_key_def intro!: exI [where x = "is_fresh st"])
      next
        case 2
        then obtain k where "t_collection_id x = cid" "is_fresh s1 \<le> k" "k < is_fresh st'" "t_id x = ie_uuid I k"
          using tids by blast
        then show ?thesis using s1(3) by (auto intro!: exI [where x = k])
      qed
    qed
    show "\<forall>x \<in> set (rows @ prows). p_collection_id x = cid \<and> p_crawl_target_id x \<in> t_id ` set (r # trows)"
      using pr rows(2) by auto
    show "map (exported_target_of d') (r # trows) = map carried_target (t # ts)"
      if d': "pages d' = pages ?d @ (rows @ prows) @ later" "\<forall>q \<in> set later. p_crawl_target_id q \<notin> t_id ` set (r # trows)"
      for d' :: "'j content_db" and later
      using head [OF d'] tail [of d' later] d' by (simp add: s1(2))
  qed (use bound s1(3) r(2) in \<open>simp_all add: target_key_def\<close>)
  then show ?case
    using s1 IH
    by - (rule exI [where x = st'], rule exI [where x = "r # trows"], rule exI [where x = "rows @ prows"], simp)
qed

section \<open>The outlink hosts of a collection\<close>

lemma outlinks_run:
  fixes st :: "('w, 'f, 'x, 'j) import_state"
  assumes "inj (ie_uuid I)" and "distinct (map xo_host xs)"
    and "\<forall>x \<in> set xs. (cid, xo_host x) \<notin> outlink_key ` set (outlinks (sb_content (is_db st)))"
    and "\<forall>k \<ge> is_fresh st. ie_uuid I k \<notin> o_id ` set (outlinks (sb_content (is_db st)))"
  shows "\<exists>st' rows. try_fold (import_outlink I cid) xs st = Inr st' \<and>
    is_db st' = (is_db st)\<lparr>sb_content := (sb_content (is_db st))\<lparr>outlinks := outlinks (sb_content (is_db st)) @ rows\<rparr>\<rparr> \<and>
    is_fresh st \<le> is_fresh st' \<and> map exported_outlink_of rows = xs \<and> map o_host rows = map xo_host xs \<and>
    (\<forall>r \<in> set rows. o_collection_id r = cid \<and> (\<exists>k. is_fresh st \<le> k \<and> k < is_fresh st' \<and> o_id r = ie_uuid I k))"
  using assms(2-)
proof (induction xs arbitrary: st)
  case Nil
  show ?case by (rule exI [where x = st], rule exI [where x = "[]"]) simp
next
  case (Cons x xs)
  have keys: "ie_uuid I (is_fresh st) \<notin> o_id ` set (outlinks (sb_content (is_db st)))"
    "(cid, xo_host x) \<notin> outlink_key ` set (outlinks (sb_content (is_db st)))"
    using Cons.prems(2,3) by auto
  have "\<exists>s1. import_outlink I cid x st = Inr s1"
    unfolding import_outlink_def Let_def if_not_P [OF keys(1)] if_not_P [OF keys(2)] by simp
  then obtain s1 where run: "import_outlink I cid x st = Inr s1" ..
  then show ?case
  proof (rule import_outlink_Inr)
    fix r
    assume r: "o_id r = ie_uuid I (is_fresh st)" "o_collection_id r = cid" "o_host r = xo_host x" "exported_outlink_of r = x"
      and s1: "is_db s1 =
        (is_db st)\<lparr>sb_content := (sb_content (is_db st))\<lparr>outlinks := outlinks (sb_content (is_db st)) @ [r]\<rparr>\<rparr>"
        "is_fresh s1 = is_fresh st + 1"
    have other: "ie_uuid I k \<noteq> o_id r" if "k \<ge> is_fresh s1" for k
      using that inj_eq [OF assms(1), of k "is_fresh st"] by (simp add: s1(2) r(1))
    have key: "outlink_key r = (cid, xo_host x)" using r by (simp add: outlink_key_def)
    have "\<exists>st' rows. try_fold (import_outlink I cid) xs s1 = Inr st' \<and>
      is_db st' = (is_db s1)\<lparr>sb_content := (sb_content (is_db s1))\<lparr>outlinks := outlinks (sb_content (is_db s1)) @ rows\<rparr>\<rparr> \<and>
      is_fresh s1 \<le> is_fresh st' \<and> map exported_outlink_of rows = xs \<and> map o_host rows = map xo_host xs \<and>
      (\<forall>r \<in> set rows. o_collection_id r = cid \<and> (\<exists>k. is_fresh s1 \<le> k \<and> k < is_fresh st' \<and> o_id r = ie_uuid I k))"
    proof (rule Cons.IH)
      show "\<forall>y \<in> set xs. (cid, xo_host y) \<notin> outlink_key ` set (outlinks (sb_content (is_db s1)))"
      proof
        fix y
        assume y: "y \<in> set xs"
        have "xo_host y \<noteq> xo_host x"
          using Cons.prems(1) y by (metis distinct.simps(2) image_eqI list.set_map list.simps(9))
        then show "(cid, xo_host y) \<notin> outlink_key ` set (outlinks (sb_content (is_db s1)))"
          using Cons.prems(2) y by (simp add: s1(1) key)
      qed
    qed (use Cons.prems other in \<open>simp_all add: s1\<close>)
    then obtain st' rows where IH: "try_fold (import_outlink I cid) xs s1 = Inr st'"
      "is_db st' = (is_db s1)\<lparr>sb_content := (sb_content (is_db s1))\<lparr>outlinks := outlinks (sb_content (is_db s1)) @ rows\<rparr>\<rparr>"
      "is_fresh s1 \<le> is_fresh st'" "map exported_outlink_of rows = xs" "map o_host rows = map xo_host xs"
      and ids: "\<forall>r \<in> set rows. o_collection_id r = cid \<and> (\<exists>k. is_fresh s1 \<le> k \<and> k < is_fresh st' \<and> o_id r = ie_uuid I k)"
      by blast
    have "\<exists>k. is_fresh st \<le> k \<and> k < is_fresh st' \<and> o_id y = ie_uuid I k" if y: "y \<in> set (r # rows)" for y
    proof (cases "y = r")
      case True
      then show ?thesis using r(1) IH(3) s1(2) by (auto intro: exI [where x = "is_fresh st"])
    next
      case False
      then have "y \<in> set rows" using y by simp
      then obtain k where "is_fresh s1 \<le> k" "k < is_fresh st'" "o_id y = ie_uuid I k" using ids by blast
      then show ?thesis using s1(2) by (auto intro: exI [where x = k])
    qed
    then show ?case
      using run IH s1 r ids by - (rule exI [where x = st'], rule exI [where x = "r # rows"], simp)
  qed
qed

section \<open>One collection\<close>

definition collection_dump_ok :: "('f, 'x, 'j) exported_collection \<Rightarrow> bool" where
  "collection_dump_ok c \<longleftrightarrow>
     sorted (map xt_url_prefix (xc_crawl_targets c)) \<and> distinct (map xt_url_prefix (xc_crawl_targets c)) \<and>
     distinct (target_page_urls (xc_crawl_targets c)) \<and>
     sorted (map xo_host (xc_outlinks c)) \<and> distinct (map xo_host (xc_outlinks c)) \<and>
     xc_created_at c \<noteq> [] \<and> xc_updated_at c \<noteq> [] \<and> (\<forall>t \<in> set (xc_crawl_targets c). xt_created_at t \<noteq> [])"

text \<open>A database that an import can go on with: no id it will hand out is in use, and no ranking row is left over.\<close>

definition importable :: "import_env \<Rightarrow> nat \<Rightarrow> ('w, 'f, 'x, 'j) site_db \<Rightarrow> bool" where
  "importable I n db \<longleftrightarrow>
     unused I n (sb_content db) \<and> rk_collection_id ` set (sb_ranking db) \<subseteq> c_rowid ` set (collections (sb_content db))"

text \<open>What further imports, with ids from the \<open>n\<close>-th on, can do to a database.\<close>

definition later_db :: "import_env \<Rightarrow> nat \<Rightarrow> ('w, 'f, 'x, 'j) site_db \<Rightarrow> ('w, 'f, 'x, 'j) site_db \<Rightarrow> bool" where
  "later_db I n db db' \<longleftrightarrow>
     (\<exists>cs ts ps os rs. collections (sb_content db') = collections (sb_content db) @ cs \<and>
        targets (sb_content db') = targets (sb_content db) @ ts \<and> pages (sb_content db') = pages (sb_content db) @ ps \<and>
        outlinks (sb_content db') = outlinks (sb_content db) @ os \<and> sb_ranking db' = sb_ranking db @ rs \<and>
        t_collection_id ` set ts \<subseteq> ie_uuid I ` {n..} \<and> p_crawl_target_id ` set ps \<subseteq> ie_uuid I ` {n..} \<and>
        o_collection_id ` set os \<subseteq> ie_uuid I ` {n..} \<and>
        rk_collection_id ` set rs \<inter> c_rowid ` set (collections (sb_content db)) = {})"

lemma later_dbE:
  assumes "later_db I n db db'"
  obtains cs ts ps os rs where "collections (sb_content db') = collections (sb_content db) @ cs"
    "targets (sb_content db') = targets (sb_content db) @ ts" "pages (sb_content db') = pages (sb_content db) @ ps"
    "outlinks (sb_content db') = outlinks (sb_content db) @ os" "sb_ranking db' = sb_ranking db @ rs"
    "t_collection_id ` set ts \<subseteq> ie_uuid I ` {n..}" "p_crawl_target_id ` set ps \<subseteq> ie_uuid I ` {n..}"
    "o_collection_id ` set os \<subseteq> ie_uuid I ` {n..}"
    "rk_collection_id ` set rs \<inter> c_rowid ` set (collections (sb_content db)) = {}"
  using assms unfolding later_db_def by (elim exE conjE) (rule that, assumption+)

lemma later_dbI:
  assumes "collections (sb_content db') = collections (sb_content db) @ cs"
    "targets (sb_content db') = targets (sb_content db) @ ts" "pages (sb_content db') = pages (sb_content db) @ ps"
    "outlinks (sb_content db') = outlinks (sb_content db) @ os" "sb_ranking db' = sb_ranking db @ rs"
    "t_collection_id ` set ts \<subseteq> ie_uuid I ` {n..}" "p_crawl_target_id ` set ps \<subseteq> ie_uuid I ` {n..}"
    "o_collection_id ` set os \<subseteq> ie_uuid I ` {n..}"
    "rk_collection_id ` set rs \<inter> c_rowid ` set (collections (sb_content db)) = {}"
  shows "later_db I n db db'"
  unfolding later_db_def
  by (rule exI [where x = cs], rule exI [where x = ts], rule exI [where x = ps], rule exI [where x = os],
      rule exI [where x = rs]) (intro conjI assms)

lemma later_db_trans:
  assumes "later_db I n db db'" and "later_db I n' db' db''" and "n \<le> n'"
  shows "later_db I n db db''"
  using assms(1)
proof (rule later_dbE)
  fix cs ts ps os rs
  assume 1: "collections (sb_content db') = collections (sb_content db) @ cs"
    "targets (sb_content db') = targets (sb_content db) @ ts" "pages (sb_content db') = pages (sb_content db) @ ps"
    "outlinks (sb_content db') = outlinks (sb_content db) @ os" "sb_ranking db' = sb_ranking db @ rs"
    "t_collection_id ` set ts \<subseteq> ie_uuid I ` {n..}" "p_crawl_target_id ` set ps \<subseteq> ie_uuid I ` {n..}"
    "o_collection_id ` set os \<subseteq> ie_uuid I ` {n..}"
    "rk_collection_id ` set rs \<inter> c_rowid ` set (collections (sb_content db)) = {}"
  have sub: "X \<subseteq> ie_uuid I ` {n'..} \<Longrightarrow> X \<subseteq> ie_uuid I ` {n..}" for X
    using assms(3) by (meson atLeast_subset_iff image_mono order.trans)
  show ?thesis
    using assms(2)
  proof (rule later_dbE)
    fix cs' ts' ps' os' rs'
    assume 2: "collections (sb_content db'') = collections (sb_content db') @ cs'"
      "targets (sb_content db'') = targets (sb_content db') @ ts'" "pages (sb_content db'') = pages (sb_content db') @ ps'"
      "outlinks (sb_content db'') = outlinks (sb_content db') @ os'" "sb_ranking db'' = sb_ranking db' @ rs'"
      and 3: "t_collection_id ` set ts' \<subseteq> ie_uuid I ` {n'..}" "p_crawl_target_id ` set ps' \<subseteq> ie_uuid I ` {n'..}"
      "o_collection_id ` set os' \<subseteq> ie_uuid I ` {n'..}"
      and 4: "rk_collection_id ` set rs' \<inter> c_rowid ` set (collections (sb_content db')) = {}"
    have 5: "rk_collection_id ` set rs' \<inter> c_rowid ` set (collections (sb_content db)) = {}" using 4 unfolding 1(1) by auto
    show ?thesis
      by (rule later_dbI [where cs = "cs @ cs'" and ts = "ts @ ts'" and ps = "ps @ ps'" and os = "os @ os'" and
            rs = "rs @ rs'"])
        (simp_all only: 1(1-5) 2 append_assoc set_append image_Un Un_subset_iff 1(6-8) sub [OF 3(1)] sub [OF 3(2)]
          sub [OF 3(3)] Int_Un_distrib2 1(9) 5, simp_all)
  qed
qed

lemma later_db_refl: "later_db I n db db"
  by (auto simp: later_db_def)

lemma export_collection_later:
  assumes "importable I n db" and "later_db I n db db'" and c: "c \<in> set (collections (sb_content db))"
  shows "export_collection docs db' c = export_collection docs db c"
  using assms(2)
proof (rule later_dbE)
  fix cs ts ps os rs
  assume later: "targets (sb_content db') = targets (sb_content db) @ ts"
    "pages (sb_content db') = pages (sb_content db) @ ps" "outlinks (sb_content db') = outlinks (sb_content db) @ os"
    "sb_ranking db' = sb_ranking db @ rs" "t_collection_id ` set ts \<subseteq> ie_uuid I ` {n..}"
    "p_crawl_target_id ` set ps \<subseteq> ie_uuid I ` {n..}" "o_collection_id ` set os \<subseteq> ie_uuid I ` {n..}"
    "rk_collection_id ` set rs \<inter> c_rowid ` set (collections (sb_content db)) = {}"
  have u: "unused I n (sb_content db)" using assms(1) by (simp add: importable_def)
  have cid: "c_id c \<notin> ie_uuid I ` {n..}" using unused_ids(1) [OF u] c by simp
  have "filter (\<lambda>t. t_collection_id t = c_id c) ts = []" "filter (\<lambda>r. o_collection_id r = c_id c) os = []"
    using filter_none [OF later(5) cid] filter_none [OF later(7) cid] by simp_all
  moreover have "exported_target_of (sb_content db') t = exported_target_of (sb_content db) t"
    if "t \<in> set (targets (sb_content db))" for t
  proof -
    have "t_id t \<notin> ie_uuid I ` {n..}" using unused_ids(2) [OF u] that by simp
    then have "filter (\<lambda>p. p_crawl_target_id p = t_id t) ps = []" by (rule filter_none [OF later(6)])
    then show ?thesis by (simp add: exported_target_of_def export_crawled_pages_def later(2))
  qed
  ultimately have "export_crawl_targets (c_id c) (sb_content db') = export_crawl_targets (c_id c) (sb_content db)"
    "export_outlinks (c_id c) (sb_content db') = export_outlinks (c_id c) (sb_content db)"
    unfolding export_crawl_targets_def export_outlinks_def later by simp_all
  moreover have "find_by rk_collection_id (c_rowid c) rs = None"
    unfolding find_by_None_iff using later(8) c by blast
  then have "export_ranking_config (c_rowid c) (sb_ranking db') = export_ranking_config (c_rowid c) (sb_ranking db)"
    by (simp add: export_ranking_config_def later(4) find_by_append split: option.split)
  ultimately show ?thesis by (simp add: export_collection_def)
qed

lemma ranking_run:
  assumes "rowid \<notin> rk_collection_id ` set (sb_ranking (is_db st))"
  obtains st' rks where
    "(case rc of None \<Rightarrow> Inr st | Some x \<Rightarrow> import_ranking I rowid x st) = Inr st'"
    "is_db st' = (is_db st)\<lparr>sb_ranking := sb_ranking (is_db st) @ rks\<rparr>" "is_fresh st' = is_fresh st"
    "rk_collection_id ` set rks \<subseteq> {rowid}" "export_ranking_config rowid (sb_ranking (is_db st) @ rks) = rc"
proof (cases rc)
  case None
  have "find_by rk_collection_id rowid (sb_ranking (is_db st)) = None" using assms by (simp add: find_by_None_iff)
  then show thesis by (intro that [of st "[]"]) (simp_all add: None export_ranking_config_def)
next
  case (Some x)
  have "\<exists>st'. import_ranking I rowid x st = Inr st'"
    unfolding import_ranking_def Let_def if_not_P [OF assms] by simp
  then obtain st' where run: "import_ranking I rowid x st = Inr st'" ..
  then show thesis
  proof (rule import_ranking_Inr)
    fix r
    assume r: "rk_collection_id r = rowid" "rk_half_life r = xr_half_life x"
      "rk_source_weights_json r = xr_source_weights_json x" "rk_domain_boosts_json r = xr_domain_boosts_json x"
      "rk_config_json r = xr_config_json x" "rowid \<notin> rk_collection_id ` set (sb_ranking (is_db st))"
      "is_db st' = (is_db st)\<lparr>sb_ranking := sb_ranking (is_db st) @ [r]\<rparr>" "is_fresh st' = is_fresh st"
    have "find_by rk_collection_id rowid (sb_ranking (is_db st)) = None" using assms by (simp add: find_by_None_iff)
    then show thesis
      using run by (intro that [of st' "[r]"]) (simp_all add: r(1-5,7,8) Some export_ranking_config_def find_by_append)
  qed
qed

lemma filter_all: "(\<And>x. x \<in> set xs \<Longrightarrow> f x = a) \<Longrightarrow> filter (\<lambda>x. f x = a) xs = xs"
  by (induction xs) auto

lemma collection_run:
  fixes st :: "('w, 'f, 'x, 'j) import_state"
  assumes inj: "inj (ie_uuid I)" and names: "names_known st" and imp: "importable I (is_fresh st) (is_db st)"
    and ok: "collection_dump_ok c" and new: "xc_name c \<notin> is_names st"
  obtains st' where "import_collection I c st = Inr st'" "is_fresh st \<le> is_fresh st'"
    "importable I (is_fresh st') (is_db st')" "later_db I (is_fresh st) (is_db st) (is_db st')"
    "\<And>docs. export_collection docs (is_db st') (import_row I c st) =
       (carried_collection c)\<lparr>xc_documents := documents_of (xc_name c) docs\<rparr>"
proof -
  let ?d = "sb_content (is_db st)" and ?n = "is_fresh st" and ?cid = "ie_uuid I (is_fresh st)"
  let ?row = "import_row I c st" and ?ts = "xc_crawl_targets c" and ?xs = "xc_outlinks c"
  have unused: "unused I ?n ?d" and ranks: "rk_collection_id ` set (sb_ranking (is_db st)) \<subseteq> c_rowid ` set (collections ?d)"
    using imp by (simp_all add: importable_def)
  have cid: "?cid \<notin> c_id ` set (collections ?d)" "?cid \<notin> t_collection_id ` set (targets ?d)"
    "?cid \<notin> p_collection_id ` set (pages ?d)" "?cid \<notin> o_collection_id ` set (outlinks ?d)"
    using unused by (simp_all add: unused_def)
  have name: "xc_name c \<notin> c_name ` set (collections ?d)"
    using new names by (simp add: names_known_def existing_collection_names_def)
  have "\<exists>s1. import_collection_row I c st = Inr s1"
    unfolding import_collection_row_def Let_def if_not_P [OF cid(1)] if_not_P [OF name] by simp
  then obtain s1 where s1: "import_collection_row I c st = Inr s1" ..
  note row = import_collection_row_Inr [OF s1]
  have rowid: "c_rowid ?row = next_rowid (map c_rowid (collections ?d))" "c_id ?row = ?cid"
    by (simp_all add: import_row_def)
  have "\<exists>s2 trows prows. try_fold (import_target I (ie_now_text I ?n) ?cid) ?ts s1 = Inr s2 \<and>
    is_db s2 = (is_db s1)\<lparr>sb_content := (sb_content (is_db s1))\<lparr>targets := targets (sb_content (is_db s1)) @ trows,
      pages := pages (sb_content (is_db s1)) @ prows\<rparr>\<rparr> \<and>
    target_rows I (is_fresh s1) (is_fresh s2) ?cid ?ts (sb_content (is_db s1)) trows prows"
  proof (rule targets_run [OF inj])
    show "\<forall>t \<in> set ?ts. (?cid, xt_url_prefix t) \<notin> target_key ` set (targets (sb_content (is_db s1)))"
      using cid(2) by (force simp: row(3) target_key_def)
    show "\<forall>u \<in> set (target_page_urls ?ts). (?cid, u) \<notin> page_key ` set (pages (sb_content (is_db s1)))"
      using cid(3) by (force simp: row(3) page_key_def)
  qed (use ok unused in \<open>simp_all add: collection_dump_ok_def row unused_def\<close>)
  then obtain s2 trows prows where s2: "try_fold (import_target I (ie_now_text I ?n) ?cid) ?ts s1 = Inr s2"
    "is_db s2 = (is_db st)\<lparr>sb_content := ?d\<lparr>collections := collections ?d @ [?row], targets := targets ?d @ trows,
      pages := pages ?d @ prows\<rparr>\<rparr>"
    and tr: "target_rows I (?n + 1) (is_fresh s2) ?cid ?ts (sb_content (is_db s1)) trows prows"
    unfolding row(3,4) by auto
  have n2: "?n + 1 \<le> is_fresh s2" and prefixes: "map t_url_prefix trows = map xt_url_prefix ?ts"
    and trows: "\<forall>x \<in> set trows. t_collection_id x = ?cid \<and> (\<exists>k. ?n + 1 \<le> k \<and> k < is_fresh s2 \<and> t_id x = ie_uuid I k)"
    and prows: "\<forall>x \<in> set prows. p_collection_id x = ?cid \<and> p_crawl_target_id x \<in> t_id ` set trows"
    and exported: "\<And>d' :: 'j content_db. pages d' = pages (sb_content (is_db s1)) @ prows @ [] \<Longrightarrow>
      map (exported_target_of d') trows = map carried_target ?ts"
    using tr unfolding target_rows_def by fastforce+
  have "c_rowid ?row \<notin> rk_collection_id ` set (sb_ranking (is_db s2))"
    using ranks next_rowid_fresh [of "map c_rowid (collections ?d)"] by (auto simp: s2(2) rowid(1))
  then obtain s3 rks where s3: "(case xc_ranking_config c of None \<Rightarrow> Inr s2
        | Some x \<Rightarrow> import_ranking I (c_rowid ?row) x s2) = Inr s3"
    "is_db s3 = (is_db s2)\<lparr>sb_ranking := sb_ranking (is_db s2) @ rks\<rparr>" "is_fresh s3 = is_fresh s2"
    and rks: "rk_collection_id ` set rks \<subseteq> {c_rowid ?row}"
      "export_ranking_config (c_rowid ?row) (sb_ranking (is_db st) @ rks) = xc_ranking_config c"
    by (rule ranking_run [where rc = "xc_ranking_config c" and I = I]) (simp add: s2(2))
  have "\<exists>s4 orows. try_fold (import_outlink I ?cid) ?xs s3 = Inr s4 \<and>
    is_db s4 = (is_db s3)\<lparr>sb_content := (sb_content (is_db s3))\<lparr>outlinks := outlinks (sb_content (is_db s3)) @ orows\<rparr>\<rparr> \<and>
    is_fresh s3 \<le> is_fresh s4 \<and> map exported_outlink_of orows = ?xs \<and> map o_host orows = map xo_host ?xs \<and>
    (\<forall>r \<in> set orows. o_collection_id r = ?cid \<and> (\<exists>k. is_fresh s3 \<le> k \<and> k < is_fresh s4 \<and> o_id r = ie_uuid I k))"
  proof (rule outlinks_run [OF inj])
    show "\<forall>x \<in> set ?xs. (?cid, xo_host x) \<notin> outlink_key ` set (outlinks (sb_content (is_db s3)))"
      using cid(4) by (force simp: s3(2) s2(2) outlink_key_def)
    show "\<forall>k \<ge> is_fresh s3. ie_uuid I k \<notin> o_id ` set (outlinks (sb_content (is_db s3)))"
      using unused n2 by (simp add: s3(2,3) s2(2) unused_def)
  qed (use ok in \<open>simp add: collection_dump_ok_def\<close>)
  then obtain s4 orows where s4: "try_fold (import_outlink I ?cid) ?xs s3 = Inr s4"
    "is_db s4 = (is_db s3)\<lparr>sb_content := (sb_content (is_db s3))\<lparr>outlinks := outlinks (sb_content (is_db s3)) @ orows\<rparr>\<rparr>"
    "is_fresh s2 \<le> is_fresh s4"
    and orows: "map exported_outlink_of orows = ?xs" "map o_host orows = map xo_host ?xs"
      "\<forall>r \<in> set orows. o_collection_id r = ?cid \<and> (\<exists>k. is_fresh s2 \<le> k \<and> k < is_fresh s4 \<and> o_id r = ie_uuid I k)"
    unfolding s3(3) by blast
  let ?st' = "queue_documents I (xc_name c) ?cid (xc_documents c) s4"
  have db': "is_db s4 = (is_db st)\<lparr>sb_content := ?d\<lparr>collections := collections ?d @ [?row],
      targets := targets ?d @ trows, pages := pages ?d @ prows, outlinks := outlinks ?d @ orows\<rparr>,
      sb_ranking := sb_ranking (is_db st) @ rks\<rparr>"
    by (simp add: s4(2) s3(2) s2(2))
  have run: "import_collection I c st = Inr ?st'"
    using new by (simp add: import_collection_def Let_def s1 s2(1) s3(1) s4(1))
  have between: "\<forall>k \<ge> is_fresh s4. ie_uuid I k \<noteq> ie_uuid I j" if "j < is_fresh s4" for j
    using that inj_eq [OF inj] by simp
  have n4: "?n + 1 \<le> is_fresh s4" using n2 s4(3) by simp
  show thesis
  proof (rule that [OF run])
    show "is_fresh st \<le> is_fresh ?st'" using n4 by simp
    show "importable I (is_fresh ?st') (is_db ?st')"
      unfolding importable_def unused_def
    proof (intro conjI allI impI)
      fix k
      assume "k \<ge> is_fresh ?st'"
      then have k: "k \<ge> is_fresh s4" "k \<ge> ?n" using n4 by simp_all
      have old: "ie_uuid I k \<notin> c_id ` set (collections ?d)" "ie_uuid I k \<notin> t_id ` set (targets ?d)"
        "ie_uuid I k \<notin> p_crawl_target_id ` set (pages ?d)" "ie_uuid I k \<notin> o_id ` set (outlinks ?d)"
        "ie_uuid I k \<notin> t_collection_id ` set (targets ?d)" "ie_uuid I k \<notin> p_collection_id ` set (pages ?d)"
        "ie_uuid I k \<notin> o_collection_id ` set (outlinks ?d)"
        using unused k(2) by (simp_all add: unused_def)
      have kc: "ie_uuid I k \<noteq> ?cid" using between [of ?n] k(1) n4 by simp
      have kt: "ie_uuid I k \<notin> t_id ` set trows"
      proof
        assume "ie_uuid I k \<in> t_id ` set trows"
        then obtain x j where "x \<in> set trows" "ie_uuid I k = ie_uuid I j" "j < is_fresh s2" using trows by fastforce
        then show False using between [of j] k(1) s4(3) by simp
      qed
      have ko: "ie_uuid I k \<notin> o_id ` set orows"
      proof
        assume "ie_uuid I k \<in> o_id ` set orows"
        then obtain x j where "x \<in> set orows" "ie_uuid I k = ie_uuid I j" "j < is_fresh s4" using orows(3) by fastforce
        then show False using between [of j] k(1) by simp
      qed
      show "ie_uuid I k \<notin> c_id ` set (collections (sb_content (is_db ?st')))" using old(1) kc by (simp add: db' rowid(2))
      show "ie_uuid I k \<notin> t_id ` set (targets (sb_content (is_db ?st')))" using old(2) kt by (simp add: db' image_Un)
      show "ie_uuid I k \<notin> p_crawl_target_id ` set (pages (sb_content (is_db ?st')))"
        using old(3) kt prows by (simp add: db' image_Un) (metis (no_types, lifting) imageE)
      show "ie_uuid I k \<notin> o_id ` set (outlinks (sb_content (is_db ?st')))" using old(4) ko by (simp add: db' image_Un)
      show "ie_uuid I k \<notin> t_collection_id ` set (targets (sb_content (is_db ?st')))"
        using old(5) kc trows by (simp add: db' image_Un) (metis (no_types, lifting) imageE)
      show "ie_uuid I k \<notin> p_collection_id ` set (pages (sb_content (is_db ?st')))"
        using old(6) kc prows by (simp add: db' image_Un) (metis (no_types, lifting) imageE)
      show "ie_uuid I k \<notin> o_collection_id ` set (outlinks (sb_content (is_db ?st')))"
        using old(7) kc orows(3) by (simp add: db' image_Un) (metis (no_types, lifting) imageE)
    next
      show "rk_collection_id ` set (sb_ranking (is_db ?st')) \<subseteq> c_rowid ` set (collections (sb_content (is_db ?st')))"
        using ranks rks(1) by (auto simp: db')
    qed
    show "later_db I ?n (is_db st) (is_db ?st')"
    proof (rule later_dbI [where cs = "[?row]" and ts = trows and ps = prows and os = orows and rs = rks])
      show "p_crawl_target_id ` set prows \<subseteq> ie_uuid I ` {?n..}"
      proof
        fix y
        assume "y \<in> p_crawl_target_id ` set prows"
        then obtain x where "x \<in> set trows" "y = t_id x" using prows by fastforce
        then obtain k where "?n + 1 \<le> k" "y = ie_uuid I k" using trows by blast
        then show "y \<in> ie_uuid I ` {?n..}" by simp
      qed
      show "rk_collection_id ` set rks \<inter> c_rowid ` set (collections ?d) = {}"
        using rks(1) next_rowid_fresh [of "map c_rowid (collections ?d)"] by (auto simp: rowid(1))
    qed (use trows orows(3) in \<open>auto simp: db'\<close>)
    show "export_collection docs (is_db ?st') ?row = (carried_collection c)\<lparr>xc_documents := documents_of (xc_name c) docs\<rparr>"
      for docs
    proof -
      have "filter (\<lambda>t. t_collection_id t = ?cid) (targets ?d @ trows) = trows"
        using filter_none [OF order_refl cid(2)] filter_all [of trows t_collection_id ?cid] trows by simp
      moreover have "sorted (map t_url_prefix trows)" using ok prefixes by (simp add: collection_dump_ok_def)
      moreover have "map (exported_target_of (sb_content (is_db ?st'))) trows = map carried_target ?ts"
        by (rule exported) (simp add: db' row(3))
      ultimately have targets: "export_crawl_targets ?cid (sb_content (is_db s4)) = map carried_target ?ts"
        by (simp add: export_crawl_targets_def db' sort_key_id_if_sorted)
      have "filter (\<lambda>r. o_collection_id r = ?cid) (outlinks ?d @ orows) = orows"
        using filter_none [OF order_refl cid(4)] filter_all [of orows o_collection_id ?cid] orows(3) by simp
      moreover have "sorted (map o_host orows)" using ok orows(2) by (simp add: collection_dump_ok_def)
      ultimately have outlinks: "export_outlinks ?cid (sb_content (is_db s4)) = ?xs"
        by (simp add: export_outlinks_def db' sort_key_id_if_sorted orows(1))
      have ranks: "export_ranking_config (c_rowid ?row) (sb_ranking (is_db s4)) = xc_ranking_config c"
        using rks(2) by (simp add: db')
      have times: "c_created_at ?row = xc_created_at c" "c_updated_at ?row = xc_updated_at c" "c_name ?row = xc_name c"
        "c_description ?row = xc_description c"
        using ok by (simp_all add: import_row_def stamp_def collection_dump_ok_def)
      show ?thesis
        by (rule exported_collection.equality)
          (simp_all add: export_collection_def rowid(2) targets outlinks times ranks carried_collection_def)
    qed
  qed
qed

section \<open>All collections\<close>

lemma documents_of_append: "documents_of nm (xs @ ys) = documents_of nm xs @ documents_of nm ys"
  by (simp add: documents_of_def)

lemma documents_of_jobs:
  "documents_of nm (map doc_of_job (map (document_job I name cid) docs)) = (if name = nm then docs else [])"
  by (cases "name = nm") (auto simp: documents_of_def doc_of_job_def document_job_def filter_map comp_def intro!: map_idI)

lemma collections_run:
  fixes st :: "('w, 'f, 'x, 'j) import_state"
  assumes inj: "inj (ie_uuid I)"
    and "names_known st" and "importable I (is_fresh st) (is_db st)" and "\<forall>c \<in> set cs. collection_dump_ok c"
    and "distinct (map xc_name cs)" and "xc_name ` set cs \<inter> is_names st = {}"
  shows "\<exists>st' rows. try_fold (import_collection I) cs st = Inr st' \<and> names_known st' \<and>
    is_names st' = is_names st \<union> xc_name ` set cs \<and> later_db I (is_fresh st) (is_db st) (is_db st') \<and>
    collections (sb_content (is_db st')) = collections (sb_content (is_db st)) @ rows \<and>
    map c_name rows = map xc_name cs \<and> sb_fed (is_db st') = sb_fed (is_db st) \<and>
    (\<forall>docs. map (export_collection docs (is_db st')) rows =
       map (\<lambda>c. (carried_collection c)\<lparr>xc_documents := documents_of (xc_name c) docs\<rparr>) cs) \<and>
    (\<forall>nm. documents_of nm (map doc_of_job (is_jobs st')) =
       documents_of nm (map doc_of_job (is_jobs st)) @ concat (map xc_documents (filter (\<lambda>c. xc_name c = nm) cs)))"
  using assms(2-)
proof (induction cs arbitrary: st)
  case Nil
  show ?case by (rule exI [where x = st], rule exI [where x = "[]"]) (use Nil in \<open>simp add: later_db_refl\<close>)
next
  case (Cons c cs)
  have new: "xc_name c \<notin> is_names st" and ok: "collection_dump_ok c" using Cons.prems by auto
  obtain s1 where s1: "import_collection I c st = Inr s1" "is_fresh st \<le> is_fresh s1"
    "importable I (is_fresh s1) (is_db s1)" "later_db I (is_fresh st) (is_db st) (is_db s1)"
    and exp: "\<And>docs. export_collection docs (is_db s1) (import_row I c st) =
       (carried_collection c)\<lparr>xc_documents := documents_of (xc_name c) docs\<rparr>"
    by (rule collection_run [OF inj Cons.prems(1,2) ok new]) (rule that)
  note changes = import_collection_new [OF s1(1) new]
  have "\<exists>st' rows. try_fold (import_collection I) cs s1 = Inr st' \<and> names_known st' \<and>
    is_names st' = is_names s1 \<union> xc_name ` set cs \<and> later_db I (is_fresh s1) (is_db s1) (is_db st') \<and>
    collections (sb_content (is_db st')) = collections (sb_content (is_db s1)) @ rows \<and>
    map c_name rows = map xc_name cs \<and> sb_fed (is_db st') = sb_fed (is_db s1) \<and>
    (\<forall>docs. map (export_collection docs (is_db st')) rows =
       map (\<lambda>c. (carried_collection c)\<lparr>xc_documents := documents_of (xc_name c) docs\<rparr>) cs) \<and>
    (\<forall>nm. documents_of nm (map doc_of_job (is_jobs st')) =
       documents_of nm (map doc_of_job (is_jobs s1)) @ concat (map xc_documents (filter (\<lambda>c. xc_name c = nm) cs)))"
    by (rule Cons.IH)
      (use Cons.prems names_step [OF Cons.prems(1) s1(1)] s1(3) in \<open>auto simp: changes(1)\<close>)
  then obtain st' rows where IH: "try_fold (import_collection I) cs s1 = Inr st'" "names_known st'"
    "is_names st' = is_names s1 \<union> xc_name ` set cs" "later_db I (is_fresh s1) (is_db s1) (is_db st')"
    "collections (sb_content (is_db st')) = collections (sb_content (is_db s1)) @ rows"
    "map c_name rows = map xc_name cs" "sb_fed (is_db st') = sb_fed (is_db s1)"
    and exps: "\<And>docs. map (export_collection docs (is_db st')) rows =
       map (\<lambda>c. (carried_collection c)\<lparr>xc_documents := documents_of (xc_name c) docs\<rparr>) cs"
    and docs: "\<And>nm. documents_of nm (map doc_of_job (is_jobs st')) =
       documents_of nm (map doc_of_job (is_jobs s1)) @ concat (map xc_documents (filter (\<lambda>c. xc_name c = nm) cs))"
    by blast
  have row: "export_collection docs (is_db st') (import_row I c st) = export_collection docs (is_db s1) (import_row I c st)"
    for docs by (rule export_collection_later [OF s1(3) IH(4)]) (simp add: changes(4))
  have "documents_of nm (map doc_of_job (is_jobs st')) = documents_of nm (map doc_of_job (is_jobs st)) @
      concat (map xc_documents (filter (\<lambda>c. xc_name c = nm) (c # cs)))" for nm
    unfolding docs changes(5) map_append documents_of_append documents_of_jobs by simp
  then show ?case
    using s1(1) IH later_db_trans [OF s1(4) IH(4) s1(2)]
    by - (rule exI [where x = st'], rule exI [where x = "import_row I c st # rows"],
        simp add: changes row exp exps, auto simp: import_row_def)
qed

section \<open>Peers and links\<close>

lemma node_peers_run:
  assumes "distinct (map xn_url ps)" and "xn_url ` set ps \<inter> is_urls st = {}" and "urls_known st"
    and "distinct (map np_id (node_peers (sb_fed (is_db st))))"
  shows "\<exists>st' rows. try_fold (import_node_peer I) ps st = Inr st' \<and>
    is_db st' = (is_db st)\<lparr>sb_fed := (sb_fed (is_db st))\<lparr>node_peers := node_peers (sb_fed (is_db st)) @ rows\<rparr>\<rparr> \<and>
    is_jobs st' = is_jobs st \<and> is_names st' = is_names st \<and> is_urls st' = is_urls st \<union> xn_url ` set ps \<and>
    distinct (map np_id (node_peers (sb_fed (is_db st)) @ rows)) \<and> map np_url rows = map xn_url ps \<and>
    map (\<lambda>p. \<lparr>xn_url = np_url p, xn_name = np_name p, xn_enabled = np_enabled p\<rparr>) rows = ps"
  using assms
proof (induction ps arbitrary: st)
  case Nil
  show ?case by (rule exI [where x = st], rule exI [where x = "[]"]) (use Nil in simp)
next
  case (Cons p ps)
  let ?fed = "sb_fed (is_db st)"
  let ?r = "\<lparr>np_id = next_rowid (map np_id (node_peers ?fed)), np_url = xn_url p, np_name = xn_name p,
            np_enabled = xn_enabled p, np_consecutive_failures = 0, np_last_response_ms = None,
            np_last_checked_at = None, np_disabled_at = None,
            np_created_at = ie_now_unix I (length (node_peers ?fed))\<rparr>"
  obtain r where r: "r = ?r" by blast
  have new: "xn_url p \<notin> is_urls st" "xn_url p \<notin> np_url ` set (node_peers ?fed)"
    using Cons.prems(2,3) by (auto simp: urls_known_def existing_node_peer_urls_def)
  have "\<exists>s1. import_node_peer I p st = Inr s1 \<and>
    is_db s1 = (is_db st)\<lparr>sb_fed := ?fed\<lparr>node_peers := node_peers ?fed @ [r]\<rparr>\<rparr> \<and> is_jobs s1 = is_jobs st"
    unfolding import_node_peer_def Let_def if_not_P [OF new(1)] if_not_P [OF new(2)] r by simp
  then obtain s1 where s1: "import_node_peer I p st = Inr s1"
    "is_db s1 = (is_db st)\<lparr>sb_fed := ?fed\<lparr>node_peers := node_peers ?fed @ [r]\<rparr>\<rparr>" "is_jobs s1 = is_jobs st" by blast
  note step = urls_step [OF Cons.prems(3) s1(1)]
  have rid: "np_id r \<notin> np_id ` set (node_peers ?fed)" by (simp add: r)
  from Cons.IH [of s1] Cons.prems step rid obtain st' rows where IH: "try_fold (import_node_peer I) ps s1 = Inr st'"
    "is_db st' = (is_db s1)\<lparr>sb_fed := (sb_fed (is_db s1))\<lparr>node_peers := node_peers (sb_fed (is_db s1)) @ rows\<rparr>\<rparr>"
    "is_jobs st' = is_jobs s1" "is_names st' = is_names s1" "is_urls st' = is_urls s1 \<union> xn_url ` set ps"
    "distinct (map np_id (node_peers (sb_fed (is_db s1)) @ rows))" "map np_url rows = map xn_url ps"
    "map (\<lambda>p. \<lparr>xn_url = np_url p, xn_name = np_name p, xn_enabled = np_enabled p\<rparr>) rows = ps"
    by (auto simp: s1(2))
  then show ?case
    using s1 step
    by - (rule exI [where x = st'], rule exI [where x = "r # rows"], simp add: r)
qed

definition exported_link :: "node_peer list \<Rightarrow> 'w collection_peer \<Rightarrow> 'w exported_collection_peer" where
  "exported_link nps cp =
     \<lparr>xq_local_collection = cp_local_collection cp, xq_node_peer_url = np_url (the (find_by np_id (cp_node_peer_id cp) nps)),
      xq_remote_collection = cp_remote_collection cp, xq_source_weight = cp_source_weight cp, xq_enabled = cp_enabled cp\<rparr>"

definition link_key :: "'w exported_collection_peer \<Rightarrow> string \<times> string \<times> string" where
  "link_key q = (xq_local_collection q, xq_node_peer_url q, xq_remote_collection q)"

lemma links_run:
  fixes st :: "('w, 'f, 'x, 'j) import_state"
  assumes "distinct (map np_id nps)" and "distinct (map np_url nps)"
    and "distinct (map link_key qs)" and "node_peers (sb_fed (is_db st)) = nps" and "is_urls st = np_url ` set nps"
    and "xq_node_peer_url ` set qs \<subseteq> np_url ` set nps"
    and "\<forall>q \<in> set qs. \<forall>np \<in> set nps. np_url np = xq_node_peer_url q \<longrightarrow>
       (xq_local_collection q, np_id np, xq_remote_collection q) \<notin> cp_key ` set (collection_peers (sb_fed (is_db st)))"
  shows "\<exists>st' rows. try_fold (import_collection_peer I) qs st = Inr st' \<and>
    is_db st' = (is_db st)\<lparr>sb_fed := (sb_fed (is_db st))\<lparr>collection_peers := collection_peers (sb_fed (is_db st)) @ rows\<rparr>\<rparr> \<and>
    is_jobs st' = is_jobs st \<and> cp_node_peer_id ` set rows \<subseteq> np_id ` set nps \<and>
    map (exported_link nps) rows = filter (\<lambda>q. xq_local_collection q \<in> is_names st) qs"
  using assms(3-)
proof (induction qs arbitrary: st)
  case Nil
  show ?case by (rule exI [where x = st], rule exI [where x = "[]"]) simp
next
  case (Cons q qs)
  let ?fed = "sb_fed (is_db st)"
  obtain np where np: "np \<in> set nps" "np_url np = xq_node_peer_url q" using Cons.prems(4) by auto
  then have find: "find_by np_url (xq_node_peer_url q) (node_peers ?fed) = Some np"
    unfolding Cons.prems(2) find_by_Some_iff [OF assms(2)] by simp
  have key: "(xq_local_collection q, np_id np, xq_remote_collection q) \<notin> cp_key ` set (collection_peers ?fed)"
    using Cons.prems(5) np by simp
  show ?case
  proof (cases "xq_local_collection q \<in> is_names st")
    case False
    then have "\<exists>s1. import_collection_peer I q st = Inr s1 \<and> is_db s1 = is_db st \<and> is_jobs s1 = is_jobs st \<and>
      is_names s1 = is_names st \<and> is_urls s1 = is_urls st"
      by (simp add: import_collection_peer_def Let_def)
    then obtain s1 where s1: "import_collection_peer I q st = Inr s1" "is_db s1 = is_db st" "is_jobs s1 = is_jobs st"
      "is_names s1 = is_names st" "is_urls s1 = is_urls st" by blast
    then show ?thesis using Cons.IH [of s1] Cons.prems False by simp
  next
    case True
    have urls: "xq_node_peer_url q \<in> is_urls st" using Cons.prems(3,4) by simp
    let ?r = "\<lparr>cp_id = next_rowid (map cp_id (collection_peers ?fed)), cp_local_collection = xq_local_collection q,
                   cp_node_peer_id = np_id np, cp_remote_collection = xq_remote_collection q,
                   cp_source_weight = xq_source_weight q, cp_enabled = xq_enabled q,
                   cp_created_at = ie_now_unix I (length (collection_peers ?fed))\<rparr>"
    obtain r where r: "r = ?r" by blast
    have "\<exists>s1. import_collection_peer I q st = Inr s1 \<and>
      is_db s1 = (is_db st)\<lparr>sb_fed := ?fed\<lparr>collection_peers := collection_peers ?fed @ [r]\<rparr>\<rparr> \<and>
      is_jobs s1 = is_jobs st \<and> is_names s1 = is_names st \<and> is_urls s1 = is_urls st"
      using True urls key by (simp add: import_collection_peer_def Let_def find r)
    then obtain s1 where s1: "import_collection_peer I q st = Inr s1"
      "is_db s1 = (is_db st)\<lparr>sb_fed := ?fed\<lparr>collection_peers := collection_peers ?fed @ [r]\<rparr>\<rparr>"
      "is_jobs s1 = is_jobs st" "is_names s1 = is_names st" "is_urls s1 = is_urls st" by blast
    have rkey: "cp_key r = (xq_local_collection q, np_id np, xq_remote_collection q)" by (simp add: r cp_key_def)
    have exp: "exported_link nps r = q"
      using find_by_Some_iff [OF assms(1), of "np_id np" np] np by (simp add: exported_link_def r)
    have "\<forall>x \<in> set qs. \<forall>y \<in> set nps. np_url y = xq_node_peer_url x \<longrightarrow>
       (xq_local_collection x, np_id y, xq_remote_collection x) \<notin> cp_key ` set (collection_peers (sb_fed (is_db s1)))"
    proof (intro ballI impI)
      fix x y
      assume x: "x \<in> set qs" and y: "y \<in> set nps" "np_url y = xq_node_peer_url x"
      have "(xq_local_collection x, np_id y, xq_remote_collection x) \<noteq> cp_key r"
      proof
        assume eq: "(xq_local_collection x, np_id y, xq_remote_collection x) = cp_key r"
        then have "y = np" using assms(1) y(1) np(1) by (simp add: rkey distinct_map inj_on_def)
        then have "link_key x = link_key q" using eq y(2) np(2) by (simp add: rkey link_key_def)
        then show False using Cons.prems(1) x by (metis distinct.simps(2) image_eqI list.set_map list.simps(9))
      qed
      then show "(xq_local_collection x, np_id y, xq_remote_collection x) \<notin>
          cp_key ` set (collection_peers (sb_fed (is_db s1)))"
        using Cons.prems(5) x y by (simp add: s1(2))
    qed
    with Cons.IH [of s1] Cons.prems obtain st' rows where IH: "try_fold (import_collection_peer I) qs s1 = Inr st'"
      "is_db st' = (is_db s1)\<lparr>sb_fed := (sb_fed (is_db s1))\<lparr>collection_peers := collection_peers (sb_fed (is_db s1)) @ rows\<rparr>\<rparr>"
      "is_jobs st' = is_jobs s1" "cp_node_peer_id ` set rows \<subseteq> np_id ` set nps"
      "map (exported_link nps) rows = filter (\<lambda>q. xq_local_collection q \<in> is_names s1) qs"
      by (auto simp: s1)
    have "cp_node_peer_id r \<in> np_id ` set nps" using np by (simp add: r)
    then show ?thesis
      using s1 IH True exp by - (rule exI [where x = st'], rule exI [where x = "r # rows"], simp)
  qed
qed

text \<open>The join of the export, as a map over the links.\<close>

lemma join_links:
  fixes nps :: "node_peer list" and cps :: "'w collection_peer list"
  assumes "distinct (map np_id nps)" and "cp_node_peer_id ` set cps \<subseteq> np_id ` set nps"
  shows "[(cp, np). cp \<leftarrow> cps, np \<leftarrow> nps, np_id np = cp_node_peer_id cp] =
    map (\<lambda>cp. (cp, the (find_by np_id (cp_node_peer_id cp) nps))) cps"
proof -
  have one: "concat (map (\<lambda>np. if np_id np = k then [f np] else []) nps) = [f (the (find_by np_id k nps))]"
    if "k \<in> np_id ` set nps" for k :: int and f :: "node_peer \<Rightarrow> 'w collection_peer \<times> node_peer"
    using that assms(1)
  proof (induction nps)
    case (Cons p nps)
    have "concat (map (\<lambda>np. if np_id np = np_id p then [f np] else []) nps) = []"
      using Cons.prems(2) by (auto simp: image_iff)
    then show ?case using Cons by auto
  qed simp
  show ?thesis using assms(2) by (induction cps) (simp_all add: one)
qed

definition link_order :: "'w exported_collection_peer \<Rightarrow> string \<times> string" where
  "link_order q = (xq_local_collection q, xq_node_peer_url q)"

lemma export_links:
  assumes "distinct (map np_id (node_peers fed))"
    and "cp_node_peer_id ` set (collection_peers fed) \<subseteq> np_id ` set (node_peers fed)"
  shows "export_collection_peers fed = sort_key link_order (map (exported_link (node_peers fed)) (collection_peers fed))"
proof -
  let ?g = "\<lambda>cp. (cp, the (find_by np_id (cp_node_peer_id cp) (node_peers fed)))"
  let ?f = "\<lambda>(cp, np). \<lparr>xq_local_collection = cp_local_collection cp, xq_node_peer_url = np_url np,
         xq_remote_collection = cp_remote_collection cp, xq_source_weight = cp_source_weight cp,
         xq_enabled = cp_enabled cp\<rparr>"
  have sort_map: "map h (sort_key (\<lambda>x. k (h x)) xs) = sort_key k (map h xs)"
    for h :: "'b \<Rightarrow> 'c" and k :: "'c \<Rightarrow> 'd :: linorder" and xs
  proof (induction xs)
    case (Cons x xs)
    have "map h (insort_key (\<lambda>x. k (h x)) x ys) = insort_key k (h x) (map h ys)" for ys by (induction ys) simp_all
    then show ?case using Cons by simp
  qed simp
  have "export_collection_peers fed = map ?f (sort_key (\<lambda>p. link_order (?f p)) (map ?g (collection_peers fed)))"
    unfolding export_collection_peers_def join_links [OF assms] by (simp add: link_order_def case_prod_unfold)
  also have "\<dots> = sort_key link_order (map ?f (map ?g (collection_peers fed)))" by (rule sort_map)
  also have "map ?f (map ?g (collection_peers fed)) = map (exported_link (node_peers fed)) (collection_peers fed)"
    by (simp add: exported_link_def)
  finally show ?thesis .
qed

lemma distinct_map_sort_key: "distinct (map f (sort_key k xs)) \<longleftrightarrow> distinct (map f xs)"
  by (metis mset_eq_imp_distinct_iff mset_map mset_sort)

lemma export_links_distinct:
  assumes "fed_wf fed"
  shows "distinct (map link_key (export_collection_peers fed))"
    "xq_node_peer_url ` set (export_collection_peers fed) \<subseteq> np_url ` set (node_peers fed)"
proof -
  have wf: "distinct (map np_id (node_peers fed))" "distinct (map np_url (node_peers fed))"
    "distinct (map cp_key (collection_peers fed))"
    "cp_node_peer_id ` set (collection_peers fed) \<subseteq> np_id ` set (node_peers fed)"
    using assms by (simp_all add: fed_wf_def)
  have np: "\<exists>np \<in> set (node_peers fed). np_id np = cp_node_peer_id x \<and>
      the (find_by np_id (cp_node_peer_id x) (node_peers fed)) = np" if "x \<in> set (collection_peers fed)" for x
  proof -
    have "cp_node_peer_id x \<in> np_id ` set (node_peers fed)" using wf(4) that by blast
    then obtain np where "np \<in> set (node_peers fed)" "np_id np = cp_node_peer_id x" by auto
    then show ?thesis using find_by_Some_iff [OF wf(1), of "cp_node_peer_id x" np] by auto
  qed
  have "inj_on (\<lambda>x. link_key (exported_link (node_peers fed) x)) (set (collection_peers fed))"
  proof (rule inj_onI)
    fix x y
    assume x: "x \<in> set (collection_peers fed)" and y: "y \<in> set (collection_peers fed)"
      and eq: "link_key (exported_link (node_peers fed) x) = link_key (exported_link (node_peers fed) y)"
    obtain p where p: "p \<in> set (node_peers fed)" "np_id p = cp_node_peer_id x"
      "the (find_by np_id (cp_node_peer_id x) (node_peers fed)) = p" using np [OF x] by blast
    obtain q where q: "q \<in> set (node_peers fed)" "np_id q = cp_node_peer_id y"
      "the (find_by np_id (cp_node_peer_id y) (node_peers fed)) = q" using np [OF y] by blast
    have "np_url p = np_url q" using eq by (simp add: link_key_def exported_link_def p(3) q(3))
    then have "p = q" using wf(2) p(1) q(1) by (simp add: distinct_map inj_on_def)
    then have "cp_key x = cp_key y" using eq p(2) q(2) by (simp add: link_key_def exported_link_def cp_key_def)
    then show "x = y" using wf(3) x y by (simp add: distinct_map inj_on_def)
  qed
  then show "distinct (map link_key (export_collection_peers fed))"
    using wf(3) unfolding export_links [OF wf(1,4)] distinct_map_sort_key map_map
    by (simp add: distinct_map comp_def)
  show "xq_node_peer_url ` set (export_collection_peers fed) \<subseteq> np_url ` set (node_peers fed)"
    unfolding export_links [OF wf(1,4)] using np by (fastforce simp: exported_link_def)
qed

section \<open>What an export looks like\<close>

text \<open>The data a running instance keeps: the constraints, targets and pages that agree on their collection, time stamps.\<close>

definition exportable :: "('w, 'f, 'x, 'j) site_db \<Rightarrow> bool" where
  "exportable db \<longleftrightarrow>
     site_wf db \<and>
     (\<forall>t \<in> set (targets (sb_content db)). \<forall>p \<in> set (pages (sb_content db)).
        p_crawl_target_id p = t_id t \<longrightarrow> p_collection_id p = t_collection_id t) \<and>
     (\<forall>c \<in> set (collections (sb_content db)). c_created_at c \<noteq> [] \<and> c_updated_at c \<noteq> []) \<and>
     (\<forall>t \<in> set (targets (sb_content db)). t_created_at t \<noteq> [])"

lemma distinct_map_filter_key:
  assumes "distinct (map (\<lambda>x. (f x, g x)) xs)"
  shows "distinct (map g (filter (\<lambda>x. f x = a) xs))"
  using assms by (auto simp: distinct_map inj_on_def)

lemma distinct_pages_of_targets:
  assumes "distinct ps" and "distinct (map t_id ts)"
  shows "distinct (concat (map (\<lambda>t. sort_key p_id (filter (\<lambda>p. p_crawl_target_id p = t_id t) ps)) ts))"
  using assms(2)
proof (induction ts)
  case (Cons t ts)
  then show ?case using assms(1) by (auto simp: distinct_filter) (metis imageI)
qed simp

lemma export_dump_ok:
  assumes "exportable db" and c: "c \<in> set (collections (sb_content db))"
  shows "collection_dump_ok (export_collection docs db c)"
proof -
  let ?d = "sb_content db"
  let ?ts = "sort_key t_url_prefix (filter (\<lambda>t. t_collection_id t = c_id c) (targets ?d))"
  let ?ps = "concat (map (\<lambda>t. sort_key p_id (filter (\<lambda>p. p_crawl_target_id p = t_id t) (pages ?d))) ?ts)"
  have wf: "distinct (map t_id (targets ?d))" "distinct (map (\<lambda>t. (t_collection_id t, t_url_prefix t)) (targets ?d))"
    "distinct (map page_key (pages ?d))" "distinct (map (\<lambda>r. (o_collection_id r, o_host r)) (outlinks ?d))"
    using assms(1) by (simp_all add: exportable_def site_wf_def content_wf_def target_key_def [abs_def]
        outlink_key_def [abs_def])
  have targets: "xc_crawl_targets (export_collection docs db c) = map (exported_target_of ?d) ?ts"
    by (simp add: export_collection_def export_crawl_targets_def)
  have prefixes: "map xt_url_prefix (map (exported_target_of ?d) xs) = map t_url_prefix xs" for xs
    by (simp add: exported_target_of_def)
  have urls: "target_page_urls (map (exported_target_of ?d) xs) =
      map p_url (concat (map (\<lambda>t. sort_key p_id (filter (\<lambda>p. p_crawl_target_id p = t_id t) (pages ?d))) xs))" for xs
    by (induction xs) (simp_all add: target_page_urls_def exported_target_of_def export_crawled_pages_def
        exported_page_of_def)
  have "distinct (map t_id ?ts)" unfolding distinct_map_sort_key by (rule distinct_map_filter [OF wf(1)])
  then have "distinct ?ps" by (rule distinct_pages_of_targets [rotated]) (use wf(3) in \<open>simp add: distinct_map\<close>)
  moreover have "inj_on p_url (set ?ps)"
  proof (rule inj_onI)
    fix p q
    assume p: "p \<in> set ?ps" and q: "q \<in> set ?ps" and eq: "p_url p = p_url q"
    have "p_collection_id p = c_id c" "p_collection_id q = c_id c"
      using assms(1) p q by (auto simp: exportable_def)
    then have "page_key p = page_key q" using eq by (simp add: page_key_def)
    then show "p = q" using wf(3) p q by (auto simp: distinct_map inj_on_def)
  qed
  ultimately have pages: "distinct (map p_url ?ps)" by (simp add: distinct_map)
  have outlinks: "map xo_host (xc_outlinks (export_collection docs db c)) =
      map o_host (sort_key o_host (filter (\<lambda>r. o_collection_id r = c_id c) (outlinks ?d)))"
    by (simp add: export_collection_def export_outlinks_def exported_outlink_of_def)
  show ?thesis
    unfolding collection_dump_ok_def targets prefixes urls outlinks distinct_map_sort_key
  proof (intro conjI)
    show "distinct (map t_url_prefix (filter (\<lambda>t. t_collection_id t = c_id c) (targets ?d)))"
      by (rule distinct_map_filter_key [OF wf(2)])
    show "distinct (map o_host (filter (\<lambda>r. o_collection_id r = c_id c) (outlinks ?d)))"
      by (rule distinct_map_filter_key [OF wf(4)])
    show "distinct (map p_url ?ps)" by (rule pages)
  qed (use assms in \<open>simp_all add: exportable_def export_collection_def exported_target_of_def\<close>)
qed

section \<open>The round trip\<close>

lemma documents_of_idem: "xc_documents (export_collection docs db c) = documents_of (c_name c) docs"
  by (simp add: export_collection_def)

lemma roundtrip:
  fixes db :: "('w, 'f, 'x, 'j) site_db"
  assumes ok: "exportable db" and env: "build_envelope now u T db = Inr env" and inj: "inj (ie_uuid I)"
  shows "\<exists>db' rep jobs. apply_envelope I env empty_site = (db', Inr (rep, jobs)) \<and>
    (\<forall>T' :: ('q, 'd) tantivy. export_all_docs T' = Inr (map doc_of_job jobs) \<longrightarrow>
       build_envelope now u T' db' = Inr (carried env))"
proof -
  let ?cols = "sort_key c_name (collections (sb_content db))"
  obtain docs where env_def: "env = \<lparr>ev_format_version = FORMAT_VERSION, ev_exported_at = now, ev_self_url = u,
      ev_collections = map (export_collection docs db) ?cols, ev_node_peers = export_node_peers (sb_fed db),
      ev_collection_peers = export_collection_peers (sb_fed db)\<rparr>"
    using env by (auto simp: build_envelope_def split: sum.splits)
  have wf: "content_wf (sb_content db)" "fed_wf (sb_fed db)" using ok by (simp_all add: exportable_def site_wf_def)
  have xnames: "map xc_name (ev_collections env) = map c_name ?cols" by (simp add: env_def export_collection_def)
  let ?s0 = "begin_import (empty_site :: ('w, 'f, 'x, 'j) site_db)"
  have "\<exists>s1 rows. try_fold (import_collection I) (ev_collections env) ?s0 = Inr s1 \<and> names_known s1 \<and>
    is_names s1 = is_names ?s0 \<union> xc_name ` set (ev_collections env) \<and> later_db I (is_fresh ?s0) (is_db ?s0) (is_db s1) \<and>
    collections (sb_content (is_db s1)) = collections (sb_content (is_db ?s0)) @ rows \<and>
    map c_name rows = map xc_name (ev_collections env) \<and> sb_fed (is_db s1) = sb_fed (is_db ?s0) \<and>
    (\<forall>docs. map (export_collection docs (is_db s1)) rows =
       map (\<lambda>c. (carried_collection c)\<lparr>xc_documents := documents_of (xc_name c) docs\<rparr>) (ev_collections env)) \<and>
    (\<forall>nm. documents_of nm (map doc_of_job (is_jobs s1)) = documents_of nm (map doc_of_job (is_jobs ?s0)) @
       concat (map xc_documents (filter (\<lambda>c. xc_name c = nm) (ev_collections env))))"
  proof (rule collections_run [OF inj])
    show "names_known ?s0" by (simp add: names_known_def begin_import_def)
    show "importable I (is_fresh ?s0) (is_db ?s0)"
      by (simp add: importable_def unused_def begin_import_def empty_site_def)
    show "\<forall>c \<in> set (ev_collections env). collection_dump_ok c" using export_dump_ok [OF ok] by (simp add: env_def)
    show "distinct (map xc_name (ev_collections env))"
      unfolding xnames distinct_map_sort_key using wf(1) by (simp add: content_wf_def)
  qed (simp add: begin_import_def existing_collection_names_def empty_site_def)
  then obtain s1 rows where s1: "try_fold (import_collection I) (ev_collections env) ?s0 = Inr s1" "names_known s1"
    "is_names s1 = xc_name ` set (ev_collections env)" "collections (sb_content (is_db s1)) = rows"
    "map c_name rows = map xc_name (ev_collections env)" "sb_fed (is_db s1) = sb_fed empty_site"
    and exps: "\<And>docs. map (export_collection docs (is_db s1)) rows =
       map (\<lambda>c. (carried_collection c)\<lparr>xc_documents := documents_of (xc_name c) docs\<rparr>) (ev_collections env)"
    and docs: "\<And>nm. documents_of nm (map doc_of_job (is_jobs s1)) =
       concat (map xc_documents (filter (\<lambda>c. xc_name c = nm) (ev_collections env)))"
    by (auto simp: begin_import_def empty_site_def existing_collection_names_def documents_of_def)
  have fed0: "node_peers (sb_fed (is_db s1)) = []" "collection_peers (sb_fed (is_db s1)) = []"
    by (simp_all add: s1(6) empty_site_def)
  let ?s1 = "s1\<lparr>is_urls := existing_node_peer_urls (is_db s1)\<rparr>"
  have xurls: "map xn_url (ev_node_peers env) = map np_url (sort_key np_url (node_peers (sb_fed db)))"
    by (simp add: env_def export_node_peers_def)
  have "\<exists>s2 nps. try_fold (import_node_peer I) (ev_node_peers env) ?s1 = Inr s2 \<and>
    is_db s2 = (is_db ?s1)\<lparr>sb_fed := (sb_fed (is_db ?s1))\<lparr>node_peers := node_peers (sb_fed (is_db ?s1)) @ nps\<rparr>\<rparr> \<and>
    is_jobs s2 = is_jobs ?s1 \<and> is_names s2 = is_names ?s1 \<and> is_urls s2 = is_urls ?s1 \<union> xn_url ` set (ev_node_peers env) \<and>
    distinct (map np_id (node_peers (sb_fed (is_db ?s1)) @ nps)) \<and> map np_url nps = map xn_url (ev_node_peers env) \<and>
    map (\<lambda>p. \<lparr>xn_url = np_url p, xn_name = np_name p, xn_enabled = np_enabled p\<rparr>) nps = ev_node_peers env"
    by (rule node_peers_run)
      (use wf(2) s1(2) fed0 in \<open>simp_all add: xurls distinct_map_sort_key fed_wf_def existing_node_peer_urls_def
        urls_known_def names_known_def existing_collection_names_def\<close>)
  then obtain s2 nps where s2: "try_fold (import_node_peer I) (ev_node_peers env) ?s1 = Inr s2"
    "is_db s2 = (is_db s1)\<lparr>sb_fed := (sb_fed (is_db s1))\<lparr>node_peers := nps\<rparr>\<rparr>" "is_jobs s2 = is_jobs s1"
    "is_names s2 = is_names s1" "is_urls s2 = xn_url ` set (ev_node_peers env)"
    and nps: "distinct (map np_id nps)" "map np_url nps = map xn_url (ev_node_peers env)"
      "map (\<lambda>p. \<lparr>xn_url = np_url p, xn_name = np_name p, xn_enabled = np_enabled p\<rparr>) nps = ev_node_peers env"
    using fed0 by (auto simp: existing_node_peer_urls_def)
  have "set (map np_url nps) = set (map np_url (sort_key np_url (node_peers (sb_fed db))))"
    unfolding nps(2) xurls ..
  then have urls: "np_url ` set nps = np_url ` set (node_peers (sb_fed db))" by simp
  have "set (map np_url nps) = set (map xn_url (ev_node_peers env))" unfolding nps(2) ..
  then have urls2: "is_urls s2 = np_url ` set nps" by (simp add: s2(5))
  have urls3: "distinct (map np_url nps)" "sorted (map np_url nps)"
    unfolding nps(2) xurls distinct_map_sort_key using wf(2) by (simp_all add: fed_wf_def)
  note links = export_links_distinct [OF wf(2)]
  have "\<exists>s3 cps. try_fold (import_collection_peer I) (ev_collection_peers env) s2 = Inr s3 \<and>
    is_db s3 = (is_db s2)\<lparr>sb_fed := (sb_fed (is_db s2))\<lparr>collection_peers := collection_peers (sb_fed (is_db s2)) @ cps\<rparr>\<rparr> \<and>
    is_jobs s3 = is_jobs s2 \<and> cp_node_peer_id ` set cps \<subseteq> np_id ` set nps \<and>
    map (exported_link nps) cps = filter (\<lambda>q. xq_local_collection q \<in> is_names s2) (ev_collection_peers env)"
    by (rule links_run [OF nps(1) urls3(1)]) (use links urls urls2 s2(2) fed0 in \<open>simp_all add: env_def\<close>)
  then obtain s3 cps where s3: "try_fold (import_collection_peer I) (ev_collection_peers env) s2 = Inr s3"
    "is_db s3 = (is_db s1)\<lparr>sb_fed := (sb_fed (is_db s1))\<lparr>node_peers := nps, collection_peers := cps\<rparr>\<rparr>"
    "is_jobs s3 = is_jobs s1"
    and cps: "cp_node_peer_id ` set cps \<subseteq> np_id ` set nps"
      "map (exported_link nps) cps = ev_collection_peers (carried env)"
    using fed0 s2 s1(3) by (auto simp: carried_def)
  have run: "apply_envelope I env empty_site = (is_db s3, Inr (is_report s3, is_jobs s3))"
    by (simp add: apply_envelope_def apply_envelope_inner_def s1(1) s2(1) s3(1))
  have again: "build_envelope now u T' (is_db s3) = Inr (carried env)"
    if T': "export_all_docs T' = Inr (map doc_of_job (is_jobs s3))" for T' :: "('q, 'd) tantivy"
  proof -
    let ?docs = "map doc_of_job (is_jobs s3)"
    have names: "sorted (map c_name rows)" "distinct (map xc_name (ev_collections env))"
      unfolding s1(5) xnames distinct_map_sort_key using wf(1) by (simp_all add: content_wf_def)
    have only: "filter (\<lambda>x. xc_name x = xc_name c) xs = [c]" if "distinct (map xc_name xs)" "c \<in> set xs"
      for c and xs :: "('f, 'x, 'j) exported_collection list"
      using that by (induction xs) (auto simp: filter_empty_conv, metis imageI)
    have "map (export_collection ?docs (is_db s3)) rows = map (export_collection ?docs (is_db s1)) rows"
      by (simp add: export_collection_def s3(2))
    also have "\<dots> = map carried_collection (ev_collections env)"
      unfolding exps
      by (rule map_cong [OF refl], rule exported_collection.equality)
        (simp_all add: carried_collection_def s3(3) docs only [OF names(2)])
    finally have cols: "map (export_collection ?docs (is_db s3)) (sort_key c_name (collections (sb_content (is_db s3)))) =
        map carried_collection (ev_collections env)"
      by (simp add: s3(2) s1(4) sort_key_id_if_sorted names(1))
    have peers: "export_node_peers (sb_fed (is_db s3)) = ev_node_peers env"
      by (simp add: export_node_peers_def s3(2) sort_key_id_if_sorted urls3(2) nps(3))
    have "sorted (map link_order (ev_collection_peers env))"
      using export_links [of "sb_fed db"] wf(2) by (simp add: env_def fed_wf_def)
    then have "sorted (map link_order (ev_collection_peers (carried env)))" by (simp add: carried_def sorted_filter)
    then have links: "export_collection_peers (sb_fed (is_db s3)) = ev_collection_peers (carried env)"
      using export_links [of "sb_fed (is_db s3)"] nps(1) cps by (simp add: s3(2) sort_key_id_if_sorted)
    show ?thesis
      unfolding build_envelope_def T' sum.case cols peers links by (simp add: carried_def env_def)
  qed
  show ?thesis
    using run again by blast
qed


definition source_site :: "(int, int, int, int) site_db" where
  "source_site =
     \<lparr>sb_content =
        \<lparr>collections = [\<lparr>c_rowid = 4, c_id = ''c'', c_name = ''rust'', c_description = [], c_created_at = ''t'', c_updated_at = ''t''\<rparr>],
         targets = [\<lparr>t_rowid = 2, t_id = ''t'', t_collection_id = ''c'', t_url_prefix = ''https://a/'',
           t_recrawl_interval_s = 1, t_recrawl_interval_secs = 1, t_last_crawled_at = Some 3, t_enabled = 1,
           t_created_at = ''t'', t_crawl_delay_secs = None\<rparr>],
         pages = [\<lparr>p_id = 9, p_collection_id = ''c'', p_crawl_target_id = ''t'', p_url = ''https://a/b'', p_etag = None,
           p_last_modified = None, p_content_hash = Some ''h'', p_last_status = Some 200, p_last_crawled_at = 3,
           p_indexed_content_hash = Some ''h''\<rparr>],
         outlinks = []\<rparr>,
      sb_ranking = [\<lparr>rk_collection_id = 4, rk_half_life = 30, rk_source_weights_json = 0, rk_domain_boosts_json = 0,
         rk_config_json = None, rk_updated_at = 0\<rparr>],
      sb_fed = \<lparr>node_peers = [], collection_peers = [], notifications = []\<rparr>\<rparr>"

definition source_index :: "(string \<times> string option, bool) tantivy" where
  "source_index = sample_index
     \<lparr>get_first := (\<lambda>d f. if f = FCollection then Some (StrValue ''rust'') else sample_doc d f)\<rparr>"

lemma source_env:
  "\<exists>env. build_envelope ''now'' ''u'' source_index source_site = Inr env \<and>
     map (\<lambda>c. (xc_name c, length (xc_documents c))) (ev_collections env) = [(''rust'', 2)]"
  by (simp add: build_envelope_def export_all_docs_def source_index_def sample_index_def exported_doc_of_def
      first_text_def source_site_def export_collection_def documents_of_def)


end
