(* ===== verification/Routing.thy ===== *)
theory Routing
  imports Protocol Auth Rate_Limit
begin

text \<open>
  \<open>api/router.rs\<close>, \<open>api/admin/mod.rs\<close> and the \<open>routes\<close> functions of the handlers: which handler answers a request, and
  behind which middleware. The handlers are an argument. Of axum: a route is found by the segments of the path, a
  parameter takes one segment and a wildcard the rest, \<open>get\<close> answers HEAD as well, a layer wraps every answer of its
  routes (405 too), and a layer added later is outside.
\<close>

section \<open>Routes\<close>

datatype http_method = GET | POST | PUT | DELETE | HEAD | OTHER

datatype endpoint =
    ServeIndex | ServeStatic | AdminPage | Health | ServeRobots | ServeOpensearch | McpHandler
  | ListCollections | SearchHandler | SearchGet | GossipExchange
  | Ping | ListCollectionPeers | AddCollectionPeer | DeleteCollectionPeer | AdminListCollections | HandleCollections
  | PutConfig | GetConfig | HandlePause | ListCrawlTargets | HandleCrawlTargets | ListDiscovered | RemoveDiscovered
  | PromoteDiscovered | HandleExport | HandleImport | TriggerGossip | ListNodePeers | AddNodePeer | UpdateNodePeer
  | DeleteNodePeer | BrowseNodeCollections | ListOutlinks | PromoteOutlink | DismissOutlink | PutRanking | GetRanking
  | GetStatus

datatype layer = VersionHeader | RateLimited | AdminToken

record route =
  rt_path :: string
  rt_methods :: "(http_method \<times> endpoint) list"
  rt_layers :: "layer list"

definition on_get :: "endpoint \<Rightarrow> (http_method \<times> endpoint) list" where
  "on_get e = [(GET, e), (HEAD, e)]"

text \<open>\<open>Router::route\<close>: the methods of one path are collected in one entry.\<close>

definition add_route :: "string \<Rightarrow> (http_method \<times> endpoint) list \<Rightarrow> route list \<Rightarrow> route list" where
  "add_route p ms rs =
     (if p \<in> rt_path ` set rs
      then map (\<lambda>r. if rt_path r = p then r\<lparr>rt_methods := rt_methods r @ ms\<rparr> else r) rs
      else rs @ [\<lparr>rt_path = p, rt_methods = ms, rt_layers = []\<rparr>])"

definition add_layer :: "layer \<Rightarrow> route list \<Rightarrow> route list" where
  "add_layer l rs = map (\<lambda>r. r\<lparr>rt_layers := l # rt_layers r\<rparr>) rs"

definition collection_peers_routes :: "route list" where
  "collection_peers_routes =
     add_route ''/api/admin/collection-peers/:id'' [(DELETE, DeleteCollectionPeer)]
       (add_route ''/api/admin/collection-peers'' (on_get ListCollectionPeers @ [(POST, AddCollectionPeer)]) [])"

definition collections_routes :: "route list" where
  "collections_routes =
     add_route ''/api/admin/collections'' (on_get AdminListCollections @ [(POST, HandleCollections)]) []"

definition config_routes :: "route list" where
  "config_routes = add_route ''/api/admin/config'' (on_get GetConfig) (add_route ''/api/admin/config'' [(PUT, PutConfig)] [])"

definition crawl_control_routes :: "route list" where
  "crawl_control_routes = add_route ''/api/admin/crawl'' [(POST, HandlePause)] []"

definition crawl_targets_routes :: "route list" where
  "crawl_targets_routes =
     add_route ''/api/admin/crawl-targets'' (on_get ListCrawlTargets @ [(POST, HandleCrawlTargets)]) []"

definition discovered_routes :: "route list" where
  "discovered_routes =
     add_route ''/api/admin/discovered/promote'' [(POST, PromoteDiscovered)]
       (add_route ''/api/admin/discovered'' (on_get ListDiscovered @ [(DELETE, RemoveDiscovered)]) [])"

definition export_import_routes :: "route list" where
  "export_import_routes =
     add_route ''/api/admin/import'' [(POST, HandleImport)] (add_route ''/api/admin/export'' (on_get HandleExport) [])"

definition admin_gossip_routes :: "route list" where
  "admin_gossip_routes = add_route ''/api/admin/gossip/trigger'' [(POST, TriggerGossip)] []"

definition nodes_routes :: "route list" where
  "nodes_routes =
     add_route ''/api/admin/nodes/:id/collections'' (on_get BrowseNodeCollections)
       (add_route ''/api/admin/nodes/:id'' [(PUT, UpdateNodePeer), (DELETE, DeleteNodePeer)]
         (add_route ''/api/admin/nodes'' (on_get ListNodePeers @ [(POST, AddNodePeer)]) []))"

definition outlinks_routes :: "route list" where
  "outlinks_routes =
     add_route ''/api/admin/outlinks/:id/dismiss'' [(POST, DismissOutlink)]
       (add_route ''/api/admin/outlinks/:id/promote'' [(POST, PromoteOutlink)]
         (add_route ''/api/admin/outlinks'' (on_get ListOutlinks) []))"

definition ranking_routes :: "route list" where
  "ranking_routes =
     add_route ''/api/admin/ranking'' (on_get GetRanking) (add_route ''/api/admin/ranking'' [(PUT, PutRanking)] [])"

definition status_routes :: "route list" where
  "status_routes = add_route ''/api/admin/status'' (on_get GetStatus) []"

definition admin_router :: "route list" where
  "admin_router =
     add_layer AdminToken
       (add_route ''/api/admin/ping'' (on_get Ping) [] @ collection_peers_routes @ collections_routes @ config_routes @
        crawl_control_routes @ crawl_targets_routes @ discovered_routes @ export_import_routes @ admin_gossip_routes @
        nodes_routes @ outlinks_routes @ ranking_routes @ status_routes)"

definition gossip_routes :: "route list" where
  "gossip_routes = add_route ''/api/gossip/exchange'' [(POST, GossipExchange)] []"

definition search_route :: "route list" where
  "search_route = add_layer RateLimited (add_route ''/api/search'' ((POST, SearchHandler) # on_get SearchGet) [])"

definition peer_routes :: "route list" where
  "peer_routes =
     add_layer VersionHeader (add_route ''/api/collections'' (on_get ListCollections) [] @ search_route @ gossip_routes)"

definition build_router :: "route list" where
  "build_router =
     add_route ''/mcp'' [(POST, McpHandler)]
       (add_route ''/opensearch.xml'' (on_get ServeOpensearch)
         (add_route ''/robots.txt'' (on_get ServeRobots)
           (add_route ''/health'' (on_get Health)
             (add_route ''/admin'' (on_get AdminPage)
               (add_route ''/static/*path'' (on_get ServeStatic) (add_route ''/'' (on_get ServeIndex) [])))))) @
     peer_routes @ admin_router"

section \<open>Answering a request\<close>

text \<open>A pattern against the segments of a path, both split at the slashes.\<close>

fun path_matches :: "string list \<Rightarrow> string list \<Rightarrow> bool" where
  "path_matches [] xs \<longleftrightarrow> xs = []"
| "path_matches (p # ps) xs \<longleftrightarrow>
     (case xs of
        [] \<Rightarrow> False
      | x # xs' \<Rightarrow>
          if p \<noteq> [] \<and> hd p = CHR ''*'' then x # xs' \<noteq> [[]]
          else if p \<noteq> [] \<and> hd p = CHR '':'' then x \<noteq> [] \<and> path_matches ps xs'
          else x = p \<and> path_matches ps xs')"

definition segments :: "string \<Rightarrow> string list" where
  "segments = split_char (CHR ''/'')"

definition find_route :: "string \<Rightarrow> route option" where
  "find_route p = find (\<lambda>r. path_matches (segments (rt_path r)) (segments p)) build_router"

text \<open>
  What the middleware keeps, around the state \<open>'s\<close> of the handlers; and what one request reads: the token, the
  clocks, the limits and peers of the moment, and the handlers.
\<close>

record ('j, 's) web_state =
  ws_attempts :: attempts
  ws_rates :: "'j rate_row list"
  ws_cache :: peer_ip_cache
  ws_app :: 's

record ('j, 's) web_env =
  we_token :: string
  we_now :: int
  we_clock :: int
  we_enc :: "int list \<Rightarrow> 'j"
  we_dec :: "'j \<Rightarrow> int list option"
  we_host :: "string \<Rightarrow> string option"
  we_peer_cfg :: "'s \<Rightarrow> rate_limit_config"
  we_anon_cfg :: "'s \<Rightarrow> rate_limit_config"
  we_peer_urls :: "'s \<Rightarrow> string list"
  we_handler :: "endpoint \<Rightarrow> string \<Rightarrow> request \<Rightarrow> 's \<Rightarrow> 's \<times> string response"

definition refused :: "nat \<Rightarrow> (string \<times> string) list \<Rightarrow> string \<Rightarrow> string response" where
  "refused status headers body = \<lparr>resp_status = status, resp_headers = headers, resp_body = body\<rparr>"

definition run_endpoint ::
  "('j, 's) web_env \<Rightarrow> route \<Rightarrow> http_method \<Rightarrow> string \<Rightarrow> request \<Rightarrow> ('j, 's) web_state \<Rightarrow>
   ('j, 's) web_state \<times> string response" where
  "run_endpoint E r m p req w =
     (case map_of (rt_methods r) m of
        None \<Rightarrow> (w, refused 405 [] [])
      | Some e \<Rightarrow> (let (s, resp) = we_handler E e p req (ws_app w) in (w\<lparr>ws_app := s\<rparr>, resp)))"

text \<open>None is a panic of the rate limiter.\<close>

fun run_layers ::
  "layer list \<Rightarrow> ('j, 's) web_env \<Rightarrow> route \<Rightarrow> http_method \<Rightarrow> string \<Rightarrow> request \<Rightarrow> ('j, 's) web_state \<Rightarrow>
   (('j, 's) web_state \<times> string response) option" where
  "run_layers [] E r m p req w = Some (run_endpoint E r m p req w)"
| "run_layers (VersionHeader # ls) E r m p req w =
     map_option (\<lambda>(w', resp). (w', add_peer_version_header (\<lambda>_. resp) req)) (run_layers ls E r m p req w)"
| "run_layers (RateLimited # ls) E r m p req w =
     (case require_rate_limit (we_enc E) (we_dec E) (we_host E) (we_peer_cfg E (ws_app w)) (we_anon_cfg E (ws_app w))
             (we_peer_urls E (ws_app w)) (we_clock E) (we_now E) req (ws_rates w) (ws_cache w) of
        None \<Rightarrow> None
      | Some (rates, cache, Forward) \<Rightarrow> run_layers ls E r m p req (w\<lparr>ws_rates := rates, ws_cache := cache\<rparr>)
      | Some (rates, cache, Answer status headers body) \<Rightarrow>
          Some (w\<lparr>ws_rates := rates, ws_cache := cache\<rparr>, refused status headers body))"
| "run_layers (AdminToken # ls) E r m p req w =
     (case require_admin_token (we_token E) (ws_attempts w) req (we_now E) of
        (attempts, Forward) \<Rightarrow> run_layers ls E r m p req (w\<lparr>ws_attempts := attempts\<rparr>)
      | (attempts, Answer status headers body) \<Rightarrow> Some (w\<lparr>ws_attempts := attempts\<rparr>, refused status headers body))"

definition serve ::
  "('j, 's) web_env \<Rightarrow> http_method \<Rightarrow> string \<Rightarrow> request \<Rightarrow> ('j, 's) web_state \<Rightarrow>
   (('j, 's) web_state \<times> string response) option" where
  "serve E m p req w =
     (case find_route p of
        None \<Rightarrow> Some (w, refused 404 [] [])
      | Some r \<Rightarrow> run_layers (rt_layers r) E r m p req w)"

section \<open>The table of routes\<close>

lemmas route_tables = build_router_def peer_routes_def search_route_def gossip_routes_def admin_router_def
  collection_peers_routes_def collections_routes_def config_routes_def crawl_control_routes_def
  crawl_targets_routes_def discovered_routes_def export_import_routes_def admin_gossip_routes_def nodes_routes_def
  outlinks_routes_def ranking_routes_def status_routes_def add_route_def add_layer_def on_get_def

definition public_endpoints :: "endpoint list" where
  "public_endpoints =
     [ServeIndex, ServeStatic, AdminPage, Health, ServeRobots, ServeOpensearch, McpHandler, ListCollections,
      SearchHandler, SearchGet, GossipExchange]"

lemma routes_split:
  "\<forall>r \<in> set build_router. rt_layers r = [AdminToken] \<or>
     (AdminToken \<notin> set (rt_layers r) \<and> snd ` set (rt_methods r) \<subseteq> set public_endpoints)"
  by (simp add: route_tables public_endpoints_def)

lemma public_routes_not_admin:
  "\<forall>r \<in> set build_router. AdminToken \<notin> set (rt_layers r) \<longrightarrow>
     \<not> path_matches (segments (rt_path r)) ([] # ''api'' # ''admin'' # xs)"
  by (simp add: route_tables segments_def)

text \<open>Two patterns that some path matches both. No two routes overlap, so the order of the table does not matter.\<close>

fun overlap :: "string list \<Rightarrow> string list \<Rightarrow> bool" where
  "overlap (p # ps) (q # qs) \<longleftrightarrow>
     (if p \<noteq> [] \<and> hd p = CHR ''*'' \<or> q \<noteq> [] \<and> hd q = CHR ''*'' then True
      else (p \<noteq> [] \<and> hd p = CHR '':'' \<or> q \<noteq> [] \<and> hd q = CHR '':'' \<or> p = q) \<and> overlap ps qs)"
| "overlap ps qs \<longleftrightarrow> ps = qs"

lemma path_matches_Nil: "path_matches ps [] \<longleftrightarrow> ps = []"
  by (cases ps) simp_all

lemma overlap_matches: "path_matches ps xs \<Longrightarrow> path_matches qs xs \<Longrightarrow> overlap ps qs"
  by (induction ps qs arbitrary: xs rule: overlap.induct) (auto simp: path_matches_Nil split: list.splits if_splits)

lemma routes_disjoint:
  "\<forall>r \<in> set build_router. \<forall>q \<in> set build_router. overlap (segments (rt_path r)) (segments (rt_path q)) \<longrightarrow> r = q"
  by code_simp

lemma find_route_iff:
  "find_route p = Some r \<longleftrightarrow> r \<in> set build_router \<and> path_matches (segments (rt_path r)) (segments p)"
proof
  assume "find_route p = Some r"
  then show "r \<in> set build_router \<and> path_matches (segments (rt_path r)) (segments p)"
    by (auto simp: find_route_def find_Some_iff)
next
  assume r: "r \<in> set build_router \<and> path_matches (segments (rt_path r)) (segments p)"
  then obtain q where q: "find_route p = Some q" by (cases "find_route p") (auto simp: find_route_def find_None_iff)
  then have "q \<in> set build_router" "path_matches (segments (rt_path q)) (segments p)"
    by (auto simp: find_route_def find_Some_iff)
  then have "q = r" using r routes_disjoint overlap_matches by blast
  then show "find_route p = Some r" using q by simp
qed

section \<open>What the layers let through\<close>

lemma run_layers_public:
  assumes "AdminToken \<notin> set ls" and "run_layers ls E r m p req w = Some (w', resp)"
  shows "ws_app w' = ws_app w \<or> (\<exists>e \<in> snd ` set (rt_methods r). ws_app w' = fst (we_handler E e p req (ws_app w)))"
  using assms
proof (induction ls arbitrary: w w' resp)
  case Nil
  then show ?case
    by (auto simp: run_endpoint_def split: option.splits prod.splits dest!: map_of_SomeD intro!: rev_bexI)
next
  case (Cons l ls)
  show ?case
  proof (cases l)
    case VersionHeader
    then show ?thesis using Cons.prems Cons.IH [of w w'] by auto
  next
    case RateLimited
    obtain rates cache a where rl: "require_rate_limit (we_enc E) (we_dec E) (we_host E) (we_peer_cfg E (ws_app w))
        (we_anon_cfg E (ws_app w)) (we_peer_urls E (ws_app w)) (we_clock E) (we_now E) req (ws_rates w) (ws_cache w) =
        Some (rates, cache, a)"
      using Cons.prems RateLimited by (auto split: option.splits)
    show ?thesis
    proof (cases a)
      case Forward
      then have "run_layers ls E r m p req (w\<lparr>ws_rates := rates, ws_cache := cache\<rparr>) = Some (w', resp)"
        using Cons.prems RateLimited rl by simp
      then show ?thesis using Cons.IH [of "w\<lparr>ws_rates := rates, ws_cache := cache\<rparr>" w' resp] Cons.prems(1) by simp
    next
      case (Answer status headers body)
      then show ?thesis using Cons.prems RateLimited rl by auto
    qed
  qed (use Cons.prems in simp)
qed

lemma admin_layer_refuses:
  assumes "\<not> token_accepted (we_token E) req \<or>
    lockout_until (unwrap_or no_attempts (current_state (ws_attempts w) (client_ip req))) > we_now E"
    and "run_layers [AdminToken] E r m p req w = Some (w', resp)"
  shows "ws_app w' = ws_app w \<and> resp_status resp \<in> {401, 429}"
  using assms by (auto simp: require_admin_token_def Let_def refused_def split: if_splits)

text \<open>C18: The admin API is closed without the token. Whatever the method, the path and the headers: when a request does not
  carry the admin token, or its address is locked out, a path under \<open>/api/admin\<close> is answered with 401, 404 or 429 and
  no handler runs; and for any path at all, what the handlers keep is changed by a public handler or not at all.
\<close>

theorem admin_routes_need_token:
  assumes "serve E m p req w = Some (w', resp)"
    and refused: "\<not> token_accepted (we_token E) req \<or>
      lockout_until (unwrap_or no_attempts (current_state (ws_attempts w) (client_ip req))) > we_now E"
  shows "(\<forall>xs. segments p = [] # ''api'' # ''admin'' # xs \<longrightarrow> ws_app w' = ws_app w \<and> resp_status resp \<in> {401, 404, 429}) \<and>
    (ws_app w' = ws_app w \<or> (\<exists>e \<in> set public_endpoints. ws_app w' = fst (we_handler E e p req (ws_app w))))"
proof (cases "find_route p")
  case None
  then show ?thesis using assms(1) by (auto simp: serve_def refused_def)
next
  case (Some r)
  have r: "r \<in> set build_router" "path_matches (segments (rt_path r)) (segments p)"
    using Some by (simp_all add: find_route_iff)
  have run: "run_layers (rt_layers r) E r m p req w = Some (w', resp)" using assms(1) Some by (simp add: serve_def)
  show ?thesis
  proof (cases "rt_layers r = [AdminToken]")
    case True
    then have "run_layers [AdminToken] E r m p req w = Some (w', resp)" using run by simp
    from admin_layer_refuses [OF refused this] show ?thesis by auto
  next
    case False
    then have pub: "AdminToken \<notin> set (rt_layers r)" "snd ` set (rt_methods r) \<subseteq> set public_endpoints"
      using routes_split r(1) by blast+
    have "segments p \<noteq> [] # ''api'' # ''admin'' # xs" for xs
      using public_routes_not_admin r pub(1) by metis
    then show ?thesis using run_layers_public [OF pub(1) run] pub(2) by blast
  qed
qed


definition open_handler :: "endpoint \<Rightarrow> string \<Rightarrow> request \<Rightarrow> nat \<Rightarrow> nat \<times> string response" where
  "open_handler e p req n = (n + 1, refused 200 [] ''ok'')"

definition plain_web_env :: "(int list, nat) web_env" where
  "plain_web_env =
     \<lparr>we_token = ''secret'', we_now = 100, we_clock = 0, we_enc = (\<lambda>x. x), we_dec = Some, we_host = Some,
      we_peer_cfg = (\<lambda>_. default_rate_limit_config), we_anon_cfg = (\<lambda>_. default_rate_limit_config),
      we_peer_urls = (\<lambda>_. []), we_handler = open_handler\<rparr>"

definition plain_web_state :: "(int list, nat) web_state" where
  "plain_web_state = \<lparr>ws_attempts = [], ws_rates = [], ws_cache = new_peer_ip_cache, ws_app = 0\<rparr>"

definition anonymous :: request where
  "anonymous = \<lparr>header_text = (\<lambda>_. None), connect_info = Some ''10.0.0.1''\<rparr>"

theorem admin_routes_need_token_witness:
  "\<exists>w' resp. serve plain_web_env POST ''/api/admin/import'' anonymous plain_web_state = Some (w', resp) \<and>
     ws_app w' = 0 \<and> resp_status resp \<in> {401, 404, 429}"
proof -
  have refused: "\<not> token_accepted (we_token plain_web_env) anonymous"
    by (simp add: token_accepted_def anonymous_def)
  have "segments ''/api/admin/import'' = [] # ''api'' # ''admin'' # [''import'']" by (simp add: segments_def)
  moreover obtain w' resp where run: "serve plain_web_env POST ''/api/admin/import'' anonymous plain_web_state = Some (w', resp)"
  proof -
    have "find_route ''/api/admin/import'' = Some \<lparr>rt_path = ''/api/admin/import'', rt_methods = [(POST, HandleImport)],
        rt_layers = [AdminToken]\<rparr>"
      unfolding find_route_iff by (simp add: route_tables segments_def)
    then have "\<exists>x. serve plain_web_env POST ''/api/admin/import'' anonymous plain_web_state = Some x"
      by (simp add: serve_def split: prod.split mw_answer.split)
    then show thesis using that by fast
  qed
  ultimately show ?thesis
    using admin_routes_need_token [OF run disjI1, OF refused] by (auto simp: plain_web_state_def)
qed

lemma peer_paths:
  "find_route ''/api/collections'' = Some \<lparr>rt_path = ''/api/collections'', rt_methods = on_get ListCollections,
     rt_layers = [VersionHeader]\<rparr>"
  "find_route ''/api/search'' = Some \<lparr>rt_path = ''/api/search'', rt_methods = (POST, SearchHandler) # on_get SearchGet,
     rt_layers = [VersionHeader, RateLimited]\<rparr>"
  "find_route ''/api/gossip/exchange'' = Some \<lparr>rt_path = ''/api/gossip/exchange'', rt_methods = [(POST, GossipExchange)],
     rt_layers = [VersionHeader]\<rparr>"
  "find_route ''/mcp'' = Some \<lparr>rt_path = ''/mcp'', rt_methods = [(POST, McpHandler)], rt_layers = []\<rparr>"
  unfolding find_route_iff by (simp_all add: route_tables segments_def)

text \<open>Searches over \<open>/api/search\<close> go through the rate limiter, and the peer routes announce the protocol version. When
  the limiter refuses the address, the answer of a search is its 429 and no handler runs; when it lets the request
  through, the handler of the method runs on the state as it was; and every answer under the three peer paths, a
  refusal included, has the version header.
\<close>

theorem search_rate_limited:
  assumes limiter: "require_rate_limit (we_enc E) (we_dec E) (we_host E) (we_peer_cfg E (ws_app w)) (we_anon_cfg E (ws_app w))
      (we_peer_urls E (ws_app w)) (we_clock E) (we_now E) req (ws_rates w) (ws_cache w) = Some (rates, cache, a)"
  shows "(\<exists>w' resp. serve E m ''/api/search'' req w = Some (w', resp) \<and> ws_rates w' = rates \<and>
      map_of (resp_headers resp) VERSION_HEADER_LC = Some PROTOCOL_VERSION \<and>
      (case a of
         Answer status headers body \<Rightarrow> ws_app w' = ws_app w \<and> resp_status resp = status
       | Forward \<Rightarrow>
           (case map_of [(POST, SearchHandler), (GET, SearchGet), (HEAD, SearchGet)] m of
              None \<Rightarrow> ws_app w' = ws_app w \<and> resp_status resp = 405
            | Some e \<Rightarrow> ws_app w' = fst (we_handler E e ''/api/search'' req (ws_app w))))) \<and>
    (\<forall>p \<in> {''/api/collections'', ''/api/gossip/exchange''}.
      \<exists>w' resp. serve E m p req w = Some (w', resp) \<and> map_of (resp_headers resp) VERSION_HEADER_LC = Some PROTOCOL_VERSION)"
    (is "?search \<and> ?peers")
proof
  show ?search
    using limiter
    by (cases a) (auto simp: serve_def peer_paths(2) add_peer_version_header_spec refused_def run_endpoint_def on_get_def
        split: prod.splits)
  show ?peers by (auto simp: serve_def peer_paths add_peer_version_header_spec split: prod.split)
qed

lemma plain_limiter:
  "\<exists>rates cache. require_rate_limit (we_enc plain_web_env) (we_dec plain_web_env) (we_host plain_web_env)
     default_rate_limit_config default_rate_limit_config [] 0 100 anonymous [] new_peer_ip_cache = Some (rates, cache, Forward)"
  by (simp add: require_rate_limit_def plain_web_env_def anonymous_def default_rate_limit_config_def new_peer_ip_cache_def
      is_peer_ip_def check_and_record_def check_and_record_key_def decide_def clean_reset_def load_state_def cap_log_def
      client_ip_pub_def client_ip_def fresh_state_def Let_def)

theorem search_rate_limited_witness:
  "\<exists>w' resp. serve plain_web_env POST ''/api/search'' anonymous plain_web_state = Some (w', resp) \<and> ws_app w' = 1"
proof -
  obtain rates cache where "require_rate_limit (we_enc plain_web_env) (we_dec plain_web_env) (we_host plain_web_env)
     default_rate_limit_config default_rate_limit_config [] 0 100 anonymous [] new_peer_ip_cache = Some (rates, cache, Forward)"
    using plain_limiter by blast
  then show ?thesis
    using search_rate_limited [of plain_web_env plain_web_state anonymous rates cache Forward POST]
    by (auto simp: plain_web_env_def plain_web_state_def open_handler_def)
qed

text \<open>The MCP endpoint runs the same search, but no limiter is in front of it.\<close>

theorem mcp_search_unlimited:
  "serve E POST ''/mcp'' req w =
     (let (s, resp) = we_handler E McpHandler ''/mcp'' req (ws_app w) in Some (w\<lparr>ws_app := s\<rparr>, resp))"
  by (simp add: serve_def peer_paths(4) run_endpoint_def split: prod.split)

end
