(* ===== verification/Startup.thy ===== *)
theory Startup
  imports Config Settings Rate_Limit Gossip Outlinks Url_Class
begin

text \<open>
  What runs before the server listens: the migrations of \<open>db/mod.rs\<close> with the statements of \<open>001_init.sql\<close>, the
  settings \<open>main.rs\<close> reads back from the database; and the maintenance program \<open>bin/recanonicalize_targets.rs\<close>.
\<close>

section \<open>Migrations\<close>

text \<open>
  The statements of the scripts. A schema is the list of the tables with their columns, the indexes, and the keys of
  the rows that scripts put into \<open>app_config\<close>.
\<close>

datatype sql =
    CreateTable string "string list"
  | CreateIndex string string
  | InsertConfig string
  | AddColumn string string

record schema =
  sc_tables :: "(string \<times> string list) list"
  sc_indexes :: "string list"
  sc_config :: "string list"

datatype sql_error = DuplicateColumn string | NoSuchTable string

definition exec_sql :: "sql \<Rightarrow> schema \<Rightarrow> sql_error + schema" where
  "exec_sql stmt s =
     (case stmt of
        CreateTable t cols \<Rightarrow>
          Inr (if t \<in> fst ` set (sc_tables s) then s else s\<lparr>sc_tables := sc_tables s @ [(t, cols)]\<rparr>)
      | CreateIndex i t \<Rightarrow>
          if i \<in> set (sc_indexes s) then Inr s
          else if t \<notin> fst ` set (sc_tables s) then Inl (NoSuchTable t)
          else Inr (s\<lparr>sc_indexes := sc_indexes s @ [i]\<rparr>)
      | InsertConfig k \<Rightarrow>
          if ''app_config'' \<notin> fst ` set (sc_tables s) then Inl (NoSuchTable ''app_config'')
          else Inr (if k \<in> set (sc_config s) then s else s\<lparr>sc_config := sc_config s @ [k]\<rparr>)
      | AddColumn t c \<Rightarrow>
          (case find_by fst t (sc_tables s) of
             None \<Rightarrow> Inl (NoSuchTable t)
           | Some (_, cols) \<Rightarrow>
               if c \<in> set cols then Inl (DuplicateColumn c)
               else Inr (s\<lparr>sc_tables := update_where (\<lambda>r. fst r = t) (\<lambda>r. (fst r, snd r @ [c])) (sc_tables s)\<rparr>)))"

text \<open>\<open>execute_batch\<close> stops at the first error and keeps what ran before it.\<close>

fun execute_batch :: "sql list \<Rightarrow> schema \<Rightarrow> schema \<times> sql_error option" where
  "execute_batch [] s = (s, None)"
| "execute_batch (stmt # rest) s =
     (case exec_sql stmt s of Inl e \<Rightarrow> (s, Some e) | Inr s' \<Rightarrow> execute_batch rest s')"

fun run_migrations :: "sql list list \<Rightarrow> schema \<Rightarrow> schema \<times> sql_error option" where
  "run_migrations [] s = (s, None)"
| "run_migrations (batch # rest) s =
     (case execute_batch batch s of
        (s', None) \<Rightarrow> run_migrations rest s'
      | (s', Some (DuplicateColumn c)) \<Rightarrow> run_migrations rest s'
      | (s', Some e) \<Rightarrow> (s', Some e))"

definition MIGRATIONS :: "sql list list" where
  "MIGRATIONS =
     [[CreateTable ''settings'' [''key'', ''value''],
       CreateTable ''app_config'' [''key'', ''value''],
       InsertConfig ''admin_token'',
       CreateTable ''collections'' [''id'', ''name'', ''description'', ''created_at'', ''updated_at''],
       CreateTable ''crawl_targets'' [''id'', ''collection_id'', ''url_prefix'', ''recrawl_interval_s'',
         ''recrawl_interval_secs'', ''last_crawled_at'', ''enabled'', ''created_at'', ''crawl_delay_secs''],
       CreateIndex ''idx_crawl_targets_collection'' ''crawl_targets'',
       CreateTable ''crawled_pages'' [''id'', ''collection_id'', ''crawl_target_id'', ''url'', ''etag'', ''last_modified'',
         ''content_hash'', ''last_status'', ''last_crawled_at'', ''indexed_content_hash''],
       CreateIndex ''idx_crawled_pages_target'' ''crawled_pages'',
       CreateIndex ''idx_crawled_pages_url'' ''crawled_pages'',
       CreateTable ''ranking_config'' [''collection_id'', ''freshness_half_life_days'', ''source_weights_json'',
         ''domain_boosts_json'', ''updated_at'', ''config_json''],
       CreateTable ''outlink_host_suggestions'' [''id'', ''collection_id'', ''host'', ''link_count'', ''examples_json'',
         ''first_seen_at'', ''last_seen_at'', ''status'', ''promoted_target_id''],
       CreateIndex ''idx_outlink_hosts_collection_status'' ''outlink_host_suggestions'',
       CreateTable ''node_peers'' [''id'', ''url'', ''name'', ''enabled'', ''consecutive_failures'', ''last_response_ms'',
         ''last_checked_at'', ''disabled_at'', ''created_at''],
       CreateTable ''collection_peers'' [''id'', ''local_collection'', ''node_peer_id'', ''remote_collection'',
         ''source_weight'', ''enabled'', ''created_at''],
       CreateIndex ''idx_coll_peers_local'' ''collection_peers'',
       CreateTable ''discovered_engines'' [''url'', ''name'', ''description'', ''first_seen'', ''last_seen''],
       CreateIndex ''idx_discovered_engines_last_seen'' ''discovered_engines'',
       CreateTable ''rate_limit_state'' [''ip'', ''request_log'', ''violations'', ''cooloff_until'', ''last_violation_at'',
         ''updated_at''],
       CreateIndex ''idx_rate_limit_cooloff'' ''rate_limit_state'',
       CreateTable ''auth_attempts'' [''ip'', ''failed_count'', ''lockout_until'', ''last_attempt_at''],
       CreateIndex ''idx_auth_lockout'' ''auth_attempts'',
       CreateTable ''admin_notifications'' [''id'', ''kind'', ''message'', ''created_at'', ''read_at''],
       CreateIndex ''idx_admin_notifications_unread'' ''admin_notifications'']]"

section \<open>Settings read at start-up\<close>

definition initial_runtime_config :: "(string \<Rightarrow> runtime_config option) \<Rightarrow> app_config \<Rightarrow> runtime_config" where
  "initial_runtime_config of_json db =
     (let stored = (case find_by fst RUNTIME_CONFIG_KEY db of None \<Rightarrow> None | Some r \<Rightarrow> snd r) in
      option_or default_runtime_config (Option.bind stored of_json))"

definition initial_rate_limit_config :: "runtime_config \<Rightarrow> rate_limit_config" where
  "initial_rate_limit_config rc =
     (case search_rate_limit_per_minute rc of
        None \<Rightarrow> default_rate_limit_config
      | Some l \<Rightarrow> default_rate_limit_config\<lparr>limit := l\<rparr>)"

definition initial_peer_rate_limit_config :: "config \<Rightarrow> rate_limit_config" where
  "initial_peer_rate_limit_config cfg = default_rate_limit_config\<lparr>limit := of_nat (peer_rate_limit_per_minute cfg)\<rparr>"

text \<open>The state of the settings a start gives: tokens, engines, and what the runtime configuration and limits are.\<close>

record boot =
  bt_config :: app_config
  bt_engines :: engines
  bt_token :: string
  bt_announced :: bool
  bt_runtime :: runtime_config
  bt_anon_limit :: rate_limit_config
  bt_peer_limit :: rate_limit_config

definition boot_settings ::
  "(string \<Rightarrow> runtime_config option) \<Rightarrow> config \<Rightarrow> string \<Rightarrow> int \<Rightarrow> app_config \<Rightarrow> engines \<Rightarrow> boot" where
  "boot_settings of_json cfg fresh now db engines =
     (let (db', token, announced) = ensure_and_announce_admin_token db (admin_token cfg) fresh;
          rc = initial_runtime_config of_json db' in
      \<lparr>bt_config = db',
       bt_engines = ensure_self_entry engines (self_url cfg) (self_name cfg) (self_description cfg) now,
       bt_token = token, bt_announced = announced, bt_runtime = rc, bt_anon_limit = initial_rate_limit_config rc,
       bt_peer_limit = initial_peer_rate_limit_config cfg\<rparr>)"

section \<open>The maintenance program\<close>

record 'j recanon =
  rn_db :: "'j content_db"
  rn_changed :: nat
  rn_unchanged :: nat
  rn_skipped_conflict :: nat

definition set_prefix :: "string \<Rightarrow> string \<Rightarrow> 'j content_db \<Rightarrow> 'j content_db db_result" where
  "set_prefix canonical tid db =
     (if (\<exists>t \<in> set (targets db). t_id t = tid \<and>
           (\<exists>x \<in> set (targets db). t_id x \<noteq> tid \<and> target_key x = (t_collection_id t, canonical)))
      then Inl (UniqueViolation ''crawl_targets.collection_id, crawl_targets.url_prefix'')
      else Inr (db\<lparr>targets := update_where (\<lambda>t. t_id t = tid) (\<lambda>t. t\<lparr>t_url_prefix := canonical\<rparr>) (targets db)\<rparr>))"

text \<open>\<open>probe n\<close> is what the web answers to the \<open>n\<close>-th row's request.\<close>

definition recanon_row ::
  "url_lib \<Rightarrow> (nat \<Rightarrow> string \<Rightarrow> (url \<times> nat) option) \<Rightarrow> string \<times> string \<Rightarrow> 'j recanon \<Rightarrow> 'j recanon" where
  "recanon_row L probe row st =
     (let n = rn_changed st + rn_unchanged st + rn_skipped_conflict st in
      case detect_canonical_prefix L (probe n) (snd row) of
        None \<Rightarrow> st\<lparr>rn_unchanged := rn_unchanged st + 1\<rparr>
      | Some canonical \<Rightarrow>
          if canonical \<noteq> snd row then
            (case set_prefix canonical (fst row) (rn_db st) of
               Inr db \<Rightarrow> st\<lparr>rn_db := db, rn_changed := rn_changed st + 1\<rparr>
             | Inl _ \<Rightarrow> st\<lparr>rn_skipped_conflict := rn_skipped_conflict st + 1\<rparr>)
          else st\<lparr>rn_unchanged := rn_unchanged st + 1\<rparr>)"

definition recanonicalize ::
  "url_lib \<Rightarrow> (nat \<Rightarrow> string \<Rightarrow> (url \<times> nat) option) \<Rightarrow> 'j content_db \<Rightarrow> 'j recanon" where
  "recanonicalize L probe db =
     fold (recanon_row L probe) (map (\<lambda>t. (t_id t, t_url_prefix t)) (sort_key t_url_prefix (targets db)))
       \<lparr>rn_db = db, rn_changed = 0, rn_unchanged = 0, rn_skipped_conflict = 0\<rparr>"

datatype diagnosis =
    UnparseableUrl | TimedOut | ConnectError | NetworkError string | NonSuccess nat string | AlreadyCanonical
  | PathChanging string string | Unexpected string

datatype net_answer = NetTimeout | NetConnect | NetError string | NetAnswer url nat

definition diagnose :: "url_lib \<Rightarrow> (string \<Rightarrow> net_answer) \<Rightarrow> string \<Rightarrow> diagnosis" where
  "diagnose L net input =
     (case parse_url L input of
        None \<Rightarrow> UnparseableUrl
      | Some input_url \<Rightarrow>
          (case net input of
             NetTimeout \<Rightarrow> TimedOut
           | NetConnect \<Rightarrow> ConnectError
           | NetError e \<Rightarrow> NetworkError e
           | NetAnswer final_url status \<Rightarrow>
               if \<not> (200 \<le> status \<and> status < 300) then NonSuccess status (url_text L final_url)
               else if url_text L final_url = url_text L input_url then AlreadyCanonical
               else if path final_url \<noteq> path input_url \<and>
                       trim_end_matches (CHR ''/'') (path final_url) \<noteq> trim_end_matches (CHR ''/'') (path input_url)
               then PathChanging (path input_url) (path final_url)
               else Unexpected (url_text L final_url)))"

section \<open>Migrations run again do nothing\<close>

definition is_add_column :: "sql \<Rightarrow> bool" where
  "is_add_column stmt \<longleftrightarrow> (case stmt of AddColumn _ _ \<Rightarrow> True | _ \<Rightarrow> False)"

text \<open>What a statement without ALTER needs to succeed once it has: its table, index or row is there.\<close>

definition in_place :: "sql \<Rightarrow> schema \<Rightarrow> bool" where
  "in_place stmt s \<longleftrightarrow>
     (case stmt of
        CreateTable t _ \<Rightarrow> t \<in> fst ` set (sc_tables s)
      | CreateIndex i _ \<Rightarrow> i \<in> set (sc_indexes s)
      | InsertConfig k \<Rightarrow> k \<in> set (sc_config s) \<and> ''app_config'' \<in> fst ` set (sc_tables s)
      | AddColumn t c \<Rightarrow> False)"

lemma exec_in_place: "in_place stmt s \<Longrightarrow> exec_sql stmt s = Inr s"
  by (cases stmt) (auto simp: in_place_def exec_sql_def)

lemma exec_makes_in_place:
  assumes "exec_sql stmt s = Inr s'" and "\<not> is_add_column stmt"
  shows "in_place stmt s'" and "in_place other s \<Longrightarrow> in_place other s'"
  using assms by (cases stmt; cases other; auto simp: exec_sql_def in_place_def is_add_column_def split: if_splits)+

lemma batch_in_place: "\<forall>stmt \<in> set batch. in_place stmt s \<Longrightarrow> execute_batch batch s = (s, None)"
  by (induction batch) (simp_all add: exec_in_place)

lemma batch_makes_in_place:
  assumes "execute_batch batch s = (s', None)" and "\<forall>stmt \<in> set batch. \<not> is_add_column stmt"
  shows "\<forall>stmt \<in> set batch. in_place stmt s'" and "in_place other s \<Longrightarrow> in_place other s'"
proof -
  have "(\<forall>stmt \<in> set batch. in_place stmt s') \<and> (\<forall>other. in_place other s \<longrightarrow> in_place other s')"
    using assms
  proof (induction batch arbitrary: s)
    case (Cons stmt rest)
    obtain s1 where s1: "exec_sql stmt s = Inr s1" "execute_batch rest s1 = (s', None)"
      using Cons.prems(1) by (auto split: sum.splits)
    have "\<not> is_add_column stmt" using Cons.prems(2) by simp
    note step = exec_makes_in_place [OF s1(1) this]
    from Cons.IH [OF s1(2)] Cons.prems(2) show ?case using step by simp
  qed simp
  then show "\<forall>stmt \<in> set batch. in_place stmt s'" and "in_place other s \<Longrightarrow> in_place other s'" by blast+
qed

lemma migrations_again:
  assumes "run_migrations ms s = (s', None)" and "\<forall>batch \<in> set ms. \<forall>stmt \<in> set batch. \<not> is_add_column stmt"
  shows "(\<forall>batch \<in> set ms. \<forall>stmt \<in> set batch. in_place stmt s') \<and> (\<forall>other. in_place other s \<longrightarrow> in_place other s')"
  using assms
proof (induction ms arbitrary: s)
  case (Cons batch rest)
  obtain s1 e where b: "execute_batch batch s = (s1, e)" by fastforce
  have nodup: "e \<noteq> Some (DuplicateColumn c)" for c
  proof -
    have "execute_batch xs t = (t', Some (DuplicateColumn c)) \<Longrightarrow> \<exists>stmt \<in> set xs. is_add_column stmt" for xs t t'
    proof (induction xs arbitrary: t)
      case (Cons x xs)
      show ?case
      proof (cases "exec_sql x t")
        case (Inl err)
        then show ?thesis
          using Cons.prems by (cases x) (auto simp: exec_sql_def is_add_column_def split: if_splits option.splits)
      next
        case (Inr t1)
        then show ?thesis using Cons.prems Cons.IH [of t1] by simp
      qed
    qed simp
    then show ?thesis using b Cons.prems(2) by fastforce
  qed
  have e: "e = None" "run_migrations rest s1 = (s', None)"
    using Cons.prems(1) b nodup by (auto split: option.splits sql_error.splits)
  note made = batch_makes_in_place [of batch s s1]
  from Cons.IH [OF e(2)] Cons.prems(2) show ?case using made b e(1) by auto
qed simp

lemma run_in_place: "\<forall>batch \<in> set ms. \<forall>stmt \<in> set batch. in_place stmt s \<Longrightarrow> run_migrations ms s = (s, None)"
  by (induction ms) (simp_all add: batch_in_place)

text \<open>
  The scripts of this version succeed on any database that has no table of another shape in the way of an index, and
  running them again changes nothing.
\<close>

lemma no_alter: "\<forall>batch \<in> set MIGRATIONS. \<forall>stmt \<in> set batch. \<not> is_add_column stmt"
  by (simp add: MIGRATIONS_def is_add_column_def)

definition fresh_schema :: schema where
  "fresh_schema = \<lparr>sc_tables = [], sc_indexes = [], sc_config = []\<rparr>"

text \<open>Opening a database is idempotent. On an empty file the scripts succeed and create the thirteen tables; whatever the
  database was before, when they succeed once, running them on the result succeeds and changes nothing.
\<close>

theorem migrations_idempotent:
  "(\<exists>s. run_migrations MIGRATIONS fresh_schema = (s, None) \<and> length (sc_tables s) = 13 \<and> sc_config s = [''admin_token'']) \<and>
   (\<forall>s s'. run_migrations MIGRATIONS s = (s', None) \<longrightarrow> run_migrations MIGRATIONS s' = (s', None))"
proof
  show "\<exists>s. run_migrations MIGRATIONS fresh_schema = (s, None) \<and> length (sc_tables s) = 13 \<and> sc_config s = [''admin_token'']"
    by (simp add: MIGRATIONS_def fresh_schema_def exec_sql_def)
  show "\<forall>s s'. run_migrations MIGRATIONS s = (s', None) \<longrightarrow> run_migrations MIGRATIONS s' = (s', None)"
    using migrations_again [OF _ no_alter] run_in_place by blast
qed

text \<open>
  The rest of a script is skipped when a column it adds exists. The next script that adds two columns, interrupted after the
  first, never adds the second: each later start meets the first column, treats the whole script as done and succeeds.
\<close>

theorem interrupted_migration_never_completes:
  assumes "find_by fst t (sc_tables s) = Some (t, cols)" and "c1 \<in> set cols"
  shows "run_migrations [AddColumn t c1 # rest] s = (s, None)"
  using assms by (simp add: exec_sql_def)

section \<open>A restart finds the settings of the admin\<close>

lemma initial_runtime_config_eq: "initial_runtime_config of_json db = load_from_db of_json db"
  by (simp add: initial_runtime_config_def load_from_db_def split: option.split)

definition limits_in_step :: "config_state \<Rightarrow> bool" where
  "limits_in_step st \<longleftrightarrow> cs_limit st = limit (initial_rate_limit_config (cs_runtime st))"

text \<open>C33: A restart changes none of the settings an admin made. When a change of the configuration was answered without an
  error and the running limit was the one of the running configuration, a start from the stored database gives the same
  configuration and the same limit of anonymous searches, and the running limit is still the one of the running
  configuration.
\<close>

theorem restart_keeps_settings:
  assumes "put_config to_json poisoned st body = (st', Inr rc)" and "limits_in_step st"
    and "\<And>rc json. to_json rc = Inr json \<Longrightarrow> of_json json = Some rc"
  shows "limits_in_step st' \<and> get_config st' = rc \<and>
    bt_runtime (boot_settings of_json cfg fresh now (cs_db st') engines) = get_config st' \<and>
    limit (bt_anon_limit (boot_settings of_json cfg fresh now (cs_db st') engines)) = cs_limit st'"
proof -
  obtain json where json: "to_json (patch_config body (cs_runtime st)) = Inr json"
    using assms(1) by (cases "to_json (patch_config body (cs_runtime st))") (simp_all add: put_config_def Let_def)
  moreover have "\<not> poisoned" using assms(1) json by (simp add: put_config_def Let_def split: if_splits)
  ultimately have st': "cs_runtime st' = patch_config body (cs_runtime st)"
    "cs_limit st' = (case search_rate_limit_per_minute body of None \<Rightarrow> cs_limit st | Some l \<Rightarrow> l)"
    "cs_db st' = upsert_config (cs_db st) RUNTIME_CONFIG_KEY json" and rc: "rc = patch_config body (cs_runtime st)"
    using assms(1) by (auto simp: put_config_def Let_def)
  have step: "limits_in_step st'"
    using assms(2) by (auto simp: limits_in_step_def st' initial_rate_limit_config_def patch_config_def or_else_def
        split: option.splits)
  have load: "load_from_db of_json (cs_db st') = rc"
    using assms(3) [OF json]
    by (simp add: load_from_db_def st' rc)
  have "initial_runtime_config of_json (fst (ensure_and_announce_admin_token (cs_db st') (admin_token cfg) fresh)) = rc"
    unfolding initial_runtime_config_eq
    by (auto simp: ensure_and_announce_admin_token_def ensure_admin_token_def load_from_db_upsert_token load
        split: option.splits)
  then show ?thesis
    using step by (auto simp: boot_settings_def get_config_def st' rc limits_in_step_def Let_def split: prod.splits)
qed

definition plain_boot_config :: config where
  "plain_boot_config =
     \<lparr>bind_addr = ''127.0.0.1'', port = 8080, data_dir = ''data'', admin_token = None, index_path = ''data/index'',
      max_index_bytes = 100, crawler_user_agent = ''bot'', crawler_request_timeout_ms = 1000,
      crawler_politeness_delay_ms = 1000, crawler_max_concurrent_domains = 1, peer_rate_limit_per_minute = 60,
      self_url = ''https://me'', self_name = ''me'', self_description = [], gossip_sync_interval_secs = 60\<rparr>"

definition one_word_json :: "runtime_config \<Rightarrow> string db_result" where
  "one_word_json rc = (if rc = default_runtime_config\<lparr>search_rate_limit_per_minute := Some 5\<rparr> then Inr ''five''
     else Inl ToSqlConversionFailure)"

theorem restart_keeps_settings_witness:
  "\<exists>st'. put_config one_word_json False \<lparr>cs_runtime = default_runtime_config, cs_limit = 30, cs_db = []\<rparr>
        (default_runtime_config\<lparr>search_rate_limit_per_minute := Some 5\<rparr>) =
      (st', Inr (default_runtime_config\<lparr>search_rate_limit_per_minute := Some 5\<rparr>)) \<and>
    limit (bt_anon_limit (boot_settings (\<lambda>_. Some (default_runtime_config\<lparr>search_rate_limit_per_minute := Some 5\<rparr>))
      plain_boot_config ''t'' 9 (cs_db st') [])) = 5"
proof -
  let ?st = "\<lparr>cs_runtime = default_runtime_config, cs_limit = 30, cs_db = []\<rparr>"
  let ?body = "default_runtime_config\<lparr>search_rate_limit_per_minute := Some 5\<rparr>"
  have patch: "patch_config ?body default_runtime_config = ?body" by (simp add: patch_config_def default_runtime_config_def)
  obtain st' where run: "put_config one_word_json False ?st ?body = (st', Inr ?body)" and lim: "cs_limit st' = 5"
    by (simp add: put_config_def patch one_word_json_def Let_def)
  have "limits_in_step ?st"
    by (simp add: limits_in_step_def initial_rate_limit_config_def default_runtime_config_def default_rate_limit_config_def)
  moreover have "(\<lambda>_. Some ?body) json = Some rc" if "one_word_json rc = Inr json" for rc json
    using that by (simp add: one_word_json_def split: if_splits)
  ultimately have "limit (bt_anon_limit (boot_settings (\<lambda>_. Some ?body) plain_boot_config ''t'' 9 (cs_db st') [])) = cs_limit st'"
    using restart_keeps_settings [OF run, of "\<lambda>_. Some ?body" plain_boot_config "''t''" 9 "[]"] by blast
  then show ?thesis using run lim by auto
qed

section \<open>What the maintenance program does\<close>

lemma content_wf_set_prefix:
  assumes wf: "content_wf db" and ok: "set_prefix canonical tid db = Inr db'"
  shows "content_wf db'"
proof -
  let ?f = "\<lambda>t. t\<lparr>t_url_prefix := canonical\<rparr>" and ?p = "\<lambda>t. t_id t = tid"
  have db': "db' = db\<lparr>targets := update_where ?p ?f (targets db)\<rparr>"
    and free: "\<forall>t \<in> set (targets db). t_id t = tid \<longrightarrow>
       (\<forall>x \<in> set (targets db). t_id x \<noteq> tid \<longrightarrow> target_key x \<noteq> (t_collection_id t, canonical))"
    using ok by (auto simp: set_prefix_def split: if_splits)
  have ids: "inj_on t_id (set (targets db))" "inj_on target_key (set (targets db))" "distinct (targets db)"
    using wf by (auto simp: content_wf_def distinct_map)
  have "distinct (map target_key (update_where ?p ?f (targets db)))"
  proof -
    let ?g = "\<lambda>t. target_key (if ?p t then ?f t else t)"
    have "inj_on ?g (set (targets db))"
    proof (rule inj_onI)
      fix x y
      assume x: "x \<in> set (targets db)" and y: "y \<in> set (targets db)" and eq: "?g x = ?g y"
      consider "t_id x = tid" "t_id y = tid" | "t_id x = tid" "t_id y \<noteq> tid" | "t_id x \<noteq> tid" "t_id y = tid"
        | "t_id x \<noteq> tid" "t_id y \<noteq> tid" by blast
      then show "x = y"
      proof cases
        case 1
        then show ?thesis using ids(1) x y by (simp add: inj_on_def)
      next
        case 2
        then have "target_key y = (t_collection_id x, canonical)" using eq by (simp add: target_key_def)
        then show ?thesis using free x y 2 by blast
      next
        case 3
        then have "target_key x = (t_collection_id y, canonical)" using eq by (simp add: target_key_def)
        then show ?thesis using free x y 3 by blast
      next
        case 4
        then show ?thesis using eq ids(2) x y by (simp add: inj_on_def)
      qed
    qed
    then have "distinct (map ?g (targets db))" using ids(3) by (simp add: distinct_map)
    then show ?thesis by (simp add: update_where_def comp_def)
  qed
  moreover have "map t_rowid (update_where ?p ?f (targets db)) = map t_rowid (targets db)"
    "map t_id (update_where ?p ?f (targets db)) = map t_id (targets db)"
    "map t_collection_id (update_where ?p ?f (targets db)) = map t_collection_id (targets db)"
    by (rule map_update_where_same; simp)+
  ultimately show ?thesis
    using wf unfolding content_wf_def db'
    by (simp, metis (no_types, lifting) list.set_map)
qed

definition rewritten :: "url_lib \<Rightarrow> (nat \<Rightarrow> string \<Rightarrow> (url \<times> nat) option) \<Rightarrow> target_row \<Rightarrow> target_row \<Rightarrow> bool" where
  "rewritten L probe t t' \<longleftrightarrow>
     t' = t\<lparr>t_url_prefix := t_url_prefix t'\<rparr> \<and>
     (t_url_prefix t' = t_url_prefix t \<or> (\<exists>n. detect_canonical_prefix L (probe n) (t_url_prefix t) = Some (t_url_prefix t')))"

definition recanon_inv ::
  "url_lib \<Rightarrow> (nat \<Rightarrow> string \<Rightarrow> (url \<times> nat) option) \<Rightarrow> 'j content_db \<Rightarrow> nat \<Rightarrow> 'j recanon \<Rightarrow> bool" where
  "recanon_inv L probe db n st \<longleftrightarrow>
     content_wf (rn_db st) \<and> rn_changed st + rn_unchanged st + rn_skipped_conflict st = n \<and>
     rn_db st = db\<lparr>targets := targets (rn_db st)\<rparr> \<and> list_all2 (rewritten L probe) (targets db) (targets (rn_db st))"

lemma recanon_row_inv:
  assumes inv: "recanon_inv L probe db n st" and t: "t \<in> set (targets db)" and ids: "distinct (map t_id (targets db))"
  shows "recanon_inv L probe db (Suc n) (recanon_row L probe (t_id t, t_url_prefix t) st)"
proof -
  let ?n = "rn_changed st + rn_unchanged st + rn_skipped_conflict st"
  have inv': "content_wf (rn_db st)" "?n = n" "rn_db st = db\<lparr>targets := targets (rn_db st)\<rparr>"
    "list_all2 (rewritten L probe) (targets db) (targets (rn_db st))"
    using inv by (simp_all add: recanon_inv_def)
  have set: "recanon_inv L probe db (Suc n) (st\<lparr>rn_db := db', rn_changed := rn_changed st + 1\<rparr>)"
    if det: "detect_canonical_prefix L (probe ?n) (t_url_prefix t) = Some canonical"
      and db': "set_prefix canonical (t_id t) (rn_db st) = Inr db'" for canonical db'
  proof -
    let ?g = "\<lambda>x. if t_id x = t_id t then x\<lparr>t_url_prefix := canonical\<rparr> else x"
    have eq: "db' = (rn_db st)\<lparr>targets := map ?g (targets (rn_db st))\<rparr>"
      using db' by (auto simp: set_prefix_def update_where_def split: if_splits)
    have "list_all2 (\<lambda>x y. rewritten L probe x (?g y)) (targets db) (targets (rn_db st))"
    proof (rule list.rel_mono_strong [OF inv'(4)])
      fix x y
      assume x: "x \<in> set (targets db)" and R: "rewritten L probe x y"
      obtain u where u: "y = x\<lparr>t_url_prefix := u\<rparr>" using R unfolding rewritten_def by blast
      then have id: "t_id y = t_id x" by simp
      show "rewritten L probe x (?g y)"
      proof (cases "t_id x = t_id t")
        case True
        then have "x = t" using ids x t by (simp add: distinct_map inj_on_def)
        moreover have "y\<lparr>t_url_prefix := canonical\<rparr> = x\<lparr>t_url_prefix := canonical\<rparr>" by (simp add: u)
        ultimately show ?thesis using det id by (auto simp: rewritten_def)
      qed (use R id in simp)
    qed
    then have "list_all2 (rewritten L probe) (targets db) (map ?g (targets (rn_db st)))" by (simp add: list_all2_map2)
    moreover have "db' = db\<lparr>targets := targets db'\<rparr>"
    proof -
      obtain ts where "rn_db st = db\<lparr>targets := ts\<rparr>" using inv'(3) by blast
      then show ?thesis by (simp add: eq)
    qed
    ultimately show ?thesis
      using content_wf_set_prefix [OF inv'(1) db'] inv'(2) by (simp add: recanon_inv_def eq)
  qed
  have same: "recanon_inv L probe db (Suc n) (st\<lparr>rn_unchanged := rn_unchanged st + 1\<rparr>)"
    "recanon_inv L probe db (Suc n) (st\<lparr>rn_skipped_conflict := rn_skipped_conflict st + 1\<rparr>)"
    using inv by (simp_all add: recanon_inv_def)
  show ?thesis
  proof (cases "detect_canonical_prefix L (probe ?n) (t_url_prefix t)")
    case None
    then show ?thesis using same(1) by (simp add: recanon_row_def)
  next
    case (Some canonical)
    then show ?thesis
      using same set [OF Some]
      by (cases "set_prefix canonical (t_id t) (rn_db st)") (simp_all add: recanon_row_def)
  qed
qed

text \<open>C34: The maintenance program rewrites prefixes and nothing else. On tables that satisfy the constraints it ends with
  tables that do, whatever the web answers; collections, pages and outlinks stay; every target keeps all of its columns but
  the prefix, which is the old one or a canonical form the server gave for the old one; and the three counters add up to
  the number of targets.
\<close>

theorem recanonicalize_safe:
  assumes wf: "content_wf db" and run: "recanonicalize L probe db = st"
  shows "content_wf (rn_db st) \<and> rn_db st = db\<lparr>targets := targets (rn_db st)\<rparr> \<and>
    rn_changed st + rn_unchanged st + rn_skipped_conflict st = length (targets db) \<and>
    list_all2 (rewritten L probe) (targets db) (targets (rn_db st))"
proof -
  have ids: "distinct (map t_id (targets db))" using wf by (simp add: content_wf_def)
  have all: "recanon_inv L probe db (n + length ts) (fold (recanon_row L probe) (map (\<lambda>t. (t_id t, t_url_prefix t)) ts) st)"
    if "recanon_inv L probe db n st" "set ts \<subseteq> set (targets db)" for n ts st
    using that
  proof (induction ts arbitrary: n st)
    case (Cons t ts)
    have "recanon_inv L probe db (Suc n) (recanon_row L probe (t_id t, t_url_prefix t) st)"
      by (rule recanon_row_inv [OF Cons.prems(1) _ ids]) (use Cons.prems(2) in simp)
    then show ?case using Cons.IH [of "Suc n"] Cons.prems(2) by simp
  qed simp
  have "recanon_inv L probe db 0 \<lparr>rn_db = db, rn_changed = 0, rn_unchanged = 0, rn_skipped_conflict = 0\<rparr>"
    using wf by (simp add: recanon_inv_def list_all2_refl rewritten_def)
  from all [OF this, of "sort_key t_url_prefix (targets db)"]
  have "recanon_inv L probe db (length (targets db)) (recanonicalize L probe db)"
    unfolding recanonicalize_def length_sort add_0 set_sort by simp
  then have "recanon_inv L probe db (length (targets db)) st" unfolding run .
  then show ?thesis unfolding recanon_inv_def by blast
qed

definition move_url :: "string \<Rightarrow> url" where
  "move_url sch =
     \<lparr>scheme = sch, username = [], password = None, host = Some ''a'', url_port = None, path = ''/'', query = None,
      fragment = None\<rparr>"

definition move_lib :: url_lib where
  "move_lib =
     \<lparr>parse_url = (\<lambda>s. if s = ''http://a/'' then Some (move_url ''http'')
                    else if s = ''https://a/'' then Some (move_url ''https'') else None),
      url_text = (\<lambda>u. scheme u @ ''://a/''), join_url = (\<lambda>u _. Some u), form_parse = (\<lambda>_. []), form_text = (\<lambda>_. [])\<rparr>"

definition move_db :: "nat content_db" where
  "move_db =
     \<lparr>collections = [sample_collection],
      targets = [\<lparr>t_rowid = 2, t_id = ''t'', t_collection_id = c_id sample_collection, t_url_prefix = ''http://a/'',
        t_recrawl_interval_s = 1, t_recrawl_interval_secs = 1, t_last_crawled_at = None, t_enabled = 1,
        t_created_at = ''now'', t_crawl_delay_secs = None\<rparr>], pages = [], outlinks = []\<rparr>"

lemma move_canonical:
  "detect_canonical_prefix move_lib (\<lambda>_. Some (move_url ''https'', 200)) ''http://a/'' = Some ''https://a/''"
  by (simp add: detect_canonical_prefix_def move_lib_def move_url_def paths_equivalent_def normalize_url_def
      canonical_url_def rewrite_query_def drop_default_port_def Let_def)

theorem recanonicalize_safe_witness:
  "\<exists>st. recanonicalize move_lib (\<lambda>_ _. Some (move_url ''https'', 200)) move_db = st \<and> content_wf (rn_db st) \<and>
     rn_changed st = 1 \<and> map t_url_prefix (targets (rn_db st)) = [''https://a/'']"
proof -
  let ?st = "recanonicalize move_lib (\<lambda>_ _. Some (move_url ''https'', 200)) move_db"
  have wf: "content_wf move_db" by (simp add: content_wf_def move_db_def sample_collection_def)
  have "rn_changed ?st = 1 \<and> map t_url_prefix (targets (rn_db ?st)) = [''https://a/'']"
    by (simp add: recanonicalize_def recanon_row_def move_db_def move_canonical set_prefix_def Let_def)
  moreover have "content_wf (rn_db ?st)"
    by (rule recanonicalize_safe [OF wf refl, THEN conjunct1])
  ultimately show ?thesis by (intro exI [where x = ?st] conjI) simp_all
qed

end
