(* ===== verification/Index_Open.thy ===== *)
theory Index_Open
  imports Indexer Search
begin

text \<open>
  \<open>index/schema.rs\<close>, \<open>index/mod.rs\<close>, and of \<open>index/writer.rs\<close> and \<open>index/reader.rs\<close> the opening of the two sides
  and \<open>Searcher::search\<close>: the fields of the index, and that the writer and the reader agree on them. A schema is the
  list of its fields, a field its position; what the disk and tantivy's own opening do is an argument.
\<close>

section \<open>The schema\<close>

datatype field_options = StringStored | TextWithPositionsStored | DateIndexedStoredFast

type_synonym index_schema = "(string \<times> field_options) list"

definition build :: index_schema where
  "build =
     [(''collection'', StringStored), (''url'', StringStored), (''host'', StringStored),
      (''title'', TextWithPositionsStored), (''body'', TextWithPositionsStored),
      (''indexed_at'', DateIndexedStoredFast)]"

definition get_field :: "index_schema \<Rightarrow> string \<Rightarrow> nat option" where
  "get_field s name = find (\<lambda>i. fst (s ! i) = name) [0..<length s]"

text \<open>Fields looked up one after the other; the first that is missing ends the lookup.\<close>

fun require_fields :: "index_schema \<Rightarrow> string list \<Rightarrow> string + nat list" where
  "require_fields s [] = Inr []"
| "require_fields s (name # names) =
     (case get_field s name of
        None \<Rightarrow> Inl name
      | Some i \<Rightarrow> (case require_fields s names of Inl e \<Rightarrow> Inl e | Inr is \<Rightarrow> Inr (i # is)))"

record doc_fields =
  df_collection :: nat
  df_url :: nat
  df_host :: nat
  df_title :: nat
  df_body :: nat
  df_indexed_at :: nat

text \<open>The fields of \<open>DocFields\<close> and of the writer, in the order both look them up, and the handles they get.\<close>

definition writer_fields :: "string list" where
  "writer_fields = [''collection'', ''url'', ''host'', ''title'', ''body'', ''indexed_at'']"

definition doc_fields_of :: "nat list \<Rightarrow> doc_fields" where
  "doc_fields_of fs =
     \<lparr>df_collection = fs ! 0, df_url = fs ! 1, df_host = fs ! 2, df_title = fs ! 3, df_body = fs ! 4,
      df_indexed_at = fs ! 5\<rparr>"

text \<open>None is a panic.\<close>

definition from_schema :: "index_schema \<Rightarrow> doc_fields option" where
  "from_schema s =
     (case require_fields s writer_fields of Inl _ \<Rightarrow> None | Inr fs \<Rightarrow> Some (doc_fields_of fs))"

section \<open>Opening the index and its two sides\<close>

text \<open>
  What the directory does: whether it can be made, whether \<open>meta.json\<close> can be opened, and whether an index can be
  created, with what a creation that fails leaves. The directory is the schema in its \<open>meta.json\<close>, when there is one.
\<close>

record dir_io =
  io_mkdir :: bool
  io_open :: bool
  io_create :: bool
  io_partial :: "index_schema option"

datatype open_error = CreateDirFailed | OpenExistingFailed | CreateIndexFailed

definition open_or_create ::
  "dir_io \<Rightarrow> index_schema option \<Rightarrow> index_schema option \<times> (open_error + index_schema)" where
  "open_or_create d dir =
     (if \<not> io_mkdir d then (dir, Inl CreateDirFailed)
      else
        (case dir of
           Some s \<Rightarrow> (dir, if io_open d then Inr s else Inl OpenExistingFailed)
         | None \<Rightarrow> if io_create d then (Some build, Inr build) else (io_partial d, Inl CreateIndexFailed)))"

text \<open>The handles of the writer; \<open>heap\<close> says whether tantivy gives the writer its memory and its lock.\<close>

definition missing_field_message :: "string \<Rightarrow> message" where
  "missing_field_message name = Msg (''field '' @ [CHR 0x27] @ name @ [CHR 0x27] @ '' not found in schema'')"

definition writer_open :: "index_schema \<Rightarrow> bool \<Rightarrow> doc_fields crawl_result" where
  "writer_open s heap =
     (case require_fields s writer_fields of
        Inl name \<Rightarrow> Inl (OtherError (missing_field_message name))
      | Inr fs \<Rightarrow> if heap then Inr (doc_fields_of fs) else Inl TantivyError)"

record searcher =
  se_title :: nat
  se_body :: nat
  se_url :: nat
  se_collection :: nat
  se_timestamp :: nat

definition F_TITLE :: string where "F_TITLE = ''title''"
definition F_BODY :: string where "F_BODY = ''body''"
definition F_URL :: string where "F_URL = ''url''"
definition F_COLLECTION :: string where "F_COLLECTION = ''collection''"
definition F_TIMESTAMP :: string where "F_TIMESTAMP = ''indexed_at''"

datatype searcher_error = MissingField string | ReaderFailed

definition searcher_open :: "index_schema \<Rightarrow> bool \<Rightarrow> searcher_error + searcher" where
  "searcher_open s reader =
     (case require_fields s [F_TITLE, F_BODY, F_URL, F_COLLECTION, F_TIMESTAMP] of
        Inl name \<Rightarrow> Inl (MissingField name)
      | Inr fs \<Rightarrow>
          if reader then
            Inr \<lparr>se_title = fs ! 0, se_body = fs ! 1, se_url = fs ! 2, se_collection = fs ! 3, se_timestamp = fs ! 4\<rparr>
          else Inl ReaderFailed)"

section \<open>Searching without snippets\<close>

record raw_hit =
  raw_title :: string
  raw_url :: string
  raw_body :: string
  raw_timestamp :: int
  raw_bm25 :: flt

definition raw_hit_of :: "('q, 'd) tantivy \<Rightarrow> flt \<times> 'd \<Rightarrow> raw_hit" where
  "raw_hit_of T sd =
     \<lparr>raw_title = first_text T (snd sd) FTitle, raw_url = first_text T (snd sd) FUrl,
      raw_body = first_text T (snd sd) FBody, raw_timestamp = first_i64 T (snd sd) FTimestamp, raw_bm25 = fst sd\<rparr>"

definition searcher_search ::
  "('q, 'd) tantivy \<Rightarrow> string \<Rightarrow> string option \<Rightarrow> nat \<Rightarrow> (search_error + raw_hit list) option" where
  "searcher_search T query_text collection limit =
     (case parse_query T (rewrite_site_filter query_text) of
        None \<Rightarrow> Some (Inl QueryParseError)
      | Some user_q \<Rightarrow>
          (let q = (case collection of None \<Rightarrow> user_q | Some c \<Rightarrow> must_collection T user_q c) in
           if limit = 0 then None
           else (case top_docs T q limit of
                   None \<Rightarrow> Some (Inl IndexError)
                 | Some docs \<Rightarrow> Some (Inr (map (raw_hit_of T) docs)))))"

section \<open>Facts\<close>

lemma get_field_Some: "get_field s name = Some i \<Longrightarrow> i < length s \<and> fst (s ! i) = name"
  by (auto simp: get_field_def find_Some_iff)

lemma get_field_None: "get_field s name = None \<longleftrightarrow> name \<notin> fst ` set s"
proof -
  have "name \<in> set (map fst s) \<longleftrightarrow> (\<exists>i<length s. fst (s ! i) = name)" unfolding in_set_conv_nth by auto
  moreover have "get_field s name = None \<longleftrightarrow> \<not> (\<exists>i<length s. fst (s ! i) = name)"
    by (auto simp: get_field_def find_None_iff)
  ultimately show ?thesis by simp
qed

lemma require_fields_Inr:
  "require_fields s names = Inr fs \<longleftrightarrow> map (get_field s) names = map Some fs"
proof (induction names arbitrary: fs)
  case (Cons name names)
  show ?case
  proof (cases "require_fields s names")
    case (Inl e)
    then have "map (get_field s) names \<noteq> map Some zs" for zs using Cons.IH by (metis sum.distinct(1))
    then show ?thesis using Inl by (auto split: option.split simp: Cons_eq_map_conv)
  next
    case (Inr zs)
    then have "map (get_field s) names = map Some zs" using Cons.IH by blast
    then show ?thesis using Inr by (auto split: option.split simp: Cons_eq_map_conv)
  qed
qed auto

lemma require_fields_Inl:
  "require_fields s names = Inl e \<Longrightarrow> e \<in> set names \<and> get_field s e = None"
  by (induction names) (auto split: option.splits sum.splits)

lemma require_fields_ok:
  assumes "set names \<subseteq> fst ` set s"
  obtains fs where "require_fields s names = Inr fs" "map (get_field s) names = map Some fs"
proof (cases "require_fields s names")
  case (Inl e)
  then show thesis using require_fields_Inl [OF Inl] assms by (auto simp: get_field_None)
next
  case (Inr fs)
  then show thesis by (intro that) (simp_all add: require_fields_Inr)
qed

lemma writer_open_iff:
  "(\<exists>w. writer_open s True = Inr w) \<longleftrightarrow> set writer_fields \<subseteq> fst ` set s"
proof
  assume "\<exists>w. writer_open s True = Inr w"
  then obtain fs where fs: "map (get_field s) writer_fields = map Some fs"
    by (auto simp: writer_open_def require_fields_Inr split: sum.splits)
  then have "get_field s n \<noteq> None" if "n \<in> set writer_fields" for n
    using that by (metis (no_types, lifting) in_set_conv_nth length_map nth_map option.distinct(1))
  then show "set writer_fields \<subseteq> fst ` set s" by (auto simp: get_field_None)
next
  assume "set writer_fields \<subseteq> fst ` set s"
  then obtain fs where "require_fields s writer_fields = Inr fs" by (rule require_fields_ok)
  then show "\<exists>w. writer_open s True = Inr w" by (simp add: writer_open_def)
qed

lemma get_field_distinct: "get_field s a = Some i \<Longrightarrow> get_field s b = Some i \<Longrightarrow> a = b"
  using get_field_Some by blast

text \<open>
  The searcher reads the fields the writer writes. Any index the indexer can open the searcher can open too; each of the
  searcher's five fields is the writer's field of the same name; and no two fields of the writer are the same one.
\<close>

theorem reader_reads_writer_fields:
  assumes "writer_open s True = Inr w"
  shows "\<exists>r. searcher_open s True = Inr r \<and> se_title r = df_title w \<and> se_body r = df_body w \<and> se_url r = df_url w \<and>
      se_collection r = df_collection w \<and> se_timestamp r = df_indexed_at w"
    and "distinct [df_collection w, df_url w, df_host w, df_title w, df_body w, df_indexed_at w]"
    and "from_schema s = Some w"
proof -
  obtain fs where req: "require_fields s writer_fields = Inr fs" and w: "w = doc_fields_of fs"
    using assms by (auto simp: writer_open_def split: sum.splits)
  have fs: "map (get_field s) writer_fields = map Some fs" using req by (simp add: require_fields_Inr)
  have at: "get_field s (writer_fields ! i) = Some (fs ! i)" if "i < length writer_fields" for i
    using that fs by (metis length_map nth_map)
  have fields: "get_field s ''collection'' = Some (fs ! 0)" "get_field s ''url'' = Some (fs ! 1)"
    "get_field s ''host'' = Some (fs ! 2)" "get_field s ''title'' = Some (fs ! 3)" "get_field s ''body'' = Some (fs ! 4)"
    "get_field s ''indexed_at'' = Some (fs ! 5)"
    using at [of 0] at [of 1] at [of 2] at [of 3] at [of 4] at [of 5] by (simp_all add: writer_fields_def)
  show "\<exists>r. searcher_open s True = Inr r \<and> se_title r = df_title w \<and> se_body r = df_body w \<and> se_url r = df_url w \<and>
      se_collection r = df_collection w \<and> se_timestamp r = df_indexed_at w"
    by (simp add: searcher_open_def F_TITLE_def F_BODY_def F_URL_def F_COLLECTION_def F_TIMESTAMP_def fields w doc_fields_of_def)
  show "from_schema s = Some w"
    using req by (simp add: from_schema_def w)
  have ne: "fs ! i \<noteq> fs ! j" if "writer_fields ! i \<noteq> writer_fields ! j" "i < length writer_fields"
    "j < length writer_fields" for i j
    using get_field_distinct at that by metis
  show "distinct [df_collection w, df_url w, df_host w, df_title w, df_body w, df_indexed_at w]"
    by (simp add: w doc_fields_of_def ne writer_fields_def)
qed

text \<open>
  An index this program made can be used: the directory it leaves opens again with the same schema, and the writer and
  the searcher both open on it.
\<close>

theorem created_index_reopens:
  assumes "open_or_create d None = (dir, Inr s)" and "io_mkdir d'" "io_open d'"
  shows "open_or_create d' dir = (dir, Inr s)" and "\<exists>w. writer_open s True = Inr w"
    and "\<exists>r. searcher_open s True = Inr r"
proof -
  have s: "dir = Some build" "s = build" using assms(1) by (auto simp: open_or_create_def split: if_splits)
  show "open_or_create d' dir = (dir, Inr s)" using assms(2,3) by (simp add: open_or_create_def s)
  have "set writer_fields \<subseteq> fst ` set build" by (simp add: writer_fields_def build_def)
  then show w: "\<exists>w. writer_open s True = Inr w" by (simp add: writer_open_iff s)
  then show "\<exists>r. searcher_open s True = Inr r" using reader_reads_writer_fields(1) by blast
qed

text \<open>
  The converse fails: on an index without the host field the searcher opens, so the program starts and answers searches,
  and the writer does not, so the indexer task ends at once.
\<close>

theorem index_without_host_is_read_only:
  assumes "fst ` set s = set writer_fields - {''host''}"
  shows "(\<exists>r. searcher_open s True = Inr r) \<and> writer_open s heap = Inl (OtherError (missing_field_message ''host''))"
proof
  have "set [F_TITLE, F_BODY, F_URL, F_COLLECTION, F_TIMESTAMP] \<subseteq> fst ` set s"
    unfolding assms by (simp add: writer_fields_def F_TITLE_def F_BODY_def F_URL_def F_COLLECTION_def F_TIMESTAMP_def)
  then obtain fs where "require_fields s [F_TITLE, F_BODY, F_URL, F_COLLECTION, F_TIMESTAMP] = Inr fs"
    by (rule require_fields_ok)
  then show "\<exists>r. searcher_open s True = Inr r" by (simp add: searcher_open_def)
  have "get_field s ''host'' = None" "get_field s ''collection'' \<noteq> None" "get_field s ''url'' \<noteq> None"
    unfolding get_field_None assms by (simp_all add: writer_fields_def)
  then show "writer_open s heap = Inl (OtherError (missing_field_message ''host''))"
    by (auto simp: writer_open_def writer_fields_def)
qed

text \<open>The search with snippets finds the hits of the plain search, in the same order.\<close>

theorem snippets_only_add_text:
  assumes "search_with_snippets T query_text collection limit = Some (Inr hits)"
  shows "\<exists>raws. searcher_search T query_text collection limit = Some (Inr raws) \<and>
    map (\<lambda>h. (rh_title h, rh_url h, rh_timestamp h, rh_bm25 h)) hits =
      map (\<lambda>h. (raw_title h, raw_url h, raw_timestamp h, raw_bm25 h)) raws"
  using assms
  by (auto simp: search_with_snippets_def searcher_search_def Let_def hit_of_def raw_hit_of_def
      split: option.splits if_splits)

end
