(* ===== verification/Pages.thy ===== *)
theory Pages
  imports Protocol Search
begin

text \<open>
  \<open>api/ui.rs\<close> and the page of \<open>api/mod.rs\<close>: the pages compiled into the program. The embedded files and the guess of
  their types are arguments.
\<close>

definition page_response :: "string \<Rightarrow> string \<Rightarrow> string response" where
  "page_response content_type body = \<lparr>resp_status = 200, resp_headers = [(''content-type'', content_type)], resp_body = body\<rparr>"

definition serve_asset :: "(string \<Rightarrow> string option) \<Rightarrow> (string \<Rightarrow> string) \<Rightarrow> string \<Rightarrow> string response" where
  "serve_asset assets mime name =
     (case assets name of
        Some body \<Rightarrow> page_response (mime name) body
      | None \<Rightarrow> \<lparr>resp_status = 404, resp_headers = [], resp_body = ''not found''\<rparr>)"

definition serve_index :: "(string \<Rightarrow> string option) \<Rightarrow> (string \<Rightarrow> string) \<Rightarrow> string response" where
  "serve_index assets mime = serve_asset assets mime ''index.html''"

definition serve_static :: "(string \<Rightarrow> string option) \<Rightarrow> (string \<Rightarrow> string) \<Rightarrow> string \<Rightarrow> string response" where
  "serve_static assets mime p = serve_asset assets mime p"

definition admin_page :: "string \<Rightarrow> string response" where
  "admin_page admin_html = page_response ''text/html; charset=utf-8'' admin_html"

definition text_lines :: "string list \<Rightarrow> string" where
  "text_lines ls = concat (map (\<lambda>l. l @ [CHR 0x0A]) ls)"

definition serve_robots :: "string response" where
  "serve_robots =
     page_response ''text/plain; charset=utf-8''
       (text_lines [''User-agent: *'', ''Allow: /$'', ''Disallow: /api/'', ''Disallow: /admin'', ''Disallow: /mcp'',
          ''Disallow: /*?''])"

definition quoted :: "string \<Rightarrow> string" where
  "quoted s = CHR 0x22 # s @ [CHR 0x22]"

definition opensearch_text :: "string \<Rightarrow> string" where
  "opensearch_text base =
     text_lines
       [''<?xml version='' @ quoted ''1.0'' @ '' encoding='' @ quoted ''UTF-8'' @ ''?>'',
        ''<OpenSearchDescription xmlns='' @ quoted ''http://a9.com/-/spec/opensearch/1.1/'' @ ''>'',
        ''  <ShortName>Community Search</ShortName>'',
        ''  <Description>Self-hosted, federated peer-to-peer search</Description>'',
        ''  <InputEncoding>UTF-8</InputEncoding>'',
        ''  <Url type='' @ quoted ''text/html'' @ '' method='' @ quoted ''get'' @ '' template='' @
          quoted (base @ ''/?q={searchTerms}'') @ ''/>'',
        ''  <Url type='' @ quoted ''application/json'' @ '' method='' @ quoted ''get'' @ '' template='' @
          quoted (base @ ''/api/search?q={searchTerms}'') @ ''/>'',
        ''</OpenSearchDescription>'']"

definition serve_opensearch :: "string \<Rightarrow> string response" where
  "serve_opensearch self_url =
     page_response ''application/opensearchdescription+xml''
       (opensearch_text (html_escape (trim_end_matches (CHR ''/'') self_url)))"

section \<open>Facts\<close>

definition markup :: "char \<Rightarrow> bool" where
  "markup c \<longleftrightarrow> c \<in> {CHR ''<'', CHR ''>'', CHR 0x22}"

lemma filter_markup_escape [simp]: "filter markup (html_escape s) = []"
  by (induction s) (simp_all add: markup_def)

lemma filter_quoted: "filter markup (quoted s) = CHR 0x22 # filter markup s @ [CHR 0x22]"
  by (simp add: quoted_def markup_def)

lemma filter_opensearch_text:
  assumes "filter markup base = []"
  shows "filter markup (opensearch_text base) = filter markup (opensearch_text [])"
  by (simp only: opensearch_text_def text_lines_def list.map concat.simps filter_append filter_quoted assms
      filter.simps(1))

text \<open>
  The configured address cannot change the markup of the OpenSearch document: whatever it is, the angle brackets and
  quotation marks of the document are those of the document for no address at all.
\<close>

theorem opensearch_markup_fixed:
  "filter markup (resp_body (serve_opensearch self_url)) = filter markup (resp_body (serve_opensearch []))"
  using filter_opensearch_text [OF filter_markup_escape]
  by (simp add: serve_opensearch_def page_response_def trim_end_matches_def)

text \<open>Pages are answered with their type, and a missing asset with 404; nothing else.\<close>

lemma serve_asset_status:
  "resp_status (serve_asset assets mime name) = (if assets name = None then 404 else 200)"
  by (simp add: serve_asset_def page_response_def split: option.split)

end
