(* ===== verification/Page_Steps.thy ===== *)
theory Page_Steps
  imports Page
begin

text \<open>
  \<open>crawler/page.rs\<close> as other tasks see it: the crawl of a page lets go of the thread while it waits for robots.txt, for
  the page, and for room in the channel to the indexer. Between two waits it runs undisturbed. The segments are here,
  each a function on the shared state, and one after the other they are \<open>crawl_page\<close>.
\<close>

section \<open>The segments\<close>

text \<open>What is kept of the response while the job waits to be sent.\<close>

record fetched_page =
  fp_status :: nat
  fp_body :: string
  fp_etag :: "string option"
  fp_last_modified :: "string option"
  fp_final_url :: string

text \<open>The answer of robots.txt and the row read before the request: both are there when the request goes out.\<close>

definition page_open ::
  "('r, 'j, 'z) page_env_scheme \<Rightarrow> page_context \<Rightarrow> string \<Rightarrow> ('r, 'j) crawl_state \<Rightarrow>
   ('r, 'j) crawl_state \<times> page_row option crawl_result" where
  "page_open E ctx u st =
     (let (rs, ok) = allowed (crawl_env.truncate E) u (cs_robots st); st1 = st\<lparr>cs_robots := rs\<rparr> in
      case ok of
        Inl e \<Rightarrow> (st1, Inl e)
      | Inr False \<Rightarrow> (st1, Inl (RobotsDisallowed u))
      | Inr True \<Rightarrow> (st1, Inr (page_get_by_url (pc_collection_id ctx) u (cs_db st1))))"

text \<open>The last segment: the row and the links, under one lock.\<close>

definition page_save ::
  "('r, 'j, 'z) page_env_scheme \<Rightarrow> page_context \<Rightarrow> string \<Rightarrow> int \<Rightarrow> page_row option \<Rightarrow> bool \<Rightarrow> fetched_page \<Rightarrow>
   ('r, 'j) crawl_state \<Rightarrow> ('r, 'j) crawl_state \<times> page_result crawl_result" where
  "page_save E ctx u now prior indexed f st =
     (let job = page_job E ctx u now (fp_body f) (fp_final_url f);
          extracted = extract_links (ce_url E) (wl_lowercase (ce_web E)) (ce_html E) (fp_body f) (fp_final_url f);
          row = crawled_row ctx u prior (fp_etag f) (fp_last_modified f) (Some (ij_content_hash job))
            (int (fp_status f)) now;
          found = (case redirect_target (ce_url E) ctx u (fp_final_url f) of None \<Rightarrow> [] | Some c \<Rightarrow> [c]) @
            (case canonical_target E ctx u (fp_body f) (fp_final_url f) of None \<Rightarrow> [] | Some c \<Rightarrow> [c]);
          (st1, saved) = save_row E row st in
      case saved of
        Inl e \<Rightarrow> (st1, Inl e)
      | Inr _ \<Rightarrow>
          (case classify_links E ctx u now extracted found st1 of
             (st2, Inl e) \<Rightarrow> (st2, Inl e)
           | (st2, Inr links) \<Rightarrow>
               (st2, Inr \<lparr>pr_in_prefix_links = links, pr_indexed = indexed, pr_not_modified = False\<rparr>)))"

datatype page_progress = PageEnded "page_result crawl_result" | PageWaits fetched_page

text \<open>
  From the response to the next wait: the end, when there is nothing to send, or the job counted as in flight and
  waiting for room in the channel.
\<close>

definition page_fetch ::
  "('r, 'j, 'z) page_env_scheme \<Rightarrow> page_context \<Rightarrow> string \<Rightarrow> int \<Rightarrow> page_row option \<Rightarrow> ('r, 'j) crawl_state \<Rightarrow>
   ('r, 'j) crawl_state \<times> page_progress" where
  "page_fetch E ctx u now prior st =
     (let (st1, outcome) = fetch_page E u prior st in
      case outcome of
        Inl e \<Rightarrow> (st1, PageEnded (Inl e))
      | Inr (RateLimited retry_after) \<Rightarrow> (st1, PageEnded (Inl (RateLimitedError retry_after)))
      | Inr NotModified \<Rightarrow> map_prod id PageEnded (unchanged_page E ctx u now prior 304 True st1)
      | Inr (OtherStatus status) \<Rightarrow> map_prod id PageEnded (unchanged_page E ctx u now prior status False st1)
      | Inr (Fresh status body etag last_modified final_url) \<Rightarrow>
          (let f = \<lparr>fp_status = status, fp_body = body, fp_etag = etag, fp_last_modified = last_modified,
                    fp_final_url = final_url\<rparr> in
           if Option.bind prior p_indexed_content_hash =
              Some (ij_content_hash (page_job E ctx u now body final_url))
           then map_prod id PageEnded (page_save E ctx u now prior False f st1)
           else (st1\<lparr>cs_inflight := cs_inflight st1 + 1\<rparr>, PageWaits f)))"

text \<open>The send, when there is room or the channel is closed.\<close>

definition page_send ::
  "('r, 'j, 'z) page_env_scheme \<Rightarrow> page_context \<Rightarrow> string \<Rightarrow> int \<Rightarrow> fetched_page \<Rightarrow> ('r, 'j) crawl_state \<Rightarrow>
   ('r, 'j) crawl_state \<times> unit crawl_result" where
  "page_send E ctx u now f st =
     (if cs_channel_open st
      then (st\<lparr>cs_jobs := cs_jobs st @ [page_job E ctx u now (fp_body f) (fp_final_url f)]\<rparr>, Inr ())
      else (st\<lparr>cs_inflight := cs_inflight st - 1\<rparr>, Inl (OtherError (LibText ''indexer channel closed''))))"

section \<open>One after the other\<close>

definition page_run ::
  "('r, 'j, 'z) page_env_scheme \<Rightarrow> page_context \<Rightarrow> string \<Rightarrow> int \<Rightarrow> ('r, 'j) crawl_state \<Rightarrow>
   ('r, 'j) crawl_state \<times> page_result crawl_result" where
  "page_run E ctx u now st =
     (case page_open E ctx u st of
        (st1, Inl e) \<Rightarrow> (st1, Inl e)
      | (st1, Inr prior) \<Rightarrow>
          (case page_fetch E ctx u now prior st1 of
             (st2, PageEnded r) \<Rightarrow> (st2, r)
           | (st2, PageWaits f) \<Rightarrow>
               (case page_send E ctx u now f st2 of
                  (st3, Inl e) \<Rightarrow> (st3, Inl e)
                | (st3, Inr _) \<Rightarrow> page_save E ctx u now prior True f st3)))"

lemma fresh_page_segments:
  "fresh_page E ctx u now prior s b et lm final st =
     (let f = \<lparr>fp_status = s, fp_body = b, fp_etag = et, fp_last_modified = lm, fp_final_url = final\<rparr> in
      if Option.bind prior p_indexed_content_hash = Some (ij_content_hash (page_job E ctx u now b final))
      then page_save E ctx u now prior False f st
      else
        (case page_send E ctx u now f (st\<lparr>cs_inflight := cs_inflight st + 1\<rparr>) of
           (st1, Inl e) \<Rightarrow> (st1, Inl e)
         | (st1, Inr _) \<Rightarrow> page_save E ctx u now prior True f st1))"
  by (simp add: fresh_page_def page_send_def send_job_def page_save_def Let_def)

lemma crawl_page_segments: "crawl_page E u ctx now st = page_run E ctx u now st"
proof -
  obtain rs ok where al: "allowed (crawl_env.truncate E) u (cs_robots st) = (rs, ok)" by fastforce
  let ?st1 = "st\<lparr>cs_robots := rs\<rparr>"
  let ?prior = "page_get_by_url (pc_collection_id ctx) u (cs_db st)"
  obtain st2 f where ft: "fetch_page E u ?prior ?st1 = (st2, f)" by fastforce
  have fetched: "(case page_fetch E ctx u now ?prior ?st1 of
        (s2, PageEnded r) \<Rightarrow> (s2, r)
      | (s2, PageWaits g) \<Rightarrow>
          (case page_send E ctx u now g s2 of
             (s3, Inl e) \<Rightarrow> (s3, Inl e) | (s3, Inr _) \<Rightarrow> page_save E ctx u now ?prior True g s3)) =
     (case f of
        Inl e \<Rightarrow> (st2, Inl e)
      | Inr (RateLimited ra) \<Rightarrow> (st2, Inl (RateLimitedError ra))
      | Inr NotModified \<Rightarrow> unchanged_page E ctx u now ?prior 304 True st2
      | Inr (OtherStatus s) \<Rightarrow> unchanged_page E ctx u now ?prior s False st2
      | Inr (Fresh s b et lm fin) \<Rightarrow> fresh_page E ctx u now ?prior s b et lm fin st2)"
    unfolding page_fetch_def ft prod.case Let_def
    by (cases f) (auto simp: map_prod_def fresh_page_segments Let_def split: fetch_outcome.split prod.split)
  show ?thesis
  proof (cases ok)
    case (Inl e)
    then show ?thesis by (simp add: crawl_page_def page_run_def page_open_def al)
  next
    case (Inr b)
    then show ?thesis
      by (cases b) (simp_all add: crawl_page_def page_run_def page_open_def al fetched ft Let_def)
  qed
qed

section \<open>What a segment leaves alone\<close>

text \<open>The hashes the indexer has marked as committed: collection, URL and hash.\<close>

definition mark_row :: "page_row \<Rightarrow> string \<times> string \<times> string option" where
  "mark_row p = (p_collection_id p, p_url p, p_indexed_content_hash p)"

definition marks :: "'j content_db \<Rightarrow> (string \<times> string \<times> string) set" where
  "marks db = {(c, u, h). (c, u, Some h) \<in> mark_row ` set (pages db)}"

lemma prior_mark:
  assumes "page_get_by_url c u db = Some row" and "p_indexed_content_hash row = Some h"
  shows "(c, u, h) \<in> marks db"
  using assms by (force simp: page_get_by_url_def marks_def mark_row_def page_key_def dest!: find_by_SomeD)

text \<open>No segment touches the rows of the admin, nor what the indexer has marked.\<close>

definition quiet :: "('r, 'j) crawl_state \<Rightarrow> ('r, 'j) crawl_state \<Rightarrow> bool" where
  "quiet st st' \<longleftrightarrow>
     targets (cs_db st') = targets (cs_db st) \<and> collections (cs_db st') = collections (cs_db st) \<and>
     marks (cs_db st') = marks (cs_db st) \<and> cs_channel_open st' = cs_channel_open st"

lemma quiet_refl [simp]: "quiet st st"
  and quiet_trans: "quiet a b \<Longrightarrow> quiet b c \<Longrightarrow> quiet a c"
  by (simp_all add: quiet_def)

lemma quiet_robots [simp]:
  "quiet (st\<lparr>cs_robots := rs\<rparr>) st' = quiet st st'" "quiet st (st'\<lparr>cs_robots := rs\<rparr>) = quiet st st'"
  "quiet st (st'\<lparr>cs_inflight := n\<rparr>) = quiet st st'" "quiet st (st'\<lparr>cs_jobs := js\<rparr>) = quiet st st'"
  by (simp_all add: quiet_def)

lemma page_upsert_marks: "marks (fst (page_upsert nid row db)) = marks db"
proof -
  let ?new = "row\<lparr>p_id := nid, p_indexed_content_hash := None\<rparr>"
  have "map mark_row (update_where (\<lambda>r. page_key r = page_key ?new) (page_overwrite row) (pages db)) =
      map mark_row (pages db)"
    by (rule map_update_where_same) (simp add: mark_row_def page_overwrite_def)
  from this [THEN arg_cong, of set]
  have "marks (db\<lparr>pages := upsert_row page_key ?new (page_overwrite row) (pages db)\<rparr>) = marks db"
    by (auto simp: marks_def upsert_row_def mark_row_def)
  then show ?thesis by (simp add: page_upsert_def Let_def)
qed

lemma save_row_quiet: "quiet st (fst (save_row E row st)) \<and> same_jobs st (fst (save_row E row st))"
proof -
  obtain db r where up: "page_upsert (next_rowid (map p_id (pages (cs_db st))) + int (pe_gap E (cs_fresh st))) row
      (cs_db st) = (db, r)" by fastforce
  have "fst (save_row E row st) = st\<lparr>cs_db := db, cs_fresh := cs_fresh st + 1\<rparr>" by (simp add: save_row_def up)
  moreover have "marks db = marks (cs_db st)" using page_upsert_marks up by (metis fst_conv)
  ultimately show ?thesis using page_upsert_row [OF up] by (simp add: quiet_def same_jobs_def)
qed

lemma classify_links_quiet:
  assumes "\<forall>l \<in> set acc. own_link (ce_url E) ctx l"
  shows "quiet st (fst (classify_links E ctx u now links acc st)) \<and>
    same_jobs st (fst (classify_links E ctx u now links acc st))"
  using classify_links_frame [of E ctx u now links acc st, OF surjective_pairing assms]
  by (simp add: quiet_def same_base_def marks_def)

lemma found_own:
  "\<forall>l \<in> set ((case redirect_target (ce_url E) ctx u final of None \<Rightarrow> [] | Some c \<Rightarrow> [c]) @
     (case canonical_target E ctx u body final of None \<Rightarrow> [] | Some c \<Rightarrow> [c])). own_link (ce_url E) ctx l"
  using redirect_own canonical_own [of E ctx u body final] by (auto split: option.splits)

lemma same_jobs_both: "quiet a b \<and> same_jobs a b \<Longrightarrow> quiet b c \<and> same_jobs b c \<Longrightarrow> quiet a c \<and> same_jobs a c"
  using quiet_trans same_jobs_trans by blast

text \<open>The two places where the last segment can end.\<close>

lemma page_save_ends:
  "\<exists>row links found. (\<forall>l \<in> set found. own_link (ce_url E) ctx l) \<and>
     (fst (page_save E ctx u now prior ix f st) = fst (save_row E row st) \<or>
      fst (page_save E ctx u now prior ix f st) =
        fst (classify_links E ctx u now links found (fst (save_row E row st))))"
proof -
  let ?found = "(case redirect_target (ce_url E) ctx u (fp_final_url f) of None \<Rightarrow> [] | Some c \<Rightarrow> [c]) @
    (case canonical_target E ctx u (fp_body f) (fp_final_url f) of None \<Rightarrow> [] | Some c \<Rightarrow> [c])"
  have "\<exists>row links. fst (page_save E ctx u now prior ix f st) = fst (save_row E row st) \<or>
      fst (page_save E ctx u now prior ix f st) =
        fst (classify_links E ctx u now links ?found (fst (save_row E row st)))"
    unfolding page_save_def Let_def by (simp only: case_prod_unfold split: sum.split) auto
  then show ?thesis using found_own [of E ctx u "fp_final_url f" "fp_body f"] by blast
qed

lemma page_save_quiet:
  "quiet st (fst (page_save E ctx u now prior ix f st)) \<and> same_jobs st (fst (page_save E ctx u now prior ix f st))"
proof -
  obtain row links found where own: "\<forall>l \<in> set found. own_link (ce_url E) ctx l"
    and ends: "fst (page_save E ctx u now prior ix f st) = fst (save_row E row st) \<or>
      fst (page_save E ctx u now prior ix f st) =
        fst (classify_links E ctx u now links found (fst (save_row E row st)))"
    using page_save_ends [of E ctx u now prior ix f st] by blast
  from ends show ?thesis
    using save_row_quiet [of st E row] same_jobs_both [OF save_row_quiet classify_links_quiet [OF own]] by metis
qed

lemma unchanged_page_quiet:
  "quiet st (fst (unchanged_page E ctx u now prior s nm st)) \<and> same_jobs st (fst (unchanged_page E ctx u now prior s nm st))"
  using save_row_quiet by (auto simp: unchanged_page_def Let_def case_prod_unfold split: sum.split)

lemma page_open_quiet:
  "quiet st (fst (page_open E ctx u st)) \<and> same_jobs st (fst (page_open E ctx u st)) \<and>
   cs_db (fst (page_open E ctx u st)) = cs_db st"
  by (auto simp: page_open_def same_jobs_def case_prod_unfold Let_def split: sum.split bool.split)

lemma page_fetch_quiet:
  assumes "page_fetch E ctx u now prior st = (st', r)"
  shows "quiet st st' \<and> cs_jobs st' = cs_jobs st \<and>
    cs_inflight st' = cs_inflight st + (case r of PageWaits _ \<Rightarrow> 1 | PageEnded _ \<Rightarrow> 0)"
proof -
  obtain sent f where ft: "fetch_page E u prior st = (st\<lparr>cs_robots := (cs_robots st)\<lparr>rs_sent := sent\<rparr>\<rparr>, f)"
    by (simp add: fetch_page_def case_prod_unfold Let_def)
  let ?st1 = "st\<lparr>cs_robots := (cs_robots st)\<lparr>rs_sent := sent\<rparr>\<rparr>"
  have base: "quiet st ?st1" "same_jobs st ?st1" by (simp_all add: same_jobs_def)
  note seg = page_save_quiet [of ?st1 E ctx u now prior] unchanged_page_quiet [of ?st1 E ctx u now prior]
  from assms show ?thesis
    unfolding page_fetch_def ft prod.case Let_def
    using base seg
    by (auto simp: same_jobs_def map_prod_def case_prod_unfold split: sum.splits fetch_outcome.splits if_splits)
qed

lemma page_send_quiet:
  assumes "page_send E ctx u now f st = (st', r)"
  shows "quiet st st' \<and> cs_db st' = cs_db st \<and>
    (case r of
       Inl _ \<Rightarrow> cs_jobs st' = cs_jobs st \<and> cs_inflight st' = cs_inflight st - 1
     | Inr _ \<Rightarrow> cs_jobs st' = cs_jobs st @ [page_job E ctx u now (fp_body f) (fp_final_url f)] \<and>
         cs_inflight st' = cs_inflight st)"
  using assms by (auto simp: page_send_def split: if_splits)

end
