(* ===== verification/Server.thy ===== *)
theory Server
  imports Routing Startup Admin_Content Admin_Peers Ranking_Config Mcp Scheduler Export_Import Pages Page_Steps
begin

text \<open>
  The program as a whole: \<open>AppState\<close> of \<open>api/public.rs\<close> with the tables behind it and the tasks \<open>main.rs\<close> starts. One
  record holds all of it; every component works on its own view of the record. A step is a request answered through
  the router, or a step of the background: a tick of the scheduler, a segment of a page, the end of a crawl, a turn of the
  indexer, a health check, a gossip exchange, the late answer of a peer.
\<close>

section \<open>The state and its views\<close>

text \<open>
  A page that a task has open: it waits for the response, for room in the channel to the indexer, or for the tables;
  with the row that was read before the request.
\<close>

datatype page_stage = Fetching | Sending fetched_page | Saving fetched_page

record open_page =
  og_task :: "due_target \<times> int"
  og_url :: string
  og_prior :: "page_row option"
  og_stage :: page_stage

fun is_sending :: "page_stage \<Rightarrow> bool" where
  "is_sending (Sending f) = True"
| "is_sending stage = False"

record ('r, 'x, 'j) server =
  sv_poisoned :: bool
  sv_db :: "(flt, flt, 'j, 'x) site_db"
  sv_engines :: engines
  sv_config :: config_state
  sv_queue :: "index_job list"
  sv_deletes :: "string list list"
  sv_writer :: index_writer
  sv_pending :: nat
  sv_delete_open :: bool
  sv_indexer_up :: bool
  sv_inflight :: int
  sv_paused :: bool
  sv_robots :: "'r robots_state"
  sv_fresh :: nat
  sv_running :: "string list"
  sv_tasks :: "(due_target \<times> int) list"
  sv_pages :: "open_page list"

text \<open>The jobs counted as in flight that still wait for room in the channel.\<close>

definition waiting :: "('r, 'x, 'j) server \<Rightarrow> nat" where
  "waiting sv = length (filter (\<lambda>g. is_sending (og_stage g)) (sv_pages sv))"

definition admin_of :: "nat \<Rightarrow> ('r, 'x, 'j) server \<Rightarrow> 'x admin_state" where
  "admin_of limit_bytes sv =
     \<lparr>as_db = sb_content (sv_db sv), as_poisoned = sv_poisoned sv, as_delete_queue = sv_deletes sv,
      as_queue_open = sv_indexer_up sv, as_crawl_paused = sv_paused sv, as_indexing_inflight = sv_inflight sv,
      as_max_index_bytes = limit_bytes\<rparr>"

definition put_admin :: "'x admin_state \<Rightarrow> ('r, 'x, 'j) server \<Rightarrow> ('r, 'x, 'j) server" where
  "put_admin st sv =
     sv\<lparr>sv_db := (sv_db sv)\<lparr>sb_content := as_db st\<rparr>, sv_deletes := as_delete_queue st, sv_paused := as_crawl_paused st\<rparr>"

definition put_fed :: "flt fed_db \<Rightarrow> ('r, 'x, 'j) server \<Rightarrow> ('r, 'x, 'j) server" where
  "put_fed fed sv = sv\<lparr>sv_db := (sv_db sv)\<lparr>sb_fed := fed\<rparr>\<rparr>"

definition put_ranking_rows :: "(flt, 'j) ranking_row list \<Rightarrow> ('r, 'x, 'j) server \<Rightarrow> ('r, 'x, 'j) server" where
  "put_ranking_rows rows sv = sv\<lparr>sv_db := (sv_db sv)\<lparr>sb_ranking := rows\<rparr>\<rparr>"

definition search_of :: "('r, 'x, 'j) server \<Rightarrow> ('x, 'j) search_state" where
  "search_of sv =
     \<lparr>ss_content = sb_content (sv_db sv), ss_ranking = sb_ranking (sv_db sv), ss_fed = sb_fed (sv_db sv),
      ss_poisoned = sv_poisoned sv\<rparr>"

definition site_of :: "('r, 'x, 'j) server \<Rightarrow> (flt, flt, 'j, 'x) site" where
  "site_of sv =
     \<lparr>si_poisoned = sv_poisoned sv, si_db = sv_db sv, si_inflight = sv_inflight sv, si_queue = sv_queue sv,
      si_accepts = (if sv_indexer_up sv then None else Some 0)\<rparr>"

definition put_site :: "(flt, flt, 'j, 'x) site \<Rightarrow> ('r, 'x, 'j) server \<Rightarrow> ('r, 'x, 'j) server" where
  "put_site s sv = sv\<lparr>sv_db := si_db s, sv_inflight := si_inflight s, sv_queue := si_queue s\<rparr>"

definition crawl_of :: "('r, 'x, 'j) server \<Rightarrow> ('r, 'x) crawl_state" where
  "crawl_of sv =
     \<lparr>cs_robots = sv_robots sv, cs_db = sb_content (sv_db sv), cs_inflight = sv_inflight sv, cs_jobs = sv_queue sv,
      cs_channel_open = sv_indexer_up sv, cs_fresh = sv_fresh sv\<rparr>"

definition put_crawl :: "('r, 'x) crawl_state \<Rightarrow> ('r, 'x, 'j) server \<Rightarrow> ('r, 'x, 'j) server" where
  "put_crawl c sv =
     sv\<lparr>sv_robots := cs_robots c, sv_db := (sv_db sv)\<lparr>sb_content := cs_db c\<rparr>, sv_inflight := cs_inflight c,
        sv_queue := cs_jobs c, sv_fresh := cs_fresh c\<rparr>"

definition sched_of :: "('r, 'x, 'j) server \<Rightarrow> ('r, 'x) sched" where
  "sched_of sv =
     \<lparr>sd_paused = sv_paused sv, sd_running = sv_running sv, sd_tasks = sv_tasks sv, sd_crawl = crawl_of sv\<rparr>"

definition put_sched :: "('r, 'x) sched \<Rightarrow> ('r, 'x, 'j) server \<Rightarrow> ('r, 'x, 'j) server" where
  "put_sched s sv = (put_crawl (sd_crawl s) sv)\<lparr>sv_running := sd_running s, sv_tasks := sd_tasks s\<rparr>"

text \<open>The indexer does not see the jobs that have not been sent.\<close>

definition pipe_of :: "('r, 'x, 'j) server \<Rightarrow> 'x pipeline" where
  "pipe_of sv =
     \<lparr>pl_queue = sv_queue sv, pl_deletes = sv_deletes sv,
      pl_indexer = \<lparr>ix_writer = sv_writer sv, ix_pending = sv_pending sv, ix_delete_open = sv_delete_open sv,
        ix_db = sb_content (sv_db sv), ix_inflight = sv_inflight sv - int (waiting sv)\<rparr>,
      pl_running = sv_indexer_up sv\<rparr>"

definition put_pipe :: "'x pipeline \<Rightarrow> ('r, 'x, 'j) server \<Rightarrow> ('r, 'x, 'j) server" where
  "put_pipe p sv =
     sv\<lparr>sv_queue := pl_queue p, sv_deletes := pl_deletes p, sv_writer := ix_writer (pl_indexer p),
        sv_pending := ix_pending (pl_indexer p), sv_delete_open := ix_delete_open (pl_indexer p),
        sv_db := (sv_db sv)\<lparr>sb_content := ix_db (pl_indexer p)\<rparr>, sv_inflight := ix_inflight (pl_indexer p) + int (waiting sv),
        sv_indexer_up := pl_running p\<rparr>"

section \<open>What is fixed, and what a request brings\<close>

text \<open>
  What does not change while the program runs: the token, the configuration, the libraries and codecs, the index
  operations that succeed.
\<close>

record ('r, 'x, 'j, 'v) program =
  pg_token :: string
  pg_self_url :: string
  pg_version :: string
  pg_max_index_bytes :: nat
  pg_peer_limit :: rate_limit_config
  pg_driver :: driver_config
  pg_page_env :: "('r, 'x) page_env"
  pg_codec :: "(flt, flt, 'j, 'x) codec"
  pg_ranking_json :: "(flt, 'j) ranking_json"
  pg_id_field :: "'v \<Rightarrow> int option"
  pg_value_text :: "'v \<Rightarrow> 'j"
  pg_text_value :: "'j \<Rightarrow> 'v option"
  pg_config_json :: "runtime_config \<Rightarrow> string db_result"
  pg_semver :: "string \<Rightarrow> (nat \<times> nat) option"
  pg_pretty :: "json \<Rightarrow> string"
  pg_assets :: "string \<Rightarrow> string option"
  pg_mime :: "string \<Rightarrow> string"
  pg_admin_html :: string
  pg_host :: "string \<Rightarrow> string option"
  pg_index_ok :: op_result

text \<open>
  What one request brings: the refusal of an extractor, the clocks, a fresh id, the outside of the handler, and the
  parsed values of the path, the query string and the body. An endpoint uses those it extracts. \<open>ca_before\<close> is the
  table of engines and the mutex when a handler read them before it waited for the network; \<open>ca_arrived\<close> the answers of
  peers that were recorded before a handler panicked.
\<close>

record ('q, 'd, 'x, 'j, 'v) call =
  ca_rejected :: "nat option"
  ca_now :: int
  ca_now_text :: string
  ca_uuid :: string
  ca_search :: "('q, 'd, 'j) search_env"
  ca_index_size :: "nat option"
  ca_canonical :: "string \<Rightarrow> string option"
  ca_net :: gossip_net
  ca_remote :: "string \<Rightarrow> string + collection_info list"
  ca_before :: "bool \<times> engines"
  ca_arrived :: "peer_outcome list"
  ca_import :: import_env
  ca_id :: int
  ca_url :: string
  ca_name :: "string option"
  ca_enabled :: bool
  ca_paused :: bool
  ca_secs :: int
  ca_prefix :: "string option"
  ca_filter :: "int option"
  ca_limit :: "int option"
  ca_offset :: "int option"
  ca_collection_action :: "string + collection_action"
  ca_target_action :: "string + crawl_target_action"
  ca_subscribe :: "flt subscribe_req"
  ca_config :: runtime_config
  ca_ranking :: 'v
  ca_query :: search_request
  ca_accept :: "string option"
  ca_message :: exchange_message
  ca_mcp :: json
  ca_dump :: bytes

datatype 'v answer =
    Page "string response"
  | Failed_With http_error
  | Rejected nat
  | Dropped
  | Text string
  | Done
  | Collections "collection_record list"
  | Collection "collection_record option"
  | Targets "target_list_item list"
  | Target "target_record option"
  | Outlinks "outlink_host_item list"
  | NewId int
  | Status status_response
  | Paused bool
  | Configuration runtime_config
  | Ranking 'v
  | Nodes "node_peer list"
  | RemoteCollections "collection_info list"
  | Subscriptions "flt collection_peer list"
  | Discovered "engine list"
  | Removed nat
  | Triggered trigger_response
  | Exchanged exchange_message
  | PublicCollections "collection_list_item list"
  | Found search_answer
  | McpAnswer mcp_response
  | Dump bytes
  | Report import_report

definition answer :: "('a \<Rightarrow> 'v answer) \<Rightarrow> 'a http_result \<Rightarrow> 'v answer" where
  "answer f r = (case r of Inl e \<Rightarrow> Failed_With e | Inr x \<Rightarrow> f x)"

section \<open>The handlers on the whole state\<close>

text \<open>A search that panics leaves the peers' answers it has recorded, and no response.\<close>

definition searching ::
  "('q, 'd, 'x, 'j, 'v) call \<Rightarrow> ('r, 'x, 'j) server \<Rightarrow> (('x, 'j) search_state \<times> 'v answer) option \<Rightarrow>
   ('r, 'x, 'j) server \<times> 'v answer" where
  "searching C sv r =
     (case r of
        None \<Rightarrow> (put_fed (record_outcomes (ca_now C) (ca_arrived C) (sb_fed (sv_db sv))) sv, Dropped)
      | Some (st, a) \<Rightarrow> (put_fed (ss_fed st) sv, a))"

fun public_endpoint ::
  "('r, 'x, 'j, 'v) program \<Rightarrow> ('q, 'd, 'x, 'j, 'v) call \<Rightarrow> endpoint \<Rightarrow> string \<Rightarrow> ('r, 'x, 'j) server \<Rightarrow>
   ('r, 'x, 'j) server \<times> 'v answer" where
  "public_endpoint P C ServeIndex p sv = (sv, Page (serve_index (pg_assets P) (pg_mime P)))"
| "public_endpoint P C ServeStatic p sv = (sv, Page (serve_static (pg_assets P) (pg_mime P) (drop 8 p)))"
| "public_endpoint P C AdminPage p sv = (sv, Page (admin_page (pg_admin_html P)))"
| "public_endpoint P C ServeRobots p sv = (sv, Page serve_robots)"
| "public_endpoint P C ServeOpensearch p sv = (sv, Page (serve_opensearch (pg_self_url P)))"
| "public_endpoint P C Health p sv = (sv, Done)"
| "public_endpoint P C ListCollections p sv =
     (sv, case list_public_collections (ca_search C) (search_of sv) of None \<Rightarrow> Dropped | Some xs \<Rightarrow> PublicCollections xs)"
| "public_endpoint P C SearchHandler p sv =
     searching C sv (map_option (map_prod id (answer Found))
       (search_handler (ca_search C) (ca_now C) (ca_accept C) (ca_query C) (search_of sv)))"
| "public_endpoint P C SearchGet p sv =
     searching C sv (map_option (map_prod id (answer (\<lambda>rs. Found (JsonAnswer rs))))
       (search_get (ca_search C) (ca_now C) (req_query (ca_query C)) (req_collection (ca_query C))
         (req_depth (ca_query C)) (search_of sv)))"
| "public_endpoint P C McpHandler p sv =
     searching C sv (map_option (map_prod id McpAnswer)
       (mcp_handler (pg_version P) (pg_pretty P) (ca_search C) (ca_now C) (ca_mcp C) (search_of sv)))"
| "public_endpoint P C GossipExchange p sv =
     (let (es, r) = exchange (pg_semver P) (sv_poisoned sv) (ca_now C) (ca_message C) (sv_engines sv) in
      (sv\<lparr>sv_engines := es\<rparr>, answer Exchanged r))"
| "public_endpoint P C e p sv = (sv, Rejected 404)"

fun content_endpoint ::
  "('r, 'x, 'j, 'v) program \<Rightarrow> ('q, 'd, 'x, 'j, 'v) call \<Rightarrow> endpoint \<Rightarrow> 'x admin_state \<Rightarrow> 'x admin_state \<times> 'v answer" where
  "content_endpoint P C AdminListCollections st =
     (st, answer Collections (list_collections (count_in_collection (en_index (ca_search C))) st))"
| "content_endpoint P C HandleCollections st =
     map_prod id (answer Collection) (handle_collections (ca_uuid C) (ca_now_text C) (ca_collection_action C) st)"
| "content_endpoint P C HandlePause st = map_prod id Paused (handle_pause (ca_paused C) st)"
| "content_endpoint P C ListCrawlTargets st = (st, answer Targets (list_crawl_targets st))"
| "content_endpoint P C HandleCrawlTargets st =
     map_prod id (answer Target)
       (handle_crawl_targets (ca_canonical C) (ca_uuid C) (ca_now_text C) (ca_target_action C) st)"
| "content_endpoint P C ListOutlinks st =
     (st, answer Outlinks (list_outlinks (pe_dec (pg_page_env P)) (ca_id C) (ca_limit C) (ca_offset C) st))"
| "content_endpoint P C PromoteOutlink st =
     map_prod id (answer NewId) (promote_outlink (ca_uuid C) (ca_now_text C) (ca_id C) (ca_secs C) (ca_prefix C) st)"
| "content_endpoint P C DismissOutlink st = map_prod id (answer (\<lambda>_. Done)) (dismiss_outlink (ca_id C) st)"
| "content_endpoint P C GetStatus st =
     (st, case get_status (ca_index_size C) st of None \<Rightarrow> Dropped | Some s \<Rightarrow> Status s)"
| "content_endpoint P C e st = (st, Rejected 404)"

fun peers_endpoint ::
  "('r, 'x, 'j, 'v) program \<Rightarrow> ('q, 'd, 'x, 'j, 'v) call \<Rightarrow> endpoint \<Rightarrow> bool \<Rightarrow> engines \<Rightarrow> flt fed_db \<Rightarrow> flt fed_db \<times> 'v answer" where
  "peers_endpoint P C ListNodePeers poisoned es fed = (fed, answer Nodes (list_node_peers_handler poisoned fed))"
| "peers_endpoint P C AddNodePeer poisoned es fed =
     (let (fed', r, _) = add_node_peer poisoned (ca_now C) (ca_url C) (ca_name C) fed in (fed', answer NewId r))"
| "peers_endpoint P C UpdateNodePeer poisoned es fed =
     map_prod id (answer (\<lambda>_. Done)) (update_node_peer_handler poisoned (ca_now C) (ca_id C) (ca_enabled C) fed)"
| "peers_endpoint P C DeleteNodePeer poisoned es fed =
     map_prod id (answer (\<lambda>_. Done)) (delete_node_peer_handler poisoned (ca_id C) fed)"
| "peers_endpoint P C BrowseNodeCollections poisoned es fed =
     (fed, answer RemoteCollections (browse_node_collections_handler (ca_remote C) poisoned (ca_id C) fed))"
| "peers_endpoint P C ListCollectionPeers poisoned es fed =
     (fed, answer Subscriptions (list_collection_peers_handler poisoned fed))"
| "peers_endpoint P C endpoint.AddCollectionPeer poisoned es fed =
     map_prod id (answer NewId) (add_collection_peer_handler poisoned (ca_now C) (ca_subscribe C) fed)"
| "peers_endpoint P C endpoint.DeleteCollectionPeer poisoned es fed =
     map_prod id (answer (\<lambda>_. Done)) (delete_collection_peer_handler poisoned (ca_id C) fed)"
| "peers_endpoint P C PromoteDiscovered poisoned es fed =
     map_prod id (answer (\<lambda>_. Done)) (promote_discovered poisoned (ca_now C) (ca_url C) es fed)"
| "peers_endpoint P C e poisoned es fed = (fed, Rejected 404)"

fun other_endpoint ::
  "('r, 'x, 'j, 'v) program \<Rightarrow> ('q, 'd, 'x, 'j, 'v) call \<Rightarrow> endpoint \<Rightarrow> ('r, 'x, 'j) server \<Rightarrow>
   ('r, 'x, 'j) server \<times> 'v answer" where
  "other_endpoint P C Ping sv = (sv, Text ''pong'')"
| "other_endpoint P C PutConfig sv =
     (let (st, r) = put_config (pg_config_json P) (sv_poisoned sv) (sv_config sv) (ca_config C) in
      (sv\<lparr>sv_config := st\<rparr>, answer Configuration r))"
| "other_endpoint P C GetConfig sv = (sv, Configuration (get_config (sv_config sv)))"
| "other_endpoint P C PutRanking sv =
     (let (rows, r) = put_ranking (pg_ranking_json P) (pg_id_field P) (pg_value_text P) (sv_poisoned sv) (ca_now C)
            (ca_ranking C) (sb_content (sv_db sv)) (sb_ranking (sv_db sv)) in
      (put_ranking_rows rows sv, answer (\<lambda>_. Done) r))"
| "other_endpoint P C GetRanking sv =
     (sv, answer Ranking (get_ranking (pg_text_value P) (sv_poisoned sv) (ca_id C) (sb_ranking (sv_db sv))))"
| "other_endpoint P C ListDiscovered sv = (sv, answer Discovered (list_discovered (sv_poisoned sv) (sv_engines sv)))"
| "other_endpoint P C RemoveDiscovered sv =
     (let (es, r) = remove_discovered (pg_self_url P) (sv_poisoned sv) (ca_url C) (sv_engines sv) in
      (sv\<lparr>sv_engines := es\<rparr>, answer Removed r))"
| "other_endpoint P C TriggerGossip sv =
     (let (es, r) = trigger_gossip (pg_semver P) (ca_net C) (ca_now C) (ca_url C) (fst (ca_before C)) (snd (ca_before C))
            (sv_poisoned sv) (sv_engines sv) in
      (sv\<lparr>sv_engines := es\<rparr>, answer Triggered r))"
| "other_endpoint P C HandleExport sv =
     (sv, answer Dump (handle_export (pg_codec P) (ca_now_text C) (pg_self_url P) (en_index (ca_search C)) (site_of sv)))"
| "other_endpoint P C HandleImport sv =
     (let (s, r) = handle_import (pg_codec P) (ca_import C) (ca_dump C) (site_of sv) in
      (put_site s sv, answer Report r))"
| "other_endpoint P C e sv = (sv, Rejected 404)"

definition content_endpoints :: "endpoint list" where
  "content_endpoints =
     [AdminListCollections, HandleCollections, HandlePause, ListCrawlTargets, HandleCrawlTargets, ListOutlinks,
      PromoteOutlink, DismissOutlink, GetStatus]"

definition peers_endpoints :: "endpoint list" where
  "peers_endpoints =
     [ListNodePeers, AddNodePeer, UpdateNodePeer, DeleteNodePeer, BrowseNodeCollections, ListCollectionPeers,
      endpoint.AddCollectionPeer, endpoint.DeleteCollectionPeer, PromoteDiscovered]"

definition run_handler ::
  "('r, 'x, 'j, 'v) program \<Rightarrow> ('q, 'd, 'x, 'j, 'v) call \<Rightarrow> endpoint \<Rightarrow> string \<Rightarrow> ('r, 'x, 'j) server \<Rightarrow>
   ('r, 'x, 'j) server \<times> 'v answer" where
  "run_handler P C e p sv =
     (case ca_rejected C of
        Some status \<Rightarrow> (sv, Rejected status)
      | None \<Rightarrow>
          if e \<in> set public_endpoints then public_endpoint P C e p sv
          else if e \<in> set content_endpoints then
            (let (st, a) = content_endpoint P C e (admin_of (pg_max_index_bytes P) sv) in (put_admin st sv, a))
          else if e \<in> set peers_endpoints then
            (let (fed, a) = peers_endpoint P C e (sv_poisoned sv) (sv_engines sv) (sb_fed (sv_db sv)) in
             (put_fed fed sv, a))
          else other_endpoint P C e sv)"

text \<open>Serialising an answer is an argument; the status 0 stands for a connection closed without a response.\<close>

definition respond :: "('v answer \<Rightarrow> string response) \<Rightarrow> 'v answer \<Rightarrow> string response" where
  "respond render a =
     (case a of
        Page r \<Rightarrow> r
      | Failed_With e \<Rightarrow> (render a)\<lparr>resp_status := fst e\<rparr>
      | Rejected status \<Rightarrow> (render a)\<lparr>resp_status := status\<rparr>
      | Dropped \<Rightarrow> refused 0 [] []
      | _ \<Rightarrow> render a)"

end
