(* ===== verification/Server_Run.thy ===== *)
theory Server_Run
  imports Server Index_Open
begin

text \<open>
  The runs of the whole program: how \<open>main.rs\<close> starts it, its steps, and what every run keeps. A page
  is crawled in several steps, an exchange with a peer one step of a gossip round; between two steps any other may come.
\<close>

section \<open>The start\<close>

text \<open>
  What is on disk when the program starts: the tables, the settings, the engines, the directory of the index; and the
  outside of the start. Errors of opening files and sockets end the program and are not modelled.
\<close>

record ('x, 'j) disk =
  dk_db :: "(flt, flt, 'j, 'x) site_db"
  dk_config :: app_config
  dk_engines :: engines
  dk_index :: "index_schema option"

datatype start_error = IndexNotOpened open_error | SearcherNotOpened searcher_error

definition start_server ::
  "(string \<Rightarrow> runtime_config option) \<Rightarrow> config \<Rightarrow> string \<Rightarrow> int \<Rightarrow> dir_io \<Rightarrow> bool \<Rightarrow> bool \<Rightarrow> ('x, 'j) disk \<Rightarrow>
   start_error + string \<times> ('r, 'x, 'j) server" where
  "start_server of_json cfg fresh now d heap reader disk =
     (let b = boot_settings of_json cfg fresh now (dk_config disk) (dk_engines disk) in
      case snd (open_or_create d (dk_index disk)) of
        Inl e \<Rightarrow> Inl (IndexNotOpened e)
      | Inr s \<Rightarrow>
          (case searcher_open s reader of
             Inl e \<Rightarrow> Inl (SearcherNotOpened e)
           | Inr _ \<Rightarrow>
               Inr (bt_token b,
                 \<lparr>sv_poisoned = False, sv_db = dk_db disk, sv_engines = bt_engines b,
                  sv_config = \<lparr>cs_runtime = bt_runtime b, cs_limit = limit (bt_anon_limit b), cs_db = bt_config b\<rparr>,
                  sv_queue = [], sv_deletes = [], sv_writer = \<lparr>iw_ops = [], iw_journal = []\<rparr>, sv_pending = 0,
                  sv_delete_open = True, sv_indexer_up = \<not> isl (writer_open s heap), sv_inflight = 0, sv_paused = False,
                  sv_robots = \<lparr>rs_cache = \<lambda>_. None, rs_sent = []\<rparr>, sv_fresh = 0, sv_running = [], sv_tasks = [], sv_pages = []\<rparr>)))"

section \<open>The steps\<close>

text \<open>The URLs the crawl of a target may ask for: the seed, and normalised URLs under its prefix.\<close>

definition in_scope :: "url_lib \<Rightarrow> due_target \<Rightarrow> string \<Rightarrow> bool" where
  "in_scope L target u \<longleftrightarrow>
     normalize_url L (dt_url_prefix target) = Some u \<or> own_link L (page_context_of target) u"

abbreviation context_of :: "open_page \<Rightarrow> page_context" where
  "context_of g \<equiv> page_context_of (fst (og_task g))"

text \<open>
  The background. A page of a crawl is open from the answer of robots.txt to its end, in segments between which any
  other step may come; a task has one open at most, and a panic comes while it handles a response. A step takes what it reads of the outside - the clock, the answers of the web and of peers, what a
  task had read before it waited - from its variables.
\<close>

inductive inside_step ::
  "('r, 'x, 'j, 'v) program \<Rightarrow> ('r, 'x, 'j) server \<Rightarrow> ('r, 'x, 'j) server \<Rightarrow> bool" for P where
  Ticked: "inside_step P sv (put_sched (tick_once (pg_max_index_bytes P) tree now (sched_of sv)) sv)"
| Seeded: "task \<in> set (sv_tasks sv) \<Longrightarrow> E = pg_page_env P \<Longrightarrow>
    crawl_delay_for (ce_url E) (ce_robots E) (ce_web E) (ce_net E) (ce_agent E) s (sv_robots sv) = (rs, delay) \<Longrightarrow>
    discover_urls (crawl_env.truncate E) s (dt_url_prefix (fst task)) 10000 rs = (rs', seeds) \<Longrightarrow>
    inside_step P sv (sv\<lparr>sv_robots := rs'\<rparr>)"
| PageOpened: "task \<in> set (sv_tasks sv) \<Longrightarrow> in_scope (ce_url (pg_page_env P)) (fst task) u \<Longrightarrow>
    \<forall>g \<in> set (sv_pages sv). og_task g \<noteq> task \<Longrightarrow>
    page_open (pg_page_env P) (page_context_of (fst task)) u (crawl_of sv) = (c, r) \<Longrightarrow>
    inside_step P sv ((put_crawl c sv)\<lparr>sv_pages := (case r of
        Inl _ \<Rightarrow> sv_pages sv
      | Inr prior \<Rightarrow> sv_pages sv @ [\<lparr>og_task = task, og_url = u, og_prior = prior, og_stage = Fetching\<rparr>])\<rparr>)"
| PageFetched: "g \<in> set (sv_pages sv) \<Longrightarrow> og_stage g = Fetching \<Longrightarrow>
    page_fetch (pg_page_env P) (context_of g) (og_url g) (snd (og_task g)) (og_prior g) (crawl_of sv) = (c, r) \<Longrightarrow>
    inside_step P sv ((put_crawl c sv)\<lparr>sv_pages := (case r of
        PageEnded _ \<Rightarrow> remove1 g (sv_pages sv)
      | PageWaits f \<Rightarrow> remove1 g (sv_pages sv) @ [g\<lparr>og_stage := Sending f\<rparr>])\<rparr>)"
| PageSent: "g \<in> set (sv_pages sv) \<Longrightarrow> og_stage g = Sending f \<Longrightarrow>
    page_send (pg_page_env P) (context_of g) (og_url g) (snd (og_task g)) f (crawl_of sv) = (c, r) \<Longrightarrow>
    inside_step P sv ((put_crawl c sv)\<lparr>sv_pages := (case r of
        Inl _ \<Rightarrow> remove1 g (sv_pages sv)
      | Inr _ \<Rightarrow> remove1 g (sv_pages sv) @ [g\<lparr>og_stage := Saving f\<rparr>])\<rparr>)"
| PageSaved: "g \<in> set (sv_pages sv) \<Longrightarrow> og_stage g = Saving f \<Longrightarrow>
    page_save (pg_page_env P) (context_of g) (og_url g) (snd (og_task g)) (og_prior g) True f (crawl_of sv) = (c, r) \<Longrightarrow>
    inside_step P sv ((put_crawl c sv)\<lparr>sv_pages := remove1 g (sv_pages sv)\<rparr>)"
| PagePanicked: "g \<in> set (sv_pages sv) \<Longrightarrow> og_stage g = Fetching \<Longrightarrow>
    inside_step P sv (put_sched (end_task (og_task g) (crawl_of sv) (sched_of sv))
      (sv\<lparr>sv_pages := remove1 g (sv_pages sv)\<rparr>))"
| CrawlDone: "task \<in> set (sv_tasks sv) \<Longrightarrow> \<forall>g \<in> set (sv_pages sv). og_task g \<noteq> task \<Longrightarrow>
    inside_step P sv (put_sched (end_task task
      ((crawl_of sv)\<lparr>crawl_state.cs_db := set_last_crawled (snd task) (dt_id (fst task)) (sb_content (sv_db sv))\<rparr>)
      (sched_of sv)) sv)"
| CrawlStopped: "task \<in> set (sv_tasks sv) \<Longrightarrow> \<forall>g \<in> set (sv_pages sv). og_task g \<noteq> task \<Longrightarrow>
    inside_step P sv (put_sched (end_task task (crawl_of sv) (sched_of sv)) sv)"
| Indexed: "pipeline_step (pg_index_ok P) (ce_url (pg_page_env P)) (pipe_of sv) IndexerTurn = Some (p, b) \<Longrightarrow>
    inside_step P sv (put_pipe p sv)"
| PeerProbed: "inside_step P sv
    (put_fed (health_tick_peers probe (sv_poisoned sv) (\<lambda>_ d. d) now [peer] (sb_fed (sv_db sv))) sv)"
| Gossiped: "inside_step P sv (sv\<lparr>sv_engines := spawn_gossip_exchange_with_peer (pg_semver P) net now peer_url
    was_poisoned before (sv_poisoned sv) (sv_engines sv)\<rparr>)"
| PeerAnswered: "inside_step P sv (put_fed (record_outcome now out (sb_fed (sv_db sv))) sv)"
| Poisoned: "inside_step P sv (sv\<lparr>sv_poisoned := True\<rparr>)"

inductive_cases inside_stepE [consumes 1, case_names Ticked Seeded PageOpened PageFetched PageSent
  PageSaved PagePanicked CrawlDone CrawlStopped Indexed
  PeerProbed Gossiped PeerAnswered Poisoned]: "inside_step P sv sv'"

text \<open>The web in front of the handlers: what the middleware reads is in the state.\<close>

definition web_env_of ::
  "('r, 'x, 'j, 'v) program \<Rightarrow> ('q, 'd, 'x, 'j, 'v) call \<Rightarrow> int \<Rightarrow> ('v answer \<Rightarrow> string response) \<Rightarrow>
   (int list \<Rightarrow> 'y) \<Rightarrow> ('y \<Rightarrow> int list option) \<Rightarrow> ('y, ('r, 'x, 'j) server) web_env" where
  "web_env_of P C clock render enc dec =
     \<lparr>we_token = pg_token P, we_now = ca_now C, we_clock = clock, we_enc = enc, we_dec = dec, we_host = pg_host P,
      we_peer_cfg = (\<lambda>_. pg_peer_limit P),
      we_anon_cfg = (\<lambda>sv. default_rate_limit_config\<lparr>limit := cs_limit (sv_config sv)\<rparr>),
      we_peer_urls = (\<lambda>sv. map np_url (filter np_enabled (node_peers (sb_fed (sv_db sv))))),
      we_handler = (\<lambda>e p req sv. map_prod id (respond render) (run_handler P C e p sv))\<rparr>"

text \<open>A request that is admitted to the admin API: it has the token, and its address is not locked out.\<close>

definition admitted :: "string \<Rightarrow> int \<Rightarrow> attempts \<Rightarrow> request \<Rightarrow> bool" where
  "admitted token now attempts req \<longleftrightarrow>
     token_accepted token req \<and> lockout_until (unwrap_or no_attempts (current_state attempts (client_ip req))) \<le> now"

text \<open>
  A step of the program; its label says whether it is a request admitted to the admin API. \<open>calls\<close> are the requests
  that may come.
\<close>

inductive server_step ::
  "('r, 'x, 'j, 'v) program \<Rightarrow> (('q, 'd, 'x, 'j, 'v) call \<Rightarrow> bool) \<Rightarrow>
   ('y, ('r, 'x, 'j) server) web_state \<Rightarrow> bool \<Rightarrow> ('y, ('r, 'x, 'j) server) web_state \<Rightarrow> bool" for P calls where
  Answered: "calls C \<Longrightarrow> serve (web_env_of P C clock render enc dec) m p req w = Some (w', resp) \<Longrightarrow>
    a = admitted (pg_token P) (ca_now C) (ws_attempts w) req \<Longrightarrow> server_step P calls w a w'"
| Inside: "inside_step P (ws_app w) sv \<Longrightarrow> server_step P calls w False (w\<lparr>ws_app := sv\<rparr>)"

inductive_cases server_stepE [consumes 1, case_names Answered Inside]: "server_step P calls w a w'"

text \<open>The states of a run, with the labels of its steps.\<close>

inductive server_run ::
  "('r, 'x, 'j, 'v) program \<Rightarrow> (('q, 'd, 'x, 'j, 'v) call \<Rightarrow> bool) \<Rightarrow>
   ('y, ('r, 'x, 'j) server) web_state \<Rightarrow> bool list \<Rightarrow> ('y, ('r, 'x, 'j) server) web_state \<Rightarrow> bool" for P calls where
  Here: "server_run P calls w [] w"
| More: "server_run P calls w as w' \<Longrightarrow> server_step P calls w' a w'' \<Longrightarrow> server_run P calls w (as @ [a]) w''"

section \<open>One handler at a time\<close>

lemma admin_layer_effect:
  "run_layers [AdminToken] E r m p req w = Some (w', resp) \<Longrightarrow>
   ws_app w' = ws_app w \<or> (\<exists>e. ws_app w' = fst (we_handler E e p req (ws_app w)))"
  by (auto simp: run_endpoint_def split: prod.splits mw_answer.splits option.splits) (metis fst_conv)

text \<open>A request reaches at most one handler; if it is not admitted, a public one.\<close>

lemma serve_effect:
  assumes "serve (web_env_of P C clock render enc dec) m p req w = Some (w', resp)"
  shows "ws_app w' = ws_app w \<or> (\<exists>e. ws_app w' = fst (run_handler P C e p (ws_app w)) \<and>
    (admitted (pg_token P) (ca_now C) (ws_attempts w) req \<or> e \<in> set public_endpoints))"
proof (cases "find_route p")
  case None
  then show ?thesis using assms by (simp add: serve_def)
next
  case (Some r)
  let ?E = "web_env_of P C clock render enc dec"
  have r: "r \<in> set build_router" using Some by (simp add: find_route_iff)
  have run: "run_layers (rt_layers r) ?E r m p req w = Some (w', resp)" using assms Some by (simp add: serve_def)
  have handler: "fst (we_handler ?E e p req sv) = fst (run_handler P C e p sv)" for e sv
    by (simp add: web_env_of_def)
  show ?thesis
  proof (cases "rt_layers r = [AdminToken]")
    case True
    show ?thesis
    proof (cases "admitted (pg_token P) (ca_now C) (ws_attempts w) req")
      case False
      then have "\<not> token_accepted (we_token ?E) req \<or>
          lockout_until (unwrap_or no_attempts (current_state (ws_attempts w) (client_ip req))) > we_now ?E"
        by (auto simp: admitted_def web_env_of_def)
      from admin_layer_refuses [OF this run [unfolded True]] show ?thesis by blast
    next
      case adm: True
      from admin_layer_effect [OF run [unfolded True]] show ?thesis unfolding handler using adm by blast
    qed
  next
    case False
    then have pub: "AdminToken \<notin> set (rt_layers r)" "snd ` set (rt_methods r) \<subseteq> set public_endpoints"
      using routes_split r by blast+
    from run_layers_public [OF pub(1) run] pub(2) show ?thesis unfolding handler by blast
  qed
qed

section \<open>Invariants of runs\<close>

text \<open>
  The contract of an invariant that no step of the background and no handler breaks, and of one that the handlers of
  the public part keep: it holds in the runs in which no request is admitted to the admin API.
\<close>

locale public_invariant =
  fixes P :: "('r, 'x, 'j, 'v) program"
    and calls :: "('q, 'd, 'x, 'j, 'v) call \<Rightarrow> bool"
    and inv :: "('r, 'x, 'j) server \<Rightarrow> bool"
  assumes inside_keeps: "inside_step P sv sv' \<Longrightarrow> inv sv \<Longrightarrow> inv sv'"
    and public_keeps: "calls C \<Longrightarrow> inv sv \<Longrightarrow> e \<in> set public_endpoints \<Longrightarrow> inv (fst (run_handler P C e p sv))"
begin

lemma run_unadmitted:
  assumes "server_run P calls w as w'" and "True \<notin> set as" and "inv (ws_app w)"
  shows "inv (ws_app w')"
  using assms
proof (induction rule: server_run.induct)
  case (More w as w' a w'')
  then have now: "inv (ws_app w')" and "\<not> a" by auto
  from More.hyps(2) show ?case
  proof (cases rule: server_stepE)
    case (Answered C clock render enc dec m p req resp)
    then show ?thesis using serve_effect [OF Answered(3)] public_keeps [OF Answered(2) now] now \<open>\<not> a\<close> by metis
  next
    case (Inside sv)
    then show ?thesis using inside_keeps [OF Inside(3) now] by simp
  qed
qed simp

end

locale run_invariant =
  fixes P :: "('r, 'x, 'j, 'v) program"
    and calls :: "('q, 'd, 'x, 'j, 'v) call \<Rightarrow> bool"
    and inv :: "('r, 'x, 'j) server \<Rightarrow> bool"
  assumes background_keeps: "inside_step P sv sv' \<Longrightarrow> inv sv \<Longrightarrow> inv sv'"
    and handler_keeps: "calls C \<Longrightarrow> inv sv \<Longrightarrow> inv (fst (run_handler P C e p sv))"
begin

lemma run:
  assumes "server_run P calls w as w'" and "inv (ws_app w)"
  shows "inv (ws_app w')"
  using assms
proof (induction rule: server_run.induct)
  case (More w as w' a w'')
  then have now: "inv (ws_app w')" by blast
  from More.hyps(2) show ?case
  proof (cases rule: server_stepE)
    case (Answered C clock render enc dec m p req resp)
    then show ?thesis using serve_effect [OF Answered(3)] handler_keeps [OF Answered(2) now] now by metis
  next
    case (Inside sv)
    then show ?thesis using background_keeps [OF Inside(3) now] by simp
  qed
qed simp

end

sublocale run_invariant \<subseteq> public_invariant
  by unfold_locales (rule background_keeps handler_keeps, assumption+)+

section \<open>What a search leaves\<close>

lemma collect_search_records:
  "collect_search E now q c d st = Some (st', rs) \<Longrightarrow> \<exists>outs. st' = st\<lparr>ss_fed := record_outcomes now outs (ss_fed st)\<rparr>"
  by (auto simp: collect_search_def Let_def split: option.splits if_splits)

lemma search_keeps: "st = st\<lparr>ss_fed := record_outcomes now [] (ss_fed st)\<rparr>"
  by (simp add: record_outcomes_def)

lemma search_get_records:
  "search_get E now q c d st = Some (st', r) \<Longrightarrow> \<exists>outs. st' = st\<lparr>ss_fed := record_outcomes now outs (ss_fed st)\<rparr>"
  using search_keeps [of st now]
  by (auto simp: search_get_def run_json_search_def Let_def dest: collect_search_records split: if_splits)

lemma search_handler_records:
  assumes "search_handler E now accept req st = Some (st', r)"
  shows "\<exists>outs. st' = st\<lparr>ss_fed := record_outcomes now outs (ss_fed st)\<rparr>"
proof -
  have "\<exists>outs. fst (search_stream E now cid req st) = st\<lparr>ss_fed := record_outcomes now outs (ss_fed st)\<rparr>" for cid
    using search_keeps [of st now] by (auto simp: search_stream_def Let_def)
  then show ?thesis
    using assms search_keeps [of st now]
    by (auto simp: search_handler_def run_json_search_def dest: collect_search_records
        split: if_splits option.splits prod.splits) (metis fst_conv)
qed

lemma mcp_handler_records:
  assumes "mcp_handler version pretty E now req st = Some (st', r)"
  shows "\<exists>outs. st' = st\<lparr>ss_fed := record_outcomes now outs (ss_fed st)\<rparr>"
proof -
  have "\<exists>outs. s = st\<lparr>ss_fed := record_outcomes now outs (ss_fed st)\<rparr>"
    if "tools_call pretty E now i params st = Some (s, x)" for i params s x
    using that search_keeps [of st now]
    by (auto simp: tools_call_def Let_def dest: collect_search_records split: if_splits)
  then show ?thesis
    using assms search_keeps [of st now] by (auto simp: mcp_handler_def Let_def split: if_splits)
qed

lemma searching_effect:
  assumes "\<And>st' x. r = Some (st', x) \<Longrightarrow>
    \<exists>outs. st' = (search_of sv)\<lparr>ss_fed := record_outcomes (ca_now C) outs (ss_fed (search_of sv))\<rparr>"
  shows "\<exists>outs. fst (searching C sv (map_option (map_prod id f) r)) =
    put_fed (record_outcomes (ca_now C) outs (sb_fed (sv_db sv))) sv"
proof (cases r)
  case None
  then show ?thesis by (intro exI [where x = "ca_arrived C"]) (simp add: searching_def)
next
  case (Some sx)
  then obtain outs where "fst sx = (search_of sv)\<lparr>ss_fed := record_outcomes (ca_now C) outs (ss_fed (search_of sv))\<rparr>"
    using assms [of "fst sx" "snd sx"] by auto
  then show ?thesis
    using Some by (cases sx) (auto intro!: exI [where x = outs] simp: searching_def search_of_def)
qed

text \<open>A public handler leaves everything but the health of the peers and the engines it heard of.\<close>

definition heard :: "('r, 'x, 'j, 'v) program \<Rightarrow> ('q, 'd, 'x, 'j, 'v) call \<Rightarrow> ('r, 'x, 'j) server \<Rightarrow> engines" where
  "heard P C sv = fst (exchange (pg_semver P) (sv_poisoned sv) (ca_now C) (ca_message C) (sv_engines sv))"

lemma put_fed_nothing: "put_fed (record_outcomes now [] (sb_fed (sv_db sv))) sv = sv"
  by (simp add: put_fed_def record_outcomes_def)

lemma public_endpoint_effect:
  "(\<exists>outs. fst (public_endpoint P C e p sv) = put_fed (record_outcomes (ca_now C) outs (sb_fed (sv_db sv))) sv) \<or>
   fst (public_endpoint P C e p sv) = sv\<lparr>sv_engines := heard P C sv\<rparr>"
proof (cases e)
  case SearchHandler
  show ?thesis unfolding SearchHandler public_endpoint.simps
    by (intro disjI1 searching_effect) (rule search_handler_records)
next
  case SearchGet
  show ?thesis unfolding SearchGet public_endpoint.simps
    by (intro disjI1 searching_effect) (rule search_get_records)
next
  case McpHandler
  show ?thesis unfolding McpHandler public_endpoint.simps
    by (intro disjI1 searching_effect) (rule mcp_handler_records)
next
  case GossipExchange
  then show ?thesis by (auto simp: heard_def split: prod.splits)
qed (auto intro!: exI [where x = "[]"] simp: put_fed_nothing)

section \<open>The constraints of every table\<close>

text \<open>A task has at most one page open, and a page is open for a task that runs.\<close>

definition pages_inv :: "open_page list \<Rightarrow> (due_target \<times> int) list \<Rightarrow> bool" where
  "pages_inv gs tasks \<longleftrightarrow> distinct (map og_task gs) \<and> og_task ` set gs \<subseteq> set tasks"

definition server_wf :: "('r, 'x, 'j) server \<Rightarrow> bool" where
  "server_wf sv \<longleftrightarrow>
     site_wf (sv_db sv) \<and> distinct (map eng_url (sv_engines sv)) \<and> limits_in_step (sv_config sv) \<and>
     sched_inv (sched_of sv) \<and> pages_inv (sv_pages sv) (sv_tasks sv)"

lemma put_keeps [simp]:
  "sv_pages (put_fed fed sv) = sv_pages sv" "sv_tasks (put_fed fed sv) = sv_tasks sv"
  "sv_pages (put_ranking_rows rows sv) = sv_pages sv" "sv_tasks (put_ranking_rows rows sv) = sv_tasks sv"
  "sv_pages (put_admin st sv) = sv_pages sv" "sv_tasks (put_admin st sv) = sv_tasks sv"
  "sv_pages (put_site s sv) = sv_pages sv" "sv_tasks (put_site s sv) = sv_tasks sv"
  "sv_pages (put_crawl c sv) = sv_pages sv" "sv_tasks (put_crawl c sv) = sv_tasks sv"
  "sv_pages (put_pipe pl sv) = sv_pages sv" "sv_tasks (put_pipe pl sv) = sv_tasks sv"
  "sv_pages (put_sched sd sv) = sv_pages sv" "sv_tasks (put_sched sd sv) = sd_tasks sd"
  by (simp_all add: put_fed_def put_ranking_rows_def put_admin_def put_site_def put_crawl_def put_pipe_def put_sched_def)

lemma pages_inv_close: "pages_inv gs tasks \<Longrightarrow> pages_inv (remove1 g gs) tasks"
proof -
  have "distinct (map og_task gs) \<Longrightarrow> distinct (map og_task (remove1 g gs))"
    by (induction gs) (auto dest: set_remove1_subset [THEN subsetD])
  then show "pages_inv gs tasks \<Longrightarrow> pages_inv (remove1 g gs) tasks"
    by (auto simp: pages_inv_def dest: set_remove1_subset [THEN subsetD])
qed

lemma pages_inv_open:
  "pages_inv gs tasks \<Longrightarrow> \<forall>g \<in> set gs. og_task g \<noteq> task \<Longrightarrow> task \<in> set tasks \<Longrightarrow> og_task g = task \<Longrightarrow>
   pages_inv (gs @ [g]) tasks"
  by (auto simp: pages_inv_def)

lemma pages_inv_others:
  assumes "pages_inv gs tasks" and "g \<in> set gs"
  shows "\<forall>g' \<in> set (remove1 g gs). og_task g' \<noteq> og_task g"
proof -
  have "distinct (map og_task gs) \<Longrightarrow> og_task g \<notin> og_task ` set (remove1 g gs)"
    using assms(2) by (induction gs) (auto, metis imageI)
  then show ?thesis using assms(1) by (metis imageI pages_inv_def)
qed

lemma pages_inv_move:
  assumes "pages_inv gs tasks" and "g \<in> set gs" and "og_task g' = og_task g"
  shows "pages_inv (remove1 g gs @ [g']) tasks"
  using assms pages_inv_close [OF assms(1)] pages_inv_others [OF assms(1,2)]
  by (intro pages_inv_open [where task = "og_task g"]) (auto simp: pages_inv_def)

lemma pages_inv_end:
  assumes "pages_inv gs tasks" and "\<forall>g \<in> set gs. og_task g \<noteq> task"
  shows "pages_inv gs (remove1 task tasks)"
  using assms by (auto simp: pages_inv_def in_set_remove1)

lemma pages_inv_more: "pages_inv gs tasks \<Longrightarrow> set tasks \<subseteq> set tasks' \<Longrightarrow> pages_inv gs tasks'"
  by (auto simp: pages_inv_def)

lemma fed_wf_outcomes: "fed_wf fed \<Longrightarrow> fed_wf (record_outcomes now outs fed)"
  unfolding record_outcomes_def
  by (induction outs arbitrary: fed) (simp_all add: record_outcome_def fed_wf_record_result)

lemma sched_inv_view [simp]:
  "sched_inv (sched_of (put_fed fed sv)) = sched_inv (sched_of sv)"
  "sched_inv (sched_of (put_ranking_rows rows sv)) = sched_inv (sched_of sv)"
  "sched_inv (sched_of (put_admin st sv)) = sched_inv (sched_of sv)"
  "sched_inv (sched_of (put_site s sv)) = sched_inv (sched_of sv)"
  "sched_inv (sched_of (put_crawl c sv)) = sched_inv (sched_of sv)"
  "sched_inv (sched_of (put_pipe pl sv)) = sched_inv (sched_of sv)"
  "sched_inv (sched_of (sv\<lparr>sv_engines := es\<rparr>)) = sched_inv (sched_of sv)"
  "sched_inv (sched_of (sv\<lparr>sv_config := cf\<rparr>)) = sched_inv (sched_of sv)"
  "sched_inv (sched_of (sv\<lparr>sv_robots := rs\<rparr>)) = sched_inv (sched_of sv)"
  "sched_inv (sched_of (sv\<lparr>sv_poisoned := b\<rparr>)) = sched_inv (sched_of sv)"
  by (simp_all add: sched_inv_def sched_of_def put_fed_def put_ranking_rows_def put_admin_def put_site_def put_crawl_def
      put_pipe_def)

lemma server_wf_pages:
  "server_wf sv \<Longrightarrow> pages_inv gs (sv_tasks sv) \<Longrightarrow> server_wf (sv\<lparr>sv_pages := gs\<rparr>)"
  by (simp add: server_wf_def sched_inv_def sched_of_def)

lemma server_wf_put_fed: "server_wf sv \<Longrightarrow> fed_wf fed \<Longrightarrow> server_wf (put_fed fed sv)"
  by (simp add: server_wf_def site_wf_def) (simp add: put_fed_def)

lemma server_wf_engines: "server_wf sv \<Longrightarrow> distinct (map eng_url es) \<Longrightarrow> server_wf (sv\<lparr>sv_engines := es\<rparr>)"
  by (simp add: server_wf_def)

lemma server_wf_admin: "server_wf sv \<Longrightarrow> content_wf (as_db st) \<Longrightarrow> server_wf (put_admin st sv)"
  by (simp add: server_wf_def site_wf_def) (simp add: put_admin_def)

lemma server_wf_crawl: "server_wf sv \<Longrightarrow> content_wf (crawl_state.cs_db c) \<Longrightarrow> server_wf (put_crawl c sv)"
  by (simp add: server_wf_def site_wf_def) (simp add: put_crawl_def)

lemma server_wf_pipe: "server_wf sv \<Longrightarrow> content_wf (ix_db (pl_indexer pl)) \<Longrightarrow> server_wf (put_pipe pl sv)"
  by (simp add: server_wf_def site_wf_def) (simp add: put_pipe_def)

lemma server_wf_sched:
  assumes "server_wf sv" and "sched_inv s" and "content_wf (crawl_state.cs_db (sd_crawl s))"
    and "pages_inv (sv_pages sv) (sd_tasks s)"
  shows "server_wf (put_sched s sv)"
  using assms
  by (simp add: server_wf_def site_wf_def put_sched_def put_crawl_def sched_of_def sched_inv_def)

lemma heard_distinct:
  "distinct (map eng_url (sv_engines sv)) \<Longrightarrow> distinct (map eng_url (heard P C sv))"
  by (simp add: heard_def exchange_def Let_def persist_all_distinct)

lemma server_wf_public:
  assumes "server_wf sv"
  shows "server_wf (fst (public_endpoint P C e p sv))"
  using public_endpoint_effect [of P C e p sv]
proof (elim disjE exE)
  fix outs
  assume "fst (public_endpoint P C e p sv) = put_fed (record_outcomes (ca_now C) outs (sb_fed (sv_db sv))) sv"
  moreover have "fed_wf (sb_fed (sv_db sv))" using assms by (simp add: server_wf_def site_wf_def)
  ultimately show ?thesis using server_wf_put_fed [OF assms] fed_wf_outcomes by metis
next
  assume "fst (public_endpoint P C e p sv) = sv\<lparr>sv_engines := heard P C sv\<rparr>"
  moreover have "distinct (map eng_url (heard P C sv))"
    using assms by (simp add: server_wf_def heard_distinct)
  ultimately show ?thesis using server_wf_engines [OF assms] by metis
qed

lemma content_ops_wf:
  assumes "content_wf db"
  shows "content_wf (fst (create_item uuid ts name descr db))" "content_wf (fst (update_item ts rid name descr db))"
    "content_wf (fst (delete_item rid db))" "content_wf (fst (target_add uuid ts rid pfx secs db))"
    "content_wf (fst (target_remove rid db))" "content_wf (fst (set_interval rid secs db))"
    "content_wf (fst (set_crawl_delay rid delay db))" "content_wf (fst (mark_promoted rid t db))"
    "content_wf (fst (mark_dismissed rid db))"
  using content_wf_step [OF assms, of _ _ "CreateCollection uuid ts name descr"]
    content_wf_step [OF assms, of _ _ "UpdateCollection ts rid name descr"]
    content_wf_step [OF assms, of _ _ "DeleteCollection rid"]
    content_wf_step [OF assms, of _ _ "AddTarget uuid ts rid pfx secs"]
    content_wf_step [OF assms, of _ _ "RemoveTarget rid"] content_wf_step [OF assms, of _ _ "SetInterval rid secs"]
    content_wf_step [OF assms, of _ _ "SetCrawlDelay rid delay"] content_wf_step [OF assms, of _ _ "Promote rid t"]
    content_wf_step [OF assms, of _ _ "Dismiss rid"]
  by (simp_all add: case_prod_unfold Let_def) (metis prod.collapse)+

lemma content_endpoint_wf:
  assumes "content_wf (as_db st)"
  shows "content_wf (as_db (fst (content_endpoint P C e st)))"
proof (cases e)
  case HandleCollections
  then show ?thesis
    using assms content_ops_wf [OF assms]
    by (auto simp: handle_collections_def case_prod_unfold Let_def split: sum.split collection_action.split)
next
  case HandleCrawlTargets
  then show ?thesis
    using assms content_ops_wf [OF assms]
    by (auto simp: handle_crawl_targets_def lock_db_def case_prod_unfold Let_def split: sum.split crawl_target_action.split)
next
  case PromoteOutlink
  have "content_wf (fst (target_add u t c x n (as_db st)))" for u t c x n
    by (rule content_ops_wf [OF assms])
  then have "content_wf (fst (mark_promoted r i (fst (target_add u t c x n (as_db st)))))" for r i u t c x n
    by (rule content_ops_wf)
  then show ?thesis
    using PromoteOutlink assms content_ops_wf [OF assms]
    by (auto simp: promote_outlink_def case_prod_unfold Let_def split: option.split sum.split)
next
  case DismissOutlink
  then show ?thesis
    using assms content_ops_wf [OF assms] by (auto simp: dismiss_outlink_def case_prod_unfold Let_def)
next
  case HandlePause
  then show ?thesis using assms by (simp add: handle_pause_def)
qed (use assms in simp_all)

lemma peers_endpoint_wf:
  assumes "fed_wf fed"
  shows "fed_wf (fst (peers_endpoint P C e poisoned es fed))"
proof (cases e)
  case AddNodePeer
  then show ?thesis
    using assms fed_wf_insert_peer [OF assms]
    by (auto simp: add_node_peer_def case_prod_unfold Let_def split: sum.split)
next
  case (AddCollectionPeer)
  then show ?thesis
    using assms fed_wf_insert_collection_peer [OF assms]
    by (auto simp: add_collection_peer_handler_def case_prod_unfold Let_def split: option.split)
next
  case PromoteDiscovered
  then show ?thesis
    using assms fed_wf_insert_peer [OF assms]
    by (auto simp: promote_discovered_def case_prod_unfold Let_def split: option.split sum.split)
next
  case UpdateNodePeer
  then show ?thesis using assms by (simp add: update_node_peer_handler_def fed_wf_set_enabled)
next
  case DeleteNodePeer
  then show ?thesis using assms by (simp add: delete_node_peer_handler_def fed_wf_delete_peer)
next
  case DeleteCollectionPeer
  then show ?thesis using assms by (simp add: delete_collection_peer_handler_def fed_wf_delete_collection_peer)
qed (use assms in simp_all)

lemma put_config_in_step:
  assumes "limits_in_step st"
  shows "limits_in_step (fst (put_config to_json poisoned st body))"
proof -
  have "cs_runtime (fst (put_config to_json poisoned st body)) = patch_config body (cs_runtime st)"
    "cs_limit (fst (put_config to_json poisoned st body)) =
      (case search_rate_limit_per_minute body of None \<Rightarrow> cs_limit st | Some l \<Rightarrow> l)"
    by (simp_all add: put_config_def Let_def split: sum.split)
  then show ?thesis
    using assms
    by (simp add: limits_in_step_def initial_rate_limit_config_def patch_config_def or_else_def split: option.split)
qed

lemma ranking_upsert_distinct:
  "distinct (map rk_collection_id rows) \<Longrightarrow>
   distinct (map rk_collection_id (fst (ranking_upsert J now cid payload rows)))"
  unfolding ranking_upsert_def
  by (simp add: distinct_upsert_row ranking_row_of_def split: option.split)

lemma put_ranking_distinct:
  "distinct (map rk_collection_id rows) \<Longrightarrow>
   distinct (map rk_collection_id (fst (put_ranking J f v poisoned now raw content rows)))"
  by (simp add: put_ranking_def ranking_upsert_distinct case_prod_unfold Let_def split: option.split sum.split)

lemma send_jobs_db: "si_db (fst (send_jobs js s)) = si_db s"
  by (induction js arbitrary: s) (auto simp: Let_def split: option.split nat.split)

lemma import_site_wf:
  assumes "site_wf (si_db s)"
  shows "site_wf (si_db (fst (handle_import K I body s)))"
proof -
  have "site_wf (fst (apply_envelope I env (si_db s)))" for env
    using import_grows(2) [of I env "si_db s"] assms by (metis prod.collapse)
  then show ?thesis
    using assms
    by (auto simp: send_jobs_db handle_import_def case_prod_unfold Let_def split: sum.split)
qed

lemma trigger_distinct:
  "distinct (map eng_url es) \<Longrightarrow>
   distinct (map eng_url (fst (trigger_gossip semver net now url pb before poisoned es)))"
  by (auto simp: trigger_gossip_def Let_def persist_all_distinct split: peer_reply.split option.split)

lemma server_wf_handler:
  assumes wf: "server_wf sv"
  shows "server_wf (fst (run_handler P C e p sv))"
proof -
  have parts: "content_wf (sb_content (sv_db sv))" "fed_wf (sb_fed (sv_db sv))" "site_wf (sv_db sv)"
    "distinct (map rk_collection_id (sb_ranking (sv_db sv)))" "distinct (map eng_url (sv_engines sv))"
    "limits_in_step (sv_config sv)"
    using wf by (simp_all add: server_wf_def site_wf_def)
  have content: "server_wf (put_admin (fst (content_endpoint P C e (admin_of n sv))) sv)" for n
    by (rule server_wf_admin [OF wf content_endpoint_wf]) (simp add: admin_of_def parts)
  have peers: "server_wf (put_fed (fst (peers_endpoint P C e b es (sb_fed (sv_db sv)))) sv)" for b es
    by (rule server_wf_put_fed [OF wf peers_endpoint_wf]) (rule parts)
  have other: "server_wf (fst (other_endpoint P C e sv))"
  proof (cases e)
    case PutConfig
    then show ?thesis using wf put_config_in_step [OF parts(6)] by (simp add: server_wf_def case_prod_unfold Let_def)
  next
    case PutRanking
    then show ?thesis
      using wf put_ranking_distinct [OF parts(4)]
      by (simp add: case_prod_unfold Let_def server_wf_def site_wf_def) (simp add: put_ranking_rows_def)
  next
    case RemoveDiscovered
    then show ?thesis
      using wf distinct_map_delete_where [of eng_url "sv_engines sv"]
      by (auto simp: server_wf_def case_prod_unfold Let_def remove_discovered_def discovered_remove_def)
  next
    case TriggerGossip
    then show ?thesis using wf trigger_distinct [OF parts(5)] by (simp add: server_wf_def case_prod_unfold Let_def)
  next
    case HandleImport
    have "site_wf (si_db (fst (handle_import (pg_codec P) (ca_import C) (ca_dump C) (site_of sv))))"
      by (rule import_site_wf) (simp add: site_of_def parts)
    then show ?thesis
      using wf HandleImport by (simp add: server_wf_def case_prod_unfold Let_def) (simp add: put_site_def)
  qed (use wf in simp_all)
  show ?thesis
    unfolding run_handler_def
    by (simp add: wf server_wf_public content peers other case_prod_unfold Let_def split: option.split)
qed

section \<open>A page keeps the constraints\<close>

lemma save_row_wf:
  assumes "content_wf (crawl_state.cs_db st)"
  shows "content_wf (crawl_state.cs_db (fst (save_row E row st)))"
  using content_wf_step [OF assms, of undefined undefined "UpsertPage (pe_gap E (cs_fresh st)) row"]
  by (simp add: save_row_def Let_def case_prod_unfold)

lemma classify_links_wf:
  assumes "content_wf (crawl_state.cs_db st)"
  shows "content_wf (crawl_state.cs_db (fst (classify_links E ctx u now links acc st)))"
  using assms
proof (induction E ctx u now links acc st rule: classify_links.induct)
  case (2 E ctx u now link links acc st)
  have hit: "content_wf (fst (record_hit enc dec uuid c h x n (crawl_state.cs_db st)))" for enc dec uuid c h x n
    by (rule content_wf_record_hit [OF "2.prems"])
  show ?case
  proof (cases "normalize_url (ce_url E) (el_url link)")
    case None
    then show ?thesis using 2 by simp
  next
    case (Some n)
    show ?thesis
    proof (cases "is_in_prefix (ce_url E) n (pc_url_prefix ctx) \<or> is_blacklisted_outlink_host (ce_url E) n")
      case True
      then show ?thesis using Some 2 by auto
    next
      case False
      show ?thesis
      proof (cases "host_of (ce_url E) n")
        case None
        then show ?thesis using Some False 2 by auto
      next
        case h: (Some h)
        let ?r = "record_hit (pe_enc E) (pe_dec E) (pe_uuid E (cs_fresh st)) (pc_collection_id ctx) h
          \<lparr>ex_source_url = u, ex_target_url = n, ex_link_text = el_text link\<rparr> now (crawl_state.cs_db st)"
        obtain db x where r: "?r = (db, x)" by fastforce
        have "content_wf db" using hit [of "pe_enc E" "pe_dec E"] r by (metis fst_conv)
        then show ?thesis using Some False h r 2 by (cases x) auto
      qed
    qed
  qed
qed simp

lemma unchanged_page_wf:
  "content_wf (crawl_state.cs_db st) \<Longrightarrow>
   content_wf (crawl_state.cs_db (fst (unchanged_page E ctx u now prior s nm st)))"
  by (simp add: unchanged_page_def Let_def case_prod_unfold save_row_wf split: sum.split)

lemma page_save_wf:
  "content_wf (crawl_state.cs_db st) \<Longrightarrow>
   content_wf (crawl_state.cs_db (fst (page_save E ctx u now prior ix f st)))"
  using page_save_ends [of E ctx u now prior ix f st] save_row_wf classify_links_wf by metis

lemma page_fetch_wf:
  assumes "content_wf (crawl_state.cs_db st)"
  shows "content_wf (crawl_state.cs_db (fst (page_fetch E ctx u now prior st)))"
proof -
  have "crawl_state.cs_db (fst (fetch_page E u prior st)) = crawl_state.cs_db st"
    by (simp add: fetch_page_def case_prod_unfold Let_def)
  then show ?thesis
    using assms
    by (simp add: page_fetch_def case_prod_unfold Let_def unchanged_page_wf page_save_wf
        split: sum.split fetch_outcome.split)
qed

section \<open>Every step keeps the constraints\<close>

lemma fed_wf_probe: "fed_wf fed \<Longrightarrow> fed_wf (health_tick_peers probe poisoned (\<lambda>_ d. d) now ps fed)"
  by (induction ps arbitrary: fed) (simp_all add: Let_def fed_wf_notification fed_wf_set_enabled)

lemma spawn_distinct:
  "distinct (map eng_url es) \<Longrightarrow>
   distinct (map eng_url (spawn_gossip_exchange_with_peer semver net now url pb before poisoned es))"
  by (simp add: spawn_gossip_exchange_with_peer_def Let_def persist_all_distinct split: sum.split)

lemma content_wf_set_last_crawled: "content_wf db \<Longrightarrow> content_wf (set_last_crawled now tid db)"
  using content_wf_targets_update [of db "\<lambda>t. t\<lparr>t_last_crawled_at := Some now\<rparr>" "\<lambda>t. t_id t = tid"]
  by (simp add: set_last_crawled_def update_targets_where_def)

lemma flush_wf: "content_wf (ix_db ix) \<Longrightarrow> content_wf (ix_db (fst (flush ok ix)))"
  by (simp add: flush_def content_wf_mark_indexed Let_def split: prod.split sum.split)

lemma indexer_turn_wf:
  assumes "content_wf (ix_db ix)"
  shows "content_wf (ix_db (fst (indexer_turn ok L ix ev)))"
proof -
  have "flush ok x = (y, z) \<Longrightarrow> content_wf (ix_db x) \<Longrightarrow> content_wf (ix_db y)" for x y z
    using flush_wf [of x ok] by simp
  then show ?thesis
    using assms by (cases ev) (auto simp: Let_def split: prod.split sum.split)
qed

lemma pipeline_turn_wf:
  assumes "pipeline_step ok L st IndexerTurn = Some (st', b)" and "content_wf (ix_db (pl_indexer st))"
  shows "content_wf (ix_db (pl_indexer st'))"
proof -
  obtain ev st1 where ev: "next_event st = (ev, st1)" by fastforce
  then have "pl_indexer st1 = pl_indexer st" by (auto simp: next_event_def split: list.splits)
  then show ?thesis
    using assms ev indexer_turn_wf [OF assms(2), of ok L ev]
    by (auto split: prod.splits if_splits loop_outcome.splits)
qed

lemma sched_of_simps [simp]: "sd_crawl (sched_of sv) = crawl_of sv" "sd_tasks (sched_of sv) = sv_tasks sv"
  "crawl_state.cs_db (crawl_of sv) = sb_content (sv_db sv)"
  by (simp_all add: sched_of_def crawl_of_def)

lemma tick_crawl [simp]: "sd_crawl (tick_once n tree now st) = sd_crawl st"
proof -
  have "sd_crawl (fold (dispatch_target now) ts st) = sd_crawl st" for ts
    by (induction ts arbitrary: st) (simp_all add: dispatch_target_def)
  then show ?thesis by (simp add: tick_once_def split: sum.split)
qed

lemma end_task_crawl [simp]: "sd_crawl (end_task task c st) = c"
  by (simp add: end_task_def)

lemma end_task_tasks [simp]: "sd_tasks (end_task task c st) = remove1 task (sd_tasks st)"
  by (simp add: end_task_def)

lemma tick_adds_tasks: "set (sd_tasks st) \<subseteq> set (sd_tasks (tick_once n tree now st))"
proof -
  have "set (sd_tasks st) \<subseteq> set (sd_tasks (fold (dispatch_target now) ts st))" for ts
    by (induction ts arbitrary: st) (force simp: dispatch_target_def)+
  then show ?thesis by (simp add: tick_once_def split: sum.split)
qed

lemma inside_step_wf:
  assumes "inside_step P sv sv'" and wf: "server_wf sv"
  shows "server_wf sv'"
proof -
  have parts: "content_wf (sb_content (sv_db sv))" "fed_wf (sb_fed (sv_db sv))" "sched_inv (sched_of sv)"
    "distinct (map eng_url (sv_engines sv))" "pages_inv (sv_pages sv) (sv_tasks sv)"
    using wf by (simp_all add: server_wf_def site_wf_def)
  from assms(1) show ?thesis
  proof (cases rule: inside_stepE)
    case (Ticked tree now)
    then show ?thesis
      using wf parts pages_inv_more [OF parts(5) tick_adds_tasks [of "sched_of sv", simplified]]
      by (simp add: server_wf_sched tick_once_inv)
  next
    case (Seeded task s rs delay rs' seeds)
    then show ?thesis using wf by (simp add: server_wf_def)
  next
    case (PageOpened task u c r)
    then have "crawl_state.cs_db c = sb_content (sv_db sv)"
      using page_open_quiet [of "crawl_of sv" "pg_page_env P" "page_context_of (fst task)" u] by simp
    then show ?thesis
      using PageOpened(1) wf parts pages_inv_open [OF parts(5) PageOpened(4,2)]
      by (auto intro!: server_wf_pages server_wf_crawl split: sum.split)
  next
    case (PageFetched g c r)
    then have "content_wf (crawl_state.cs_db c)"
      using page_fetch_wf [of "crawl_of sv" "pg_page_env P" "context_of g" "og_url g" "snd (og_task g)" "og_prior g"] parts
      by simp
    then show ?thesis
      using PageFetched(1,2) wf parts
      by (auto intro!: server_wf_pages server_wf_crawl pages_inv_close pages_inv_move split: page_progress.split)
  next
    case (PageSent g f c r)
    then have "crawl_state.cs_db c = sb_content (sv_db sv)" using page_send_quiet [OF PageSent(4)] by simp
    then show ?thesis
      using PageSent(1,2) wf parts
      by (auto intro!: server_wf_pages server_wf_crawl pages_inv_close pages_inv_move split: sum.split)
  next
    case (PageSaved g f c r)
    then have "content_wf (crawl_state.cs_db c)"
      using page_save_wf [of "crawl_of sv" "pg_page_env P" "context_of g" "og_url g" "snd (og_task g)" "og_prior g" True f]
        parts by simp
    then show ?thesis
      using PageSaved(1) wf parts by (auto intro!: server_wf_pages server_wf_crawl pages_inv_close)
  next
    case (PagePanicked g)
    let ?gs = "remove1 g (sv_pages sv)"
    have "og_task g \<in> set (sv_tasks sv)" using parts(5) PagePanicked(2) by (auto simp: pages_inv_def)
    moreover have "pages_inv ?gs (remove1 (og_task g) (sv_tasks sv))"
      by (intro pages_inv_end pages_inv_close pages_inv_others [OF parts(5) PagePanicked(2)] parts)
    moreover have "server_wf (sv\<lparr>sv_pages := ?gs\<rparr>)" by (intro server_wf_pages wf pages_inv_close parts)
    ultimately have "server_wf (put_sched (end_task (og_task g) (crawl_of sv) (sched_of sv)) (sv\<lparr>sv_pages := ?gs\<rparr>))"
      by (intro server_wf_sched) (simp_all add: end_task_inv parts)
    then show ?thesis using PagePanicked(1) by simp
  next
    case (CrawlDone task)
    then show ?thesis
      using wf parts by (simp add: server_wf_sched end_task_inv content_wf_set_last_crawled pages_inv_end)
  next
    case (CrawlStopped task)
    then show ?thesis using wf parts by (simp add: server_wf_sched end_task_inv pages_inv_end)
  next
    case (Indexed p b)
    have "content_wf (ix_db (pl_indexer (pipe_of sv)))" by (simp add: pipe_of_def parts)
    moreover have "pipeline_step (pg_index_ok P) (ce_url (pg_page_env P)) (pipe_of sv) IndexerTurn = Some (p, b)"
      unfolding pipeline_step.simps Indexed(2) ..
    ultimately have "content_wf (ix_db (pl_indexer p))" by (rule pipeline_turn_wf [rotated])
    then show ?thesis unfolding Indexed(1) by (rule server_wf_pipe [OF wf])
  next
    case (PeerProbed probe now peer)
    have "fed_wf (health_tick_peers probe (sv_poisoned sv) (\<lambda>_ d. d) now [peer] (sb_fed (sv_db sv)))"
      by (rule fed_wf_probe) (rule parts)
    from server_wf_put_fed [OF wf this] show ?thesis unfolding PeerProbed by simp
  next
    case (Gossiped net now url pb before)
    then show ?thesis using wf parts by (simp add: server_wf_engines spawn_distinct)
  next
    case (PeerAnswered now out)
    then show ?thesis using wf parts by (simp add: server_wf_put_fed record_outcome_def fed_wf_record_result)
  next
    case Poisoned
    then show ?thesis using wf by (simp add: server_wf_def)
  qed
qed

interpretation tables: run_invariant P calls server_wf for P calls
  by unfold_locales (rule inside_step_wf server_wf_handler, assumption+)+

section \<open>Every run keeps the constraints\<close>

lemma start_server_wf:
  assumes "start_server of_json cfg fresh now d heap reader disk = Inr (token, sv)"
    and "site_wf (dk_db disk)" and "distinct (map eng_url (dk_engines disk))"
  shows "server_wf sv"
proof -
  let ?b = "boot_settings of_json cfg fresh now (dk_config disk) (dk_engines disk)"
  have sv: "sv_db sv = dk_db disk" "sv_engines sv = bt_engines ?b" "sv_running sv = []" "sv_tasks sv = []"
    "sv_pages sv = []"
    "cs_runtime (sv_config sv) = bt_runtime ?b" "cs_limit (sv_config sv) = limit (bt_anon_limit ?b)"
    using assms(1) by (auto simp: start_server_def Let_def split: sum.splits)
  have "distinct (map eng_url (bt_engines ?b))"
    using assms(3)
    by (auto simp: boot_settings_def ensure_self_entry_def discovered_upsert_def Let_def intro!: distinct_upsert_row
        split: prod.split)
  moreover have "bt_anon_limit ?b = initial_rate_limit_config (bt_runtime ?b)"
    by (simp add: boot_settings_def Let_def split: prod.split)
  ultimately show ?thesis
    using assms(2) by (simp add: server_wf_def sv limits_in_step_def sched_inv_def sched_of_def pages_inv_def)
qed


section \<open>An example\<close>

definition plain_program :: "(unit, outlink_example list, nat, nat) program" where
  "plain_program =
     \<lparr>pg_token = ''token'', pg_self_url = ''https://me'', pg_version = ''1'', pg_max_index_bytes = 100,
      pg_peer_limit = default_rate_limit_config, pg_driver = \<lparr>dc_politeness_delay = 1000, dc_max_pages_per_run = 10\<rparr>,
      pg_page_env = plain_env,
      pg_codec = \<lparr>gunzip = Inr, gzip = Inr, envelope_of_json = (\<lambda>_. Inl ''eof''), json_of_envelope = (\<lambda>_. Inr [])\<rparr>,
      pg_ranking_json = sample_search_json, pg_id_field = (\<lambda>v. Some (int v)), pg_value_text = (\<lambda>v. v),
      pg_text_value = Some, pg_config_json = (\<lambda>_. Inr ''config''), pg_semver = (\<lambda>_. None), pg_pretty = (\<lambda>_. []),
      pg_assets = (\<lambda>_. None), pg_mime = (\<lambda>_. []), pg_admin_html = [], pg_host = (\<lambda>_. None), pg_index_ok = always_ok\<rparr>"

definition plain_disk :: "(outlink_example list, nat) disk" where
  "plain_disk = \<lparr>dk_db = empty_site, dk_config = [], dk_engines = [], dk_index = None\<rparr>"

definition plain_io :: dir_io where
  "plain_io = \<lparr>io_mkdir = True, io_open = True, io_create = True, io_partial = None\<rparr>"

definition plain_start :: "start_error + string \<times> (unit, outlink_example list, nat) server" where
  "plain_start = start_server (\<lambda>_. None) plain_boot_config ''token'' 5 plain_io True True plain_disk"

definition plain_server :: "(unit, outlink_example list, nat) server" where
  "plain_server =
     \<lparr>sv_poisoned = False, sv_db = empty_site,
      sv_engines = [\<lparr>eng_url = ''https://me'', eng_name = ''me'', eng_description = [], eng_first_seen = 5, eng_last_seen = 5\<rparr>],
      sv_config = \<lparr>cs_runtime = default_runtime_config, cs_limit = limit default_rate_limit_config,
        cs_db = [(ADMIN_TOKEN_KEY, Some ''token'')]\<rparr>,
      sv_queue = [], sv_deletes = [], sv_writer = \<lparr>iw_ops = [], iw_journal = []\<rparr>, sv_pending = 0, sv_delete_open = True,
      sv_indexer_up = True, sv_inflight = 0, sv_paused = False, sv_robots = \<lparr>rs_cache = \<lambda>_. None, rs_sent = []\<rparr>,
      sv_fresh = 0, sv_running = [], sv_tasks = [], sv_pages = []\<rparr>"

lemma plain_started_on:
  "start_server (\<lambda>_. None) plain_boot_config ''token'' 5 plain_io True True (plain_disk\<lparr>dk_db := db\<rparr>) =
     Inr (''token'', plain_server\<lparr>sv_db := db\<rparr>)"
proof -
  have "set writer_fields \<subseteq> fst ` set build" by (simp add: writer_fields_def build_def)
  then obtain x r where open_ok: "writer_open build True = Inr x" "searcher_open build True = Inr r"
    using writer_open_iff reader_reads_writer_fields(1) by metis
  show ?thesis
    by (simp add: start_server_def plain_disk_def plain_io_def open_or_create_def open_ok plain_server_def
        boot_settings_def plain_boot_config_def ensure_and_announce_admin_token_def ensure_admin_token_def fetch_token_def
        find_by_def upsert_token_def upsert_config_def upsert_row_def initial_runtime_config_def initial_rate_limit_config_def
        RUNTIME_CONFIG_KEY_def ADMIN_TOKEN_KEY_def default_runtime_config_def ensure_self_entry_def discovered_upsert_def
        Let_def)
qed

lemma plain_started: "plain_start = Inr (''token'', plain_server)"
  using plain_started_on [of empty_site] by (simp add: plain_start_def plain_disk_def plain_server_def)

definition plain_web :: "(int list, (unit, outlink_example list, nat) server) web_state" where
  "plain_web = \<lparr>ws_attempts = [], ws_rates = [], ws_cache = new_peer_ip_cache, ws_app = plain_server\<rparr>"

definition any_call :: "(unit, unit, outlink_example list, nat, nat) call \<Rightarrow> bool" where
  "any_call C = True"

lemma plain_server_run:
  "\<exists>w'. server_run plain_program any_call plain_web [False, False] w' \<and> sv_poisoned (ws_app w')"
proof -
  let ?sv1 = "put_sched (tick_once (pg_max_index_bytes plain_program) None 7 (sched_of plain_server)) plain_server"
  let ?w1 = "plain_web\<lparr>ws_app := ?sv1\<rparr>" and ?sv2 = "?sv1\<lparr>sv_poisoned := True\<rparr>"
  have "server_step plain_program any_call plain_web False ?w1"
    by (rule server_step.Inside) (simp add: plain_web_def Ticked)
  moreover have "server_step plain_program any_call ?w1 False (?w1\<lparr>ws_app := ?sv2\<rparr>)"
    by (rule server_step.Inside) (simp add: Poisoned)
  ultimately have "server_run plain_program any_call plain_web [False, False] (?w1\<lparr>ws_app := ?sv2\<rparr>)"
    using server_run.More [OF server_run.More [OF server_run.Here]] by fastforce
  then show ?thesis by (rule exI [where x = "?w1\<lparr>ws_app := ?sv2\<rparr>", OF conjI]) simp
qed


end
