(* ===== verification/Server_Safety.thy ===== *)
theory Server_Safety
  imports Server_Run
begin

text \<open>
  What the runs of the whole program cannot do: change what belongs to the admin without the token, or lose count of
  the documents in flight.
\<close>

section \<open>What belongs to the admin\<close>

text \<open>
  Collections, crawl targets but for the time of the last crawl, the identity of the peers but not their health, the
  subscriptions, the ranking, the configuration with its limit, and the switch of the crawler.
\<close>

definition admin_data ::
  "('r, 'x, 'j) server \<Rightarrow> collection_row list \<times> target_row list \<times> (int \<times> string \<times> string option) list \<times>
   flt collection_peer list \<times> (flt, 'j) ranking_row list \<times> config_state \<times> bool" where
  "admin_data sv =
     (collections (sb_content (sv_db sv)),
      map (\<lambda>t. t\<lparr>t_last_crawled_at := None\<rparr>) (targets (sb_content (sv_db sv))),
      map (\<lambda>p. (np_id p, np_url p, np_name p)) (node_peers (sb_fed (sv_db sv))),
      collection_peers (sb_fed (sv_db sv)), sb_ranking (sv_db sv), sv_config sv, sv_paused sv)"

definition peers_of_admin :: "flt fed_db \<Rightarrow> (int \<times> string \<times> string option) list \<times> flt collection_peer list" where
  "peers_of_admin fed = (map (\<lambda>p. (np_id p, np_url p, np_name p)) (node_peers fed), collection_peers fed)"

lemma peers_of_admin_update:
  assumes "\<And>p. np_id (f p) = np_id p \<and> np_url (f p) = np_url p \<and> np_name (f p) = np_name p"
  shows "peers_of_admin (update_node_peer rid f fed) = peers_of_admin fed"
  using assms
  by (simp add: peers_of_admin_def update_node_peer_def map_update_where_same)

lemma peers_of_admin_notification [simp]: "peers_of_admin (insert_notification now k m fed) = peers_of_admin fed"
  by (simp add: peers_of_admin_def insert_notification_def)

lemma peers_of_admin_enabled [simp]: "peers_of_admin (set_node_peer_enabled now rid e fed) = peers_of_admin fed"
  by (simp add: set_node_peer_enabled_def peers_of_admin_update)

lemma peers_of_admin_result [simp]: "peers_of_admin (fst (record_result now rid ok ms fed)) = peers_of_admin fed"
  by (simp add: record_result_def peers_of_admin_update Let_def split: option.split)

lemma peers_of_admin_outcomes [simp]: "peers_of_admin (record_outcomes now outs fed) = peers_of_admin fed"
  unfolding record_outcomes_def by (induction outs arbitrary: fed) (simp_all add: record_outcome_def)

lemma peers_of_admin_probe [simp]:
  "peers_of_admin (health_tick_peers probe poisoned (\<lambda>_ d. d) now ps fed) = peers_of_admin fed"
  by (induction ps arbitrary: fed) (simp_all add: Let_def)

lemma admin_data_put_fed: "peers_of_admin fed = peers_of_admin (sb_fed (sv_db sv)) \<Longrightarrow> admin_data (put_fed fed sv) = admin_data sv"
  by (simp add: admin_data_def put_fed_def peers_of_admin_def)

lemma admin_data_engines [simp]: "admin_data (sv\<lparr>sv_engines := es\<rparr>) = admin_data sv"
  "admin_data (sv\<lparr>sv_robots := rs\<rparr>) = admin_data sv" "admin_data (sv\<lparr>sv_poisoned := b\<rparr>) = admin_data sv"
  "admin_data (sv\<lparr>sv_pages := gs\<rparr>) = admin_data sv"
  by (simp_all add: admin_data_def)

definition content_of_admin :: "'x content_db \<Rightarrow> collection_row list \<times> target_row list" where
  "content_of_admin db = (collections db, map (\<lambda>t. t\<lparr>t_last_crawled_at := None\<rparr>) (targets db))"

lemma admin_data_crawl:
  "content_of_admin (crawl_state.cs_db c) = content_of_admin (sb_content (sv_db sv)) \<Longrightarrow>
   admin_data (put_crawl c sv) = admin_data sv"
  by (simp add: admin_data_def put_crawl_def content_of_admin_def)

lemma admin_data_sched:
  "content_of_admin (crawl_state.cs_db (sd_crawl s)) = content_of_admin (sb_content (sv_db sv)) \<Longrightarrow>
   admin_data (put_sched s sv) = admin_data sv"
  by (simp add: admin_data_def put_sched_def put_crawl_def content_of_admin_def)

lemma admin_data_pipe:
  "content_of_admin (ix_db (pl_indexer pl)) = content_of_admin (sb_content (sv_db sv)) \<Longrightarrow>
   admin_data (put_pipe pl sv) = admin_data sv"
  by (simp add: admin_data_def put_pipe_def content_of_admin_def)

lemma content_of_admin_last_crawled [simp]: "content_of_admin (set_last_crawled now tid db) = content_of_admin db"
  by (simp add: content_of_admin_def set_last_crawled_def map_update_where_same)

lemma content_of_admin_turn:
  assumes "pipeline_step ok L st IndexerTurn = Some (st', b)"
  shows "content_of_admin (ix_db (pl_indexer st')) = content_of_admin (ix_db (pl_indexer st))"
proof -
  obtain ev st1 where ev: "next_event st = (ev, st1)" by fastforce
  then have st1: "pl_indexer st1 = pl_indexer st" by (auto simp: next_event_def split: list.splits)
  have flush: "content_of_admin (ix_db (fst (flush ok ix))) = content_of_admin (ix_db ix)" for ix
    by (simp add: flush_def content_of_admin_def mark_indexed_batch_def Let_def split: prod.split sum.split)
  have "flush ok x = (y, z) \<Longrightarrow> content_of_admin (ix_db y) = content_of_admin (ix_db x)" for x y z
    using flush [of x] by simp
  then have "content_of_admin (ix_db (fst (indexer_turn ok L ix e))) = content_of_admin (ix_db ix)" for ix e
    by (cases e) (auto simp: Let_def split: prod.split sum.split)
  from this [of "pl_indexer st" ev] show ?thesis
    using assms ev st1 by (auto split: prod.splits if_splits loop_outcome.splits)
qed

lemma content_of_admin_quiet:
  "quiet (crawl_of sv) c \<Longrightarrow> content_of_admin (crawl_state.cs_db c) = content_of_admin (sb_content (sv_db sv))"
  by (simp add: quiet_def content_of_admin_def)

text \<open>The segments of a page, seen together: each is quiet, and what it does to the open pages does not matter here.\<close>

lemma page_segment_quiet:
  shows "page_open E ctx u (crawl_of sv) = (c, r1) \<Longrightarrow> quiet (crawl_of sv) c"
    and "page_fetch E ctx u now prior (crawl_of sv) = (c, r2) \<Longrightarrow> quiet (crawl_of sv) c"
    and "page_send E ctx u now f (crawl_of sv) = (c, r3) \<Longrightarrow> quiet (crawl_of sv) c"
    and "page_save E ctx u now prior ix f (crawl_of sv) = (c, r4) \<Longrightarrow> quiet (crawl_of sv) c"
  using page_open_quiet [of "crawl_of sv" E ctx u] page_fetch_quiet [of E ctx u now prior "crawl_of sv" c r2]
    page_send_quiet [of E ctx u now f "crawl_of sv" c r3] page_save_quiet [of "crawl_of sv" E ctx u now prior ix f]
  by simp_all

lemma admin_data_quiet: "quiet (crawl_of sv) c \<Longrightarrow> admin_data ((put_crawl c sv)\<lparr>sv_pages := gs\<rparr>) = admin_data sv"
  using admin_data_crawl [OF content_of_admin_quiet, of sv c] by (simp add: admin_data_def)

lemma inside_step_admin_data:
  assumes "inside_step P sv sv'"
  shows "admin_data sv' = admin_data sv"
  using assms
proof (cases rule: inside_stepE)
  case (PageOpened task u c r)
  then show ?thesis using admin_data_quiet page_segment_quiet(1) by blast
next
  case (PageFetched g c r)
  then show ?thesis using admin_data_quiet page_segment_quiet(2) by blast
next
  case (PageSent g f c r)
  then show ?thesis using admin_data_quiet page_segment_quiet(3) by blast
next
  case (PageSaved g f c r)
  then show ?thesis using admin_data_quiet page_segment_quiet(4) by blast
next
  case (Indexed p b)
  have "pipeline_step (pg_index_ok P) (ce_url (pg_page_env P)) (pipe_of sv) IndexerTurn = Some (p, b)"
    unfolding pipeline_step.simps Indexed(2) ..
  from content_of_admin_turn [OF this] show ?thesis
    unfolding Indexed(1) by (intro admin_data_pipe) (simp add: pipe_of_def)
next
  case (PeerProbed probe now peer)
  have "admin_data (put_fed (health_tick_peers probe (sv_poisoned sv) (\<lambda>_ d. d) now [peer] (sb_fed (sv_db sv))) sv) =
      admin_data sv"
    by (rule admin_data_put_fed) (rule peers_of_admin_probe)
  then show ?thesis unfolding PeerProbed by simp
qed (simp_all add: admin_data_sched admin_data_put_fed record_outcome_def)

lemma public_admin_data: "admin_data (fst (public_endpoint P C e p sv)) = admin_data sv"
  using public_endpoint_effect [of P C e p sv] by (auto simp: admin_data_put_fed)

interpretation admin_rows: public_invariant P calls "\<lambda>sv. admin_data sv = D" for P calls D
  by unfold_locales
    (simp_all add: inside_step_admin_data, auto simp: run_handler_def public_admin_data split: option.split)

lemma server_run_admin_data:
  assumes "server_run P calls w as w'" and "True \<notin> set as"
  shows "admin_data (ws_app w') = admin_data (ws_app w)"
  using admin_rows.run_unadmitted [OF assms] by simp


section \<open>The documents in flight\<close>

lemma pipe_frame:
  assumes "pipeline_inv (pipe_of sv)" and "sv_queue sv' = sv_queue sv" "sv_writer sv' = sv_writer sv" "sv_pending sv' = sv_pending sv"
    "sv_inflight sv' = sv_inflight sv" "sv_indexer_up sv' = sv_indexer_up sv"
    "sv_pages sv' = sv_pages sv"
  shows "pipeline_inv (pipe_of sv')"
  using assms by (simp add: pipeline_inv_def pipe_of_def waiting_def)

lemma pipe_sends:
  assumes "pipeline_inv (pipe_of sv)" and "sv_queue sv' = sv_queue sv @ new"
    "sv_inflight sv' - int (waiting sv') = sv_inflight sv - int (waiting sv) + int (length new)"
    "sv_writer sv' = sv_writer sv" "sv_pending sv' = sv_pending sv" "sv_indexer_up sv' = sv_indexer_up sv"
  shows "pipeline_inv (pipe_of sv')"
  using assms by (simp add: pipeline_inv_def pipe_of_def)

lemma pipe_up: "pipeline_inv (pipe_of sv) \<Longrightarrow> sv_indexer_up sv"
  by (simp add: pipeline_inv_def pipe_of_def)

lemma import_sends:
  assumes "si_accepts s = None"
  shows "\<exists>new. si_queue (fst (handle_import K I body s)) = si_queue s @ new \<and>
    si_inflight (fst (handle_import K I body s)) = si_inflight s + int (length new)"
proof -
  have "\<exists>new. si_queue (fst (send_jobs js x)) = si_queue x @ new \<and>
      si_inflight (fst (send_jobs js x)) = si_inflight x + int (length new)" if "si_accepts x = None" for js x
    using that by (intro exI [where x = js]) (simp add: send_jobs_all)
  note sends = this
  show ?thesis
  proof (cases "decode_body K body")
    case (Inr env)
    let ?r = "apply_envelope I env (si_db s)"
    show ?thesis
    proof (cases "ev_format_version env = FORMAT_VERSION \<and> \<not> si_poisoned s \<and> \<not> isl (snd ?r)")
      case True
      then obtain db report jobs where r: "?r = (db, Inr (report, jobs))" by (cases ?r; cases "snd ?r") auto
      have "fst (handle_import K I body s) = fst (send_jobs jobs (s\<lparr>si_db := db\<rparr>))"
        using True Inr r by (simp add: handle_import_def split: prod.split sum.split)
      then show ?thesis using sends [of "s\<lparr>si_db := db\<rparr>" jobs] assms by simp
    next
      case False
      then have "si_queue (fst (handle_import K I body s)) = si_queue s"
        "si_inflight (fst (handle_import K I body s)) = si_inflight s"
        using Inr by (auto simp: handle_import_def isl_def split: prod.split sum.split)
      then show ?thesis by (intro exI [where x = "[]"]) simp
    qed
  qed (auto simp: handle_import_def)
qed

lemma handler_accounted:
  assumes "pipeline_inv (pipe_of sv)"
  shows "pipeline_inv (pipe_of (fst (run_handler P C e p sv)))"
proof -
  have frame: "pipeline_inv (pipe_of (put_admin st sv))" "pipeline_inv (pipe_of (put_fed fed sv))"
    "pipeline_inv (pipe_of (sv\<lparr>sv_engines := es\<rparr>))" "pipeline_inv (pipe_of (sv\<lparr>sv_config := cf\<rparr>))"
    "pipeline_inv (pipe_of (put_ranking_rows rows sv))" for st fed es cf rows
    by (rule pipe_frame [OF assms]; simp add: put_admin_def put_fed_def put_ranking_rows_def)+
  have public: "pipeline_inv (pipe_of (fst (public_endpoint P C e p sv)))"
    using public_endpoint_effect [of P C e p sv] frame by (elim disjE exE) simp_all
  have other: "pipeline_inv (pipe_of (fst (other_endpoint P C e sv)))"
  proof (cases e)
    case HandleImport
    let ?s = "fst (handle_import (pg_codec P) (ca_import C) (ca_dump C) (site_of sv))"
    have "si_accepts (site_of sv) = None" using pipe_up [OF assms] by (simp add: site_of_def)
    from import_sends [OF this] obtain new where "si_queue ?s = sv_queue sv @ new"
      "si_inflight ?s = sv_inflight sv + int (length new)"
      by (metis site_of_def site.select_convs(3,4))
    then have "pipeline_inv (pipe_of (put_site ?s sv))"
      by (intro pipe_sends [OF assms]) (simp_all add: put_site_def waiting_def)
    then show ?thesis using HandleImport by (simp add: case_prod_unfold Let_def)
  qed (use assms frame in \<open>simp_all add: case_prod_unfold Let_def\<close>)
  show ?thesis
    unfolding run_handler_def
    by (simp add: assms public other frame case_prod_unfold Let_def split: option.split)
qed

text \<open>
  A segment of a page moves the count of jobs in flight, the jobs that wait and the channel together.
\<close>

definition moved_jobs :: "('r, 'x, 'j) server \<Rightarrow> ('r, 'x) crawl_state \<Rightarrow> open_page list \<Rightarrow> bool" where
  "moved_jobs sv c gs \<longleftrightarrow>
     (\<exists>new. cs_jobs c = sv_queue sv @ new \<and>
        cs_inflight c - int (length (filter (\<lambda>g. is_sending (og_stage g)) gs)) =
        sv_inflight sv - int (waiting sv) + int (length new))"

lemma pipe_moved:
  assumes "pipeline_inv (pipe_of sv)" and "moved_jobs sv c gs"
  shows "pipeline_inv (pipe_of ((put_crawl c sv)\<lparr>sv_pages := gs\<rparr>))"
proof -
  obtain new where "cs_jobs c = sv_queue sv @ new" "cs_inflight c - int (length (filter (\<lambda>g. is_sending (og_stage g)) gs)) =
      sv_inflight sv - int (waiting sv) + int (length new)"
    using assms(2) by (auto simp: moved_jobs_def)
  then show ?thesis by (intro pipe_sends [OF assms(1)]) (simp_all add: put_crawl_def waiting_def)
qed

lemma sending_moved:
  assumes "g \<in> set (sv_pages sv)"
  shows "int (length (filter (\<lambda>g. is_sending (og_stage g)) (remove1 g (sv_pages sv)))) =
    int (waiting sv) - (if is_sending (og_stage g) then 1 else 0)"
proof (cases "is_sending (og_stage g)")
  case True
  let ?s = "filter (\<lambda>g. is_sending (og_stage g)) (sv_pages sv)"
  have g: "g \<in> set ?s" using True assms by simp
  then have "0 < length ?s" by (rule length_pos_if_in_set)
  moreover have "length (remove1 g ?s) = length ?s - 1" using g by (simp only: length_remove1 if_True)
  ultimately have "int (length (remove1 g ?s)) = int (length ?s) - 1" by linarith
  then show ?thesis using True by (simp only: waiting_def filter_remove1 if_True)
qed (simp add: waiting_def filter_remove1 remove1_idem)

lemma inside_accounted:
  assumes "inside_step P sv sv'" and "index_never_fails (pg_index_ok P)" and inv: "pipeline_inv (pipe_of sv)"
  shows "pipeline_inv (pipe_of sv')"
  using assms(1)
proof (cases rule: inside_stepE)
  case (Indexed p b)
  have "pipeline_step (pg_index_ok P) (ce_url (pg_page_env P)) (pipe_of sv) IndexerTurn = Some (p, b)"
    unfolding pipeline_step.simps Indexed(2) ..
  from pipeline_turn_inv [OF assms(2) inv this] show ?thesis
    unfolding Indexed(1) by (simp add: pipe_of_def put_pipe_def pipeline_inv_def waiting_def)
next
  case (PageOpened task u c r)
  have "same_jobs (crawl_of sv) c" using page_open_quiet [of "crawl_of sv"] PageOpened(5) by (metis fst_conv)
  then show ?thesis
    unfolding PageOpened(1) using inv
    by (intro pipe_moved) (auto simp: same_jobs_def crawl_of_def moved_jobs_def waiting_def split: sum.split)
next
  case (PageFetched g c r)
  show ?thesis
    unfolding PageFetched(1) using inv page_fetch_quiet [OF PageFetched(4)] PageFetched(2,3)
    by (intro pipe_moved) (auto simp: crawl_of_def moved_jobs_def sending_moved split: page_progress.split)
next
  case (PageSent g f c r)
  show ?thesis
    unfolding PageSent(1) using inv page_send_quiet [OF PageSent(4)] PageSent(2,3)
    by (intro pipe_moved) (auto simp: crawl_of_def moved_jobs_def sending_moved split: sum.splits)
next
  case (PageSaved g f c r)
  have "same_jobs (crawl_of sv) c"
    using page_save_quiet [of "crawl_of sv"] PageSaved(4) by (metis fst_conv)
  then show ?thesis
    unfolding PageSaved(1) using inv PageSaved(2,3)
    by (intro pipe_moved) (auto simp: same_jobs_def crawl_of_def moved_jobs_def sending_moved)
next
  case (PagePanicked g)
  have "moved_jobs sv (crawl_of sv) (remove1 g (sv_pages sv))"
    using PagePanicked(2,3) by (simp add: moved_jobs_def crawl_of_def sending_moved)
  from pipe_moved [OF inv this] have "pipeline_inv (pipe_of (sv\<lparr>sv_pages := remove1 g (sv_pages sv)\<rparr>))"
    by (simp add: put_crawl_def crawl_of_def)
  then show ?thesis
    unfolding PagePanicked(1) by (rule pipe_frame) (simp_all add: put_sched_def put_crawl_def crawl_of_def end_task_def)
next
  case (PeerProbed probe now peer)
  have "pipeline_inv (pipe_of (put_fed fed sv))" for fed
    by (rule pipe_frame [OF inv]) (simp_all add: put_fed_def)
  then show ?thesis unfolding PeerProbed by blast
qed (auto intro!: pipe_frame [OF inv] simp: put_sched_def put_crawl_def put_fed_def crawl_of_def)

interpretation counted: run_invariant P calls
    "\<lambda>sv. index_never_fails (pg_index_ok P) \<longrightarrow> pipeline_inv (pipe_of sv)" for P calls
  by unfold_locales (blast intro: inside_accounted, blast intro: handler_accounted)

lemma start_accounted:
  assumes "start_server of_json cfg fresh now d heap reader disk = Inr (token, sv)" and "sv_indexer_up sv"
  shows "pipeline_inv (pipe_of sv)"
  using assms
  by (auto simp: start_server_def Let_def pipeline_inv_def pipe_of_def BATCH_SIZE_def waiting_def split: sum.splits)


section \<open>Examples\<close>



end
