(* ===== verification/Server_Crawl.thy ===== *)
theory Server_Crawl
  imports Server_Safety
begin

text \<open>
  The crawls of the whole program: the run of one target that the scheduler starts is a sequence of steps of the server,
  and a target added over the admin API is crawled at the next tick.
\<close>

section \<open>A run of one target\<close>

abbreviation inside_steps ::
  "('r, 'x, 'j, 'v) program \<Rightarrow> ('r, 'x, 'j) server \<Rightarrow> ('r, 'x, 'j) server \<Rightarrow> bool" where
  "inside_steps P \<equiv> (inside_step P)\<^sup>*\<^sup>*"

lemma put_crawl_simps [simp]: "sv_tasks (put_crawl c sv) = sv_tasks sv" "sv_indexer_up (put_crawl c sv) = sv_indexer_up sv"
  "sv_robots (put_crawl c sv) = cs_robots c" "sb_content (sv_db (put_crawl c sv)) = crawl_state.cs_db c"
  "put_crawl c' (put_crawl c sv) = put_crawl c' sv" "put_crawl (crawl_of sv) sv = sv"
  by (simp_all add: put_crawl_def crawl_of_def)

lemma crawl_of_put [simp]: "cs_channel_open c = sv_indexer_up sv \<Longrightarrow> crawl_of (put_crawl c sv) = c"
  by (simp add: put_crawl_def crawl_of_def)

lemma put_robots: "(put_crawl c sv)\<lparr>sv_robots := rs\<rparr> = put_crawl (c\<lparr>cs_robots := rs\<rparr>) sv"
  by (simp add: put_crawl_def)

lemma put_sched_end:
  "put_sched (end_task task c' (sched_of (put_crawl c sv))) (put_crawl c sv) = put_sched (end_task task c' (sched_of sv)) sv"
  by (simp add: put_sched_def end_task_def sched_of_def put_crawl_def)

lemma drive_step_crawl:
  "dr_crawl (fst (drive_step E ctx m delay others now d)) =
     fst (crawl_page E (hd (dr_queue d)) ctx now (others (dr_log d) (dr_crawl d)))"
  by (simp add: drive_step_def Let_def case_prod_unfold split: sum.split crawl_error.split)

text \<open>The queue of a crawl stays in the scope of its target.\<close>

abbreviation queue_in_scope :: "('r, 'x, 'j, 'v) program \<Rightarrow> due_target \<Rightarrow> ('r, 'x) drive \<Rightarrow> bool" where
  "queue_in_scope P target d \<equiv> \<forall>u \<in> set (dr_queue d). in_scope (ce_url (pg_page_env P)) target u"

lemma enqueue_in_scope:
  assumes "enqueue visited queue links = (visited', queue')" and "\<forall>u \<in> set queue. S u" and "\<forall>u \<in> set links. S u"
  shows "\<forall>u \<in> set queue'. S u"
  using enqueue_spec [OF assms(1)] assms(2,3) by (elim exE conjE) (simp add: ball_Un subset_iff)

lemma drive_step_in_scope:
  assumes "drive_step (pg_page_env P) (page_context_of target) m delay others now d = (d', go)" and "dr_queue d \<noteq> []"
    and "queue_in_scope P target d"
  shows "queue_in_scope P target d'"
proof -
  obtain url rest where q: "dr_queue d = url # rest" using assms(2) by (auto simp: neq_Nil_conv)
  then have rest: "\<forall>u \<in> set rest. in_scope (ce_url (pg_page_env P)) target u" using assms(3) by simp
  from assms(1) q show ?thesis
  proof (cases rule: drive_step_cases)
    case (page st result visited queue)
    have "\<forall>l \<in> set (pr_in_prefix_links result). in_scope (ce_url (pg_page_env P)) target l"
      using crawl_page_does [OF page(1)] by (auto simp: page_report_def in_scope_def Let_def)
    from enqueue_in_scope [OF page(2) rest this] show ?thesis by (simp add: page(4))
  qed (use assms(3) rest in simp_all)
qed

text \<open>The crawl of one page in its segments, with nothing between them.\<close>

lemma put_crawl_pages [simp]:
  "put_crawl c (sv\<lparr>sv_pages := gs\<rparr>) = (put_crawl c sv)\<lparr>sv_pages := gs\<rparr>"
  "crawl_of (sv\<lparr>sv_pages := gs\<rparr>) = crawl_of sv" "(put_crawl c sv)\<lparr>sv_pages := sv_pages sv\<rparr> = put_crawl c sv"
  by (simp_all add: put_crawl_def crawl_of_def)

lemma page_segments_channel:
  "page_open E ctx u st = (st1, r1) \<Longrightarrow> cs_channel_open st1 = cs_channel_open st"
  "page_fetch E ctx u now prior st = (st2, r2) \<Longrightarrow> cs_channel_open st2 = cs_channel_open st"
  "page_send E ctx u now f st = (st3, r3) \<Longrightarrow> cs_channel_open st3 = cs_channel_open st"
  "page_save E ctx u now prior ix f st = (st4, r4) \<Longrightarrow> cs_channel_open st4 = cs_channel_open st"
  using page_open_quiet [of st E ctx u] page_fetch_quiet [of E ctx u now prior st st2 r2]
    page_send_quiet [of E ctx u now f st st3 r3] page_save_quiet [of st E ctx u now prior ix f]
  by (simp_all add: quiet_def)

text \<open>The states while the task has the page open, and before and after.\<close>

abbreviation paged ::
  "('r, 'x) crawl_state \<Rightarrow> due_target \<times> int \<Rightarrow> string \<Rightarrow> page_row option \<Rightarrow> page_stage \<Rightarrow> ('r, 'x, 'j) server \<Rightarrow>
   ('r, 'x, 'j) server" where
  "paged c task u prior stage sv \<equiv> (put_crawl c sv)
     \<lparr>sv_pages := sv_pages sv @ [\<lparr>og_task = task, og_url = u, og_prior = prior, og_stage = stage\<rparr>]\<rparr>"

lemma segment_steps:
  assumes task: "task \<in> set (sv_tasks sv)" "\<forall>g \<in> set (sv_pages sv). og_task g \<noteq> task"
    and ch: "cs_channel_open c = sv_indexer_up sv"
  shows "in_scope (ce_url (pg_page_env P)) (fst task) u \<Longrightarrow>
      page_open (pg_page_env P) (page_context_of (fst task)) u c = (c', r1) \<Longrightarrow>
      inside_step P (put_crawl c sv)
        (case r1 of Inl _ \<Rightarrow> put_crawl c' sv | Inr prior \<Rightarrow> paged c' task u prior Fetching sv)"
    and "page_fetch (pg_page_env P) (page_context_of (fst task)) u (snd task) prior c = (c', r2) \<Longrightarrow>
      inside_step P (paged c task u prior Fetching sv)
        (case r2 of PageEnded _ \<Rightarrow> put_crawl c' sv | PageWaits f \<Rightarrow> paged c' task u prior (Sending f) sv)"
    and "page_send (pg_page_env P) (page_context_of (fst task)) u (snd task) f c = (c', r3) \<Longrightarrow>
      inside_step P (paged c task u prior (Sending f) sv)
        (case r3 of Inl _ \<Rightarrow> put_crawl c' sv | Inr _ \<Rightarrow> paged c' task u prior (Saving f) sv)"
    and "page_save (pg_page_env P) (page_context_of (fst task)) u (snd task) prior True f c = (c', r4) \<Longrightarrow>
      inside_step P (paged c task u prior (Saving f) sv) (put_crawl c' sv)"
proof -
  let ?g = "\<lambda>stage. \<lparr>og_task = task, og_url = u, og_prior = prior, og_stage = stage\<rparr>"
  have "?g stage \<notin> set (sv_pages sv)" for stage using task(2) by force
  then have rem [simp]: "remove1 (?g stage) (sv_pages sv @ [?g stage]) = sv_pages sv" for stage
    by (simp add: remove1_append)
  note seg [simp] = crawl_of_put [OF ch]
  show "inside_step P (put_crawl c sv)
      (case r1 of Inl _ \<Rightarrow> put_crawl c' sv | Inr prior \<Rightarrow> paged c' task u prior Fetching sv)"
    if "in_scope (ce_url (pg_page_env P)) (fst task) u"
      "page_open (pg_page_env P) (page_context_of (fst task)) u c = (c', r1)"
    using PageOpened [of task "put_crawl c sv" P u c' r1] task that by (cases r1) simp_all
  show "inside_step P (paged c task u prior Fetching sv)
      (case r2 of PageEnded _ \<Rightarrow> put_crawl c' sv | PageWaits f \<Rightarrow> paged c' task u prior (Sending f) sv)"
    if "page_fetch (pg_page_env P) (page_context_of (fst task)) u (snd task) prior c = (c', r2)"
    using PageFetched [of "?g Fetching" "paged c task u prior Fetching sv" P c' r2] that by (cases r2) simp_all
  show "inside_step P (paged c task u prior (Sending f) sv)
      (case r3 of Inl _ \<Rightarrow> put_crawl c' sv | Inr _ \<Rightarrow> paged c' task u prior (Saving f) sv)"
    if "page_send (pg_page_env P) (page_context_of (fst task)) u (snd task) f c = (c', r3)"
    using PageSent [of "?g (Sending f)" "paged c task u prior (Sending f) sv" f P c' r3] that by (cases r3) simp_all
  show "inside_step P (paged c task u prior (Saving f) sv) (put_crawl c' sv)"
    if "page_save (pg_page_env P) (page_context_of (fst task)) u (snd task) prior True f c = (c', r4)"
    using PageSaved [of "?g (Saving f)" "paged c task u prior (Saving f) sv" f P c' r4] that by simp
qed

lemma page_step:
  assumes task: "task \<in> set (sv_tasks sv)" "\<forall>g \<in> set (sv_pages sv). og_task g \<noteq> task"
    and ch: "cs_channel_open c = sv_indexer_up sv" and scope: "in_scope (ce_url (pg_page_env P)) (fst task) u"
    and page: "crawl_page (pg_page_env P) u (page_context_of (fst task)) (snd task) c = (c', r)"
  shows "inside_steps P (put_crawl c sv) (put_crawl c' sv)" and "cs_channel_open c' = sv_indexer_up sv"
proof -
  let ?E = "pg_page_env P" and ?x = "page_context_of (fst task)"
  show "cs_channel_open c' = sv_indexer_up sv"
    using crawl_page_does [OF page] ch by (auto simp: page_effect_def Let_def)
  obtain c1 r1 where s1: "page_open ?E ?x u c = (c1, r1)" by fastforce
  note one = segment_steps(1) [OF task ch scope s1]
  show "inside_steps P (put_crawl c sv) (put_crawl c' sv)"
  proof (cases r1)
    case (Inl e)
    then show ?thesis using one page by (auto simp: crawl_page_segments page_run_def s1)
  next
    case (Inr prior)
    have ch1: "cs_channel_open c1 = sv_indexer_up sv" using page_segments_channel(1) [OF s1] ch by simp
    obtain c2 r2 where s2: "page_fetch ?E ?x u (snd task) prior c1 = (c2, r2)" by fastforce
    note two = segment_steps(2) [OF task ch1 s2]
    show ?thesis
    proof (cases r2)
      case (PageEnded e)
      then have "c' = c2" using page by (simp add: crawl_page_segments page_run_def s1 Inr s2)
      then show ?thesis using one two Inr PageEnded by (auto intro: converse_rtranclp_into_rtranclp)
    next
      case (PageWaits f)
      have ch2: "cs_channel_open c2 = sv_indexer_up sv" using page_segments_channel(2) [OF s2] ch1 by simp
      obtain c3 r3 where s3: "page_send ?E ?x u (snd task) f c2 = (c3, r3)" by fastforce
      note three = segment_steps(3) [OF task ch2 s3, of prior]
      have "inside_steps P (put_crawl c sv) (paged c2 task u prior (Sending f) sv)"
        using one two Inr PageWaits by (auto intro: converse_rtranclp_into_rtranclp)
      note upto = rtranclp.rtrancl_into_rtrancl [OF this three]
      show ?thesis
      proof (cases r3)
        case (Inl e)
        then have "c' = c3" using page by (simp add: crawl_page_segments page_run_def s1 Inr s2 PageWaits s3)
        then show ?thesis using upto Inl by simp
      next
        case sent: (Inr i)
        have ch3: "cs_channel_open c3 = sv_indexer_up sv" using page_segments_channel(3) [OF s3] ch2 by simp
        obtain r4 where s4: "page_save ?E ?x u (snd task) prior True f c3 = (c', r4)"
          using page by (simp add: crawl_page_segments page_run_def s1 Inr s2 PageWaits s3 sent)
        from segment_steps(4) [OF task ch3 s4] upto sent show ?thesis
          by (auto intro: rtranclp.rtrancl_into_rtrancl)
      qed
    qed
  qed
qed

lemma loop_steps:
  assumes task: "task \<in> set (sv_tasks sv)" "\<forall>g \<in> set (sv_pages sv). og_task g \<noteq> task"
    and "cs_channel_open (dr_crawl d) = sv_indexer_up sv"
    and "queue_in_scope P (fst task) d"
  shows "inside_steps P (put_crawl (dr_crawl d) sv)
      (put_crawl (dr_crawl (drive_loop (pg_page_env P) (page_context_of (fst task)) m delay (\<lambda>_ s. s) (snd task) d)) sv) \<and>
    cs_channel_open (dr_crawl (drive_loop (pg_page_env P) (page_context_of (fst task)) m delay (\<lambda>_ s. s) (snd task) d)) =
      sv_indexer_up sv"
  using assms(3,4)
proof (induction "pg_page_env P" "page_context_of (fst task)" m delay "\<lambda>_ :: crawl_event list. \<lambda>s :: ('a, 'b) crawl_state. s" "snd task" d
    rule: drive_loop.induct)
  case (1 m delay d)
  let ?loop = "drive_loop (pg_page_env P) (page_context_of (fst task)) m delay (\<lambda>_ s. s) (snd task)"
  show ?case
  proof (cases "going m d")
    case False
    then show ?thesis using 1(2) by (simp add: drive_loop.simps [of _ _ m])
  next
    case True
    obtain d' go where st: "drive_step (pg_page_env P) (page_context_of (fst task)) m delay (\<lambda>_ s. s) (snd task) d = (d', go)"
      by fastforce
    obtain c r where page: "crawl_page (pg_page_env P) (hd (dr_queue d)) (page_context_of (fst task)) (snd task) (dr_crawl d) = (c, r)"
      by fastforce
    have c: "dr_crawl d' = c"
      using drive_step_crawl [of "pg_page_env P" "page_context_of (fst task)" m delay "\<lambda>_ s. s" "snd task" d] st page
      by simp
    have "dr_queue d \<noteq> []" using True by (simp add: going_def)
    then have scope: "in_scope (ce_url (pg_page_env P)) (fst task) (hd (dr_queue d))" "queue_in_scope P (fst task) d'"
      using drive_step_in_scope [OF st _ 1(3)] 1(3) by simp_all
    note one = page_step [OF task 1(2) scope(1) page]
    have loop: "?loop d = (if go then ?loop d' else d')"
      using True st by (simp add: drive_loop.simps [of _ _ m delay _ _ d])
    show ?thesis
    proof (cases go)
      case True
      from 1(1) [OF _ st [symmetric]] \<open>going m d\<close> True one(2) c scope(2)
      have "inside_steps P (put_crawl c sv) (put_crawl (dr_crawl (?loop d')) sv) \<and>
          cs_channel_open (dr_crawl (?loop d')) = sv_indexer_up sv"
        by simp
      then show ?thesis using one(1) True loop by (auto intro: rtranclp_trans)
    next
      case False
      then show ?thesis using one loop c by auto
    qed
  qed
qed

lemma crawl_run_steps:
  assumes task: "task \<in> set (sv_tasks sv)" "\<forall>g \<in> set (sv_pages sv). og_task g \<noteq> task"
    and run: "crawl_run (pg_page_env P) seed (page_context_of (fst task)) cfg (\<lambda>_ s. s) (snd task) (crawl_of sv) = Some d"
    and seed: "seed = dt_url_prefix (fst task)" and order: "order_ok (crawl_env.truncate (pg_page_env P))"
  shows "inside_steps P sv (put_crawl (dr_crawl d) sv) \<and> cs_channel_open (dr_crawl d) = sv_indexer_up sv"
proof -
  let ?E = "pg_page_env P"
  obtain s where s: "normalize_url (ce_url ?E) seed = Some s" using run by (auto simp: crawl_run_def split: option.splits)
  obtain rs delay where delay: "crawl_delay_for (ce_url ?E) (ce_robots ?E) (ce_web ?E) (ce_net ?E) (ce_agent ?E) s (sv_robots sv) =
      (rs, delay)" by fastforce
  obtain rs' seeds where seeds: "discover_urls (crawl_env.truncate ?E) s (dt_url_prefix (fst task)) 10000 rs = (rs', seeds)"
    by fastforce
  obtain visited queue where q: "enqueue [s] [s] seeds = (visited, queue)" by fastforce
  let ?d = "\<lparr>dr_stats = no_pages, dr_visited = visited, dr_queue = queue, dr_consecutive_429s = 0, dr_log = [],
      dr_crawl = (crawl_of sv)\<lparr>cs_robots := rs'\<rparr>\<rparr>"
  let ?t = "effective_delay_for_run (dc_politeness_delay cfg) (map_option (\<lambda>secs. 1000 * secs) (unwrap_or None delay))"
  have robots: "cs_robots (crawl_of sv) = sv_robots sv" by (simp add: crawl_of_def)
  have d: "d = drive_loop ?E (page_context_of (fst task)) (dc_max_pages_per_run cfg) ?t (\<lambda>_ s. s) (snd task) ?d"
    using run s delay seeds q by (simp add: crawl_run_def robots page_context_of_def)
  have "inside_step P sv (sv\<lparr>sv_robots := rs'\<rparr>)" by (rule Seeded [OF task(1) refl delay seeds])
  moreover have "sv\<lparr>sv_robots := rs'\<rparr> = put_crawl (dr_crawl ?d) sv" by (simp add: put_crawl_def crawl_of_def)
  ultimately have first: "inside_step P sv (put_crawl (dr_crawl ?d) sv)" by simp
  have "cs_channel_open (dr_crawl ?d) = sv_indexer_up sv" by (simp add: crawl_of_def)
  moreover have "queue_in_scope P (fst task) ?d"
  proof -
    have "\<forall>u \<in> set seeds. in_scope (ce_url ?E) (fst task) u"
      using discover_urls_good [OF seeds order] by (simp add: in_scope_def own_link_def page_context_of_def)
    moreover have "in_scope (ce_url ?E) (fst task) s" using s seed by (simp add: in_scope_def)
    ultimately show ?thesis using enqueue_in_scope [OF q] by simp
  qed
  ultimately show ?thesis using loop_steps [OF task, of ?d P "dc_max_pages_per_run cfg" ?t] first
    unfolding d [symmetric] by (blast intro: converse_rtranclp_into_rtranclp)
qed


section \<open>A target added over the admin API\<close>

text \<open>C9: A target an admin adds is crawled at the next tick. When the request to add it is answered with the new target, the
  crawler is not paused and the index below its limit, the next tick starts a task for it: under the id of its row, with
  the prefix the answer gave, the canonical form of the one asked for where the site named one.
\<close>

theorem added_target_is_crawled:
  assumes wf: "server_wf sv" and add: "ca_target_action C = Inr (TgtAdd cid url secs)"
    and run: "run_handler P C HandleCrawlTargets p sv = (sv', Target (Some t))"
    and fresh: "ca_uuid C \<notin> set (sv_running sv)" and on: "\<not> sv_paused sv"
    and room: "check_capacity (index_dir_size_bytes tree) (pg_max_index_bytes P) = Inr ()"
  shows "tr_url_prefix t = option_or url (ca_canonical C url) \<and>
    (\<exists>d. (d, now) \<in> set (sv_tasks (put_sched (tick_once (pg_max_index_bytes P) tree now (sched_of sv')) sv')) \<and>
      dt_id d = ca_uuid C \<and> dt_url_prefix d = tr_url_prefix t)"
proof -
  let ?st = "admin_of (pg_max_index_bytes P) sv"
  let ?db = "sb_content (sv_db sv)"
  have notin: "HandleCrawlTargets \<notin> set public_endpoints" "HandleCrawlTargets \<in> set content_endpoints"
    by (simp_all add: public_endpoints_def content_endpoints_def)
  obtain st r where h: "handle_crawl_targets (ca_canonical C) (ca_uuid C) (ca_now_text C) (Inr (TgtAdd cid url secs)) ?st = (st, r)"
    by fastforce
  have st: "ca_rejected C = None" "sv' = put_admin st sv" "r = Inr (Some t)"
    using run h notin by (auto simp: run_handler_def add answer_def split: option.splits sum.splits)
  obtain db' where ta: "target_add (ca_uuid C) (ca_now_text C) cid (option_or url (ca_canonical C url)) secs ?db = (db', Inr t)"
    and db': "as_db st = db'" "as_crawl_paused st = sv_paused sv"
    using h st(3)
    by (auto simp: handle_crawl_targets_def lock_db_def admin_of_def set_db_def Let_def split: if_splits prod.splits sum.splits)
  from target_add_ok [OF ta] obtain c row where c: "find_collection cid ?db = Some c" and colls: "collections db' = collections ?db"
    and row: "targets db' = targets ?db @ [row]" "t_id row = ca_uuid C" "t_collection_id row = c_id c"
      "t_url_prefix row = option_or url (ca_canonical C url)" "t_enabled row = 1"
    and pfx: "tr_url_prefix t = option_or url (ca_canonical C url)"
    by blast
  have never: "t_last_crawled_at row = None"
    using ta row(1) by (auto simp: target_add_def insert_target_def Let_def split: option.splits sum.splits prod.splits if_splits)
  have c_in: "c \<in> set (collections db')" using c colls by (auto simp: find_collection_def dest: find_by_SomeD)
  have "is_due now row" by (simp add: is_due_def row never)
  then have due: "due_of row c \<in> set (list_due_targets now db')"
    using c_in by (auto simp: list_due_targets_def row)
  have wf': "content_wf db'" using content_ops_wf(4) [of ?db] wf ta by (metis fst_conv server_wf_def site_wf_def)
  then have dist: "distinct (map dt_id (list_due_targets now db'))" by (simp add: content_wf_def distinct_due)
  have sched: "sd_paused (sched_of sv') = False" "sd_running (sched_of sv') = sv_running sv"
    "sb_content (sv_db sv') = db'"
    using on by (simp_all add: st(2) put_admin_def sched_of_def crawl_of_def db')
  have "sd_tasks (tick_once (pg_max_index_bytes P) tree now (sched_of sv')) = sd_tasks (sched_of sv') @
      map (\<lambda>t. (t, now)) (filter (\<lambda>t. dt_id t \<notin> set (sv_running sv)) (list_due_targets now db'))"
    using fold_dispatch_tasks [OF dist, of now "sched_of sv'"]
    by (simp add: tick_once_def sched room)
  then have "(due_of row c, now) \<in> set (sd_tasks (tick_once (pg_max_index_bytes P) tree now (sched_of sv')))"
    using due fresh by (auto simp: due_of_def row)
  then show ?thesis
    by (intro conjI exI [where x = "due_of row c"]) (simp_all add: pfx due_of_def row put_sched_def)
qed

section \<open>The indexer left alone\<close>

text \<open>One turn of the indexer on the whole state.\<close>

definition indexer_alone :: "('r, 'x, 'j, 'v) program \<Rightarrow> ('r, 'x, 'j) server \<Rightarrow> ('r, 'x, 'j) server" where
  "indexer_alone P sv =
     (case pipeline_step (pg_index_ok P) (ce_url (pg_page_env P)) (pipe_of sv) IndexerTurn of
        None \<Rightarrow> sv | Some (p, _) \<Rightarrow> put_pipe p sv)"

lemma pipeline_turn_total: "pipeline_step ok L st IndexerTurn \<noteq> None"
  by simp

lemma indexer_alone_step: "inside_step P sv (indexer_alone P sv)"
proof -
  obtain p b where "pipeline_step (pg_index_ok P) (ce_url (pg_page_env P)) (pipe_of sv) IndexerTurn = Some (p, b)"
    using pipeline_turn_total by (metis option.exhaust surj_pair)
  then show ?thesis using Indexed [of P sv p b] by (simp add: indexer_alone_def del: pipeline_step.simps)
qed

lemma pipe_of_put_pipe [simp]: "pipe_of (put_pipe p sv) = p"
  by (simp add: pipe_of_def put_pipe_def waiting_def)

lemma waiting_alone [simp]: "waiting (indexer_alone P sv) = waiting sv"
  by (simp add: indexer_alone_def waiting_def split: option.split prod.split)

definition backlog :: "'x pipeline \<Rightarrow> nat" where
  "backlog st = length (pl_queue st) + length (pl_deletes st)"

lemma turn_backlog:
  assumes "pipeline_inv st" and "pipeline_step always_ok L st IndexerTurn = Some (st', b)"
  shows "backlog st' = backlog st - 1"
    and "backlog st = 0 \<Longrightarrow> iw_journal (ix_writer (pl_indexer st')) = []"
proof -
  have run: "pl_running st" using assms(1) by (simp add: pipeline_inv_def)
  show "backlog st' = backlog st - 1"
  proof (cases "pl_queue st")
    case (Cons job jobs)
    then show ?thesis
      using assms(2) run
      by (auto simp: backlog_def next_event_def writer_upsert_ok flush_ok Let_def split: if_splits)
  next
    case Nil
    then show ?thesis
      using assms(2) run
      by (cases "pl_deletes st")
        (auto simp: backlog_def next_event_def flush_ok fold_delete_url Let_def split: if_splits)
  qed
  show "iw_journal (ix_writer (pl_indexer st')) = []" if "backlog st = 0"
    using that assms run
    by (auto simp: backlog_def next_event_def flush_ok pipeline_inv_def Let_def split: if_splits)
qed

lemma drained:
  assumes "pg_index_ok P = always_ok" and "pipeline_inv (pipe_of sv)" and "backlog (pipe_of sv) = n"
  shows "let st = pipe_of ((indexer_alone P ^^ Suc n) sv) in
    pipeline_inv st \<and> backlog st = 0 \<and> iw_journal (ix_writer (pl_indexer st)) = [] \<and>
    delivered (ce_url (pg_page_env P)) st = delivered (ce_url (pg_page_env P)) (pipe_of sv)"
  using assms(2,3)
proof (induction n arbitrary: sv)
  case (0 sv)
  obtain p b where p: "pipeline_step always_ok (ce_url (pg_page_env P)) (pipe_of sv) IndexerTurn = Some (p, b)"
    using pipeline_turn_total by (metis option.exhaust surj_pair)
  have one: "(indexer_alone P ^^ Suc 0) sv = put_pipe p sv"
    using p by (simp add: indexer_alone_def assms(1) del: pipeline_step.simps)
  show ?case
    unfolding one Let_def pipe_of_put_pipe
    using turn_backlog [OF "0.prems"(1) p] pipeline_turn_inv [OF _ "0.prems"(1) p] step_delivered [OF "0.prems"(1) p] 0(2)
    by simp
next
  case (Suc n sv)
  obtain p b where p: "pipeline_step always_ok (ce_url (pg_page_env P)) (pipe_of sv) IndexerTurn = Some (p, b)"
    using pipeline_turn_total by (metis option.exhaust surj_pair)
  have one: "indexer_alone P sv = put_pipe p sv"
    using p by (simp add: indexer_alone_def assms(1) del: pipeline_step.simps)
  have inv: "pipeline_inv p" using pipeline_turn_inv [OF _ Suc.prems(1) p] by simp
  have len: "backlog p = n" using turn_backlog(1) [OF Suc.prems(1) p] Suc.prems(2) by simp
  have "delivered (ce_url (pg_page_env P)) p = delivered (ce_url (pg_page_env P)) (pipe_of sv)"
    using step_delivered [OF Suc.prems(1) p] by simp
  then show ?case
    using Suc.IH [of "put_pipe p sv"] inv len one by (simp add: funpow_swap1 [of "indexer_alone P"])
qed


section \<open>Examples\<close>

definition plain_call :: "(unit, unit, outlink_example list, nat, nat) call" where
  "plain_call =
     \<lparr>ca_rejected = None, ca_now = 9, ca_now_text = ''now'', ca_uuid = ''u'', ca_search = undefined, ca_index_size = None,
      ca_canonical = (\<lambda>_. None), ca_net = (\<lambda>_ _. NoResponse []), ca_remote = (\<lambda>_. Inl []), ca_before = (False, []),
      ca_arrived = [], ca_import = sample_import_env, ca_id = 1, ca_url = [], ca_name = None, ca_enabled = True,
      ca_paused = False, ca_secs = 60, ca_prefix = None, ca_filter = None, ca_limit = None, ca_offset = None,
      ca_collection_action = Inl [], ca_target_action = Inr (TgtAdd 1 ''https://a/'' 60), ca_subscribe = undefined,
      ca_config = default_runtime_config, ca_ranking = 0, ca_query = undefined, ca_accept = None,
      ca_message = \<lparr>msg_version = [], msg_engines = []\<rparr>, ca_mcp = JNull, ca_dump = []\<rparr>"

definition busy_server :: "(unit, outlink_example list, nat) server" where
  "busy_server = plain_server
     \<lparr>sv_db := (sv_db plain_server)\<lparr>sb_content := crawl_state.cs_db plain_state\<rparr>, sv_tasks := [(plain_due, 5)],
      sv_running := [''t''], sv_queue := [sample_job ''c'' ''https://a/b'']\<rparr>"

lemma busy_server_wf: "server_wf busy_server"
  by (simp add: server_wf_def busy_server_def plain_server_def plain_state_def site_wf_def empty_site_def content_wf_def
      fed_wf_def plain_target_def target_key_def limits_in_step_def initial_rate_limit_config_def
      default_runtime_config_def sched_inv_def sched_of_def plain_due_def due_of_def pages_inv_def)


theorem added_target_is_crawled_witness:
  "\<exists>sv' t d. run_handler plain_program plain_call HandleCrawlTargets [] busy_server = (sv', Target (Some t)) \<and>
     (d, 9) \<in> set (sv_tasks (put_sched (tick_once 100 None 9 (sched_of sv')) sv')) \<and> dt_url_prefix d = ''https://a/''"
proof -
  let ?db = "sb_content (sv_db busy_server)"
  have db: "?db = crawl_state.cs_db plain_state" "\<not> sv_poisoned busy_server"
    by (simp_all add: busy_server_def plain_server_def)
  obtain db' t where add: "target_add ''u'' ''now'' 1 ''https://a/'' 60 ?db = (db', Inr t)"
    unfolding db
    by (simp add: plain_state_def target_add_def find_collection_def find_by_def insert_target_def plain_target_def
        target_key_def Let_def)
  have "collection_exists 1 ?db" by (simp add: db plain_state_def collection_exists_def count_where_def)
  with add db(2) obtain sv' where
    run: "run_handler plain_program plain_call HandleCrawlTargets [] busy_server = (sv', Target (Some t))"
    by (simp add: run_handler_def plain_call_def public_endpoints_def content_endpoints_def handle_crawl_targets_def
        admin_of_def lock_db_def answer_def)
  have "check_capacity (index_dir_size_bytes None) (pg_max_index_bytes plain_program) = Inr ()"
    by (simp add: check_capacity_def index_dir_size_bytes_def plain_program_def)
  from added_target_is_crawled [OF busy_server_wf _ run _ _ this, of 1 "''https://a/''" 60 9] show ?thesis
    using run by (auto simp: plain_call_def busy_server_def plain_server_def plain_program_def)
qed


end
