(* ===== verification/Server_Index.thy ===== *)
theory Server_Index
  imports Server_Crawl
begin

text \<open>
  What the search index can come to hold in a run of the whole program. The index is the log of the operations the
  indexer gave it; a search sees the state of some moment of the log, so the theorems speak of every prefix of it.
\<close>

section \<open>One document for each URL\<close>

definition unique_log :: "index_op list \<Rightarrow> bool" where
  "unique_log ops \<longleftrightarrow> (\<forall>n u. size (filter_mset (\<lambda>d. id_url d = u) (applied (take n ops))) \<le> 1)"

lemma applied_snoc: "applied (ops @ [x]) = apply_op x (applied ops)"
  by (simp add: applied_def)

lemma unique_log_here: "unique_log ops \<Longrightarrow> size (filter_mset (\<lambda>d. id_url d = u) (applied ops)) \<le> 1"
  unfolding unique_log_def by (metis order_refl take_all)

lemma unique_log_snoc:
  assumes "unique_log ops" and "\<And>u. size (filter_mset (\<lambda>d. id_url d = u) (apply_op x (applied ops))) \<le> 1"
  shows "unique_log (ops @ [x])"
  unfolding unique_log_def
proof (intro allI)
  fix n u
  show "size (filter_mset (\<lambda>d. id_url d = u) (applied (take n (ops @ [x])))) \<le> 1"
  proof (cases "n \<le> length ops")
    case True
    then show ?thesis using assms(1) by (simp add: unique_log_def)
  next
    case False
    then have "take n (ops @ [x]) = ops @ [x]" by simp
    then show ?thesis using assms(2) by (simp only: applied_snoc)
  qed
qed

lemma unique_log_commit: "unique_log ops \<Longrightarrow> unique_log (ops @ [CommitOp])"
  by (rule unique_log_snoc) (auto dest: unique_log_here)

lemma unique_log_delete: "unique_log ops \<Longrightarrow> unique_log (ops @ [DeleteTerm u])"
proof (rule unique_log_snoc)
  fix v
  assume u: "unique_log ops"
  have "filter_mset (\<lambda>d. id_url d = v) (apply_op (DeleteTerm u) (applied ops)) \<subseteq># filter_mset (\<lambda>d. id_url d = v) (applied ops)"
    by (simp add: multiset_filter_mono)
  then show "size (filter_mset (\<lambda>d. id_url d = v) (apply_op (DeleteTerm u) (applied ops))) \<le> 1"
    using unique_log_here [OF u, of v] size_mset_mono order_trans by blast
qed

lemma unique_log_replace:
  assumes "unique_log ops"
  shows "unique_log (ops @ [DeleteTerm (id_url d), AddDocument d])"
proof -
  let ?ops = "ops @ [DeleteTerm (id_url d)]"
  have del: "unique_log ?ops" by (rule unique_log_delete) (rule assms)
  have none: "filter_mset (\<lambda>x. id_url x = id_url d) (applied ?ops) = {#}"
    by (simp add: applied_snoc filter_mset_eq_conv)
  have "unique_log (?ops @ [AddDocument d])"
  proof (rule unique_log_snoc [OF del])
    fix v
    show "size (filter_mset (\<lambda>x. id_url x = v) (apply_op (AddDocument d) (applied ?ops))) \<le> 1"
      using none unique_log_here [OF del, of v] by (cases "id_url d = v") simp_all
  qed
  then show ?thesis by simp
qed

section \<open>What a turn of the indexer writes\<close>

text \<open>
  Whatever fails, the log grows by commits, by deletions, and by upserts of a queued job, of which only the deletion
  may get through; a property of logs that these keep is kept.
\<close>

lemma flush_ops:
  assumes "Q (iw_ops (ix_writer ix))" and "\<And>ops. Q ops \<Longrightarrow> Q (ops @ [CommitOp])"
  shows "Q (iw_ops (ix_writer (fst (flush ok ix))))"
  using assms by (auto simp: flush_def writer_commit_def Let_def)

lemma delete_ops:
  assumes "Q ops" and "\<And>ops u. Q ops \<Longrightarrow> Q (ops @ [DeleteTerm u])"
  shows "Q (ops @ map DeleteTerm urls)"
  using assms(1)
proof (induction urls arbitrary: ops)
  case (Cons u urls)
  from Cons.IH [OF assms(2) [OF Cons.prems, of u]] show ?case by simp
qed simp

lemma indexer_turn_ops:
  assumes Q: "Q (iw_ops (ix_writer ix))"
    and commit: "\<And>ops. Q ops \<Longrightarrow> Q (ops @ [CommitOp])" and delete: "\<And>ops u. Q ops \<Longrightarrow> Q (ops @ [DeleteTerm u])"
    and upsert: "\<And>ops job. ev = UpsertMsg job \<Longrightarrow> Q ops \<Longrightarrow>
      Q (ops @ [DeleteTerm (ij_url job), AddDocument (document_of L job)])"
  shows "Q (iw_ops (ix_writer (fst (indexer_turn ok L ix ev))))"
proof -
  have flush: "flush ok x = (y, z) \<Longrightarrow> Q (iw_ops (ix_writer x)) \<Longrightarrow> Q (iw_ops (ix_writer y))" for x y z
    using flush_ops [of Q x ok] commit by simp
  show ?thesis
  proof (cases ev)
    case (UpsertMsg job)
    obtain w r where w: "writer_upsert ok L job (ix_writer ix) = (w, r)" by fastforce
    then have "iw_ops w = iw_ops (ix_writer ix) @ [DeleteTerm (ij_url job)] \<or>
        iw_ops w = iw_ops (ix_writer ix) @ [DeleteTerm (ij_url job), AddDocument (document_of L job)]"
      by (auto simp: writer_upsert_def Let_def split: if_splits)
    then have "Q (iw_ops w)" using Q delete upsert [OF UpsertMsg] by auto
    then show ?thesis
      using UpsertMsg w by (auto simp: Let_def dest: flush split: prod.split sum.split)
  next
    case (DeleteMsg urls)
    have "Q (iw_ops (fold writer_delete_url urls (ix_writer ix)))"
      using delete_ops [OF Q delete] by (simp add: fold_delete_url)
    then show ?thesis using DeleteMsg by (auto simp: Let_def dest: flush split: prod.split sum.split)
  qed (use Q in \<open>auto dest: flush split: prod.split sum.split\<close>)
qed

lemma pipeline_turn_ops:
  assumes step: "pipeline_step ok L st IndexerTurn = Some (st', b)" and "Q (ops_of st)"
    and "\<And>ops. Q ops \<Longrightarrow> Q (ops @ [CommitOp])" and "\<And>ops u. Q ops \<Longrightarrow> Q (ops @ [DeleteTerm u])"
    and upsert: "\<And>ops job. job \<in> set (pl_queue st) \<Longrightarrow> Q ops \<Longrightarrow>
      Q (ops @ [DeleteTerm (ij_url job), AddDocument (document_of L job)])"
  shows "Q (ops_of st')" and "set (pl_queue st') \<subseteq> set (pl_queue st)"
proof -
  obtain ev st1 where ev: "next_event st = (ev, st1)" by fastforce
  then have st1: "pl_indexer st1 = pl_indexer st" "set (pl_queue st1) \<subseteq> set (pl_queue st)"
    and job: "\<And>job. ev = UpsertMsg job \<Longrightarrow> job \<in> set (pl_queue st)"
    by (auto simp: next_event_def split: list.splits)
  have "Q (iw_ops (ix_writer (fst (indexer_turn ok L (pl_indexer st) ev))))"
    by (rule indexer_turn_ops) (use assms(2-4) upsert job in blast)+
  then show "Q (ops_of st')"
    using step ev st1(1) assms(2) by (auto split: prod.splits if_splits loop_outcome.splits)
  show "set (pl_queue st') \<subseteq> set (pl_queue st)"
    using step ev st1 by (auto split: prod.splits if_splits loop_outcome.splits)
qed

section \<open>Only the indexer writes to the index\<close>

lemma put_writer [simp]:
  "sv_writer (put_admin st sv) = sv_writer sv" "sv_writer (put_fed fed sv) = sv_writer sv"
  "sv_writer (put_ranking_rows rows sv) = sv_writer sv" "sv_writer (put_site s sv) = sv_writer sv"
  "sv_writer (put_crawl c sv) = sv_writer sv" "sv_writer (put_sched sd sv) = sv_writer sv"
  by (simp_all add: put_admin_def put_fed_def put_ranking_rows_def put_site_def put_crawl_def put_sched_def)

lemma run_handler_writer [simp]: "sv_writer (fst (run_handler P C e p sv)) = sv_writer sv"
proof -
  have "sv_writer (fst (public_endpoint P C e p sv)) = sv_writer sv"
    using public_endpoint_effect [of P C e p sv] by (elim disjE exE) simp_all
  moreover have "sv_writer (fst (other_endpoint P C e sv)) = sv_writer sv"
    by (cases e) (simp_all add: case_prod_unfold Let_def)
  ultimately show ?thesis by (simp add: run_handler_def case_prod_unfold Let_def split: option.split)
qed

lemma inside_step_unique:
  assumes "inside_step P sv sv'" and uniq: "unique_log (iw_ops (sv_writer sv))"
  shows "unique_log (iw_ops (sv_writer sv'))"
  using assms(1)
proof (cases rule: inside_stepE)
  case (Indexed p b)
  have step: "pipeline_step (pg_index_ok P) (ce_url (pg_page_env P)) (pipe_of sv) IndexerTurn = Some (p, b)"
    unfolding pipeline_step.simps Indexed(2) ..
  have "unique_log (ops_of (pipe_of sv))" using uniq by (simp add: pipe_of_def)
  then have "unique_log (ops_of p)"
    by (rule pipeline_turn_ops(1) [OF step])
      (simp_all add: unique_log_commit unique_log_delete unique_log_replace [of _ "document_of _ _", simplified])
  then show ?thesis unfolding Indexed(1) by (simp add: put_pipe_def)
next
  case (PeerProbed probe now peer)
  show ?thesis unfolding PeerProbed put_writer by (rule uniq)
qed (use uniq in simp_all)

interpretation uniqueness: run_invariant P calls "\<lambda>sv. unique_log (iw_ops (sv_writer sv))" for P calls
  by unfold_locales (rule inside_step_unique, assumption+, simp)

section \<open>Only what is under a target\<close>

text \<open>A target of the scheduler that comes from an enabled row, and a document that belongs under one.\<close>

definition known_task :: "'x content_db \<Rightarrow> due_target \<Rightarrow> bool" where
  "known_task db d \<longleftrightarrow>
     (\<exists>t \<in> set (targets db). \<exists>c \<in> set (collections db).
        c_id c = t_collection_id t \<and> t_enabled t = 1 \<and> d = due_of t c)"

definition covered :: "url_lib \<Rightarrow> 'x content_db \<Rightarrow> string \<Rightarrow> string \<Rightarrow> bool" where
  "covered L db name u \<longleftrightarrow> (\<exists>d. known_task db d \<and> dt_collection_name d = name \<and> in_scope L d u)"

lemma known_task_rows:
  "known_task db d \<longleftrightarrow> (\<exists>t \<in> set (snd (content_of_admin db)). \<exists>c \<in> set (fst (content_of_admin db)).
     c_id c = t_collection_id t \<and> t_enabled t = 1 \<and> d = due_of t c)"
  by (simp add: known_task_def content_of_admin_def due_of_def)

lemma known_task_same: "content_of_admin db' = content_of_admin db \<Longrightarrow> known_task db' = known_task db"
  by (rule ext) (simp only: known_task_rows)

lemma covered_same: "content_of_admin db' = content_of_admin db \<Longrightarrow> covered L db' = covered L db"
  unfolding covered_def by (simp only: known_task_same [of db' db])

text \<open>Every task runs for a row, every open page is under its target, and so is every document queued or written.\<close>

definition index_in_scope :: "url_lib \<Rightarrow> ('r, 'x, 'j) server \<Rightarrow> bool" where
  "index_in_scope L sv \<longleftrightarrow>
     (\<forall>task \<in> set (sv_tasks sv). known_task (sb_content (sv_db sv)) (fst task)) \<and>
     (\<forall>g \<in> set (sv_pages sv). known_task (sb_content (sv_db sv)) (fst (og_task g)) \<and>
        in_scope L (fst (og_task g)) (og_url g)) \<and>
     (\<forall>j \<in> set (sv_queue sv). covered L (sb_content (sv_db sv)) (ij_collection_name j) (ij_url j)) \<and>
     (\<forall>d \<in> set (added (iw_ops (sv_writer sv))). covered L (sb_content (sv_db sv)) (id_collection d) (id_url d))"

lemma index_in_scope_frame:
  assumes "index_in_scope L sv" and "content_of_admin (sb_content (sv_db sv')) = content_of_admin (sb_content (sv_db sv))"
    and "set (sv_tasks sv') \<subseteq> set (sv_tasks sv)" "set (sv_pages sv') \<subseteq> set (sv_pages sv)" "set (sv_queue sv') \<subseteq> set (sv_queue sv)" "sv_writer sv' = sv_writer sv"
  shows "index_in_scope L sv'"
  using assms(1,3-6)
  by (auto simp: index_in_scope_def known_task_same [OF assms(2)] covered_same [OF assms(2)])

lemma tick_tasks:
  "set (sd_tasks (tick_once n tree now st)) \<subseteq>
     set (sd_tasks st) \<union> (\<lambda>d. (d, now)) ` set (list_due_targets now (crawl_state.cs_db (sd_crawl st)))"
proof -
  have "set (sd_tasks (fold (dispatch_target now) ts st)) \<subseteq> set (sd_tasks st) \<union> (\<lambda>d. (d, now)) ` set ts" for ts
  proof (induction ts arbitrary: st)
    case (Cons d ts)
    have "set (sd_tasks (dispatch_target now d st)) \<subseteq> insert (d, now) (set (sd_tasks st))"
      by (auto simp: dispatch_target_def)
    then show ?case using Cons.IH [of "dispatch_target now d st"] by auto
  qed simp
  then show ?thesis by (auto simp: tick_once_def split: sum.split)
qed

lemma due_known: "d \<in> set (list_due_targets now db) \<Longrightarrow> known_task db d"
  by (auto simp: list_due_targets_def known_task_def is_due_def)

text \<open>A segment of a page adds at most a job under its target, and leaves no page open that was not.\<close>

lemma page_in_scope:
  assumes inv: "index_in_scope L sv" and quiet: "quiet (crawl_of sv) c"
    and new: "cs_jobs c = sv_queue sv @ new"
      "\<forall>j \<in> set new. covered L (sb_content (sv_db sv)) (ij_collection_name j) (ij_url j)"
    and gs: "\<forall>g \<in> set gs. known_task (sb_content (sv_db sv)) (fst (og_task g)) \<and> in_scope L (fst (og_task g)) (og_url g)"
  shows "index_in_scope L ((put_crawl c sv)\<lparr>sv_pages := gs\<rparr>)"
proof -
  have same: "content_of_admin (crawl_state.cs_db c) = content_of_admin (sb_content (sv_db sv))"
    using quiet by (rule content_of_admin_quiet)
  have "sv_queue (put_crawl c sv) = sv_queue sv @ new" by (simp add: put_crawl_def new(1))
  then show ?thesis
    using inv new(2) gs by (auto simp: index_in_scope_def known_task_same [OF same] covered_same [OF same])
qed

lemma open_in_scope:
  assumes "index_in_scope L sv" and "set gs \<subseteq> set (sv_pages sv)"
  shows "\<forall>g \<in> set gs. known_task (sb_content (sv_db sv)) (fst (og_task g)) \<and> in_scope L (fst (og_task g)) (og_url g)"
  using assms by (auto simp: index_in_scope_def)

lemma moved_in_scope:
  assumes "index_in_scope L sv" and "g \<in> set (sv_pages sv)"
  shows "\<forall>h \<in> set (remove1 g (sv_pages sv) @ [g\<lparr>og_stage := stage\<rparr>]).
    known_task (sb_content (sv_db sv)) (fst (og_task h)) \<and> in_scope L (fst (og_task h)) (og_url h)"
  using assms by (auto simp: index_in_scope_def dest: set_remove1_subset [THEN subsetD])

lemma page_job_in_scope:
  assumes "index_in_scope (ce_url E) sv" and "g \<in> set (sv_pages sv)"
  shows "covered (ce_url E) (sb_content (sv_db sv))
    (ij_collection_name (page_job E (context_of g) (og_url g) now body final))
    (ij_url (page_job E (context_of g) (og_url g) now body final))"
proof -
  have g: "known_task (sb_content (sv_db sv)) (fst (og_task g))" "in_scope (ce_url E) (fst (og_task g)) (og_url g)"
    using assms by (simp_all add: index_in_scope_def)
  then have "in_scope (ce_url E) (fst (og_task g)) (index_target E (context_of g) (og_url g) body final)"
    using index_target_own [of E "context_of g" "og_url g" body final] by (auto simp: in_scope_def)
  then show ?thesis
    using g(1) by (auto simp: covered_def page_job_def page_context_of_def Let_def intro!: exI [where x = "fst (og_task g)"])
qed

lemma turn_in_scope:
  assumes inv: "index_in_scope L sv" and step: "pipeline_step ok L (pipe_of sv) IndexerTurn = Some (p, b)"
  shows "index_in_scope L (put_pipe p sv)"
proof -
  let ?db = "sb_content (sv_db sv)"
  let ?Q = "\<lambda>ops. \<forall>d \<in> set (added ops). covered L ?db (id_collection d) (id_url d)"
  have Q: "?Q (ops_of (pipe_of sv))" and queue: "pl_queue (pipe_of sv) = sv_queue sv"
    using inv by (simp_all add: index_in_scope_def pipe_of_def)
  have job: "covered L ?db (ij_collection_name j) (ij_url j)" if "j \<in> set (pl_queue (pipe_of sv))" for j
    using inv that by (simp add: index_in_scope_def queue)
  have "?Q (ops_of p)"
    by (rule pipeline_turn_ops(1) [where Q = ?Q, OF step Q]) (simp_all add: job document_of_def)
  moreover have "set (pl_queue p) \<subseteq> set (sv_queue sv)"
    using pipeline_turn_ops(2) [where Q = "\<lambda>_. True", OF step] queue by simp
  moreover have same: "content_of_admin (ix_db (pl_indexer p)) = content_of_admin ?db"
    using content_of_admin_turn [OF step] by (simp add: pipe_of_def)
  ultimately show ?thesis
    using inv by (auto simp: index_in_scope_def put_pipe_def known_task_same [OF same] covered_same [OF same])
qed

lemma crawl_of_jobs [simp]: "cs_jobs (crawl_of sv) = sv_queue sv"
  by (simp add: crawl_of_def)

lemma inside_in_scope:
  assumes "inside_step P sv sv'" and inv: "index_in_scope (ce_url (pg_page_env P)) sv"
  shows "index_in_scope (ce_url (pg_page_env P)) sv'"
  using assms(1)
proof (cases rule: inside_stepE)
  case (Ticked tree now)
  have "known_task (sb_content (sv_db sv)) (fst task)"
    if "task \<in> set (sd_tasks (tick_once (pg_max_index_bytes P) tree now (sched_of sv)))" for task
  proof -
    have "task \<in> set (sv_tasks sv) \<or> fst task \<in> set (list_due_targets now (sb_content (sv_db sv)))"
      using tick_tasks [of "pg_max_index_bytes P" tree now "sched_of sv"] that by auto
    then show ?thesis using inv due_known by (auto simp: index_in_scope_def)
  qed
  then show ?thesis
    using inv unfolding Ticked by (simp add: index_in_scope_def put_sched_def put_crawl_def crawl_of_def)
next
  case (PageOpened task u c r)
  have jobs: "cs_jobs c = sv_queue sv @ []"
    using page_open_quiet [of "crawl_of sv"] PageOpened(5) by (metis append_Nil2 crawl_of_jobs fst_conv same_jobs_def)
  have "known_task (sb_content (sv_db sv)) (fst task)" using inv PageOpened(2) by (simp add: index_in_scope_def)
  then show ?thesis
    unfolding PageOpened(1) using open_in_scope [OF inv] PageOpened(3)
    by (intro page_in_scope [OF inv page_segment_quiet(1) [OF PageOpened(5)] jobs]) (auto split: sum.splits)
next
  case (PageFetched g c r)
  have jobs: "cs_jobs c = sv_queue sv @ []" using page_fetch_quiet [OF PageFetched(4)] by simp
  show ?thesis
    unfolding PageFetched(1) using open_in_scope [OF inv set_remove1_subset] moved_in_scope [OF inv PageFetched(2)]
    by (intro page_in_scope [OF inv page_segment_quiet(2) [OF PageFetched(4)] jobs])
      (simp_all split: page_progress.split)
next
  case (PageSent g f c r)
  let ?job = "page_job (pg_page_env P) (context_of g) (og_url g) (snd (og_task g)) (fp_body f) (fp_final_url f)"
  have jobs: "cs_jobs c = sv_queue sv @ (case r of Inl _ \<Rightarrow> [] | Inr _ \<Rightarrow> [?job])"
    using page_send_quiet [OF PageSent(4)] by (simp split: sum.splits)
  show ?thesis
    unfolding PageSent(1)
    using open_in_scope [OF inv set_remove1_subset] moved_in_scope [OF inv PageSent(2)] page_job_in_scope [OF inv PageSent(2)]
    by (intro page_in_scope [OF inv page_segment_quiet(3) [OF PageSent(4)] jobs]) (simp_all split: sum.split)
next
  case (PageSaved g f c r)
  have jobs: "cs_jobs c = sv_queue sv @ []"
    using page_save_quiet [of "crawl_of sv"] PageSaved(4) by (metis append_Nil2 crawl_of_jobs fst_conv same_jobs_def)
  show ?thesis
    unfolding PageSaved(1) using open_in_scope [OF inv set_remove1_subset]
    by (intro page_in_scope [OF inv page_segment_quiet(4) [OF PageSaved(4)] jobs]) simp_all
next
  case (PagePanicked g)
  then show ?thesis
    by (auto intro!: index_in_scope_frame [OF inv] simp: put_sched_def put_crawl_def end_task_def crawl_of_def
        dest: set_remove1_subset [THEN subsetD])
next
  case (CrawlDone task)
  then show ?thesis
    by (auto intro!: index_in_scope_frame [OF inv] simp: put_sched_def put_crawl_def end_task_def crawl_of_def
        dest: notin_set_remove1 set_remove1_subset [THEN subsetD])
next
  case (CrawlStopped task)
  then show ?thesis
    by (auto intro!: index_in_scope_frame [OF inv] simp: put_sched_def put_crawl_def end_task_def crawl_of_def
        dest: set_remove1_subset [THEN subsetD])
next
  case (Indexed p b)
  have "pipeline_step (pg_index_ok P) (ce_url (pg_page_env P)) (pipe_of sv) IndexerTurn = Some (p, b)"
    unfolding pipeline_step.simps Indexed(2) ..
  from turn_in_scope [OF inv this] show ?thesis unfolding Indexed(1) .
next
  case (PeerProbed probe now peer)
  have "index_in_scope L (put_fed fed sv)" if "index_in_scope L sv" for L fed
    by (rule index_in_scope_frame [OF that]) (simp_all add: put_fed_def)
  then show ?thesis unfolding PeerProbed using inv by blast
qed (auto intro!: index_in_scope_frame [OF inv] simp: put_fed_def)

lemma public_in_scope:
  assumes inv: "index_in_scope L sv" and "e \<in> set public_endpoints"
  shows "index_in_scope L (fst (run_handler P C e p sv))"
proof -
  have "index_in_scope L (fst (public_endpoint P C e p sv))"
    using public_endpoint_effect [of P C e p sv]
    by (elim disjE exE) (auto intro!: index_in_scope_frame [OF inv] simp: put_fed_def)
  then show ?thesis using assms by (simp add: run_handler_def split: option.split)
qed

interpretation scope: public_invariant P calls "index_in_scope (ce_url (pg_page_env P))" for P calls
  by unfold_locales (rule inside_in_scope public_in_scope, assumption+)+

section \<open>Every run\<close>

lemma started_empty:
  assumes "start_server of_json cfg fresh now d heap reader disk = Inr (token, sv)"
  shows "sv_tasks sv = []" "sv_pages sv = []" "sv_queue sv = []" "iw_ops (sv_writer sv) = []" "sv_db sv = dk_db disk"
  using assms by (auto simp: start_server_def Let_def split: sum.splits)

lemma server_run_admin_content:
  assumes "server_run P calls w as w'" and "True \<notin> set as"
  shows "content_of_admin (sb_content (sv_db (ws_app w'))) = content_of_admin (sb_content (sv_db (ws_app w)))"
  using server_run_admin_data [OF assms] by (simp add: admin_data_def content_of_admin_def)

lemma applied_added: "set_mset (applied ops) \<subseteq> set (added ops)"
proof (induction ops rule: rev_induct)
  case (snoc x ops)
  then show ?case by (cases x) (auto simp: applied_snoc)
qed (simp add: applied_def)

lemma added_take: "set (added (take n ops)) \<subseteq> set (added ops)"
  by (metis Un_upper1 added_simps(2) append_take_drop_id set_append)



section \<open>An example\<close>

text \<open>A start on one collection with one target; a tick, the page of the target, and a turn of the indexer.\<close>

definition one_target_site :: "(flt, flt, nat, outlink_example list) site_db" where
  "one_target_site = empty_site\<lparr>sb_content := crawl_state.cs_db plain_state\<rparr>"

definition one_target_server :: "(unit, outlink_example list, nat) server" where
  "one_target_server = plain_server\<lparr>sv_db := one_target_site\<rparr>"

lemmas one_target_started = plain_started_on [of one_target_site, folded one_target_server_def]

lemma plain_allowed: "\<exists>rs. allowed (crawl_env.truncate plain_env) ''/'' no_robots = (rs, Inr True)"
  by (simp add: allowed_def is_allowed_def ensure_cached_def origin_of_def plain_lib_def no_robots_def sample_env_crawl_def
      http_send_def cached_rules_def split: option.split)

lemma plain_fetch: "\<exists>st'. fetch_page plain_env ''/'' None st = (st', Inr (Fresh 200 ''x'' None None ''/''))"
proof -
  have "str_contains (to_ascii_lowercase ''text/html'') ''html''" by code_simp
  then show ?thesis
    by (simp add: fetch_page_def fetch_def request_headers_def conditional_request_def sample_env_crawl_def
        http_send_def classify_response_def success_status_def Let_def)
qed

lemma plain_page: "\<exists>c r j. crawl_page plain_env ''/'' plain_context 5 plain_state = (c, r) \<and> cs_jobs c = [j]"
proof -
  obtain rs where rs: "allowed (crawl_env.truncate plain_env) ''/'' (cs_robots plain_state) = (rs, Inr True)"
    using plain_allowed by (auto simp: plain_state_def)
  let ?st1 = "plain_state\<lparr>cs_robots := rs\<rparr>"
  obtain st2 where f: "fetch_page plain_env ''/'' None ?st1 = (st2, Inr (Fresh 200 ''x'' None None ''/''))"
    using plain_fetch by blast
  have st2: "crawl_state.cs_db st2 = crawl_state.cs_db plain_state" "cs_jobs st2 = []" "cs_channel_open st2"
    using f by (auto simp: fetch_page_def plain_state_def split: prod.splits)
  have prior: "page_get_by_url ''c'' ''/'' (crawl_state.cs_db plain_state) = None"
    by (simp add: plain_state_def page_get_by_url_def find_by_def)
  obtain c r where p: "fresh_page plain_env plain_context ''/'' 5 None 200 ''x'' None None ''/'' st2 = (c, r)"
    by fastforce
  have "crawl_page plain_env ''/'' plain_context 5 plain_state = (c, r)"
    using rs f p prior by (simp add: crawl_page_def plain_context_def)
  moreover have "cs_jobs c = [page_job plain_env plain_context ''/'' 5 ''x'' ''/'']"
    using fresh_page_effect [OF p] prior st2 by (auto simp: plain_context_def page_effect_def Let_def)
  ultimately show ?thesis by blast
qed

lemma one_tick:
  "tick_once 100 None 5 (sched_of one_target_server) =
     \<lparr>sd_paused = False, sd_running = [''t''], sd_tasks = [(plain_due, 5)], sd_crawl = plain_state\<rparr>"
proof -
  have "check_capacity (index_dir_size_bytes None) 100 = Inr ()"
    by (simp add: check_capacity_def index_dir_size_bytes_def)
  moreover have "list_due_targets 5 (crawl_state.cs_db plain_state) = [plain_due]"
    by (simp add: list_due_targets_def plain_due_def plain_state_def plain_target_def is_due_def)
  moreover have "sched_of one_target_server = \<lparr>sd_paused = False, sd_running = [], sd_tasks = [], sd_crawl = plain_state\<rparr>"
    by (simp add: sched_of_def crawl_of_def one_target_server_def plain_server_def one_target_site_def plain_state_def
        no_robots_def)
  moreover have "dt_id plain_due = ''t''" by (simp add: plain_due_def due_of_def plain_target_def)
  ultimately show ?thesis by (simp add: tick_once_def dispatch_target_def)
qed

lemma inside_steps_run:
  assumes "inside_steps P (ws_app w) sv" and "server_run P calls v as w" and "True \<notin> set as"
  shows "\<exists>bs. server_run P calls v bs (w\<lparr>ws_app := sv\<rparr>) \<and> True \<notin> set bs"
  using assms(1)
proof (induction rule: rtranclp_induct)
  case base
  then show ?case using assms(2,3) by (intro exI [where x = as]) simp
next
  case (step a b)
  then obtain bs where bs: "server_run P calls v bs (w\<lparr>ws_app := a\<rparr>)" "True \<notin> set bs" by blast
  have "server_step P calls (w\<lparr>ws_app := a\<rparr>) False (w\<lparr>ws_app := b\<rparr>)"
    using server_step.Inside [of P "w\<lparr>ws_app := a\<rparr>" b calls] step(2) by simp
  from server_run.More [OF bs(1) this] bs(2) show ?case by (intro exI [where x = "bs @ [False]"]) simp
qed

text \<open>After the tick, and with the page crawled.\<close>

definition ticked_server :: "(unit, outlink_example list, nat) server" where
  "ticked_server = put_sched (tick_once 100 None 5 (sched_of one_target_server)) one_target_server"

lemma ticked_server:
  "sv_tasks ticked_server = [(plain_due, 5)]" "crawl_of ticked_server = plain_state" "sv_indexer_up ticked_server"
  "sv_writer ticked_server = \<lparr>iw_ops = [], iw_journal = []\<rparr>" "sv_pending ticked_server = 0"
  "sv_pages ticked_server = []" "sv_deletes ticked_server = []"
  unfolding one_tick ticked_server_def
  by (simp_all add: put_sched_def crawl_of_def put_crawl_def plain_state_def one_target_server_def plain_server_def)

lemma plain_program_parts:
  "pg_page_env plain_program = plain_env" "pg_max_index_bytes plain_program = 100" "pg_index_ok plain_program = always_ok"
  "page_context_of plain_due = plain_context" "dt_url_prefix plain_due = ''/''"
  by (simp_all add: plain_program_def plain_due_def due_of_def plain_target_def plain_state_def page_context_of_def
      plain_context_def)

lemma ticked_steps: "inside_steps plain_program one_target_server ticked_server"
  using Ticked [of plain_program one_target_server None 5]
  by (simp add: plain_program_parts ticked_server_def r_into_rtranclp)

lemma ticked_open: "cs_channel_open plain_state = sv_indexer_up ticked_server"
  "(plain_due, 5) \<in> set (sv_tasks ticked_server)" "\<forall>g \<in> set (sv_pages ticked_server). og_task g \<noteq> (plain_due, 5)"
  by (simp_all only: ticked_server, simp_all add: plain_state_def)

lemma plain_in_scope: "in_scope (ce_url (pg_page_env plain_program)) (fst (plain_due, 5)) ''/''"
  by (simp only: in_scope_def plain_program_parts fst_conv plain_env_simps normalize_plain simp_thms)

lemma one_page_steps:
  assumes "crawl_page plain_env ''/'' plain_context 5 plain_state = (c, r)"
  shows "inside_steps plain_program one_target_server (put_crawl c ticked_server)"
proof -
  have "inside_steps plain_program (put_crawl plain_state ticked_server) (put_crawl c ticked_server)"
    by (rule page_step(1) [OF ticked_open(2,3,1) plain_in_scope, where r = r])
      (simp only: plain_program_parts fst_conv snd_conv assms)
  then have "inside_steps plain_program ticked_server (put_crawl c ticked_server)"
    using put_crawl_simps(6) [of ticked_server] by (simp only: ticked_server(2))
  then show ?thesis using ticked_steps by (meson rtranclp_trans)
qed

lemma one_page_run:
  "\<exists>w' bs doc. server_run plain_program any_call (plain_web\<lparr>ws_app := one_target_server\<rparr>) bs w' \<and> True \<notin> set bs \<and>
     iw_ops (sv_writer (ws_app w')) = [DeleteTerm (id_url doc), AddDocument doc]"
proof -
  let ?P = plain_program and ?w = "plain_web\<lparr>ws_app := one_target_server\<rparr>"
  obtain c r j where page: "crawl_page plain_env ''/'' plain_context 5 plain_state = (c, r)" "cs_jobs c = [j]"
    using plain_page by blast
  let ?sv = "indexer_alone ?P (put_crawl c ticked_server)"
  have "inside_steps ?P (put_crawl c ticked_server) ?sv" using indexer_alone_step by (rule r_into_rtranclp)
  then have "inside_steps ?P (ws_app ?w) ?sv" using one_page_steps [OF page(1)] by simp
  from inside_steps_run [OF this server_run.Here] obtain bs where
    "server_run ?P any_call ?w bs (?w\<lparr>ws_app := ?sv\<rparr>)" "True \<notin> set bs" by auto
  moreover have "iw_ops (sv_writer ?sv) = [DeleteTerm (ij_url j), AddDocument (document_of plain_lib j)]"
    using ticked_server page(2)
    by (simp add: indexer_alone_def pipe_of_def put_pipe_def put_crawl_def next_event_def plain_program_parts
        writer_upsert_ok flush_ok BATCH_SIZE_def Let_def)
  ultimately show ?thesis
    by (intro exI [where x = "?w\<lparr>ws_app := ?sv\<rparr>"] exI [where x = bs] exI [where x = "document_of plain_lib j"]) simp
qed

definition one_target_disk :: "(outlink_example list, nat) disk" where
  "one_target_disk = plain_disk\<lparr>dk_db := one_target_site\<rparr>"

lemma one_disk_started:
  "start_server (\<lambda>_. None) plain_boot_config ''token'' 5 plain_io True True one_target_disk =
     Inr (''token'', one_target_server)"
  unfolding one_target_disk_def by (rule one_target_started)



end
