(* ===== verification/Journal.thy ===== *)
theory Journal
  imports Server_Run
begin

text \<open>
  The journal of the index, \<open>crawled_pages.indexed_content_hash\<close>: what a hash in it says, and that of all the statements
  the program issues only the update after a commit adds one.
\<close>

section \<open>Fingerprints\<close>

text \<open>
  The two hashes a document is sent with: of title and text by the crawler, of the text alone by an import.
\<close>

definition fingerprint :: "(string \<Rightarrow> string) \<Rightarrow> string \<Rightarrow> string \<Rightarrow> string \<Rightarrow> bool" where
  "fingerprint sha256 title body h \<longleftrightarrow>
     h = content_hash sha256 \<lparr>pp_title = title, pp_text = body\<rparr> \<or> h = sha256 body"

definition job_true :: "(string \<Rightarrow> string) \<Rightarrow> index_job \<Rightarrow> bool" where
  "job_true sha256 j \<longleftrightarrow> fingerprint sha256 (ij_title j) (ij_body j) (ij_content_hash j)"

text \<open>A document of this URL, with content of this hash, was added in the log.\<close>

definition written :: "(string \<Rightarrow> string) \<Rightarrow> index_op list \<Rightarrow> string \<Rightarrow> string \<Rightarrow> bool" where
  "written sha256 ops u h \<longleftrightarrow> (\<exists>d \<in> set (added ops). id_url d = u \<and> fingerprint sha256 (id_title d) (id_body d) h)"

lemma written_mono: "written s ops u h \<Longrightarrow> set (added ops) \<subseteq> set (added ops') \<Longrightarrow> written s ops' u h"
  by (auto simp: written_def)

lemma written_append [simp]: "written s (a @ b) u h \<longleftrightarrow> written s a u h \<or> written s b u h"
  by (auto simp: written_def)

lemma written_nothing [simp]: "\<not> written s [] u h" "written s (CommitOp # ops) u h = written s ops u h"
  "written s (DeleteTerm v # ops) u h = written s ops u h"
  by (simp_all add: written_def added_def List.map_filter_simps)

lemma in_added: "d \<in> set (added ops) \<longleftrightarrow> AddDocument d \<in> set ops"
  by (induction ops) (auto simp: added_def List.map_filter_simps split: index_op.splits)

lemma written_job: "job_true s j \<Longrightarrow> written s (AddDocument (document_of L j) # ops) (ij_url j) (ij_content_hash j)"
  by (simp add: written_def job_true_def document_of_def added_def List.map_filter_simps)

lemma page_job_true [simp]: "job_true (ce_sha256 E) (page_job E ctx u now body final)"
  by (simp add: job_true_def page_job_def fingerprint_def content_hash_def Let_def)

section \<open>Statements that add no mark\<close>

lemma marks_pages: "set (pages db') \<subseteq> set (pages db) \<Longrightarrow> marks db' \<subseteq> marks db"
  by (auto simp: marks_def)

lemma content_ops_pages:
  "set (pages (fst (create_item uuid ts name descr db))) \<subseteq> set (pages db)"
  "set (pages (fst (update_item ts rid name descr db))) \<subseteq> set (pages db)"
  "set (pages (fst (delete_item rid db))) \<subseteq> set (pages db)"
  "set (pages (fst (target_add uuid ts rid pfx secs db))) \<subseteq> set (pages db)"
  "set (pages (fst (target_remove rid db))) \<subseteq> set (pages db)"
  "set (pages (fst (set_interval rid secs db))) \<subseteq> set (pages db)"
  "set (pages (fst (set_crawl_delay rid delay db))) \<subseteq> set (pages db)"
  "set (pages (fst (mark_promoted rid t db))) \<subseteq> set (pages db)"
  "set (pages (fst (mark_dismissed rid db))) \<subseteq> set (pages db)"
  by (auto simp: create_item_def insert_collection_def update_item_def update_collections_where_def delete_item_def
      delete_collections_where_def delete_targets_where_def delete_where_def target_add_def insert_target_def
      target_remove_def set_interval_def set_crawl_delay_def update_targets_where_def mark_promoted_def
      mark_dismissed_def Let_def split: sum.split option.split prod.split if_splits)

lemma content_endpoint_pages: "set (pages (as_db (fst (content_endpoint P C e st)))) \<subseteq> set (pages (as_db st))"
proof (cases e)
  case HandleCollections
  then show ?thesis
    by (auto simp: handle_collections_def case_prod_unfold Let_def dest: content_ops_pages [THEN subsetD]
        split: sum.splits collection_action.splits)
next
  case HandleCrawlTargets
  then show ?thesis
    by (auto simp: handle_crawl_targets_def lock_db_def case_prod_unfold Let_def
        dest: content_ops_pages [THEN subsetD] split: sum.splits crawl_target_action.splits if_splits)
next
  case PromoteOutlink
  then show ?thesis
    by (auto simp: promote_outlink_def case_prod_unfold Let_def dest!: content_ops_pages [THEN subsetD]
        split: option.splits sum.splits)
next
  case DismissOutlink
  then show ?thesis by (auto simp: dismiss_outlink_def case_prod_unfold Let_def dest: content_ops_pages [THEN subsetD])
next
  case HandlePause
  then show ?thesis by (simp add: handle_pause_def)
qed simp_all

section \<open>The import\<close>

definition import_true ::
  "(string \<Rightarrow> string) \<Rightarrow> (string \<times> string \<times> string) set \<Rightarrow> ('w, 'f, 'x, 'j) import_state \<Rightarrow> bool" where
  "import_true s M st \<longleftrightarrow> marks (sb_content (is_db st)) = M \<and> (\<forall>j \<in> set (is_jobs st). job_true s j)"

lemma import_page_true: "import_true s M st \<Longrightarrow> import_page I cid tid p st = Inr st' \<Longrightarrow> import_true s M st'"
  by (auto simp: import_true_def import_page_def marks_def mark_row_def Let_def split: if_splits)

lemma import_target_true:
  assumes "import_true s M st" and "import_target I now cid t st = Inr st'"
  shows "import_true s M st'"
proof -
  obtain st1 where fold: "try_fold (import_page I cid (ie_uuid I (is_fresh st))) (xt_crawled_pages t) st1 = Inr st'"
    and same: "pages (sb_content (is_db st1)) = pages (sb_content (is_db st))" "is_jobs st1 = is_jobs st"
    using assms(2) by (simp add: import_target_def Let_def split: if_splits)
  have "import_true s M st1" using assms(1) by (simp add: import_true_def marks_def same)
  then show ?thesis using try_fold_inv [OF fold, where P = "import_true s M"] import_page_true by metis
qed

lemma import_collection_true:
  assumes "import_true s M st" and "ie_sha256 I = s" and "import_collection I c st = Inr st'"
  shows "import_true s M st'"
proof (cases "xc_name c \<in> is_names st")
  case True
  then show ?thesis using assms by (auto simp: import_collection_def import_true_def)
next
  case False
  obtain s1 s2 s3 s4 where s1: "import_collection_row I c st = Inr s1"
    and s2: "try_fold (import_target I (ie_now_text I (is_fresh st)) (ie_uuid I (is_fresh st))) (xc_crawl_targets c) s1 = Inr s2"
    and s3: "(case xc_ranking_config c of None \<Rightarrow> Inr s2
              | Some rc \<Rightarrow> import_ranking I (c_rowid (import_row I c st)) rc s2) = Inr s3"
    and s4: "try_fold (import_outlink I (ie_uuid I (is_fresh st))) (xc_outlinks c) s3 = Inr s4"
    and st': "st' = queue_documents I (xc_name c) (ie_uuid I (is_fresh st)) (xc_documents c) s4"
    using assms(3) False by (auto simp: import_collection_def Let_def split: sum.splits)
  have "import_true s M s1"
    using assms(1) s1 by (auto simp: import_collection_row_def import_true_def marks_def Let_def split: if_splits)
  then have "import_true s M s2" using try_fold_inv [OF s2, where P = "import_true s M"] import_target_true by metis
  then have "import_true s M s3"
    using s3 by (auto simp: import_ranking_def import_true_def Let_def split: option.splits if_splits)
  moreover have "import_outlink I cid x st1 = Inr st2 \<Longrightarrow> import_true s M st1 \<Longrightarrow> import_true s M st2" for cid x st1 st2
    by (auto simp: import_outlink_def import_true_def marks_def Let_def split: if_splits)
  ultimately have "import_true s M s4" using try_fold_inv [OF s4, where P = "import_true s M"] by metis
  then show ?thesis
    using assms(2)
    by (auto simp: st' queue_documents_def import_true_def job_true_def document_job_def doc_content_hash_def fingerprint_def)
qed

lemma apply_envelope_true:
  assumes "apply_envelope I env db = (db', r)" and "ie_sha256 I = s"
  shows "marks (sb_content db') = marks (sb_content db)" and "r = Inr (report, jobs) \<Longrightarrow> j \<in> set jobs \<Longrightarrow> job_true s j"
proof -
  have all: "import_true s (marks (sb_content db)) st" if inner: "apply_envelope_inner I env db = Inr st" for st
  proof -
    obtain s1 s2 where s1: "try_fold (import_collection I) (ev_collections env) (begin_import db) = Inr s1"
      and s2: "try_fold (import_node_peer I) (ev_node_peers env) (s1\<lparr>is_urls := existing_node_peer_urls (is_db s1)\<rparr>) = Inr s2"
      and s3: "try_fold (import_collection_peer I) (ev_collection_peers env) s2 = Inr st"
      using inner by (auto simp: apply_envelope_inner_def split: sum.splits)
    let ?P = "import_true s (marks (sb_content db))"
    have "?P (begin_import db)" by (simp add: import_true_def begin_import_def)
    then have "?P s1" using try_fold_inv [OF s1, where P = ?P] import_collection_true [OF _ assms(2)] by metis
    then have "?P (s1\<lparr>is_urls := existing_node_peer_urls (is_db s1)\<rparr>)" by (simp add: import_true_def)
    moreover have "import_node_peer I p st1 = Inr st2 \<Longrightarrow> ?P st1 \<Longrightarrow> ?P st2" for p st1 st2
      by (auto simp: import_node_peer_def import_true_def Let_def split: if_splits)
    ultimately have "?P s2" using try_fold_inv [OF s2, where P = ?P] by metis
    moreover have "import_collection_peer I p st1 = Inr st2 \<Longrightarrow> ?P st1 \<Longrightarrow> ?P st2" for p st1 st2
      by (auto simp: import_collection_peer_def import_true_def Let_def split: if_splits option.splits)
    ultimately show ?thesis using try_fold_inv [OF s3, where P = ?P] by metis
  qed
  show "marks (sb_content db') = marks (sb_content db)"
    using assms(1) all by (auto simp: apply_envelope_def import_true_def split: sum.splits)
  show "job_true s j" if "r = Inr (report, jobs)" "j \<in> set jobs"
    using assms(1) all that by (auto simp: apply_envelope_def import_true_def split: sum.splits)
qed

lemma send_jobs_tables: "si_db (fst (send_jobs js s)) = si_db s \<and> set (si_queue (fst (send_jobs js s))) \<subseteq> set (si_queue s) \<union> set js"
proof (induction js arbitrary: s)
  case (Cons j js)
  show ?case
  proof (cases "si_accepts s")
    case None
    then show ?thesis using Cons.IH [of "s\<lparr>si_inflight := si_inflight s + 1, si_queue := si_queue s @ [j]\<rparr>"] by auto
  next
    case (Some n)
    then show ?thesis
      using Cons.IH [of "s\<lparr>si_inflight := si_inflight s + 1, si_queue := si_queue s @ [j], si_accepts := Some (n - 1)\<rparr>"]
      by (cases n) auto
  qed
qed simp

lemma import_marks:
  assumes "ie_sha256 I = s"
  shows "marks (sb_content (si_db (fst (handle_import K I body st)))) = marks (sb_content (si_db st))"
    and "j \<in> set (si_queue (fst (handle_import K I body st))) \<Longrightarrow> j \<in> set (si_queue st) \<or> job_true s j"
proof -
  let ?r = "fst (handle_import K I body st)"
  have "marks (sb_content (si_db ?r)) = marks (sb_content (si_db st)) \<and>
      (\<forall>j \<in> set (si_queue ?r). j \<in> set (si_queue st) \<or> job_true s j)"
  proof (cases "decode_body K body")
    case (Inr env)
    obtain db r where ap: "apply_envelope I env (si_db st) = (db, r)" by fastforce
    note true = apply_envelope_true [OF ap assms]
    show ?thesis
    proof (cases "ev_format_version env \<noteq> FORMAT_VERSION \<or> si_poisoned st")
      case True
      then show ?thesis using Inr by (auto simp: handle_import_def)
    next
      case False
      show ?thesis
      proof (cases r)
        case (Inl e)
        then show ?thesis using False Inr ap true(1) by (simp add: handle_import_def)
      next
        case sent: (Inr rj)
        obtain report jobs where rj: "rj = (report, jobs)" by fastforce
        have "?r = fst (send_jobs jobs (st\<lparr>si_db := db\<rparr>))"
          using False Inr ap sent rj by (simp add: handle_import_def split: prod.split sum.split)
        then show ?thesis
          using send_jobs_tables [of jobs "st\<lparr>si_db := db\<rparr>"] true sent rj by auto
      qed
    qed
  qed (simp add: handle_import_def)
  then show "marks (sb_content (si_db ?r)) = marks (sb_content (si_db st))"
    and "j \<in> set (si_queue ?r) \<Longrightarrow> j \<in> set (si_queue st) \<or> job_true s j" by blast+
qed

section \<open>A handler adds no mark\<close>

lemma handler_marks:
  assumes "ie_sha256 (ca_import C) = s"
  shows "marks (sb_content (sv_db (fst (run_handler P C e p sv)))) \<subseteq> marks (sb_content (sv_db sv))"
    and "j \<in> set (sv_queue (fst (run_handler P C e p sv))) \<Longrightarrow> j \<in> set (sv_queue sv) \<or> job_true s j"
    and "sv_pages (fst (run_handler P C e p sv)) = sv_pages sv"
proof -
  let ?ok = "\<lambda>sv'. marks (sb_content (sv_db sv')) \<subseteq> marks (sb_content (sv_db sv)) \<and>
    (\<forall>j \<in> set (sv_queue sv'). j \<in> set (sv_queue sv) \<or> job_true s j) \<and> sv_pages sv' = sv_pages sv"
  have same: "?ok sv" "?ok (put_fed fed sv)" "?ok (put_ranking_rows rows sv)" "?ok (sv\<lparr>sv_engines := es\<rparr>)"
    "?ok (sv\<lparr>sv_config := cf\<rparr>)" for fed rows es cf
    by (simp_all add: put_fed_def put_ranking_rows_def)
  have admin: "?ok (put_admin (fst (content_endpoint P C e (admin_of n sv))) sv)" for n
    using marks_pages [OF content_endpoint_pages [of P C e "admin_of n sv"]] by (simp add: put_admin_def admin_of_def)
  have other: "?ok (fst (other_endpoint P C e sv))"
  proof (cases e)
    case HandleImport
    then show ?thesis
      using import_marks [OF assms, where K = "pg_codec P" and body = "ca_dump C" and st = "site_of sv"]
      by (auto simp: case_prod_unfold Let_def put_site_def site_of_def)
  qed (use same in \<open>simp_all add: case_prod_unfold Let_def\<close>)
  have public: "?ok (fst (public_endpoint P C e p sv))"
    using public_endpoint_effect [of P C e p sv] same by (elim disjE exE) simp_all
  have "?ok (fst (run_handler P C e p sv))"
    unfolding run_handler_def
    using same admin other public by (simp add: case_prod_unfold Let_def split: option.split)
  then show "marks (sb_content (sv_db (fst (run_handler P C e p sv)))) \<subseteq> marks (sb_content (sv_db sv))"
    and "j \<in> set (sv_queue (fst (run_handler P C e p sv))) \<Longrightarrow> j \<in> set (sv_queue sv) \<or> job_true s j"
    and "sv_pages (fst (run_handler P C e p sv)) = sv_pages sv" by blast+
qed

end
