(* ===== verification/Server_Crash.thy ===== *)
theory Server_Crash
  imports Journal Server_Index
begin

text \<open>
  The life of an instance over crashes: the tables and the committed part of the index survive, what was in memory is
  lost. What the journal says of the index after any number of lives, and that the next crawl sends what a crash lost.
\<close>

section \<open>What a crash leaves\<close>

text \<open>Tantivy opens at its last commit: the operations after it are lost.\<close>

definition durable :: "index_op list \<Rightarrow> index_op list" where
  "durable ops = rev (dropWhile (\<lambda>x. x \<noteq> CommitOp) (rev ops))"

lemma durable_simps [simp]:
  "durable [] = []" "durable (ops @ [CommitOp]) = ops @ [CommitOp]"
  "x \<noteq> CommitOp \<Longrightarrow> durable (ops @ [x]) = durable ops"
  by (simp_all add: durable_def)

lemma durable_added: "set (added (durable ops)) \<subseteq> set (added ops)"
proof -
  have "durable ops @ rev (takeWhile (\<lambda>x. x \<noteq> CommitOp) (rev ops)) = ops"
    unfolding durable_def by (metis rev_append rev_rev_ident takeWhile_dropWhile_id)
  then show ?thesis by (metis Un_upper1 added_simps(2) set_append)
qed

lemma durable_grows: "set (added (durable ops)) \<subseteq> set (added (durable (ops @ rest)))"
proof (induction rest rule: rev_induct)
  case (snoc x rest)
  show ?case
  proof (cases "x = CommitOp")
    case True
    then show ?thesis using durable_added [of ops] by (auto simp flip: append_assoc)
  next
    case False
    then show ?thesis using snoc.IH by (simp flip: append_assoc)
  qed
qed simp

text \<open>
  The committed part of the log and the tables a crash leaves, in the state \<open>sv\<close>. The indexer may have committed what it
  had not yet journaled. The tables are those of \<open>sv0\<close>, the same state or an earlier one of the same life - with
  \<open>synchronous = NORMAL\<close> a power failure can undo the last transactions -, or any that no mark was added to: between two
  statements of a step a crash leaves such tables, because the marks of a commit are one transaction and no other
  statement adds one.
\<close>

inductive crash ::
  "('r, 'x, 'j, 'v) program \<Rightarrow> ('r, 'x, 'j) server \<Rightarrow> ('r, 'x, 'j) server \<Rightarrow> index_op list \<Rightarrow>
   (flt, flt, 'j, 'x) site_db \<Rightarrow> bool" for P sv0 sv where
  AtRest: "marks (sb_content db) \<subseteq> marks (sb_content (sv_db sv0)) \<Longrightarrow> crash P sv0 sv (durable (iw_ops (sv_writer sv))) db"
| Committed: "pipeline_step (pg_index_ok P) (ce_url (pg_page_env P)) (pipe_of sv) IndexerTurn = Some (p, b) \<Longrightarrow>
    marks (sb_content db) \<subseteq> marks (sb_content (sv_db sv0)) \<Longrightarrow> crash P sv0 sv (durable (ops_of p)) db"

text \<open>
  An instance from its installation on, with an empty journal: the operations that all its lives committed, and what is
  on its disk now. The configuration, the libraries, what the middleware remembers at a start and what fails may differ
  from life to life.
\<close>

inductive history ::
  "(('r, 'x, 'j, 'v) program \<Rightarrow> bool) \<Rightarrow> (('q, 'd, 'x, 'j, 'v) call \<Rightarrow> bool) \<Rightarrow>
   (('y, ('r, 'x, 'j) server) web_state \<Rightarrow> bool) \<Rightarrow> index_op list \<Rightarrow> ('x, 'j) disk \<Rightarrow> bool"
  for programs calls webs where
  Installed: "marks (sb_content (dk_db disk)) = {} \<Longrightarrow> history programs calls webs [] disk"
| Lived: "history programs calls webs old disk \<Longrightarrow> programs P \<Longrightarrow> webs w \<Longrightarrow>
    start_server of_json cfg fresh now d heap reader disk = Inr (token, sv) \<Longrightarrow>
    server_run P calls (w\<lparr>ws_app := sv\<rparr>) as w0 \<Longrightarrow> server_run P calls w0 bs w' \<Longrightarrow>
    crash P (ws_app w0) (ws_app w') rest db \<Longrightarrow> dk_db disk' = db \<Longrightarrow>
    history programs calls webs (old @ rest) disk'"

section \<open>The journal and the index\<close>

text \<open>
  In a life after the operations \<open>old\<close> were committed: what the writer holds and the tables say, and the whole state.
\<close>

definition writer_true :: "(string \<Rightarrow> string) \<Rightarrow> index_op list \<Rightarrow> index_writer \<Rightarrow> 'x content_db \<Rightarrow> bool" where
  "writer_true s old w db \<longleftrightarrow>
     (\<forall>(c, u, h) \<in> marks db. written s (old @ durable (iw_ops w)) u h) \<and>
     (\<forall>e \<in> set (iw_journal w). written s (iw_ops w) (ie_url e) (ie_content_hash e))"

definition journal_true :: "(string \<Rightarrow> string) \<Rightarrow> index_op list \<Rightarrow> ('r, 'x, 'j) server \<Rightarrow> bool" where
  "journal_true s old sv \<longleftrightarrow>
     writer_true s old (sv_writer sv) (sb_content (sv_db sv)) \<and> (\<forall>j \<in> set (sv_queue sv). job_true s j) \<and>
     (\<forall>g \<in> set (sv_pages sv). \<forall>h. Option.bind (og_prior g) p_indexed_content_hash = Some h \<longrightarrow>
        written s (old @ durable (iw_ops (sv_writer sv))) (og_url g) h)"

lemma marks_batch: "marks (mark_indexed_batch es db) \<subseteq> marks db \<union> {(c, u, h). \<exists>e \<in> set es. ie_url e = u \<and> ie_content_hash e = h}"
proof -
  have batch: "(c, u, Some h) \<in> mark_row ` set ps \<or> (\<exists>e \<in> set es. ie_url e = u \<and> ie_content_hash e = h)"
    if "(c, u, Some h) \<in> mark_row ` set (fold mark_indexed es ps)" for c u h ps
    using that
  proof (induction es arbitrary: ps)
    case (Cons e es)
    then have "(c, u, Some h) \<in> mark_row ` set (mark_indexed e ps) \<or> (\<exists>e \<in> set es. ie_url e = u \<and> ie_content_hash e = h)"
      by simp
    then show ?case by (auto simp: mark_indexed_def update_where_def mark_row_def split: if_splits)
  qed simp
  show ?thesis
  proof
    fix m
    assume m: "m \<in> marks (mark_indexed_batch es db)"
    obtain c u h where "m = (c, u, h)" by (cases m)
    with m show "m \<in> marks db \<union> {(c, u, h). \<exists>e \<in> set es. ie_url e = u \<and> ie_content_hash e = h}"
      using batch [of c u h "pages db"] by (simp add: marks_def mark_indexed_batch_def)
  qed
qed

lemma writer_true_fewer: "writer_true s old w db \<Longrightarrow> marks db' \<subseteq> marks db \<Longrightarrow> writer_true s old w db'"
  by (auto simp: writer_true_def)

lemma writer_true_more:
  assumes "writer_true s old w db" and "iw_ops w' = iw_ops w @ rest"
    and "\<And>e. e \<in> set (iw_journal w') \<Longrightarrow> e \<in> set (iw_journal w) \<or> written s (iw_ops w') (ie_url e) (ie_content_hash e)"
  shows "writer_true s old w' db"
  unfolding writer_true_def
proof (intro conjI ballI)
  fix m
  assume "m \<in> marks db"
  then show "case m of (c, u, h) \<Rightarrow> written s (old @ durable (iw_ops w')) u h"
    using assms(1) written_mono [OF _ durable_grows [of "iw_ops w" rest]] by (auto simp: writer_true_def assms(2))
next
  fix e
  assume "e \<in> set (iw_journal w')"
  then show "written s (iw_ops w') (ie_url e) (ie_content_hash e)"
    using assms by (auto simp: writer_true_def)
qed

lemma writer_true_flush:
  assumes "writer_true s old (ix_writer ix) (ix_db ix)"
  shows "writer_true s old (ix_writer (fst (flush ok ix))) (ix_db (fst (flush ok ix)))"
proof (cases "or_op ok (iw_ops (ix_writer ix)) CommitOp")
  case False
  then show ?thesis using assms by (simp add: flush_def writer_commit_def)
next
  case True
  let ?w = "\<lparr>iw_ops = iw_ops (ix_writer ix) @ [CommitOp], iw_journal = []\<rparr>"
  have w: "writer_true s old ?w (ix_db ix)" by (rule writer_true_more [OF assms]) simp_all
  have "writer_true s old ?w (mark_indexed_batch (iw_journal (ix_writer ix)) (ix_db ix))"
    using w marks_batch [of "iw_journal (ix_writer ix)" "ix_db ix"] assms
    by (fastforce simp: writer_true_def)
  with w show ?thesis using True by (simp add: flush_def writer_commit_def Let_def)
qed

lemma writer_true_turn:
  assumes "writer_true s old (ix_writer ix) (ix_db ix)" and "\<And>j. ev = UpsertMsg j \<Longrightarrow> job_true s j"
  shows "writer_true s old (ix_writer (fst (indexer_turn ok L ix ev))) (ix_db (fst (indexer_turn ok L ix ev)))"
proof -
  have flush: "writer_true s old (ix_writer y) (ix_db y)"
    if "flush ok x = (y, z)" "writer_true s old (ix_writer x) (ix_db x)" for x y z
    using writer_true_flush [OF that(2), of ok] that(1) by simp
  show ?thesis
  proof (cases ev)
    case (UpsertMsg j)
    obtain w r where w: "writer_upsert ok L j (ix_writer ix) = (w, r)" by fastforce
    have "writer_true s old w (ix_db ix)"
    proof (cases "or_op ok (iw_ops (ix_writer ix) @ [DeleteTerm (ij_url j)]) (AddDocument (document_of L j))")
      case True
      then have "w = \<lparr>iw_ops = iw_ops (ix_writer ix) @ [DeleteTerm (ij_url j), AddDocument (document_of L j)],
          iw_journal = iw_journal (ix_writer ix) @ [journal_entry j]\<rparr>"
        using w by (simp add: writer_upsert_def Let_def)
      then show ?thesis
        using written_job [OF assms(2) [OF UpsertMsg]]
        by (intro writer_true_more [OF assms(1)]) (auto simp: journal_entry_def)
    next
      case False
      then have "w = (ix_writer ix)\<lparr>iw_ops := iw_ops (ix_writer ix) @ [DeleteTerm (ij_url j)]\<rparr>"
        using w by (simp add: writer_upsert_def Let_def)
      then show ?thesis by (intro writer_true_more [OF assms(1)]) auto
    qed
    then show ?thesis using UpsertMsg w by (auto simp: Let_def dest: flush split: prod.split sum.split)
  next
    case (DeleteMsg us)
    have "writer_true s old (fold writer_delete_url us (ix_writer ix)) (ix_db ix)"
      by (intro writer_true_more [OF assms(1)]) (auto simp: fold_delete_url)
    then show ?thesis using DeleteMsg by (auto simp: Let_def dest: flush split: prod.split sum.split)
  qed (use assms(1) in \<open>auto dest: flush split: prod.split sum.split\<close>)
qed

lemma turn_extends:
  assumes "pipeline_step ok L st IndexerTurn = Some (st', b)"
  obtains rest where "ops_of st' = ops_of st @ rest"
proof -
  have "\<exists>rest. ops_of st' = ops_of st @ rest"
    by (rule pipeline_turn_ops(1) [where Q = "\<lambda>ops. \<exists>rest. ops = ops_of st @ rest", OF assms]) auto
  then show thesis using that by blast
qed

lemma turn_true:
  assumes step: "pipeline_step ok L st IndexerTurn = Some (st', b)"
    and "writer_true s old (ix_writer (pl_indexer st)) (ix_db (pl_indexer st))" and "\<forall>j \<in> set (pl_queue st). job_true s j"
  shows "writer_true s old (ix_writer (pl_indexer st')) (ix_db (pl_indexer st'))"
proof -
  obtain ev st1 where ev: "next_event st = (ev, st1)" by fastforce
  then have st1: "pl_indexer st1 = pl_indexer st" and job: "\<And>j. ev = UpsertMsg j \<Longrightarrow> job_true s j"
    using assms(3) by (auto simp: next_event_def split: list.splits)
  from writer_true_turn [OF assms(2) job, of ev ok L] show ?thesis
    using step ev st1 assms(2) by (auto split: prod.splits if_splits loop_outcome.splits)
qed

section \<open>Every step keeps it\<close>

lemma journal_true_frame:
  assumes "journal_true s old sv" and "marks (sb_content (sv_db sv')) \<subseteq> marks (sb_content (sv_db sv))"
    and "\<And>j. j \<in> set (sv_queue sv') \<Longrightarrow> j \<in> set (sv_queue sv) \<or> job_true s j"
    and "\<And>g. g \<in> set (sv_pages sv') \<Longrightarrow> (\<exists>g' \<in> set (sv_pages sv). og_url g = og_url g' \<and> og_prior g = og_prior g') \<or>
      (\<forall>h. Option.bind (og_prior g) p_indexed_content_hash = Some h \<longrightarrow> (\<exists>c. (c, og_url g, h) \<in> marks (sb_content (sv_db sv))))"
    and "sv_writer sv' = sv_writer sv"
  shows "journal_true s old sv'"
proof -
  have "written s (old @ durable (iw_ops (sv_writer sv))) u h" if "(c, u, h) \<in> marks (sb_content (sv_db sv))" for c u h
    using assms(1) that by (auto simp: journal_true_def writer_true_def)
  then show ?thesis
    using assms(1,3-5) writer_true_fewer [OF _ assms(2)] unfolding journal_true_def by metis
qed

lemma prior_backed:
  assumes "Option.bind (page_get_by_url c u db) p_indexed_content_hash = Some h"
  shows "\<exists>c. (c, u, h) \<in> marks db"
proof (cases "page_get_by_url c u db")
  case (Some row)
  then show ?thesis using assms prior_mark [OF Some] by (intro exI [where x = c]) simp
qed (use assms in simp)

lemma index_ops_of_pipe: "ops_of (pipe_of sv) = iw_ops (sv_writer sv)"
  by (simp add: pipe_of_def)

lemma put_pipe_keeps:
  "sv_writer (put_pipe p sv) = ix_writer (pl_indexer p)" "sb_content (sv_db (put_pipe p sv)) = ix_db (pl_indexer p)"
  "sv_queue (put_pipe p sv) = pl_queue p" "sv_pages (put_pipe p sv) = sv_pages sv"
  by (simp_all add: put_pipe_def)

lemma inside_journal_true:
  assumes "inside_step P sv sv'" and inv: "journal_true s old sv" and sha: "ce_sha256 (pg_page_env P) = s"
  shows "journal_true s old sv'"
  using assms(1)
proof (cases rule: inside_stepE)
  case (PageOpened task u c r)
  have c: "marks (crawl_state.cs_db c) = marks (sb_content (sv_db sv))" "cs_jobs c = sv_queue sv"
    and db: "crawl_state.cs_db c = sb_content (sv_db sv)"
    using page_open_quiet [of "crawl_of sv" "pg_page_env P" "page_context_of (fst task)" u] PageOpened(5)
    by (simp_all add: quiet_def same_jobs_def)
  have "r = Inr prior \<Longrightarrow> prior = page_get_by_url (pc_collection_id (page_context_of (fst task))) u (sb_content (sv_db sv))" for prior
    using PageOpened(5) by (auto simp: page_open_def Let_def split: prod.splits sum.splits bool.splits)
  then have backed: "r = Inr prior \<Longrightarrow> Option.bind prior p_indexed_content_hash = Some h \<Longrightarrow>
      \<exists>c. (c, u, h) \<in> marks (sb_content (sv_db sv))" for prior h
    using prior_backed by metis
  show ?thesis
  proof (cases r)
    case (Inl e)
    then show ?thesis unfolding PageOpened(1) using c by (intro journal_true_frame [OF inv]) (auto simp: put_crawl_def)
  next
    case (Inr prior)
    show ?thesis
      unfolding PageOpened(1) Inr sum.case
    proof (rule journal_true_frame [OF inv])
      fix g
      assume "g \<in> set (sv_pages (paged c task u prior Fetching sv))"
      then consider "g \<in> set (sv_pages sv)" | "og_url g = u \<and> og_prior g = prior" by auto
      then show "(\<exists>g' \<in> set (sv_pages sv). og_url g = og_url g' \<and> og_prior g = og_prior g') \<or>
          (\<forall>h. Option.bind (og_prior g) p_indexed_content_hash = Some h \<longrightarrow>
             (\<exists>c. (c, og_url g, h) \<in> marks (sb_content (sv_db sv))))"
        by cases (blast, simp add: backed [OF Inr])
    qed (simp_all add: put_crawl_def c)
  qed
next
  case (PageFetched g c r)
  then have c: "marks (crawl_state.cs_db c) = marks (sb_content (sv_db sv))" "cs_jobs c = sv_queue sv"
    using page_fetch_quiet [OF PageFetched(4)] by (simp_all add: quiet_def)
  show ?thesis
    unfolding PageFetched(1) using c PageFetched(2)
    by (intro journal_true_frame [OF inv])
      (auto simp: put_crawl_def split: page_progress.splits dest: set_remove1_subset [THEN subsetD])
next
  case (PageSent g f c r)
  then have c: "marks (crawl_state.cs_db c) = marks (sb_content (sv_db sv))"
    "\<forall>j \<in> set (cs_jobs c). j \<in> set (sv_queue sv) \<or> job_true s j"
    using page_send_quiet [OF PageSent(4)] sha by (auto simp: quiet_def split: sum.splits)
  show ?thesis
    unfolding PageSent(1) using c PageSent(2)
    by (intro journal_true_frame [OF inv])
      (auto simp: put_crawl_def split: sum.splits dest: set_remove1_subset [THEN subsetD])
next
  case (PageSaved g f c r)
  then have c: "marks (crawl_state.cs_db c) = marks (sb_content (sv_db sv))" "cs_jobs c = sv_queue sv"
    using page_save_quiet [of "crawl_of sv" "pg_page_env P" "context_of g" "og_url g" "snd (og_task g)" "og_prior g" True f]
    by (simp_all add: quiet_def same_jobs_def)
  show ?thesis
    unfolding PageSaved(1) using c
    by (intro journal_true_frame [OF inv]) (auto simp: put_crawl_def dest: set_remove1_subset [THEN subsetD])
next
  case (Indexed p b)
  have step: "pipeline_step (pg_index_ok P) (ce_url (pg_page_env P)) (pipe_of sv) IndexerTurn = Some (p, b)"
    unfolding pipeline_step.simps Indexed(2) ..
  have "writer_true s old (ix_writer (pl_indexer p)) (ix_db (pl_indexer p))"
    by (rule turn_true [OF step]) (use inv in \<open>simp_all add: journal_true_def pipe_of_def\<close>)
  moreover have "set (pl_queue p) \<subseteq> set (sv_queue sv)"
    using pipeline_turn_ops(2) [where Q = "\<lambda>_. True", OF step] by (simp add: pipe_of_def)
  moreover obtain rest where "iw_ops (ix_writer (pl_indexer p)) = iw_ops (sv_writer sv) @ rest"
    using turn_extends [OF step] by (auto simp: pipe_of_def)
  then have "set (added (old @ durable (iw_ops (sv_writer sv)))) \<subseteq>
      set (added (old @ durable (iw_ops (ix_writer (pl_indexer p)))))"
    using durable_grows [of "iw_ops (sv_writer sv)" rest] by auto
  then have "written s (old @ durable (iw_ops (sv_writer sv))) u h \<Longrightarrow>
      written s (old @ durable (iw_ops (ix_writer (pl_indexer p)))) u h" for u h
    by (rule written_mono [rotated])
  ultimately show ?thesis
    unfolding Indexed(1) journal_true_def put_pipe_keeps
    using inv by (intro conjI) (auto simp: journal_true_def)
next
  case (Ticked tree now)
  then show ?thesis by (auto intro!: journal_true_frame [OF inv] simp: put_sched_def put_crawl_def crawl_of_def)
next
  case (CrawlDone task)
  then show ?thesis
    by (auto intro!: journal_true_frame [OF inv] simp: put_sched_def put_crawl_def crawl_of_def end_task_def
        set_last_crawled_def marks_def)
next
  case (CrawlStopped task)
  then show ?thesis
    by (auto intro!: journal_true_frame [OF inv] simp: put_sched_def put_crawl_def crawl_of_def end_task_def)
next
  case (PagePanicked g)
  then show ?thesis
    by (auto intro!: journal_true_frame [OF inv] simp: put_sched_def put_crawl_def crawl_of_def end_task_def
        dest!: set_remove1_subset [THEN subsetD])
next
  case (PeerProbed probe now peer)
  have "journal_true s old (put_fed fed sv)" for fed
    by (rule journal_true_frame [OF inv]) (auto simp: put_fed_def)
  then show ?thesis unfolding PeerProbed by blast
qed (auto intro!: journal_true_frame [OF inv] simp: put_fed_def)

text \<open>The hashes of the crawler and of the imports are those of \<open>s\<close>.\<close>

definition one_hash ::
  "(string \<Rightarrow> string) \<Rightarrow> ('r, 'x, 'j, 'v) program \<Rightarrow> (('q, 'd, 'x, 'j, 'v) call \<Rightarrow> bool) \<Rightarrow> bool" where
  "one_hash s P calls \<longleftrightarrow> ce_sha256 (pg_page_env P) = s \<and> (\<forall>C. calls C \<longrightarrow> ie_sha256 (ca_import C) = s)"

lemma handler_journal_true:
  assumes inv: "journal_true s old sv" and "ie_sha256 (ca_import C) = s"
  shows "journal_true s old (fst (run_handler P C e p sv))"
  by (rule journal_true_frame [OF inv handler_marks(1,2) [OF assms(2)]]) (auto simp: handler_marks(3) [OF assms(2)])

interpretation journal: run_invariant P calls "\<lambda>sv. one_hash s P calls \<longrightarrow> journal_true s old sv" for P calls s old
  by unfold_locales (auto simp: one_hash_def intro: inside_journal_true handler_journal_true)

lemma run_journal_true:
  assumes "server_run P calls w as w'" and "journal_true s old (ws_app w)"
    and "ce_sha256 (pg_page_env P) = s" and "\<And>C. calls C \<Longrightarrow> ie_sha256 (ca_import C) = s"
  shows "journal_true s old (ws_app w')"
  using journal.run [OF assms(1), of s old] assms(2-4) by (simp add: one_hash_def)

lemma started_memory:
  assumes "start_server of_json cfg fresh now d heap reader disk = Inr (token, sv)"
  shows "sv_pages sv = []" "sv_queue sv = []" "sv_writer sv = \<lparr>iw_ops = [], iw_journal = []\<rparr>" "sv_db sv = dk_db disk"
  using assms by (auto simp: start_server_def Let_def split: sum.splits)

lemma start_journal_true:
  assumes "start_server of_json cfg fresh now d heap reader disk = Inr (token, sv)"
    and "\<forall>(c, u, h) \<in> marks (sb_content (dk_db disk)). written s old u h"
  shows "journal_true s old sv"
  using assms(2) by (auto simp: journal_true_def writer_true_def started_memory [OF assms(1)])

lemma inside_extends:
  assumes "inside_step P sv sv'"
  shows "\<exists>new. iw_ops (sv_writer sv') = iw_ops (sv_writer sv) @ new"
  using assms
proof (cases rule: inside_stepE)
  case (Indexed p b)
  have "pipeline_step (pg_index_ok P) (ce_url (pg_page_env P)) (pipe_of sv) IndexerTurn = Some (p, b)"
    unfolding pipeline_step.simps Indexed(2) ..
  then show ?thesis
    unfolding Indexed(1) put_pipe_keeps using turn_extends by (metis index_ops_of_pipe)
next
  case (PeerProbed probe now peer)
  show ?thesis unfolding PeerProbed put_writer by simp
qed simp_all

interpretation growing: run_invariant P calls "\<lambda>sv. \<exists>new. iw_ops (sv_writer sv) = ops @ new" for P calls ops
proof unfold_locales
  show "\<exists>new. iw_ops (sv_writer sv') = ops @ new"
    if "inside_step P sv sv'" "\<exists>new. iw_ops (sv_writer sv) = ops @ new" for sv sv'
    using inside_extends [OF that(1)] that(2) by auto
qed simp

lemma run_extends:
  assumes "server_run P calls w as w'"
  shows "\<exists>new. iw_ops (sv_writer (ws_app w')) = iw_ops (sv_writer (ws_app w)) @ new"
  by (rule growing.run [OF assms]) simp

lemma crash_journal_true:
  assumes "crash P (ws_app w0) (ws_app w') rest db" and "server_run P calls w0 bs w'" and "journal_true s old (ws_app w0)"
  shows "\<forall>(c, u, h) \<in> marks (sb_content db). written s (old @ rest) u h"
proof -
  obtain new where new: "iw_ops (sv_writer (ws_app w')) = iw_ops (sv_writer (ws_app w0)) @ new"
    using run_extends [OF assms(2)] by blast
  have backed: "(c, u, h) \<in> marks (sb_content (sv_db (ws_app w0))) \<Longrightarrow>
      written s (old @ durable (iw_ops (sv_writer (ws_app w0)))) u h" for c u h
    using assms(3) by (auto simp: journal_true_def writer_true_def)
  have "set (added (old @ durable (iw_ops (sv_writer (ws_app w0))))) \<subseteq> set (added (old @ rest)) \<and>
      marks (sb_content db) \<subseteq> marks (sb_content (sv_db (ws_app w0)))"
    using assms(1)
  proof (cases rule: crash.cases)
    case AtRest
    then show ?thesis using durable_grows [of "iw_ops (sv_writer (ws_app w0))" new] by (auto simp: new)
  next
    case (Committed p b)
    obtain new' where "ops_of p = iw_ops (sv_writer (ws_app w')) @ new'"
      using turn_extends [OF Committed(2)] by (auto simp: index_ops_of_pipe)
    then show ?thesis
      using durable_grows [of "iw_ops (sv_writer (ws_app w0))" "new @ new'"] Committed(1,3) by (auto simp: new)
  qed
  then show ?thesis using backed written_mono by blast
qed

lemma history_journal_true:
  assumes "history programs calls webs old disk" and "\<And>P. programs P \<Longrightarrow> ce_sha256 (pg_page_env P) = s"
    and "\<And>C. calls C \<Longrightarrow> ie_sha256 (ca_import C) = s"
  shows "\<forall>(c, u, h) \<in> marks (sb_content (dk_db disk)). written s old u h"
  using assms
proof (induction rule: history.induct)
  case (Lived old disk P w of_json cfg fresh now d heap reader token sv as w0 bs w' rest db disk')
  have "journal_true s old (ws_app (w\<lparr>ws_app := sv\<rparr>))" using start_journal_true [OF Lived(4)] Lived.IH Lived.prems by simp
  from run_journal_true [OF Lived(5) this] have "journal_true s old (ws_app w0)" using Lived(2) Lived.prems by blast
  from crash_journal_true [OF Lived(7,6) this] show ?case using Lived(8) by simp
qed simp

text \<open>C3: The journal is never ahead of the index. Over any number of lives of an instance since its installation, each with any
  requests, any interleaving of crawler, importer and indexer, any failures, and a crash at any moment - between two
  steps, between two statements of a step, between the commit and the update of the journal -, every hash that a row of
  \<open>crawled_pages\<close> has as \<open>indexed_content_hash\<close> is the hash, as the crawler or an import computes it, of the content of
  a document with its URL that was committed to the index.
\<close>

theorem journal_never_ahead:
  assumes "history programs calls webs old disk" and "\<And>P. programs P \<Longrightarrow> ce_sha256 (pg_page_env P) = s"
    and "\<And>C. calls C \<Longrightarrow> ie_sha256 (ca_import C) = s"
    and "p \<in> set (pages (sb_content (dk_db disk)))" and "p_indexed_content_hash p = Some h"
  shows "\<exists>doc. AddDocument doc \<in> set old \<and> id_url doc = p_url p \<and> fingerprint s (id_title doc) (id_body doc) h"
proof -
  have "(p_collection_id p, p_url p, h) \<in> marks (sb_content (dk_db disk))"
    using assms(4,5) by (auto simp: marks_def mark_row_def intro!: image_eqI [where x = p])
  then have "written s old (p_url p) h" using history_journal_true [OF assms(1-3)] by auto
  then show ?thesis by (auto simp: written_def in_added)
qed

text \<open>C12: What a crash lost is sent again. In a life of an instance after any number of others, when a page answers with its
  content and no document of its URL with that content was committed, in this life or before, then the crawl of the page
  goes on to send it: whatever the earlier lives had written of the page, it is not taken for indexed.
\<close>

theorem lost_page_is_sent_again:
  assumes "history programs calls webs old disk" and "\<And>P. programs P \<Longrightarrow> ce_sha256 (pg_page_env P) = s"
    and "\<And>C. calls C \<Longrightarrow> ie_sha256 (ca_import C) = s" and "programs P"
    and "start_server of_json cfg fresh now d heap reader disk = Inr (token, sv)"
    and "server_run P calls (w\<lparr>ws_app := sv\<rparr>) as w'" and "g \<in> set (sv_pages (ws_app w'))"
    and "fetch_page (pg_page_env P) (og_url g) (og_prior g) (crawl_of (ws_app w')) =
      (st1, Inr (Fresh status body etag last_modified final))"
    and "job = page_job (pg_page_env P) (context_of g) (og_url g) (snd (og_task g)) body final"
    and "\<not> written s (old @ durable (iw_ops (sv_writer (ws_app w')))) (og_url g) (ij_content_hash job)"
  shows "\<exists>st2 f. page_fetch (pg_page_env P) (context_of g) (og_url g) (snd (og_task g)) (og_prior g) (crawl_of (ws_app w')) =
      (st2, PageWaits f) \<and>
    page_job (pg_page_env P) (context_of g) (og_url g) (snd (og_task g)) (fp_body f) (fp_final_url f) = job"
proof -
  have "journal_true s old (ws_app (w\<lparr>ws_app := sv\<rparr>))"
    using start_journal_true [OF assms(5) history_journal_true [OF assms(1-3)]] by simp
  from run_journal_true [OF assms(6) this] have "journal_true s old (ws_app w')" using assms(2-4) by blast
  then have "Option.bind (og_prior g) p_indexed_content_hash \<noteq> Some (ij_content_hash job)"
    using assms(7,10) by (auto simp: journal_true_def)
  then show ?thesis using assms(8) by (simp add: page_fetch_def assms(9) Let_def)
qed

section \<open>Examples\<close>

text \<open>The rows after a page that is fetched for the first time.\<close>

lemma page_save_pages:
  "pages (cs_db (fst (page_save E ctx u now prior ix f st))) =
   pages (cs_db (fst (save_row E (crawled_row ctx u prior (fp_etag f) (fp_last_modified f)
     (Some (ij_content_hash (page_job E ctx u now (fp_body f) (fp_final_url f)))) (int (fp_status f)) now) st)))"
proof -
  have same: "pages (cs_db (fst (classify_links E ctx u now links (found1 @ found2) s))) = pages (cs_db s)"
    if "\<forall>l \<in> set (found1 @ found2). own_link (ce_url E) ctx l" for links found1 found2 s
    using classify_links_frame [of E ctx u now links "found1 @ found2" s, OF surjective_pairing that]
    by (simp add: same_base_def)
  note found = found_own [of E ctx u "fp_final_url f" "fp_body f"]
  show ?thesis
    unfolding page_save_def Let_def
    by (simp only: case_prod_unfold split: sum.split) (use same [OF found] in simp)
qed

lemma first_crawl:
  assumes "allowed (crawl_env.truncate E) u (cs_robots st) = (rs, Inr True)"
    and "page_get_by_url (pc_collection_id ctx) u (cs_db st) = None" and "cs_channel_open st"
    and "fetch_page E u None (st\<lparr>cs_robots := rs\<rparr>) = (st2, Inr (Fresh status body etag lm final))"
    and "job = page_job E ctx u now body final"
  shows "cs_jobs (fst (crawl_page E u ctx now st)) = cs_jobs st @ [job]"
    and "pages (cs_db (fst (crawl_page E u ctx now st))) =
      pages (fst (page_upsert (next_rowid (map p_id (pages (cs_db st))) + int (pe_gap E (cs_fresh st)))
        (crawled_row ctx u None etag lm (Some (ij_content_hash job)) (int status) now) (cs_db st)))"
proof -
  obtain sent where "st2 = st\<lparr>cs_robots := rs\<lparr>rs_sent := sent\<rparr>\<rparr>"
    using assms(4) by (auto simp: fetch_page_def split: prod.splits)
  then have st2: "cs_db st2 = cs_db st" "cs_jobs st2 = cs_jobs st" "cs_channel_open st2 = cs_channel_open st"
    "cs_fresh st2 = cs_fresh st" by simp_all
  let ?f = "\<lparr>fp_status = status, fp_body = body, fp_etag = etag, fp_last_modified = lm, fp_final_url = final\<rparr>"
  let ?st3 = "st2\<lparr>cs_inflight := cs_inflight st2 + 1, cs_jobs := cs_jobs st @ [job]\<rparr>"
  have page: "crawl_page E u ctx now st = page_save E ctx u now None True ?f ?st3"
    using assms st2
    by (simp add: crawl_page_segments page_run_def page_open_def page_fetch_def page_send_def Let_def)
  show "cs_jobs (fst (crawl_page E u ctx now st)) = cs_jobs st @ [job]"
    unfolding page using page_save_quiet [of ?st3 E ctx u now None True ?f] by (simp add: same_jobs_def)
  show "pages (cs_db (fst (crawl_page E u ctx now st))) =
      pages (fst (page_upsert (next_rowid (map p_id (pages (cs_db st))) + int (pe_gap E (cs_fresh st)))
        (crawled_row ctx u None etag lm (Some (ij_content_hash job)) (int status) now) (cs_db st)))"
    unfolding page page_save_pages by (simp add: save_row_def case_prod_unfold Let_def st2 assms(5))
qed

text \<open>The page of the example is crawled, committed and marked; the process is killed.\<close>

definition plain_job :: index_job where
  "plain_job = page_job plain_env plain_context ''/'' 5 ''x'' ''/''"

lemma plain_job_simps: "ij_url plain_job = ''/''" "ij_collection_id plain_job = ''c''"
proof -
  have "extract_canonical plain_lib (\<lambda>_. sample_page) ''x'' ''/'' = None"
    by (simp add: extract_canonical_def Parser.select_def sample_page_def split: option.split)
  then show "ij_url plain_job = ''/''" "ij_collection_id plain_job = ''c''"
    by (simp_all add: plain_job_def page_job_def index_target_def redirect_target_def canonical_target_def
        plain_context_def Let_def)
qed

definition plain_row :: "string option \<Rightarrow> page_row" where
  "plain_row etag = \<lparr>p_id = 1, p_collection_id = ''c'', p_crawl_target_id = ''t'', p_url = ''/'', p_etag = etag,
     p_last_modified = None, p_content_hash = Some (ij_content_hash plain_job), p_last_status = Some 200,
     p_last_crawled_at = 5, p_indexed_content_hash = None\<rparr>"

lemma plain_upsert:
  "pages (fst (page_upsert 1 (crawled_row plain_context ''/'' None etag None (Some (ij_content_hash plain_job)) 200 5)
     (cs_db plain_state))) = [plain_row etag]"
  by (simp add: page_upsert_def upsert_row_def crawled_row_def plain_context_def plain_state_def plain_row_def Let_def)
    (simp add: plain_target_def)

definition crawled :: "(unit, outlink_example list) crawl_state" where
  "crawled = fst (crawl_page plain_env ''/'' plain_context 5 plain_state)"

lemma plain_new: "page_get_by_url (pc_collection_id plain_context) ''/'' (cs_db plain_state) = None" "cs_channel_open plain_state"
  "next_rowid (map p_id (pages (cs_db plain_state))) = 1" "cs_jobs plain_state = []"
  by (simp_all add: plain_state_def page_get_by_url_def find_by_def next_rowid_def)

lemma crawled_simps: "pages (cs_db crawled) = [plain_row None]" "cs_jobs crawled = [plain_job]"
proof -
  obtain rs where al: "allowed (crawl_env.truncate plain_env) ''/'' (cs_robots plain_state) = (rs, Inr True)"
    using plain_allowed by (auto simp: plain_state_def)
  obtain st2 where ft: "fetch_page plain_env ''/'' None (plain_state\<lparr>cs_robots := rs\<rparr>) =
      (st2, Inr (Fresh 200 ''x'' None None ''/''))" using plain_fetch by blast
  note first = first_crawl [OF al plain_new(1,2) ft plain_job_def]
  show "cs_jobs crawled = [plain_job]" unfolding crawled_def using first(1) by (simp add: plain_new)
  have "pe_gap plain_env n = 0" for n by (simp add: plain_env_def page_env.defs crawl_env.defs)
  then show "pages (cs_db crawled) = [plain_row None]"
    unfolding crawled_def using first(2) plain_upsert [of None] by (simp add: plain_new)
qed

definition killed_server :: "(unit, outlink_example list, nat) server" where
  "killed_server = indexer_alone plain_program (indexer_alone plain_program (put_crawl crawled ticked_server))"

lemma killed_server_simps:
  "pages (sb_content (sv_db killed_server)) = [(plain_row None)\<lparr>p_indexed_content_hash := Some (ij_content_hash plain_job)\<rparr>]"
  "iw_ops (sv_writer killed_server) = [DeleteTerm ''/'', AddDocument (document_of plain_lib plain_job), CommitOp]"
  using ticked_server
  by (simp_all add: killed_server_def indexer_alone_def pipe_of_def put_pipe_def put_crawl_def next_event_def
      plain_program_parts writer_upsert_ok flush_ok BATCH_SIZE_def crawled_simps mark_indexed_batch_def mark_indexed_def
      update_where_def journal_entry_def plain_job_simps plain_row_def waiting_def Let_def)

definition plain_webs :: "(int list, (unit, outlink_example list, nat) server) web_state \<Rightarrow> bool" where
  "plain_webs w \<longleftrightarrow> w = plain_web"

definition plain_calls :: "(unit, unit, outlink_example list, nat, nat) call \<Rightarrow> bool" where
  "plain_calls C \<longleftrightarrow> ie_sha256 (ca_import C) = (\<lambda>s. s)"

definition killed_disk :: "(outlink_example list, nat) disk" where
  "killed_disk = one_target_disk\<lparr>dk_db := sv_db killed_server\<rparr>"

lemma plain_sha:
  "(=) plain_program P \<Longrightarrow> ce_sha256 (pg_page_env P) = (\<lambda>s. s)"
  "plain_calls C \<Longrightarrow> ie_sha256 (ca_import C) = (\<lambda>s. s)"
  by (auto simp: plain_program_parts plain_calls_def)

lemma inside_steps_run_any:
  assumes "inside_steps P (ws_app w) sv"
  shows "\<exists>bs. server_run P calls w bs (w\<lparr>ws_app := sv\<rparr>)"
  using inside_steps_run [OF assms server_run.Here] by auto

lemma killed_history:
  "history ((=) plain_program) plain_calls plain_webs
     [DeleteTerm ''/'', AddDocument (document_of plain_lib plain_job), CommitOp] killed_disk"
proof -
  let ?w = "plain_web\<lparr>ws_app := one_target_server\<rparr>"
  have "history ((=) plain_program) plain_calls plain_webs [] one_target_disk"
    by (rule Installed) (simp add: one_target_disk_def one_target_site_def plain_state_def marks_def)
  moreover obtain r where page: "crawl_page plain_env ''/'' plain_context 5 plain_state = (crawled, r)"
    unfolding crawled_def by (metis prod.collapse)
  have "inside_steps plain_program one_target_server killed_server"
    unfolding killed_server_def using one_page_steps [OF page] indexer_alone_step by (meson rtranclp.rtrancl_into_rtrancl)
  then have "inside_steps plain_program (ws_app ?w) killed_server" by simp
  then obtain bs where run: "server_run plain_program plain_calls ?w bs (?w\<lparr>ws_app := killed_server\<rparr>)"
    using inside_steps_run_any by blast
  moreover have "crash plain_program killed_server killed_server
      (durable (iw_ops (sv_writer killed_server))) (sv_db killed_server)"
    by (rule AtRest) simp
  ultimately have "history ((=) plain_program) plain_calls plain_webs ([] @ durable (iw_ops (sv_writer killed_server))) killed_disk"
    using one_disk_started
    by (intro Lived [where disk = one_target_disk and P = plain_program and w = plain_web and sv = one_target_server
          and as = bs and w0 = "?w\<lparr>ws_app := killed_server\<rparr>" and bs = "[]" and w' = "?w\<lparr>ws_app := killed_server\<rparr>"
          and db = "sv_db killed_server"])
      (auto simp: plain_webs_def killed_disk_def intro: server_run.Here)
  then show ?thesis by (simp add: killed_server_simps durable_def)
qed

theorem journal_never_ahead_witness:
  "\<exists>p doc. p \<in> set (pages (sb_content (dk_db killed_disk))) \<and>
     p_indexed_content_hash p = Some (ij_content_hash plain_job) \<and>
     AddDocument doc \<in> set [DeleteTerm ''/'', AddDocument (document_of plain_lib plain_job), CommitOp] \<and>
     id_url doc = p_url p \<and> fingerprint (\<lambda>s. s) (id_title doc) (id_body doc) (ij_content_hash plain_job)"
proof -
  let ?p = "(plain_row None)\<lparr>p_indexed_content_hash := Some (ij_content_hash plain_job)\<rparr>"
  have p: "?p \<in> set (pages (sb_content (dk_db killed_disk)))"
    by (simp add: killed_disk_def killed_server_simps)
  have h: "p_indexed_content_hash ?p = Some (ij_content_hash plain_job)" by simp
  from journal_never_ahead [OF killed_history plain_sha p h] p h show ?thesis by blast
qed

theorem lost_page_is_sent_again_witness:
  "\<exists>bs w' g st2 f.
     server_run plain_program plain_calls (plain_web\<lparr>ws_app := one_target_server\<rparr>) bs w' \<and>
     g \<in> set (sv_pages (ws_app w')) \<and>
     page_fetch plain_env (context_of g) (og_url g) (snd (og_task g)) (og_prior g) (crawl_of (ws_app w')) = (st2, PageWaits f)"
proof -
  let ?w = "plain_web\<lparr>ws_app := one_target_server\<rparr>"
  let ?g = "\<lparr>og_task = (plain_due, 5), og_url = ''/'', og_prior = None, og_stage = Fetching\<rparr>"
  obtain rs where "allowed (crawl_env.truncate plain_env) ''/'' (cs_robots plain_state) = (rs, Inr True)"
    using plain_allowed by (auto simp: plain_state_def)
  then have op: "page_open plain_env plain_context ''/'' plain_state = (plain_state\<lparr>cs_robots := rs\<rparr>, Inr None)"
    by (simp add: page_open_def plain_context_def) (simp add: plain_state_def page_get_by_url_def find_by_def)
  let ?c = "plain_state\<lparr>cs_robots := rs\<rparr>"
  let ?sv = "paged ?c (plain_due, 5) ''/'' None Fetching ticked_server"
  from segment_steps(1) [OF ticked_open(2,3,1) plain_in_scope, of ?c "Inr None"]
  have "inside_step plain_program (put_crawl plain_state ticked_server) ?sv"
    by (simp add: plain_program_parts op)
  then have "inside_steps plain_program (ws_app ?w) ?sv"
    using ticked_steps put_crawl_simps(6) [of ticked_server]
    by (simp add: ticked_server(2) rtranclp.rtrancl_into_rtrancl)
  then obtain bs where run: "server_run plain_program plain_calls ?w bs (?w\<lparr>ws_app := ?sv\<rparr>)"
    using inside_steps_run_any by blast
  have g: "?g \<in> set (sv_pages (ws_app (?w\<lparr>ws_app := ?sv\<rparr>)))" by simp
  obtain st1 where fetched: "fetch_page plain_env ''/'' None (crawl_of (ws_app (?w\<lparr>ws_app := ?sv\<rparr>))) =
      (st1, Inr (Fresh 200 ''x'' None None ''/''))" using plain_fetch by blast
  have none: "\<not> written s ([] @ durable (iw_ops (sv_writer (ws_app (?w\<lparr>ws_app := ?sv\<rparr>))))) u h" for s u h
    by (simp add: ticked_server)
  have inst: "history ((=) plain_program) plain_calls plain_webs [] one_target_disk"
    by (rule Installed) (simp add: one_target_disk_def one_target_site_def plain_state_def marks_def)
  have fetched': "fetch_page (pg_page_env plain_program) (og_url ?g) (og_prior ?g)
      (crawl_of (ws_app (?w\<lparr>ws_app := ?sv\<rparr>))) = (st1, Inr (Fresh 200 ''x'' None None ''/''))"
    using fetched by (simp only: plain_program_parts open_page.simps)
  from lost_page_is_sent_again [OF inst plain_sha refl one_disk_started run g fetched' refl none]
  obtain st2 f where "page_fetch plain_env (context_of ?g) (og_url ?g) (snd (og_task ?g)) (og_prior ?g)
      (crawl_of (ws_app (?w\<lparr>ws_app := ?sv\<rparr>))) = (st2, PageWaits f)"
    unfolding plain_program_parts by blast
  with run g show ?thesis by blast
qed

end
