(* ===== verification/Server_Loss.thy ===== *)
theory Server_Loss
  imports Server_Crash
begin

text \<open>
  What is not repaired: a page that a crash left stored but not committed while the server answers 304, and an indexer
  that has stopped.
\<close>

section \<open>What a crash loses for good\<close>

text \<open>A page crawled at one time after another, with nothing else.\<close>

definition recrawls ::
  "('r, 'x, 'z) page_env_scheme \<Rightarrow> string \<Rightarrow> page_context \<Rightarrow> int list \<Rightarrow> ('r, 'x) crawl_state \<Rightarrow> ('r, 'x) crawl_state" where
  "recrawls E u ctx ts st = fold (\<lambda>now s. fst (crawl_page E u ctx now s)) ts st"

text \<open>The row of a page that was fetched, with its entity tag, and is not in the journal.\<close>

definition stored_unindexed :: "string \<Rightarrow> string \<Rightarrow> string \<Rightarrow> 'x content_db \<Rightarrow> bool" where
  "stored_unindexed c u e db \<longleftrightarrow>
     (\<exists>row. page_get_by_url c u db = Some row \<and> p_etag row = Some e \<and> p_indexed_content_hash row = None)"

lemma unchanged_keeps_row:
  assumes "stored_unindexed (pc_collection_id ctx) u e (cs_db st)"
    and "page_get_by_url (pc_collection_id ctx) u (cs_db st) = prior"
  shows "stored_unindexed (pc_collection_id ctx) u e (cs_db (fst (unchanged_page E ctx u now prior s nm st)))"
proof -
  let ?row = "crawled_row ctx u prior (Option.bind prior p_etag) (Option.bind prior p_last_modified)
    (Option.bind prior p_content_hash) (int s) now"
  obtain db r where up: "page_upsert (next_rowid (map p_id (pages (cs_db st))) + int (pe_gap E (cs_fresh st))) ?row
      (cs_db st) = (db, r)" by fastforce
  have "cs_db (fst (unchanged_page E ctx u now prior s nm st)) = db"
    using up by (simp add: unchanged_page_def save_row_def Let_def case_prod_unfold split: sum.split)
  moreover have "stored_unindexed (pc_collection_id ctx) u e db"
  proof (cases "isl r")
    case True
    then show ?thesis using page_upsert_row [OF up] assms(1) by simp
  next
    case False
    then show ?thesis
      using page_upsert_row [OF up] assms by (auto simp: stored_unindexed_def crawled_row_def)
  qed
  ultimately show ?thesis by simp
qed

lemma fetch_unchanged:
  assumes "p_etag row = Some e"
    and "\<And>sent hs. (''if-none-match'', e) \<in> set hs \<Longrightarrow> \<exists>r. ce_net E sent (u, hs) = Some r \<and> rsp_status r = 304"
  shows "\<exists>sent out. fetch_page E u (Some row) st = (st\<lparr>cs_robots := (cs_robots st)\<lparr>rs_sent := sent\<rparr>\<rparr>, out) \<and>
    (out = Inr NotModified \<or> isl out)"
proof -
  have "isl (request_headers W agent (conditional_request u (Some row))) \<or>
      (\<exists>hs. request_headers W agent (conditional_request u (Some row)) = Inr hs \<and> (''if-none-match'', e) \<in> set hs)" for W agent
    using assms(1) by (auto simp: request_headers_def conditional_request_def split: option.split)
  from this [of "ce_web E" "ce_agent E"] show ?thesis
  proof (elim disjE exE conjE)
    fix hs
    assume hs: "request_headers (ce_web E) (ce_agent E) (conditional_request u (Some row)) = Inr hs"
      "(''if-none-match'', e) \<in> set hs"
    obtain r where "ce_net E (cs_sent st) (u, hs) = Some r" "rsp_status r = 304" using assms(2) [OF hs(2)] by blast
    then show ?thesis
      using hs(1)
      by (intro exI [where x = "cs_sent st @ [(u, hs)]"])
        (simp add: fetch_page_def fetch_def http_send_def classify_response_def conditional_request_def Let_def)
  qed (auto simp: fetch_page_def fetch_def isl_def Let_def)
qed

lemma crawl_unchanged:
  assumes stored: "stored_unindexed (pc_collection_id ctx) u e (cs_db st)"
    and net: "\<And>sent hs. (''if-none-match'', e) \<in> set hs \<Longrightarrow> \<exists>r. ce_net E sent (u, hs) = Some r \<and> rsp_status r = 304"
  shows "stored_unindexed (pc_collection_id ctx) u e (cs_db (fst (crawl_page E u ctx now st)))"
    and "cs_jobs (fst (crawl_page E u ctx now st)) = cs_jobs st"
proof -
  let ?ok = "\<lambda>st'. stored_unindexed (pc_collection_id ctx) u e (cs_db st') \<and> cs_jobs st' = cs_jobs st"
  obtain rs ok where al: "allowed (crawl_env.truncate E) u (cs_robots st) = (rs, ok)" by fastforce
  let ?st1 = "st\<lparr>cs_robots := rs\<rparr>"
  obtain row where row: "page_get_by_url (pc_collection_id ctx) u (cs_db st) = Some row" "p_etag row = Some e"
    using stored by (auto simp: stored_unindexed_def)
  obtain sent out where ft: "fetch_page E u (Some row) ?st1 = (?st1\<lparr>cs_robots := (cs_robots ?st1)\<lparr>rs_sent := sent\<rparr>\<rparr>, out)"
    and out: "out = Inr NotModified \<or> isl out"
    using fetch_unchanged [of row e E u ?st1] row(2) net by blast
  let ?st2 = "?st1\<lparr>cs_robots := (cs_robots ?st1)\<lparr>rs_sent := sent\<rparr>\<rparr>"
  have "?ok (fst (unchanged_page E ctx u now (Some row) 304 True ?st2))"
    using unchanged_keeps_row [of ctx u e ?st2 "Some row" E now 304 True] stored row(1)
      unchanged_page_quiet [of ?st2 E ctx u now "Some row" 304 True] by (simp add: same_jobs_def)
  moreover have "?ok ?st1" "?ok ?st2" using stored by simp_all
  ultimately have "?ok (fst (crawl_page E u ctx now st))"
    using out row(1) ft
    by (cases ok) (auto simp: crawl_page_def al Let_def isl_def split: bool.split)
  then show "stored_unindexed (pc_collection_id ctx) u e (cs_db (fst (crawl_page E u ctx now st)))"
    and "cs_jobs (fst (crawl_page E u ctx now st)) = cs_jobs st" by blast+
qed

text \<open>C13: A page that was stored but not committed stays out of the index as long as the server answers that it has not changed.
  When the row of a page has an entity tag and no committed hash - which is what a crash between the fetch and the
  commit leaves - and the server answers 304 to requests with that tag, no crawl of the page, however often it is
  crawled again, sends it to the indexer, and the row keeps its tag and stays without a committed hash: the request is
  conditional although nothing of the page is in the index.
\<close>

theorem unindexed_page_stays_lost:
  assumes "stored_unindexed (pc_collection_id ctx) u e (cs_db st)"
    and "\<And>sent hs. (''if-none-match'', e) \<in> set hs \<Longrightarrow> \<exists>r. ce_net E sent (u, hs) = Some r \<and> rsp_status r = 304"
  shows "cs_jobs (recrawls E u ctx ts st) = cs_jobs st \<and>
    stored_unindexed (pc_collection_id ctx) u e (cs_db (recrawls E u ctx ts st))"
  using assms(1)
proof (induction ts arbitrary: st)
  case (Cons now ts)
  note one = crawl_unchanged [OF Cons.prems assms(2), where now = now]
  from Cons.IH [OF one(1)] one(2) show ?case by (simp add: recrawls_def)
qed (simp add: recrawls_def)

section \<open>An indexer that has stopped\<close>

lemma put_up [simp]:
  "sv_indexer_up (put_admin st sv) = sv_indexer_up sv" "sv_indexer_up (put_fed fed sv) = sv_indexer_up sv"
  "sv_indexer_up (put_ranking_rows rows sv) = sv_indexer_up sv" "sv_indexer_up (put_site s sv) = sv_indexer_up sv"
  "sv_indexer_up (put_sched sd sv) = sv_indexer_up sv"
  by (simp_all add: put_admin_def put_fed_def put_ranking_rows_def put_site_def put_sched_def)

lemma run_handler_up [simp]: "sv_indexer_up (fst (run_handler P C e p sv)) = sv_indexer_up sv"
proof -
  have "sv_indexer_up (fst (public_endpoint P C e p sv)) = sv_indexer_up sv"
    using public_endpoint_effect [of P C e p sv] by (elim disjE exE) simp_all
  moreover have "sv_indexer_up (fst (other_endpoint P C e sv)) = sv_indexer_up sv"
    by (cases e) (simp_all add: case_prod_unfold Let_def)
  ultimately show ?thesis by (simp add: run_handler_def case_prod_unfold Let_def split: option.split)
qed

definition stopped_at :: "index_writer \<Rightarrow> (string \<times> string \<times> string) set \<Rightarrow> ('r, 'x, 'j) server \<Rightarrow> bool" where
  "stopped_at w M sv \<longleftrightarrow> \<not> sv_indexer_up sv \<and> sv_writer sv = w \<and> marks (sb_content (sv_db sv)) \<subseteq> M"

lemma stopped_crawl:
  "stopped_at w M sv \<Longrightarrow> quiet (crawl_of sv) c \<Longrightarrow> stopped_at w M ((put_crawl c sv)\<lparr>sv_pages := gs\<rparr>)"
  by (simp add: stopped_at_def quiet_def)

lemma stopped_step:
  assumes "inside_step P sv sv'" and stopped: "stopped_at w M sv"
  shows "stopped_at w M sv'"
  using assms(1)
proof (cases rule: inside_stepE)
  case (PageOpened task u c r)
  then show ?thesis using stopped_crawl [OF stopped page_segment_quiet(1)] by blast
next
  case (PageFetched g c r)
  then show ?thesis using stopped_crawl [OF stopped page_segment_quiet(2)] by blast
next
  case (PageSent g f c r)
  then show ?thesis using stopped_crawl [OF stopped page_segment_quiet(3)] by blast
next
  case (PageSaved g f c r)
  then show ?thesis using stopped_crawl [OF stopped page_segment_quiet(4)] by blast
next
  case (Indexed p b)
  have "pipeline_step (pg_index_ok P) (ce_url (pg_page_env P)) (pipe_of sv) IndexerTurn = Some (p, b)"
    unfolding pipeline_step.simps Indexed(2) ..
  moreover have "\<not> pl_running (pipe_of sv)" using stopped by (simp add: stopped_at_def pipe_of_def)
  ultimately have "p = pipe_of sv" by simp
  then show ?thesis unfolding Indexed(1) using stopped by (simp add: stopped_at_def put_pipe_def pipe_of_def)
next
  case (CrawlDone task)
  then show ?thesis
    using stopped by (simp add: stopped_at_def put_sched_def set_last_crawled_def marks_def)
next
  case (PeerProbed probe now peer)
  have "stopped_at w M (put_fed fed sv)" for fed using stopped by (simp add: stopped_at_def) (simp add: put_fed_def)
  then show ?thesis unfolding PeerProbed by blast
qed (use stopped in \<open>simp_all add: stopped_at_def put_sched_def put_fed_def\<close>)

interpretation stopped: run_invariant P calls "stopped_at x M" for P calls x M
proof unfold_locales
  show "stopped_at x M (fst (run_handler P C e p sv))" if "stopped_at x M sv" for C e p sv
    using that handler_marks(1) [OF refl, where C = C and P = P and e = e and p = p and sv = sv]
    by (auto simp: stopped_at_def)
qed (rule stopped_step)

text \<open>C14: A journal update that fails ends indexing. When the timer commits a batch and the update of the journal after it
  fails, the documents are in the index, and from then on, whatever requests come and whatever the tasks do: the indexer
  does not run, nothing more is written to the index, no row of the batch or of any later page is marked, and every page
  with new content fails because the channel is closed, until the program is restarted.
\<close>

theorem journal_failure_stops_indexing:
  assumes "pipeline_step (pg_index_ok P) (ce_url (pg_page_env P)) (pipe_of sv) IndexerTurn = Some (p, b)"
    and "sv_indexer_up sv" and "sv_queue sv = []" and "sv_deletes sv = []" and "0 < sv_pending sv"
    and "iw_journal (sv_writer sv) \<noteq> []"
    and "or_op (pg_index_ok P) (iw_ops (sv_writer sv)) CommitOp"
    and "\<not> or_journal (pg_index_ok P) (iw_ops (sv_writer sv) @ [CommitOp])"
    and "server_run P calls (w\<lparr>ws_app := put_pipe p sv\<rparr>) as w'"
  shows "\<not> sv_indexer_up (ws_app w') \<and> iw_ops (sv_writer (ws_app w')) = iw_ops (sv_writer sv) @ [CommitOp] \<and>
    marks (sb_content (sv_db (ws_app w'))) \<subseteq> marks (sb_content (sv_db sv)) \<and>
    isl (snd (page_send E ctx u now f (crawl_of (ws_app w'))))"
proof -
  let ?w = "\<lparr>iw_ops = iw_ops (sv_writer sv) @ [CommitOp], iw_journal = []\<rparr>"
  have "stopped_at ?w (marks (sb_content (sv_db sv))) (put_pipe p sv)"
    using assms(1-8)
    by (auto simp: stopped_at_def pipe_of_def next_event_def flush_def writer_commit_def put_pipe_def Let_def)
  from stopped.run [OF assms(9)] this have "stopped_at ?w (marks (sb_content (sv_db sv))) (ws_app w')" by simp
  then show ?thesis by (simp add: stopped_at_def page_send_def crawl_of_def)
qed

section \<open>Examples\<close>

text \<open>A server that answers 304 to its entity tag; the page is fetched, stored and sent, and the queue is lost.\<close>

definition tagged_env :: "(unit, outlink_example list) page_env" where
  "tagged_env = plain_env\<lparr>ce_net := (\<lambda>_ rq. Some \<lparr>rsp_status = (if (''if-none-match'', ''e'') \<in> set (snd rq) then 304 else 200),
     rsp_headers = [(''content-type'', ''text/html''), (''etag'', ''e'')], rsp_url = fst rq, rsp_body = Some ''x''\<rparr>)\<rparr>"

definition lost_state :: "(unit, outlink_example list) crawl_state" where
  "lost_state = (fst (crawl_page tagged_env ''/'' plain_context 5 plain_state))\<lparr>cs_jobs := []\<rparr>"

lemma tagged_env_simps [simp]:
  "ce_url tagged_env = plain_lib" "ce_html tagged_env = (\<lambda>_. sample_page)" "ce_sha256 tagged_env = (\<lambda>s. s)"
  "ce_web tagged_env = ce_web sample_env_crawl" "ce_agent tagged_env = ''bot''" "pe_gap tagged_env n = 0"
  by (simp_all add: tagged_env_def plain_env_def sample_env_crawl_def crawl_env.defs page_env.defs)

lemma lost_state_row: "pages (cs_db lost_state) = [plain_row (Some ''e'')]"
proof -
  obtain rs where al: "allowed (crawl_env.truncate tagged_env) ''/'' (cs_robots plain_state) = (rs, Inr True)"
    by (simp add: allowed_def is_allowed_def ensure_cached_def origin_of_def plain_lib_def no_robots_def
        tagged_env_def plain_env_def sample_env_crawl_def plain_state_def crawl_env.defs page_env.defs
        http_send_def cached_rules_def split: option.split)
  have "str_contains (to_ascii_lowercase ''text/html'') ''html''" by code_simp
  then obtain st2 where ft: "fetch_page tagged_env ''/'' None (plain_state\<lparr>cs_robots := rs\<rparr>) =
      (st2, Inr (Fresh 200 ''x'' (Some ''e'') None ''/''))"
    by (simp add: fetch_page_def fetch_def request_headers_def conditional_request_def sample_env_crawl_def tagged_env_def
        http_send_def classify_response_def success_status_def plain_env_def crawl_env.defs page_env.defs Let_def)
  have job: "plain_job = page_job tagged_env plain_context ''/'' 5 ''x'' ''/''"
    unfolding plain_job_def page_job_def index_target_def redirect_target_def canonical_target_def tagged_env_simps
      plain_env_simps ..
  have "pages (cs_db lost_state) = pages (cs_db (fst (crawl_page tagged_env ''/'' plain_context 5 plain_state)))"
    by (simp add: lost_state_def)
  then show ?thesis
    using first_crawl(2) [OF al plain_new(1,2) ft job] plain_upsert [of "Some ''e''"] by (simp add: plain_new)
qed

theorem unindexed_page_stays_lost_witness:
  "cs_jobs (recrawls tagged_env ''/'' plain_context [6, 7, 8] lost_state) = []"
proof -
  have "stored_unindexed (pc_collection_id plain_context) ''/'' ''e'' (cs_db lost_state)"
    by (simp add: stored_unindexed_def page_get_by_url_def find_by_def plain_context_def lost_state_row plain_row_def
        page_key_def)
  from unindexed_page_stays_lost [OF this, of tagged_env "[6, 7, 8]"] show ?thesis
    by (simp add: tagged_env_def lost_state_def)
qed

definition failing_program :: "(unit, outlink_example list, nat, nat) program" where
  "failing_program = plain_program\<lparr>pg_index_ok := \<lparr>or_op = \<lambda>_ _. True, or_journal = \<lambda>_. False\<rparr>\<rparr>"

theorem journal_failure_stops_indexing_witness:
  "\<exists>p b. pipeline_step (pg_index_ok failing_program) plain_lib
      (pipe_of (plain_server\<lparr>sv_writer := \<lparr>iw_ops = [], iw_journal = [journal_entry plain_job]\<rparr>, sv_pending := 1\<rparr>)) IndexerTurn =
        Some (p, b) \<and>
     \<not> sv_indexer_up (put_pipe p (plain_server\<lparr>sv_writer := \<lparr>iw_ops = [], iw_journal = [journal_entry plain_job]\<rparr>, sv_pending := 1\<rparr>))"
proof -
  let ?sv = "plain_server\<lparr>sv_writer := \<lparr>iw_ops = [], iw_journal = [journal_entry plain_job]\<rparr>, sv_pending := 1\<rparr>"
  have env: "ce_url (pg_page_env failing_program) = plain_lib" by (simp add: failing_program_def plain_program_parts)
  obtain p b where step: "pipeline_step (pg_index_ok failing_program) (ce_url (pg_page_env failing_program)) (pipe_of ?sv)
      IndexerTurn = Some (p, b)" using pipeline_turn_total by (metis option.exhaust surj_pair)
  have pre: "sv_indexer_up ?sv" "sv_queue ?sv = []" "sv_deletes ?sv = []" "0 < sv_pending ?sv"
    "iw_journal (sv_writer ?sv) \<noteq> []" "or_op (pg_index_ok failing_program) (iw_ops (sv_writer ?sv)) CommitOp"
    "\<not> or_journal (pg_index_ok failing_program) (iw_ops (sv_writer ?sv) @ [CommitOp])"
    by (simp_all add: plain_server_def failing_program_def)
  have "server_run failing_program any_call (plain_web\<lparr>ws_app := put_pipe p ?sv\<rparr>) [] (plain_web\<lparr>ws_app := put_pipe p ?sv\<rparr>)"
    by (rule server_run.Here)
  note failed = journal_failure_stops_indexing [OF step pre this]
  have "\<not> sv_indexer_up (put_pipe p ?sv)" using conjunct1 [OF failed] by simp
  then show ?thesis using step env by (intro exI [where x = p] exI [where x = b]) simp
qed

end
