(* ===== verification/Spec2Isabelle.thy ===== *)
theory Spec2Isabelle
  imports Protocol Auth Rate_Limit Settings Config Url_Class Outlinks Peers Gossip Ranking_Config
    Admin_Content Admin_Peers Interfaces Search Fanout Public Mcp Fetch Parser Indexer Sitemap Page
    Driver Scheduler Export_Import Export_Roundtrip Routing Startup
    Index_Open Pages Page_Steps Server Server_Run Server_Safety Server_Crawl Server_Index
    Journal Server_Crash Server_Loss
begin

text \<open>
  A model of the program community-search (\<open>src/src\<close>), a self-hosted search engine for small collections of
  web sites that asks the engines of its peers as well.

  \<^bold>\<open>The program.\<close> \<open>main.rs\<close> reads the configuration, opens the tables and the search index and starts four things that run
  side by side: the HTTP server, the crawl scheduler on a thread of its own, the indexer task, and the periodic tasks of
  the federation (health checks and gossip). The scheduler starts one crawl per due target; a crawl fetches pages
  politely and sends documents over a channel to the indexer, which writes them to the index and marks the pages when they are
  committed. A search reads the index, ranks, and fans out to the peers of the collection; what the peers answer is
  also what switches them off and on. The admin API edits the tables, the settings and the switch of the crawler, and
  exports and imports an instance. All of them meet in the tables (a SQLite file behind a mutex), in two channels, and
  in a few shared variables.

  \<^bold>\<open>How the model is built.\<close> Each function of the code is a definition with the name of the function (suffixed where HOL
  has the name), each struct a record, each enum a datatype. A fallible function answers with a sum (\<open>Inl\<close> the error), a
  panic is \<open>None\<close>. A table is the list of its rows in the order of the row ids, and a statement is a function on it with
  the UNIQUE, FOREIGN KEY and CASCADE clauses of the migrations written out. A string is the list of its bytes. Counters
  are kept at the width of the code where they can overflow (the limiter's doubled cap, \<open>i64\<close> subtraction of times,
  \<open>u64\<close> sums, \<open>u32\<close> reads); \<open>f32\<close> and \<open>f64\<close> are rationals rounded to nearest even with infinities and NaN. What a library
  or another machine does is an argument: the web, the URL parser, the HTML and XML parsers, JSON and gzip, Tantivy, the
  clock, fresh ids. A theorem that relies on a law of a library has it as a named hypothesis.

  \<^bold>\<open>The theories.\<close>

  \<^item> \<open>Prelude\<close>, \<open>Rust_Text\<close>, \<open>Floats\<close>: errors of SQL and HTTP, lists as tables, \<open>str\<close> and number formatting, floats.
    \<open>Interfaces\<close> holds the contracts as locales - a store with keys (\<open>keyed_store\<close>, \<open>removable_store\<close>) and a machine with an
    invariant (\<open>state_machine\<close>, \<open>bucketed_machine\<close>) - which the components below interpret on their own definitions.
  \<^item> \<open>Protocol\<close>, \<open>Auth\<close>, \<open>Rate_Limit\<close>, \<open>Routing\<close>: \<open>protocol.rs\<close>, \<open>middleware/peer_version.rs\<close>, \<open>api/auth.rs\<close>,
    \<open>api/auth_attempts.rs\<close>, \<open>api/rate_limit.rs\<close>, \<open>api/router.rs\<close>, \<open>api/admin/mod.rs\<close>: who gets through to which handler. Bounds on
    guesses and on requests over any run; no admin route without the token.
  \<^item> \<open>Config\<close>, \<open>Settings\<close>, \<open>Startup\<close>, \<open>Index_Open\<close>: \<open>config.rs\<close>, \<open>db/settings.rs\<close>, \<open>auth/token.rs\<close>, \<open>api/admin/config.rs\<close>,
    \<open>db/mod.rs\<close> with the migrations, \<open>bin/recanonicalize_targets.rs\<close>, \<open>index/schema.rs\<close>, \<open>index/mod.rs\<close>: what a start reads,
    and that a restart keeps the settings.
  \<^item> \<open>Tables\<close>, \<open>Outlinks\<close>, \<open>Admin_Content\<close>: the content tables (\<open>db/*.rs\<close>) and the handlers over them (\<open>api/admin/collections.rs\<close>,
    \<open>crawl_targets.rs\<close>, \<open>outlinks.rs\<close>, \<open>status.rs\<close>, \<open>crawl_control.rs\<close>). The schema's constraints as an invariant of every
    statement; adding, promoting and removing are all or nothing.
  \<^item> \<open>Peers\<close>, \<open>Gossip\<close>, \<open>Admin_Peers\<close>: \<open>federation/storage.rs\<close>, \<open>health.rs\<close>, \<open>discovered.rs\<close>, \<open>gossip.rs\<close>, \<open>api/gossip.rs\<close> and
    the handlers over them. When a peer is switched off; what a gossip message can change.
  \<^item> \<open>Url_Class\<close>, \<open>Fetch\<close>, \<open>Parser\<close>, \<open>Sitemap\<close>, \<open>Page\<close>, \<open>Driver\<close>, \<open>Scheduler\<close>: \<open>crawler/*.rs\<close> from the bottom up, each using the one before.
    Normal forms of URLs, robots.txt obeyed and fetched once, the bounds, the waits and the completeness of a crawl,
    one task per target. \<open>Page_Steps\<close> has \<open>crawl_page\<close> again as the segments between its waits, proved equal to it.
  \<^item> \<open>Indexer\<close>: \<open>index/writer.rs\<close>, \<open>index/indexer.rs\<close>, \<open>index/size.rs\<close>. The index as the log of its operations; what a search
    can see refines the abstract index that holds the last version of every page.
  \<^item> \<open>Search\<close>, \<open>Ranking_Config\<close>, \<open>Fanout\<close>, \<open>Public\<close>, \<open>Mcp\<close>, \<open>Pages\<close>: \<open>search/*.rs\<close>, \<open>index/reader.rs\<close>, \<open>db/ranking_config.rs\<close>,
    \<open>api/admin/ranking.rs\<close>, \<open>federation/fanout.rs\<close>, \<open>federation/peer.rs\<close>, \<open>api/sse.rs\<close>, \<open>api/public.rs\<close>, \<open>api/mcp.rs\<close>, \<open>api/ui.rs\<close>: the
    searches, local and federated. The best results in order, nothing lost in the merge, no endless relaying, the
    stream one engine writes is what another reads.
  \<^item> \<open>Export_Import\<close>, \<open>Export_Roundtrip\<close>: \<open>api/admin/export_import.rs\<close>. An import adds and is all or nothing; exporting an
    imported dump gives the dump.
  \<^item> \<open>Server\<close>, \<open>Server_Run\<close>, \<open>Server_Safety\<close>, \<open>Server_Crawl\<close>, \<open>Server_Index\<close>: the whole. \<open>server\<close> is \<open>AppState\<close> with what is behind it;
    every component acts on its view (\<open>admin_of\<close>, \<open>crawl_of\<close>, \<open>pipe_of\<close>, ...). \<open>run_handler\<close> answers any request that
    \<open>Routing\<close> lets through, \<open>inside_step\<close> is what the tasks do, \<open>server_run\<close> any interleaving of the two from
    \<open>start_server\<close>. The locales \<open>run_invariant\<close> and \<open>public_invariant\<close> are the contracts of what every run, or every run
    without the token, keeps. The invariants of the components hold together on every run; nothing of the admin changes without the
    token; the count of pending documents is right and falls to zero; a target an admin adds is crawled; the run of a
    crawl is made of the steps of the server; the index never holds a URL twice, and nothing that is not under a target.
  \<^item> \<open>Journal\<close>, \<open>Server_Crash\<close>, \<open>Server_Loss\<close>: the lives of an instance over crashes. \<open>crash\<close> is what one leaves on the disk -
    the index up to its last commit, the tables as they are, before the update of the journal, in the middle of a step or
    after a power failure -, \<open>history\<close> any number of lives from the installation on. A page marked as indexed has been
    committed; a page whose content was lost is sent again when it is fetched again; it is not while the server
    answers 304; and an update of the journal that fails stops the indexer for the rest of the life.

  \<^bold>\<open>What is one step.\<close> A request, a tick, one turn of the indexer, one probe, one exchange of gossip, and a segment of a page
  of a crawl: the answer of robots.txt, fetched if it is not known, with the row read before the request
  (\<open>PageOpened\<close>), what follows the response until
  the job waits for room in the channel (\<open>PageFetched\<close>), the send (\<open>PageSent\<close>), and the rows written under one lock
  (\<open>PageSaved\<close>). Between two segments any other step may come, also of another page. Where the code lets go of a lock in
  the middle of one of the other steps, the model has what it read before as an argument: the list of
  engines before a gossip exchange, the tables between two probes (\<open>health_check_tick\<close>), the shared state between two
  pages (\<open>interference\<close>), the order and the number of the peers' answers within the time budget, the late answers
  of peers (\<open>PeerAnswered\<close>).

  \<^bold>\<open>Loops.\<close> Structural recursion except for: \<open>drive_loop\<close> (pages left, then the queue, then the retries left), \<open>dir_size_loop\<close> (the weight of the
  directories on the stack), \<open>strip_front\<close> and \<open>rewrite_loop\<close> (the text left), \<open>ilog2\<close>, each with its measure; and the
  highlighting loop \<open>wrap_loop\<close>, a partial function, since its end depends on the lower-casing of the library. No fuel is
  used. The number 10000 of sitemap URLs, the capacity and batch size of the indexer, five failures, fifteen minutes and the
  like are those of the code.

  \<^bold>\<open>Not modelled.\<close> Failures of opening files, sockets and HTTP clients, and of single SQL statements other than by a constraint
  or in the update of the journal; SQLite's locks; a damaged or deleted index directory; two crawls that fetch the robots.txt of one site at once; a panic while the
  crawler's own connection is locked (which would poison it); the capacity of a full channel, since a job
  that waits for room (\<open>waiting\<close>) may be sent at any later moment; timers, threads and the tokio runtime; time spent and
  log lines; the limit of the import's body and the extractors of axum, whose refusal is an argument; the contents of the UI; the rows of \<open>db/models.rs\<close> that
  nothing uses; the test support. Memory and the size of texts are unbounded.
\<close>

end
